(* ===== verification/Prelude.thy ===== *)
theory Prelude
  imports Main "HOL-Library.Word" "HOL-Library.Char_ord" "HOL-Library.List_Lexorder"
begin

unbundle bit_operations_syntax

section \<open>Prelude: machine types, byte strings and results\<close>

text \<open>
  What every component shares. Rust's fixed-width integers are words: the unsigned and the
  signed type of one width are the same word type, read by \<open>unat\<close> or by \<open>sint\<close>;
  \<open>usize\<close> is \<open>nat\<close> (a 64-bit target addresses more than any buffer of the program
  can hold). A Rust \<open>Result\<close> is a sum with the error on the left. A Rust \<open>String\<close> is
  the list of its UTF-8 bytes, written as an Isabelle \<open>string\<close>; its \<open>len\<close> and its
  order are those of the byte list, as in Rust. The theory holds the little-endian codec
  used by the instruction stream, the \<open>spbc\<close> container, the data segments and the
  retain files, the saturating operations of the standard library, \<open>copy_from_slice\<close>,
  \<open>slice::binary_search_by\<close> and \<open>str::from_utf8\<close>.
\<close>

subsection \<open>Machine integers\<close>

type_synonym u8 = "8 word"
type_synonym u16 = "16 word"
type_synonym u32 = "32 word"
type_synonym u64 = "64 word"
type_synonym i16 = "16 word"
type_synonym i32 = "32 word"
type_synonym i64 = "64 word"
type_synonym bytes = "8 word list"

text \<open>\<open>saturating_add\<close> and \<open>saturating_sub\<close> on an unsigned type, \<open>saturating_mul\<close> likewise.\<close>

definition sat_add :: "'a::len word \<Rightarrow> 'a word \<Rightarrow> 'a word" where
  "sat_add a b = (if unat a + unat b < 2 ^ LENGTH('a) then a + b else - 1)"

definition sat_sub :: "'a::len word \<Rightarrow> 'a word \<Rightarrow> 'a word" where
  "sat_sub a b = (if b \<le> a then a - b else 0)"

definition sat_mul :: "'a::len word \<Rightarrow> 'a word \<Rightarrow> 'a word" where
  "sat_mul a b = (if unat a * unat b < 2 ^ LENGTH('a) then a * b else - 1)"

text \<open>The largest and smallest value of a signed type.\<close>

definition smax :: "'a::len word" where
  "smax = word_of_int (2 ^ (LENGTH('a) - 1) - 1)"

definition smin :: "'a::len word" where
  "smin = word_of_int (- (2 ^ (LENGTH('a) - 1)))"

text \<open>Signed \<open>saturating_add(1)\<close> and \<open>saturating_sub(1)\<close>, the only signed saturating calls.\<close>

definition ssat_inc :: "'a::len word \<Rightarrow> 'a word" where
  "ssat_inc a = (if a = smax then smax else a + 1)"

definition ssat_dec :: "'a::len word \<Rightarrow> 'a word" where
  "ssat_dec a = (if a = smin then smin else a - 1)"

definition smax_of :: "'a::len word \<Rightarrow> 'a word \<Rightarrow> 'a word" where
  "smax_of a b = (if sint a < sint b then b else a)"

definition smin_of :: "'a::len word \<Rightarrow> 'a word \<Rightarrow> 'a word" where
  "smin_of a b = (if sint b < sint a then b else a)"

subsection \<open>Results and bounds-checked access\<close>

definition rbind :: "'e + 'a \<Rightarrow> ('a \<Rightarrow> 'e + 'b) \<Rightarrow> 'e + 'b" where
  "rbind m f = (case m of Inl e \<Rightarrow> Inl e | Inr x \<Rightarrow> f x)"

definition nth_opt :: "'a list \<Rightarrow> nat \<Rightarrow> 'a option" where
  "nth_opt xs i = (if i < length xs then Some (xs ! i) else None)"

definition ok_or :: "'a option \<Rightarrow> 'e \<Rightarrow> 'e + 'a" where
  "ok_or m e = (case m of None \<Rightarrow> Inl e | Some x \<Rightarrow> Inr x)"

text \<open>\<open>&xs[a..b]\<close> and \<open>xs[off..off + ys.len()].copy_from_slice(ys)\<close>; both are used only
  after the bounds have been checked.\<close>

definition slice :: "nat \<Rightarrow> nat \<Rightarrow> 'a list \<Rightarrow> 'a list" where
  "slice a b xs = take (b - a) (drop a xs)"

definition blit :: "'a list \<Rightarrow> nat \<Rightarrow> 'a list \<Rightarrow> 'a list" where
  "blit xs off ys = take off xs @ ys @ drop (off + length ys) xs"

subsection \<open>Little-endian bytes\<close>

fun le_bytes :: "nat \<Rightarrow> 'a::len word \<Rightarrow> bytes" where
  "le_bytes 0 w = []"
| "le_bytes (Suc n) w = ucast w # le_bytes n (drop_bit 8 w)"

fun of_le_bytes :: "bytes \<Rightarrow> 'a::len word" where
  "of_le_bytes [] = 0"
| "of_le_bytes (b # bs) = ucast b OR push_bit 8 (of_le_bytes bs)"

subsection \<open>Strings as UTF-8 bytes\<close>

definition str_bytes :: "string \<Rightarrow> bytes" where
  "str_bytes s = map (\<lambda>c. word_of_nat (of_char c)) s"

definition bytes_str :: "bytes \<Rightarrow> string" where
  "bytes_str bs = map (\<lambda>b. char_of (unat b)) bs"

text \<open>\<open>core::str::from_utf8\<close> accepts exactly the well-formed sequences of the Unicode standard:
  no overlong forms, no surrogates, nothing above U+10FFFF.\<close>

definition utf8_cont :: "u8 \<Rightarrow> bool" where
  "utf8_cont b \<longleftrightarrow> 0x80 \<le> b \<and> b \<le> 0xBF"

fun utf8_valid :: "bytes \<Rightarrow> bool" where
  "utf8_valid [] = True"
| "utf8_valid (a # r) =
     (if a \<le> 0x7F then utf8_valid r
      else if 0xC2 \<le> a \<and> a \<le> 0xDF then
        (case r of b # r' \<Rightarrow> utf8_cont b \<and> utf8_valid r' | _ \<Rightarrow> False)
      else if 0xE0 \<le> a \<and> a \<le> 0xEF then
        (case r of b # c # r' \<Rightarrow>
           utf8_cont b \<and> utf8_cont c
           \<and> (a = 0xE0 \<longrightarrow> 0xA0 \<le> b) \<and> (a = 0xED \<longrightarrow> b \<le> 0x9F) \<and> utf8_valid r'
         | _ \<Rightarrow> False)
      else if 0xF0 \<le> a \<and> a \<le> 0xF4 then
        (case r of b # c # d # r' \<Rightarrow>
           utf8_cont b \<and> utf8_cont c \<and> utf8_cont d
           \<and> (a = 0xF0 \<longrightarrow> 0x90 \<le> b) \<and> (a = 0xF4 \<longrightarrow> b \<le> 0x8F) \<and> utf8_valid r'
         | _ \<Rightarrow> False)
      else False)"

text \<open>\<open>u8::is_ascii_lowercase\<close>, \<open>to_ascii_uppercase\<close>, \<open>eq_ignore_ascii_case\<close>.\<close>

definition ascii_upper :: "char \<Rightarrow> char" where
  "ascii_upper c = (let n = of_char c :: nat in if 97 \<le> n \<and> n \<le> 122 then char_of (n - 32) else c)"

definition to_ascii_uppercase :: "string \<Rightarrow> string" where
  "to_ascii_uppercase s = map ascii_upper s"

definition eq_ignore_ascii_case :: "string \<Rightarrow> string \<Rightarrow> bool" where
  "eq_ignore_ascii_case s t \<longleftrightarrow> to_ascii_uppercase s = to_ascii_uppercase t"

text \<open>\<open>s.trim().is_empty()\<close>: every character of the UTF-8 text is Unicode white space.\<close>

fun blank_bytes :: "bytes \<Rightarrow> bool" where
  "blank_bytes [] = True"
| "blank_bytes (a # r) =
     (if a = 0x20 \<or> (0x09 \<le> a \<and> a \<le> 0x0D) then blank_bytes r
      else if a = 0xC2 then
        (case r of b # r' \<Rightarrow> (b = 0x85 \<or> b = 0xA0) \<and> blank_bytes r' | _ \<Rightarrow> False)
      else if a = 0xE1 then
        (case r of b # c # r' \<Rightarrow> b = 0x9A \<and> c = 0x80 \<and> blank_bytes r' | _ \<Rightarrow> False)
      else if a = 0xE2 then
        (case r of b # c # r' \<Rightarrow>
           ((b = 0x80 \<and> (c \<le> 0x8A \<or> c = 0xA8 \<or> c = 0xA9 \<or> c = 0xAF)) \<or> (b = 0x81 \<and> c = 0x9F))
           \<and> blank_bytes r'
         | _ \<Rightarrow> False)
      else if a = 0xE3 then
        (case r of b # c # r' \<Rightarrow> b = 0x80 \<and> c = 0x80 \<and> blank_bytes r' | _ \<Rightarrow> False)
      else False)"

definition str_blank :: "string \<Rightarrow> bool" where
  "str_blank s = blank_bytes (str_bytes s)"

subsection \<open>Binary search\<close>

text \<open>
  The loop of \<open>slice::binary_search_by\<close>: \<open>base\<close> moves to the middle unless the middle
  compares greater, and the size halves; the last candidate is compared for equality.
\<close>

function bsearch_base :: "'k::linorder list \<Rightarrow> 'k \<Rightarrow> nat \<Rightarrow> nat \<Rightarrow> nat" where
  "bsearch_base ks k base sz =
     (if sz \<le> 1 then base
      else let half = sz div 2; mid = base + half
           in bsearch_base ks k (if k < ks ! mid then base else mid) (sz - half))"
  by pat_completeness auto
termination
  by (relation "measure (\<lambda>(ks, k, base, sz). sz)") auto

declare bsearch_base.simps [simp del]

definition binary_search :: "'k::linorder list \<Rightarrow> 'k \<Rightarrow> nat option" where
  "binary_search ks k =
     (if ks = [] then None
      else let i = bsearch_base ks k 0 (length ks)
           in if ks ! i = k then Some i else None)"

subsection \<open>Collections and shared lemmas\<close>

named_theorems result_simps \<open>unfolding of the result and option helpers\<close>

declare rbind_def [result_simps] ok_or_def [result_simps] nth_opt_def [result_simps]

lemma rbind_Inl [simp]: "rbind (Inl e) f = Inl e"
  by (simp add: rbind_def)

lemma rbind_Inr [simp]: "rbind (Inr x) f = f x"
  by (simp add: rbind_def)

lemma rbind_eq_Inr: "rbind m f = Inr y \<longleftrightarrow> (\<exists>x. m = Inr x \<and> f x = Inr y)"
  by (cases m) simp_all

lemma rbind_eq_Inl: "rbind m f = Inl e \<longleftrightarrow> m = Inl e \<or> (\<exists>x. m = Inr x \<and> f x = Inl e)"
  by (cases m) simp_all

lemma ok_or_Some [simp]: "ok_or (Some x) e = Inr x"
  by (simp add: ok_or_def)

lemma ok_or_None [simp]: "ok_or None e = Inl e"
  by (simp add: ok_or_def)

lemma ok_or_eq_Inr: "ok_or m e = Inr x \<longleftrightarrow> m = Some x"
  by (cases m) simp_all

lemma ok_or_eq_Inl: "ok_or m e = Inl e' \<longleftrightarrow> m = None \<and> e' = e"
  by (cases m) auto

lemma nth_opt_eq_Some: "nth_opt xs i = Some x \<longleftrightarrow> i < length xs \<and> xs ! i = x"
  by (auto simp: nth_opt_def)

lemma nth_opt_eq_None: "nth_opt xs i = None \<longleftrightarrow> length xs \<le> i"
  by (auto simp: nth_opt_def)

lemma nth_opt_less [simp]: "i < length xs \<Longrightarrow> nth_opt xs i = Some (xs ! i)"
  by (simp add: nth_opt_def)

lemma length_slice [simp]: "b \<le> length xs \<Longrightarrow> length (slice a b xs) = b - a"
  by (simp add: slice_def)

lemma length_blit [simp]: "off + length ys \<le> length xs \<Longrightarrow> length (blit xs off ys) = length xs"
  by (simp add: blit_def)

lemma slice_blit_same: "off + length ys \<le> length xs \<Longrightarrow> slice off (off + length ys) (blit xs off ys) = ys"
  by (simp add: slice_def blit_def)

lemma nth_blit:
  "off + length ys \<le> length xs \<Longrightarrow> i < length xs \<Longrightarrow>
   blit xs off ys ! i = (if off \<le> i \<and> i < off + length ys then ys ! (i - off) else xs ! i)"
  by (auto simp: blit_def nth_append min_def)

lemma nth_slice: "i < b - a \<Longrightarrow> b \<le> length xs \<Longrightarrow> slice a b xs ! i = xs ! (a + i)"
  by (simp add: slice_def)

lemma slice_blit_disjoint:
  assumes "off + length ys \<le> length xs" "b \<le> length xs" "b \<le> off \<or> off + length ys \<le> a"
  shows "slice a b (blit xs off ys) = slice a b xs"
  by (rule nth_equalityI) (use assms in \<open>auto simp: nth_slice nth_blit\<close>)

lemma slice_append_left: "b \<le> length xs \<Longrightarrow> slice a b (xs @ ys) = slice a b xs"
  by (simp add: slice_def)

lemma slice_append_right: "length xs \<le> a \<Longrightarrow> slice a b (xs @ ys) = slice (a - length xs) (b - length xs) ys"
  by (simp add: slice_def)

lemma slice_0: "slice 0 b xs = take b xs"
  by (simp add: slice_def)

lemma length_le_bytes [simp]: "length (le_bytes n w) = n"
  by (induction n arbitrary: w) simp_all

text \<open>The codec is a bijection between words and byte lists of the word's width.\<close>

lemma bit_of_le_bytes:
  "bit (of_le_bytes bs :: 'a::len word) i \<longleftrightarrow>
     i < LENGTH('a) \<and> i div 8 < length bs \<and> bit (bs ! (i div 8)) (i mod 8)"
proof (induction bs arbitrary: i)
  case Nil
  then show ?case by simp
next
  case (Cons b bs)
  show ?case
  proof (cases "i < 8")
    case True
    then show ?thesis by (auto simp: bit_simps)
  next
    case False
    then obtain j where j: "i = 8 + j" by (metis le_add_diff_inverse not_less)
    have "\<not> bit b i" using False by (auto dest: bit_imp_le_length)
    moreover have "(8 + j) div 8 = Suc (j div 8)" by simp
    ultimately show ?thesis using j Cons.IH [of j]
      by (auto simp: bit_simps)
  qed
qed

lemma bit_le_bytes:
  "k < n \<Longrightarrow> bit (le_bytes n (w :: 'a::len word) ! k) i \<longleftrightarrow> i < 8 \<and> bit w (8 * k + i)"
proof (induction n arbitrary: w k)
  case 0
  then show ?case by simp
next
  case (Suc n)
  then show ?case
    by (cases k) (auto simp: bit_simps algebra_simps)
qed

lemma of_le_bytes_le_bytes:
  assumes "LENGTH('a) \<le> 8 * n"
  shows "of_le_bytes (le_bytes n w) = (w :: 'a::len word)"
proof (rule bit_word_eqI)
  fix i assume i: "i < LENGTH('a)"
  then have "i div 8 < n" using assms by (metis less_le_trans less_mult_imp_div_less mult.commute)
  then show "bit (of_le_bytes (le_bytes n w) :: 'a word) i \<longleftrightarrow> bit w i"
    using i by (simp add: bit_of_le_bytes bit_le_bytes)
qed

lemma le_bytes_of_le_bytes:
  assumes "8 * length bs \<le> LENGTH('a)"
  shows "le_bytes (length bs) (of_le_bytes bs :: 'a::len word) = bs"
proof (rule nth_equalityI)
  fix k assume "k < length (le_bytes (length bs) (of_le_bytes bs :: 'a word))"
  then have k: "k < length bs" by simp
  show "le_bytes (length bs) (of_le_bytes bs :: 'a word) ! k = bs ! k"
  proof (rule bit_word_eqI)
    fix i assume i: "i < LENGTH(8)"
    then have "8 * k + i < LENGTH('a)" using k assms by simp
    moreover have "(8 * k + i) div 8 = k" "(8 * k + i) mod 8 = i" using i by simp_all
    ultimately show "bit (le_bytes (length bs) (of_le_bytes bs :: 'a word) ! k) i \<longleftrightarrow> bit (bs ! k) i"
      using i k by (simp add: bit_of_le_bytes bit_le_bytes)
  qed
qed simp

lemma le_u16 [simp]: "of_le_bytes (le_bytes 2 (w :: u16)) = w"
  and le_u32 [simp]: "of_le_bytes (le_bytes 4 (v :: u32)) = v"
  and le_u64 [simp]: "of_le_bytes (le_bytes 8 (u :: u64)) = u"
  by (simp_all add: of_le_bytes_le_bytes)

lemma unat_bound: "unat (w :: 'a::len word) < 2 ^ LENGTH('a)"
  by (rule unsigned_less)

lemma unat_minus_1_word: "unat (- 1 :: 'a::len word) = 2 ^ LENGTH('a) - 1"
  by (simp add: unsigned_minus_1_eq_mask mask_eq_exp_minus_1)

lemma length_str_bytes [simp]: "length (str_bytes s) = length s"
  by (simp add: str_bytes_def)

lemma length_bytes_str [simp]: "length (bytes_str bs) = length bs"
  by (simp add: bytes_str_def)

lemma bytes_str_str_bytes [simp]: "bytes_str (str_bytes s) = s"
  by (simp add: bytes_str_def str_bytes_def o_def unat_of_nat)

lemma str_bytes_bytes_str [simp]: "str_bytes (bytes_str bs) = bs"
proof -
  have "unat b mod 256 = unat b" for b :: u8
    using unat_bound [of b] by simp
  then show ?thesis by (simp add: bytes_str_def str_bytes_def o_def)
qed

subsection \<open>Saturating arithmetic\<close>

lemma min_pred: "min x (p - 1) = (if x < p then x else p - 1)" for x p :: nat
  by auto

text \<open>Evaluation goes through the binary integers.\<close>

lemma sat_add_code [code]: "sat_add a (b :: 'a::len word) = (if uint a + uint b < 2 ^ LENGTH('a) then a + b else - 1)"
proof -
  have "int (unat a + unat b) < int (2 ^ LENGTH('a)) \<longleftrightarrow> unat a + unat b < 2 ^ LENGTH('a)" by (simp only: of_nat_less_iff)
  then show ?thesis by (simp add: sat_add_def)
qed

lemma sat_mul_code [code]: "sat_mul a (b :: 'a::len word) = (if uint a * uint b < 2 ^ LENGTH('a) then a * b else - 1)"
proof -
  have "int (unat a * unat b) < int (2 ^ LENGTH('a)) \<longleftrightarrow> unat a * unat b < 2 ^ LENGTH('a)" by (simp only: of_nat_less_iff)
  then show ?thesis by (simp add: sat_mul_def)
qed

lemma unat_sat_add: "unat (sat_add a b :: 'a::len word) = min (unat a + unat b) (2 ^ LENGTH('a) - 1)"
  by (cases "unat a + unat b < 2 ^ LENGTH('a)")
    (simp_all only: sat_add_def unat_word_ariths unat_minus_1_word min_pred if_True if_False mod_less)

lemma unat_sat_sub: "unat (sat_sub a b) = unat a - unat b"
  by (auto simp: sat_sub_def unat_sub word_le_nat_alt)

lemma unat_sat_mul: "unat (sat_mul a b :: 'a::len word) = min (unat a * unat b) (2 ^ LENGTH('a) - 1)"
  by (cases "unat a * unat b < 2 ^ LENGTH('a)")
    (simp_all only: sat_mul_def unat_word_ariths unat_minus_1_word min_pred if_True if_False mod_less)

lemma sint_smax_of: "sint (smax_of a b) = max (sint a) (sint b)"
  by (simp add: smax_of_def max_def)

lemma sint_smin_of: "sint (smin_of a b) = min (sint a) (sint b)"
  by (simp add: smin_of_def min_def)

subsection \<open>Binary search finds a key of a sorted list\<close>

lemma bsearch_base_inv:
  assumes "sorted ks" "0 < sz" "base + sz \<le> length ks" "base = 0 \<or> ks ! base \<le> k"
    "\<forall>j. base + sz \<le> j \<and> j < length ks \<longrightarrow> k < ks ! j"
  shows "let i = bsearch_base ks k base sz in
    i < length ks \<and> (i = 0 \<or> ks ! i \<le> k) \<and> (\<forall>j. i < j \<and> j < length ks \<longrightarrow> k < ks ! j)"
  using assms
proof (induction ks k base sz rule: bsearch_base.induct)
  case (1 ks k base sz)
  show ?case
  proof (cases "sz \<le> 1")
    case True
    then have "bsearch_base ks k base sz = base" by (simp add: bsearch_base.simps)
    moreover have "sz = 1" using True "1.prems"(2) by simp
    ultimately show ?thesis using "1.prems" by (auto simp: Let_def)
  next
    case False
    define half where "half = sz div 2"
    define mid where "mid = base + half"
    have h: "0 < half" "half < sz" using False by (auto simp: half_def)
    define base' where "base' = (if k < ks ! mid then base else mid)"
    have mono: "k < ks ! j" if "k < ks ! mid" "mid \<le> j" "j < length ks" for j
      using that sorted_nth_mono [OF "1.prems"(1), of mid j] by auto
    have "let i = bsearch_base ks k base' (sz - half) in
      i < length ks \<and> (i = 0 \<or> ks ! i \<le> k) \<and> (\<forall>j. i < j \<and> j < length ks \<longrightarrow> k < ks ! j)"
    proof (rule "1.IH" [OF False half_def mid_def, folded base'_def])
      show "\<forall>j. base' + (sz - half) \<le> j \<and> j < length ks \<longrightarrow> k < ks ! j"
      proof (cases "k < ks ! mid")
        case True
        have "mid \<le> base + (sz - half)" unfolding mid_def half_def using False by linarith
        then show ?thesis using mono True by (auto simp: base'_def)
      next
        case f: False
        then show ?thesis using "1.prems"(5) h by (auto simp: base'_def mid_def)
      qed
    qed (use "1.prems" h in \<open>auto simp: base'_def mid_def\<close>)
    moreover have "bsearch_base ks k base sz = bsearch_base ks k base' (sz - half)"
      unfolding base'_def mid_def half_def using False
      by (subst bsearch_base.simps) (simp only: Let_def if_False)
    ultimately show ?thesis by simp
  qed
qed

lemma binary_search_iff:
  assumes "sorted ks" "distinct ks"
  shows "binary_search ks k = Some i \<longleftrightarrow> i < length ks \<and> ks ! i = k"
proof (cases "ks = []")
  case True
  then show ?thesis by (simp add: binary_search_def)
next
  case False
  define b where "b = bsearch_base ks k 0 (length ks)"
  have "\<forall>j. 0 + length ks \<le> j \<and> j < length ks \<longrightarrow> k < ks ! j" by auto
  then have b: "b < length ks" "\<forall>j. b < j \<and> j < length ks \<longrightarrow> k < ks ! j" "b = 0 \<or> ks ! b \<le> k"
    using bsearch_base_inv [OF assms(1), of "length ks" 0 k] False by (auto simp: b_def Let_def)
  have "i = b" if i: "i < length ks" "ks ! i = k"
  proof (rule ccontr)
    assume "i \<noteq> b"
    moreover have "\<not> b < i" using b(2) i by auto
    ultimately have "i < b" by simp
    then have "ks ! i = ks ! b"
      using b i sorted_nth_mono [OF assms(1), of i b] by auto
    then show False using \<open>i < b\<close> b(1) i(1) assms(2) nth_eq_iff_index_eq [of ks i b] by simp
  qed
  then show ?thesis
    using False b(1) by (auto simp: binary_search_def b_def [symmetric] Let_def)
qed

lemma binary_search_None_iff:
  assumes "sorted ks" "distinct ks"
  shows "binary_search ks k = None \<longleftrightarrow> k \<notin> set ks"
  using binary_search_iff [OF assms] by (metis in_set_conv_nth not_None_eq)

end
