(* ===== verification/Ieee754.thy ===== *)
theory Ieee754
  imports Prelude
begin

unbundle bit_operations_syntax

section \<open>IEEE 754 binary floating point, as \<open>f32\<close> and \<open>f64\<close> compute it\<close>

text \<open>
  The language's floating-point types, needed by the VM's REAL values, by the PID block and
  by the analog scaling. A float is its bit pattern (\<open>to_bits\<close>); every operation reads
  the operands as exact numbers \<open>\<plusminus> m * 2 ^ e\<close>, computes exactly in integers and rounds
  once, to nearest with ties to even. Everything is executable. Rust leaves the payload of a
  computed NaN open: the model returns the quiet NaN \<open>fnan\<close>, and no lemma of the library
  depends on that payload.
\<close>

subsection \<open>Formats and their values\<close>

record ffmt =
  sigbits :: nat
  expbits :: nat

definition f32_fmt :: ffmt where
  "f32_fmt = \<lparr>sigbits = 23, expbits = 8\<rparr>"

definition f64_fmt :: ffmt where
  "f64_fmt = \<lparr>sigbits = 52, expbits = 11\<rparr>"

text \<open>\<open>FFin s m e\<close> is \<open>(-1) ^ s * m * 2 ^ e\<close>; \<open>m = 0\<close> is a signed zero.\<close>

datatype fval = FNan | FInf bool | FFin bool int int

definition fbias :: "ffmt \<Rightarrow> int" where
  "fbias F = 2 ^ (expbits F - 1) - 1"

text \<open>The exponent of the least significant bit of a subnormal, and of the largest finite value.\<close>

definition fqmin :: "ffmt \<Rightarrow> int" where
  "fqmin F = 1 - fbias F - int (sigbits F)"

definition fqmax :: "ffmt \<Rightarrow> int" where
  "fqmax F = fbias F - int (sigbits F)"

definition fdecode :: "ffmt \<Rightarrow> 'a::len word \<Rightarrow> fval" where
  "fdecode F w =
     (let n = uint w;
          s = odd (n div 2 ^ (sigbits F + expbits F));
          ex = n div 2 ^ sigbits F mod 2 ^ expbits F;
          fr = n mod 2 ^ sigbits F
      in if ex = 2 ^ expbits F - 1 then (if fr = 0 then FInf s else FNan)
         else if ex = 0 then FFin s fr (fqmin F)
         else FFin s (fr + 2 ^ sigbits F) (ex - 1 + fqmin F))"

definition fassemble :: "ffmt \<Rightarrow> bool \<Rightarrow> int \<Rightarrow> int \<Rightarrow> 'a::len word" where
  "fassemble F s ex fr =
     word_of_int ((if s then 2 ^ (sigbits F + expbits F) else 0) + ex * 2 ^ sigbits F + fr)"

definition fnan :: "ffmt \<Rightarrow> 'a::len word" where
  "fnan F = fassemble F False (2 ^ expbits F - 1) (2 ^ (sigbits F - 1))"

definition finf :: "ffmt \<Rightarrow> bool \<Rightarrow> 'a::len word" where
  "finf F s = fassemble F s (2 ^ expbits F - 1) 0"

definition fzero :: "ffmt \<Rightarrow> bool \<Rightarrow> 'a::len word" where
  "fzero F s = fassemble F s 0 0"

subsection \<open>Rounding to nearest, ties to even\<close>

function bitlen :: "int \<Rightarrow> int" where
  "bitlen n = (if n \<le> 0 then 0 else 1 + bitlen (n div 2))"
  by pat_completeness auto
termination
  by (relation "measure nat") auto

declare bitlen.simps [simp del]

definition rne_div :: "int \<Rightarrow> int \<Rightarrow> int" where
  "rne_div n d =
     (let k = n div d; r = n mod d
      in if 2 * r < d then k else if d < 2 * r then k + 1 else if even k then k else k + 1)"

text \<open>\<open>n / d * 2 ^ e\<close> as a multiple of \<open>2 ^ q\<close>, rounded.\<close>

definition rne_at :: "int \<Rightarrow> int \<Rightarrow> int \<Rightarrow> int \<Rightarrow> int" where
  "rne_at n d e q =
     (if q \<le> e then rne_div (n * 2 ^ nat (e - q)) d else rne_div n (d * 2 ^ nat (q - e)))"

definition fpack :: "ffmt \<Rightarrow> bool \<Rightarrow> int \<Rightarrow> int \<Rightarrow> 'a::len word" where
  "fpack F s sig q =
     (if fqmax F < q then finf F s
      else if sig < 2 ^ sigbits F then fassemble F s 0 sig
      else fassemble F s (q - fqmin F + 1) (sig - 2 ^ sigbits F))"

text \<open>
  The quotient \<open>n / d * 2 ^ e\<close> has its leading bit at \<open>bitlen n - bitlen d + e\<close> or one
  below; the smaller candidate exponent is taken unless rounding there needs one bit too many.
\<close>

definition fround :: "ffmt \<Rightarrow> bool \<Rightarrow> int \<Rightarrow> int \<Rightarrow> int \<Rightarrow> 'a::len word" where
  "fround F s n d e =
     (if n = 0 then fzero F s
      else let q0 = max (fqmin F) (bitlen n - bitlen d + e - 1 - int (sigbits F));
               k0 = rne_at n d e q0
           in if k0 < 2 ^ Suc (sigbits F) then fpack F s k0 q0
              else fpack F s (rne_at n d e (q0 + 1)) (q0 + 1))"

subsection \<open>Arithmetic\<close>

definition sgnd :: "bool \<Rightarrow> int \<Rightarrow> int" where
  "sgnd s m = (if s then - m else m)"

definition fneg :: "ffmt \<Rightarrow> 'a::len word \<Rightarrow> 'a word" where
  "fneg F w = w XOR push_bit (sigbits F + expbits F) 1"

definition fabs :: "ffmt \<Rightarrow> 'a::len word \<Rightarrow> 'a word" where
  "fabs F w = w AND NOT (push_bit (sigbits F + expbits F) 1)"

fun fadd_val :: "ffmt \<Rightarrow> fval \<Rightarrow> fval \<Rightarrow> 'a::len word" where
  "fadd_val F FNan y = fnan F"
| "fadd_val F x FNan = fnan F"
| "fadd_val F (FInf s) (FInf t) = (if s = t then finf F s else fnan F)"
| "fadd_val F (FInf s) (FFin t n f) = finf F s"
| "fadd_val F (FFin s m e) (FInf t) = finf F t"
| "fadd_val F (FFin s m e) (FFin t n f) =
     (let g = min e f;
          k = sgnd s m * 2 ^ nat (e - g) + sgnd t n * 2 ^ nat (f - g)
      in if k = 0 then fzero F (s \<and> t)
         else fround F (k < 0) \<bar>k\<bar> 1 g)"

fun fmul_val :: "ffmt \<Rightarrow> fval \<Rightarrow> fval \<Rightarrow> 'a::len word" where
  "fmul_val F FNan y = fnan F"
| "fmul_val F x FNan = fnan F"
| "fmul_val F (FInf s) (FInf t) = finf F (s \<noteq> t)"
| "fmul_val F (FInf s) (FFin t n f) = (if n = 0 then fnan F else finf F (s \<noteq> t))"
| "fmul_val F (FFin s m e) (FInf t) = (if m = 0 then fnan F else finf F (s \<noteq> t))"
| "fmul_val F (FFin s m e) (FFin t n f) = fround F (s \<noteq> t) (m * n) 1 (e + f)"

fun fdiv_val :: "ffmt \<Rightarrow> fval \<Rightarrow> fval \<Rightarrow> 'a::len word" where
  "fdiv_val F FNan y = fnan F"
| "fdiv_val F x FNan = fnan F"
| "fdiv_val F (FInf s) (FInf t) = fnan F"
| "fdiv_val F (FInf s) (FFin t n f) = finf F (s \<noteq> t)"
| "fdiv_val F (FFin s m e) (FInf t) = fzero F (s \<noteq> t)"
| "fdiv_val F (FFin s m e) (FFin t n f) =
     (if n = 0 then (if m = 0 then fnan F else finf F (s \<noteq> t))
      else fround F (s \<noteq> t) m n (e - f))"

definition fadd :: "ffmt \<Rightarrow> 'a::len word \<Rightarrow> 'a word \<Rightarrow> 'a word" where
  "fadd F a b = fadd_val F (fdecode F a) (fdecode F b)"

definition fsub :: "ffmt \<Rightarrow> 'a::len word \<Rightarrow> 'a word \<Rightarrow> 'a word" where
  "fsub F a b = fadd F a (fneg F b)"

definition fmul :: "ffmt \<Rightarrow> 'a::len word \<Rightarrow> 'a word \<Rightarrow> 'a word" where
  "fmul F a b = fmul_val F (fdecode F a) (fdecode F b)"

definition fdiv :: "ffmt \<Rightarrow> 'a::len word \<Rightarrow> 'a word \<Rightarrow> 'a word" where
  "fdiv F a b = fdiv_val F (fdecode F a) (fdecode F b)"

subsection \<open>Comparison\<close>

text \<open>Exact comparison of two finite values, at the smaller of the two exponents.\<close>

definition fin_less :: "bool \<Rightarrow> int \<Rightarrow> int \<Rightarrow> bool \<Rightarrow> int \<Rightarrow> int \<Rightarrow> bool" where
  "fin_less s m e t n f \<longleftrightarrow>
     (let g = min e f in sgnd s m * 2 ^ nat (e - g) < sgnd t n * 2 ^ nat (f - g))"

fun flt_val :: "fval \<Rightarrow> fval \<Rightarrow> bool" where
  "flt_val FNan y = False"
| "flt_val x FNan = False"
| "flt_val (FInf s) (FInf t) = (s \<and> \<not> t)"
| "flt_val (FInf s) (FFin t n f) = s"
| "flt_val (FFin s m e) (FInf t) = (\<not> t)"
| "flt_val (FFin s m e) (FFin t n f) = fin_less s m e t n f"

definition is_nan_val :: "fval \<Rightarrow> bool" where
  "is_nan_val x \<longleftrightarrow> x = FNan"

definition flt :: "ffmt \<Rightarrow> 'a::len word \<Rightarrow> 'a word \<Rightarrow> bool" where
  "flt F a b \<longleftrightarrow> flt_val (fdecode F a) (fdecode F b)"

definition fle :: "ffmt \<Rightarrow> 'a::len word \<Rightarrow> 'a word \<Rightarrow> bool" where
  "fle F a b \<longleftrightarrow>
     \<not> is_nan_val (fdecode F a) \<and> \<not> is_nan_val (fdecode F b) \<and> \<not> flt F b a"

definition feq :: "ffmt \<Rightarrow> 'a::len word \<Rightarrow> 'a word \<Rightarrow> bool" where
  "feq F a b \<longleftrightarrow> fle F a b \<and> fle F b a"

text \<open>\<open>f32::clamp\<close> asserts \<open>min <= max\<close> (so neither is a NaN) and panics otherwise.\<close>

definition fclamp :: "ffmt \<Rightarrow> 'a::len word \<Rightarrow> 'a word \<Rightarrow> 'a word \<Rightarrow> 'a word option" where
  "fclamp F x lo hi =
     (if \<not> fle F lo hi then None
      else let x1 = (if flt F x lo then lo else x)
           in Some (if flt F hi x1 then hi else x1))"

subsection \<open>Conversions\<close>

text \<open>\<open>as f32\<close> from an integer, and the saturating \<open>as iN\<close> from a float (NaN becomes 0).\<close>

definition f_of_int :: "ffmt \<Rightarrow> int \<Rightarrow> 'a::len word" where
  "f_of_int F k = (if k = 0 then fzero F False else fround F (k < 0) \<bar>k\<bar> 1 0)"

definition ftrunc :: "bool \<Rightarrow> int \<Rightarrow> int \<Rightarrow> int" where
  "ftrunc s m e = sgnd s (if 0 \<le> e then m * 2 ^ nat e else m div 2 ^ nat (- e))"

definition f_to_int :: "ffmt \<Rightarrow> 'a::len word \<Rightarrow> int \<Rightarrow> int \<Rightarrow> int" where
  "f_to_int F w lo hi =
     (case fdecode F w of
        FNan \<Rightarrow> 0
      | FInf s \<Rightarrow> (if s then lo else hi)
      | FFin s m e \<Rightarrow> max lo (min hi (ftrunc s m e)))"

text \<open>Conversion between formats: \<open>f64 as f32\<close>, \<open>f64::from(f32)\<close>.\<close>

definition f_conv :: "ffmt \<Rightarrow> ffmt \<Rightarrow> 'a::len word \<Rightarrow> 'b::len word" where
  "f_conv F G w =
     (case fdecode F w of
        FNan \<Rightarrow> fnan G
      | FInf s \<Rightarrow> finf G s
      | FFin s m e \<Rightarrow> fround G s m 1 e)"

type_synonym f32 = "32 word"
type_synonym f64 = "64 word"

abbreviation "f32_add \<equiv> fadd f32_fmt :: f32 \<Rightarrow> f32 \<Rightarrow> f32"
abbreviation "f32_sub \<equiv> fsub f32_fmt :: f32 \<Rightarrow> f32 \<Rightarrow> f32"
abbreviation "f32_mul \<equiv> fmul f32_fmt :: f32 \<Rightarrow> f32 \<Rightarrow> f32"
abbreviation "f32_div \<equiv> fdiv f32_fmt :: f32 \<Rightarrow> f32 \<Rightarrow> f32"
abbreviation "f32_neg \<equiv> fneg f32_fmt :: f32 \<Rightarrow> f32"
abbreviation "f32_abs \<equiv> fabs f32_fmt :: f32 \<Rightarrow> f32"
abbreviation "f32_lt \<equiv> flt f32_fmt :: f32 \<Rightarrow> f32 \<Rightarrow> bool"
abbreviation "f32_le \<equiv> fle f32_fmt :: f32 \<Rightarrow> f32 \<Rightarrow> bool"
abbreviation "f32_eq \<equiv> feq f32_fmt :: f32 \<Rightarrow> f32 \<Rightarrow> bool"
abbreviation "f32_clamp \<equiv> fclamp f32_fmt :: f32 \<Rightarrow> f32 \<Rightarrow> f32 \<Rightarrow> f32 option"
abbreviation "f32_of_int \<equiv> f_of_int f32_fmt :: int \<Rightarrow> f32"
abbreviation "f32_to_int \<equiv> f_to_int f32_fmt :: f32 \<Rightarrow> int \<Rightarrow> int \<Rightarrow> int"
abbreviation "f32_nan w \<equiv> is_nan_val (fdecode f32_fmt (w :: f32))"

subsection \<open>The order on non-NaN values\<close>

lemma fin_less_irrefl: "\<not> fin_less s m e s m e"
  by (simp add: fin_less_def)

lemma flt_val_irrefl: "\<not> flt_val x x"
  by (cases x) (auto simp: fin_less_irrefl)

lemma flt_irrefl [simp]: "\<not> flt F a a"
  by (simp add: flt_def flt_val_irrefl)

lemma flt_not_nan: "flt F a b \<Longrightarrow> \<not> is_nan_val (fdecode F a) \<and> \<not> is_nan_val (fdecode F b)"
  by (cases "fdecode F a"; cases "fdecode F b") (auto simp: flt_def is_nan_val_def)

lemma fin_less_asym: "fin_less s m e t n f \<Longrightarrow> \<not> fin_less t n f s m e"
  by (simp add: fin_less_def min.commute [of f e] Let_def)

lemma flt_val_asym: "flt_val x y \<Longrightarrow> \<not> flt_val y x"
  by (cases x; cases y) (auto dest: fin_less_asym)

lemma flt_asym: "flt F a b \<Longrightarrow> \<not> flt F b a"
  by (auto simp: flt_def dest: flt_val_asym)

lemma fle_not_flt: "fle F a b \<Longrightarrow> \<not> flt F b a"
  by (simp add: fle_def)

lemma flt_imp_fle: "flt F a b \<Longrightarrow> fle F a b"
  using flt_not_nan [of F a b] flt_asym [of F a b] by (simp add: fle_def)

lemma fle_refl: "\<not> is_nan_val (fdecode F a) \<Longrightarrow> fle F a a"
  by (simp add: fle_def)

lemma fle_total: "\<not> is_nan_val (fdecode F a) \<Longrightarrow> \<not> is_nan_val (fdecode F b) \<Longrightarrow> fle F a b \<or> fle F b a"
  by (auto simp: fle_def dest: flt_asym)

text \<open>A clamped value is a NaN only if the input is, and otherwise lies between the limits.\<close>

lemma fclamp_Some_iff: "(\<exists>y. fclamp F x lo hi = Some y) \<longleftrightarrow> fle F lo hi"
  by (simp add: fclamp_def Let_def)

lemma fclamp_bounds:
  assumes "fclamp F x lo hi = Some y"
  shows "\<not> flt F y lo \<and> \<not> flt F hi y"
  using assms by (auto simp: fclamp_def Let_def fle_def split: if_splits)

lemma fclamp_between:
  assumes "fclamp F x lo hi = Some y" "\<not> is_nan_val (fdecode F x)"
  shows "fle F lo y \<and> fle F y hi"
  using assms fclamp_bounds [OF assms(1)]
  by (auto simp: fclamp_def Let_def fle_def split: if_splits)

lemma f_to_int_range: "lo \<le> hi \<Longrightarrow> lo \<le> 0 \<Longrightarrow> 0 \<le> hi \<Longrightarrow> lo \<le> f_to_int F w lo hi \<and> f_to_int F w lo hi \<le> hi"
  by (auto simp: f_to_int_def split: fval.splits)

end
