(* ===== verification/FbBlocks.thy ===== *)
theory FbBlocks
  imports Ieee754
begin

section \<open>Function blocks (\<open>plc-fb-primitives\<close>: timer, counter, latch, edge, pid)\<close>

text \<open>
  Each block is a record with the fields of its struct and one \<open>eval\<close> function that returns
  the updated instance with the outputs. TIME and DINT are 32-bit words read by \<open>sint\<close>,
  the monotonic millisecond clock is a \<open>u64\<close>. The lemmas relate a block run over a sequence
  of samples to what IEC 61131-3 says of the whole sequence: a TON is on when its input has
  been on for PT, a CTU counts the rising edges since the last reset, and so on.
\<close>

subsection \<open>Timers\<close>

definition et_from_delta :: "u64 \<Rightarrow> u64 \<Rightarrow> i32 \<Rightarrow> i32" where
  "et_from_delta start_ms now_ms pt0 =
     (let pt = smax_of pt0 0;
          delta = sat_sub now_ms start_ms;
          et = ucast (min delta 0x7FFFFFFF) :: i32
      in smin_of et pt)"

record ton =
  ton_q :: bool
  ton_et :: i32
  ton_start_ms :: u64
  ton_running :: bool

definition ton_new :: ton where
  "ton_new = \<lparr>ton_q = False, ton_et = 0, ton_start_ms = 0, ton_running = False\<rparr>"

definition ton_eval :: "ton \<Rightarrow> bool \<Rightarrow> i32 \<Rightarrow> u64 \<Rightarrow> ton \<times> bool \<times> i32" where
  "ton_eval t inp pt0 now_ms =
     (let pt = smax_of pt0 0;
          t' = (if inp then
                  if \<not> ton_running t then
                    t\<lparr>ton_running := True, ton_start_ms := now_ms, ton_et := 0, ton_q := (pt = 0)\<rparr>
                  else let et = et_from_delta (ton_start_ms t) now_ms pt
                       in t\<lparr>ton_et := et, ton_q := (sint pt \<le> sint et)\<rparr>
                else t\<lparr>ton_running := False, ton_q := False, ton_et := 0, ton_start_ms := 0\<rparr>)
      in (t', ton_q t', ton_et t'))"

record tof =
  tof_q :: bool
  tof_et :: i32
  tof_fall_ms :: u64
  tof_delaying :: bool

definition tof_new :: tof where
  "tof_new = \<lparr>tof_q = False, tof_et = 0, tof_fall_ms = 0, tof_delaying = False\<rparr>"

definition tof_eval :: "tof \<Rightarrow> bool \<Rightarrow> i32 \<Rightarrow> u64 \<Rightarrow> tof \<times> bool \<times> i32" where
  "tof_eval t inp pt0 now_ms =
     (let pt = smax_of pt0 0;
          t' = (if inp then
                  t\<lparr>tof_q := True, tof_et := 0, tof_delaying := False, tof_fall_ms := 0\<rparr>
                else if tof_q t \<or> tof_delaying t then
                  let t1 = (if \<not> tof_delaying t
                            then t\<lparr>tof_delaying := True, tof_fall_ms := now_ms, tof_et := 0\<rparr> else t);
                      et = et_from_delta (tof_fall_ms t1) now_ms pt
                  in if sint pt \<le> sint et
                     then t1\<lparr>tof_q := False, tof_delaying := False, tof_et := pt\<rparr>
                     else t1\<lparr>tof_et := et, tof_q := True\<rparr>
                else t\<lparr>tof_q := False, tof_et := 0\<rparr>)
      in (t', tof_q t', tof_et t'))"

record tp =
  tp_q :: bool
  tp_et :: i32
  tp_start_ms :: u64
  tp_running :: bool
  tp_prev_in :: bool

definition tp_new :: tp where
  "tp_new = \<lparr>tp_q = False, tp_et = 0, tp_start_ms = 0, tp_running = False, tp_prev_in = False\<rparr>"

text \<open>The part of \<open>Tp::eval\<close> after the edge has been handled.\<close>

definition tp_advance :: "tp \<Rightarrow> i32 \<Rightarrow> u64 \<Rightarrow> tp" where
  "tp_advance t pt now_ms =
     (if tp_running t then
        let et = et_from_delta (tp_start_ms t) now_ms pt
        in if sint pt \<le> sint et
           then t\<lparr>tp_q := False, tp_running := False, tp_et := pt\<rparr>
           else t\<lparr>tp_et := et, tp_q := True\<rparr>
      else t\<lparr>tp_q := False, tp_et := 0\<rparr>)"

definition tp_eval :: "tp \<Rightarrow> bool \<Rightarrow> i32 \<Rightarrow> u64 \<Rightarrow> tp \<times> bool \<times> i32" where
  "tp_eval t inp pt0 now_ms =
     (let pt = smax_of pt0 0;
          rising = inp \<and> \<not> tp_prev_in t;
          t1 = t\<lparr>tp_prev_in := inp\<rparr>;
          t' = (if \<not> tp_running t1 \<and> rising then
                  let t2 = t1\<lparr>tp_running := True, tp_start_ms := now_ms, tp_et := 0\<rparr>
                  in if pt = 0 then t2\<lparr>tp_q := True, tp_running := False, tp_et := 0\<rparr>
                     else tp_advance (t2\<lparr>tp_q := True\<rparr>) pt now_ms
                else tp_advance t1 pt now_ms)
      in (t', tp_q t', tp_et t'))"

subsection \<open>Counters, latches, edge detectors\<close>

record ctu =
  ctu_q :: bool
  ctu_cv :: i32
  ctu_prev_cu :: bool

definition ctu_new :: ctu where
  "ctu_new = \<lparr>ctu_q = False, ctu_cv = 0, ctu_prev_cu = False\<rparr>"

definition ctu_eval :: "ctu \<Rightarrow> bool \<Rightarrow> bool \<Rightarrow> i32 \<Rightarrow> ctu \<times> bool \<times> i32" where
  "ctu_eval c cu r pv =
     (let cv = (if r then 0
                else let rising = cu \<and> \<not> ctu_prev_cu c
                     in if rising \<and> sint (ctu_cv c) < sint (smax :: i32) then ssat_inc (ctu_cv c)
                        else ctu_cv c);
          q = (sint pv \<le> sint cv)
      in (\<lparr>ctu_q = q, ctu_cv = cv, ctu_prev_cu = cu\<rparr>, q, cv))"

record ctd =
  ctd_q :: bool
  ctd_cv :: i32
  ctd_prev_cd :: bool
  ctd_prev_ld :: bool

definition ctd_new :: ctd where
  "ctd_new = \<lparr>ctd_q = False, ctd_cv = 0, ctd_prev_cd = False, ctd_prev_ld = False\<rparr>"

definition ctd_eval :: "ctd \<Rightarrow> bool \<Rightarrow> bool \<Rightarrow> i32 \<Rightarrow> ctd \<times> bool \<times> i32" where
  "ctd_eval c cd ld pv =
     (let load_edge = ld \<and> \<not> ctd_prev_ld c;
          count_edge = cd \<and> \<not> ctd_prev_cd c;
          cv = (if load_edge then pv
                else if count_edge \<and> sint (smin :: i32) < sint (ctd_cv c) then ssat_dec (ctd_cv c)
                else ctd_cv c);
          q = (sint cv \<le> 0)
      in (\<lparr>ctd_q = q, ctd_cv = cv, ctd_prev_cd = cd, ctd_prev_ld = ld\<rparr>, q, cv))"

record rs = rs_q :: bool

definition rs_new :: rs where "rs_new = \<lparr>rs_q = False\<rparr>"

definition rs_eval :: "rs \<Rightarrow> bool \<Rightarrow> bool \<Rightarrow> rs \<times> bool" where
  "rs_eval x s r = (let q = (s \<or> rs_q x) \<and> \<not> r in (\<lparr>rs_q = q\<rparr>, q))"

record sr = sr_q :: bool

definition sr_new :: sr where "sr_new = \<lparr>sr_q = False\<rparr>"

definition sr_eval :: "sr \<Rightarrow> bool \<Rightarrow> bool \<Rightarrow> sr \<times> bool" where
  "sr_eval x s r = (let q = s \<or> (sr_q x \<and> \<not> r) in (\<lparr>sr_q = q\<rparr>, q))"

record r_trig =
  rt_q :: bool
  rt_prev :: bool

definition r_trig_new :: r_trig where "r_trig_new = \<lparr>rt_q = False, rt_prev = False\<rparr>"

definition r_trig_eval :: "r_trig \<Rightarrow> bool \<Rightarrow> r_trig \<times> bool" where
  "r_trig_eval x clk = (let q = clk \<and> \<not> rt_prev x in (\<lparr>rt_q = q, rt_prev = clk\<rparr>, q))"

record f_trig =
  ft_q :: bool
  ft_prev :: bool

definition f_trig_new :: f_trig where "f_trig_new = \<lparr>ft_q = False, ft_prev = False\<rparr>"

definition f_trig_eval :: "f_trig \<Rightarrow> bool \<Rightarrow> f_trig \<times> bool" where
  "f_trig_eval x clk = (let q = \<not> clk \<and> ft_prev x in (\<lparr>ft_q = q, ft_prev = clk\<rparr>, q))"

subsection \<open>PID\<close>

text \<open>The constants 1.0, 1000.0, 100.0, -100.0 and \<open>f32::EPSILON\<close> are given by their bits.\<close>

definition F_ONE :: f32 where "F_ONE = 0x3F800000"
definition F_1000 :: f32 where "F_1000 = 0x447A0000"
definition F_100 :: f32 where "F_100 = 0x42C80000"
definition F_M100 :: f32 where "F_M100 = 0xC2C80000"
definition F_EPSILON :: f32 where "F_EPSILON = 0x34000000"

record pid =
  pid_kp :: f32
  pid_ki :: f32
  pid_kd :: f32
  pid_out_min :: f32
  pid_out_max :: f32
  pid_out :: f32
  pid_integral :: f32
  pid_last_err :: f32
  pid_last_now_ms :: u64
  pid_initialized :: bool

definition pid_new :: "f32 \<Rightarrow> f32 \<Rightarrow> f32 \<Rightarrow> f32 \<Rightarrow> f32 \<Rightarrow> pid" where
  "pid_new kp ki kd lo hi =
     \<lparr>pid_kp = kp, pid_ki = ki, pid_kd = kd, pid_out_min = lo, pid_out_max = hi, pid_out = 0,
      pid_integral = 0, pid_last_err = 0, pid_last_now_ms = 0, pid_initialized = False\<rparr>"

definition pid_default :: pid where
  "pid_default = pid_new F_ONE 0 0 F_M100 F_100"

definition pid_cold_reset :: "pid \<Rightarrow> pid" where
  "pid_cold_reset p =
     p\<lparr>pid_out := 0, pid_integral := 0, pid_last_err := 0, pid_last_now_ms := 0,
       pid_initialized := False\<rparr>"

definition ki_or_one :: "pid \<Rightarrow> f32" where
  "ki_or_one p = (if f32_lt (f32_abs (pid_ki p)) F_EPSILON then F_ONE else f32_abs (pid_ki p))"

text \<open>\<open>None\<close> is the panic of \<open>clamp\<close> on limits that are not ordered.\<close>

definition pid_eval :: "pid \<Rightarrow> f32 \<Rightarrow> f32 \<Rightarrow> bool \<Rightarrow> u64 \<Rightarrow> (pid \<times> f32) option" where
  "pid_eval p pv sp enable now_ms =
     (if \<not> enable then Some (p, pid_out p)
      else
        let err = f32_sub sp pv;
            dt_s = (if pid_initialized p
                    then f32_div (f32_of_int (uint (sat_sub now_ms (pid_last_now_ms p)))) F_1000
                    else 0);
            finish = (\<lambda>p'. Some (p'\<lparr>pid_last_err := err, pid_last_now_ms := now_ms,
                                    pid_initialized := True\<rparr>, pid_out p'))
        in if pid_initialized p \<and> f32_lt 0 dt_s then
             case f32_clamp (f32_add (pid_integral p) (f32_mul err dt_s))
                    (f32_div (pid_out_min p) (ki_or_one p)) (f32_div (pid_out_max p) (ki_or_one p)) of
               None \<Rightarrow> None
             | Some integral \<Rightarrow>
                 let i_term = f32_mul (pid_ki p) integral;
                     d_term = f32_div (f32_mul (pid_kd p) (f32_sub err (pid_last_err p))) dt_s;
                     p_term = f32_mul (pid_kp p) err
                 in (case f32_clamp (f32_add (f32_add p_term i_term) d_term)
                            (pid_out_min p) (pid_out_max p) of
                       None \<Rightarrow> None
                     | Some out \<Rightarrow> finish (p\<lparr>pid_integral := integral, pid_out := out\<rparr>))
           else
             (case f32_clamp (f32_mul (pid_kp p) err) (pid_out_min p) (pid_out_max p) of
                None \<Rightarrow> None
              | Some out \<Rightarrow> finish (p\<lparr>pid_out := out, pid_integral := 0\<rparr>)))"

subsection \<open>Running a block over samples\<close>

definition ton_run :: "ton \<Rightarrow> (bool \<times> i32 \<times> u64) list \<Rightarrow> ton" where
  "ton_run t xs = foldl (\<lambda>t (inp, pt, now). fst (ton_eval t inp pt now)) t xs"

definition tof_run :: "i32 \<Rightarrow> tof \<Rightarrow> (bool \<times> u64) list \<Rightarrow> tof" where
  "tof_run pt t xs = foldl (\<lambda>t (inp, now). fst (tof_eval t inp pt now)) t xs"

definition tp_run :: "i32 \<Rightarrow> tp \<Rightarrow> (bool \<times> u64) list \<Rightarrow> tp" where
  "tp_run pt t xs = foldl (\<lambda>t (inp, now). fst (tp_eval t inp pt now)) t xs"

definition ctu_run :: "ctu \<Rightarrow> (bool \<times> bool \<times> i32) list \<Rightarrow> ctu" where
  "ctu_run c xs = foldl (\<lambda>c (cu, r, pv). fst (ctu_eval c cu r pv)) c xs"

text \<open>Specifications over the sample sequence, oldest sample first.\<close>

definition on_since :: "(bool \<times> i32 \<times> u64) list \<Rightarrow> u64 option" where
  "on_since xs = foldl (\<lambda>s (inp, pt, now). if \<not> inp then None else if s = None then Some now else s) None xs"

definition off_since :: "(bool \<times> u64) list \<Rightarrow> bool \<times> u64 option" where
  "off_since xs = foldl (\<lambda>(was, s) (inp, now).
      if inp then (True, None) else if was \<and> s = None then (True, Some now) else (was, s)) (False, None) xs"

definition count_edges :: "(bool \<times> bool \<times> i32) list \<Rightarrow> bool \<times> int" where
  "count_edges xs = foldl (\<lambda>(prev, n) (cu, r, pv).
      (cu, if r then 0 else if cu \<and> \<not> prev then min (n + 1) (2 ^ 31 - 1) else n)) (False, 0) xs"

definition time_pt :: "i32 \<Rightarrow> nat" where
  "time_pt pt = nat (max 0 (sint pt))"

subsection \<open>Elapsed time\<close>

lemma sint_i32_range: "- (2 ^ 31) \<le> sint (w :: i32) \<and> sint w < 2 ^ 31"
  using sint_range_size [of w] by (simp add: word_size)

lemma sint_eq_unat: "unat (w :: i32) < 2 ^ 31 \<Longrightarrow> sint w = int (unat w)"
proof -
  assume "unat w < 2 ^ 31"
  then have "int (unat w) < int (2 ^ 31)" by (simp only: of_nat_less_iff)
  then have "uint w < 2 ^ 31" by simp
  moreover have "- (2 ^ 31) \<le> uint w" by (rule order_trans [OF _ uint_ge_0]) simp
  ultimately show ?thesis
    using signed_take_bit_int_eq_self [of 31 "uint w"] by (simp add: sint_uint)
qed

lemma sint_ucast_small:
  assumes "unat (d :: u64) < 2 ^ 31"
  shows "sint (ucast d :: i32) = int (unat d)"
proof -
  have "unat (ucast d :: i32) = unat d"
    using assms by (simp add: unsigned_ucast_eq take_bit_nat_eq_self)
  then show ?thesis using assms sint_eq_unat [of "ucast d"] by simp
qed

lemma sint_et_from_delta:
  "sint (et_from_delta s n pt) = min (int (min (unat n - unat s) (2 ^ 31 - 1))) (int (time_pt pt))"
proof -
  have "unat (min (sat_sub n s) (0x7FFFFFFF :: u64)) = min (unat n - unat s) (2 ^ 31 - 1)"
    by (auto simp: min_def word_le_nat_alt unat_sat_sub)
  moreover from this have "sint (ucast (min (sat_sub n s) (0x7FFFFFFF :: u64)) :: i32)
      = int (min (unat n - unat s) (2 ^ 31 - 1))"
    by (subst sint_ucast_small) simp_all
  ultimately show ?thesis
    by (simp add: et_from_delta_def Let_def sint_smin_of sint_smax_of time_pt_def max.commute)
qed

lemma time_pt_less: "time_pt pt < 2 ^ 31"
  using sint_i32_range [of pt] by (simp add: time_pt_def nat_less_iff)

lemma time_pt_smax [simp]: "time_pt (smax_of pt 0) = time_pt pt"
  by (simp add: time_pt_def sint_smax_of)

lemma sint_pt: "sint (smax_of pt 0) = int (time_pt pt)"
  by (simp add: time_pt_def sint_smax_of max.commute)

text \<open>A timer has expired exactly when the clock has advanced by PT.\<close>

lemma expired_iff:
  "sint (smax_of pt 0) \<le> sint (et_from_delta s n (smax_of pt 0)) \<longleftrightarrow> time_pt pt \<le> unat n - unat s"
  using time_pt_less [of pt] by (auto simp: sint_et_from_delta sint_pt)

lemma sint_et: "sint (et_from_delta s n (smax_of pt 0)) = int (min (unat n - unat s) (time_pt pt))"
  using time_pt_less [of pt] by (auto simp: sint_et_from_delta)

lemma smax_of_eq_0: "smax_of pt 0 = 0 \<longleftrightarrow> time_pt pt = 0"
proof -
  have "smax_of pt 0 = 0 \<longleftrightarrow> sint (smax_of pt 0) = 0" by (metis sint_0 signed_word_eqI)
  then show ?thesis by (simp add: sint_pt)
qed

subsection \<open>TON: on when the input has been on for PT\<close>

lemma ton_run_snoc: "ton_run t (xs @ [(inp, pt, now)]) = fst (ton_eval (ton_run t xs) inp pt now)"
  by (simp add: ton_run_def)

lemma on_since_snoc:
  "on_since (xs @ [(inp, pt, now)])
     = (if \<not> inp then None else if on_since xs = None then Some now else on_since xs)"
  by (simp add: on_since_def)

lemma ton_run_since:
  "ton_running (ton_run ton_new xs) = (on_since xs \<noteq> None)
   \<and> (on_since xs \<noteq> None \<longrightarrow> ton_start_ms (ton_run ton_new xs) = the (on_since xs))"
proof (induction xs rule: rev_induct)
  case Nil
  then show ?case by (simp add: ton_run_def on_since_def ton_new_def)
next
  case (snoc x xs)
  then show ?case
    by (cases x) (auto simp: ton_run_snoc on_since_snoc ton_eval_def Let_def)
qed

lemma ton_eval_outputs:
  "snd (ton_eval t inp pt now) = (ton_q (fst (ton_eval t inp pt now)), ton_et (fst (ton_eval t inp pt now)))"
  by (simp add: ton_eval_def Let_def)

lemma ton_trace:
  assumes "xs = ys @ [(inp, pt, now)]"
  shows "ton_q (ton_run ton_new xs)
           = (case on_since xs of None \<Rightarrow> False | Some t0 \<Rightarrow> time_pt pt \<le> unat now - unat t0)"
    and "sint (ton_et (ton_run ton_new xs))
           = (case on_since xs of None \<Rightarrow> 0 | Some t0 \<Rightarrow> int (min (unat now - unat t0) (time_pt pt)))"
  using ton_run_since [of ys]
  by (auto simp: assms ton_run_snoc on_since_snoc ton_eval_def Let_def sint_et sint_pt smax_of_eq_0)

subsection \<open>TOF: on while the input is on and for PT after it falls\<close>

lemma tof_run_snoc: "tof_run pt t (xs @ [(inp, now)]) = fst (tof_eval (tof_run pt t xs) inp pt now)"
  by (simp add: tof_run_def)

lemma off_since_snoc:
  "off_since (xs @ [(inp, now)])
     = (if inp then (True, None)
        else if fst (off_since xs) \<and> snd (off_since xs) = None then (True, Some now)
        else off_since xs)"
  by (auto simp: off_since_def split: prod.splits)

lemma off_since_past: "snd (off_since xs) = Some t0 \<Longrightarrow> sorted (map snd xs) \<Longrightarrow> t0 \<in> set (map snd xs)"
proof (induction xs rule: rev_induct)
  case Nil
  then show ?case by (simp add: off_since_def)
next
  case (snoc x xs)
  then show ?case
    by (cases x) (auto simp: off_since_snoc sorted_append split: if_splits)
qed

text \<open>The off-delay is over once the clock has reached PT past the fall, and stays over.\<close>

definition tof_on :: "i32 \<Rightarrow> (bool \<times> u64 option) \<Rightarrow> u64 \<Rightarrow> bool" where
  "tof_on pt s now \<longleftrightarrow>
     (case s of (was, None) \<Rightarrow> was | (was, Some t0) \<Rightarrow> unat now - unat t0 < time_pt pt)"

lemma tof_run_off:
  assumes "sorted (map snd (xs @ [(inp, now)]))"
  shows "let t = tof_run pt tof_new (xs @ [(inp, now)]); s = off_since (xs @ [(inp, now)]) in
    tof_q t = tof_on pt s now
    \<and> tof_delaying t = (tof_q t \<and> snd s \<noteq> None)
    \<and> (tof_delaying t \<longrightarrow> snd s = Some (tof_fall_ms t))
    \<and> (snd s \<noteq> None \<longrightarrow> fst s)"
  using assms
proof (induction xs arbitrary: inp now rule: rev_induct)
  case Nil
  then show ?case
    by (simp add: tof_run_def off_since_def tof_new_def tof_eval_def tof_on_def Let_def)
next
  case (snoc x xs)
  obtain i n where x: "x = (i, n)" by (cases x)
  define t where "t = tof_run pt tof_new (xs @ [(i, n)])"
  define s where "s = off_since (xs @ [(i, n)])"
  have so: "sorted (map snd (xs @ [(i, n)]))" "unat n \<le> unat now"
    using snoc.prems sorted_append [of "map snd xs @ [n]" "[now]"]
    by (auto simp: x simp flip: word_le_nat_alt)
  have IH: "tof_q t = tof_on pt s n" "tof_delaying t = (tof_q t \<and> snd s \<noteq> None)"
    "tof_delaying t \<longrightarrow> snd s = Some (tof_fall_ms t)" "snd s \<noteq> None \<longrightarrow> fst s"
    using snoc.IH [OF so(1)] by (auto simp: t_def s_def Let_def)
  have r: "tof_run pt tof_new ((xs @ [(i, n)]) @ [(inp, now)]) = fst (tof_eval t inp pt now)"
    "off_since ((xs @ [(i, n)]) @ [(inp, now)])
       = (if inp then (True, None) else if fst s \<and> snd s = None then (True, Some now) else s)"
    unfolding t_def s_def by (rule tof_run_snoc, rule off_since_snoc)
  show ?case
  proof (cases "inp \<or> snd s = None")
    case True
    then show ?thesis
      unfolding x Let_def r using IH
      by (cases s) (auto simp: tof_eval_def tof_on_def Let_def expired_iff)
  next
    case False
    then obtain t0 where t0: "snd s = Some t0" by blast
    then have past: "time_pt pt \<le> unat n - unat t0 \<Longrightarrow> time_pt pt \<le> unat now - unat t0"
      using so(2) by linarith
    show ?thesis
      unfolding x Let_def r using IH t0 False past
      by (cases s) (auto simp: tof_eval_def tof_on_def Let_def expired_iff not_less)
  qed
qed

lemma tof_trace:
  assumes "sorted (map snd (xs @ [(inp, now)]))"
  shows "tof_q (tof_run pt tof_new (xs @ [(inp, now)])) = tof_on pt (off_since (xs @ [(inp, now)])) now"
  using tof_run_off [OF assms, of pt] by (simp add: Let_def)

subsection \<open>TP: a pulse of length PT, whatever the input does\<close>

lemma tp_run_snoc: "tp_run pt t (xs @ [(inp, now)]) = fst (tp_eval (tp_run pt t xs) inp pt now)"
  by (simp add: tp_run_def)

lemma tp_run_append: "tp_run pt t (xs @ ys) = tp_run pt (tp_run pt t xs) ys"
  by (simp add: tp_run_def)

lemma tp_eval_running:
  assumes "tp_running t" "tp_start_ms t = t0" "unat now - unat t0 < time_pt pt"
  shows "let t' = fst (tp_eval t inp pt now) in
    tp_running t' \<and> tp_start_ms t' = t0 \<and> tp_q t' \<and> sint (tp_et t') = int (unat now - unat t0)"
  using assms by (auto simp: tp_eval_def tp_advance_def Let_def sint_pt sint_et)

lemma tp_eval_expire:
  assumes "tp_running t" "tp_start_ms t = t0" "time_pt pt \<le> unat now - unat t0"
  shows "let t' = fst (tp_eval t inp pt now) in
    \<not> tp_running t' \<and> \<not> tp_q t' \<and> sint (tp_et t') = int (time_pt pt)"
  using assms by (auto simp: tp_eval_def tp_advance_def Let_def sint_pt sint_et)

lemma tp_eval_start:
  assumes "\<not> tp_running t" "\<not> tp_prev_in t" "0 < time_pt pt"
  shows "let t' = fst (tp_eval t True pt now) in
    tp_running t' \<and> tp_start_ms t' = now \<and> tp_q t' \<and> sint (tp_et t') = 0"
  using assms by (auto simp: tp_eval_def tp_advance_def Let_def sint_pt sint_et smax_of_eq_0)

lemma tp_run_pulse:
  assumes "tp_running t" "tp_start_ms t = t0" "tp_q t"
    and "\<forall>(inp, now)\<in>set xs. unat now - unat t0 < time_pt pt"
  shows "tp_running (tp_run pt t xs) \<and> tp_start_ms (tp_run pt t xs) = t0 \<and> tp_q (tp_run pt t xs)"
  using assms(4)
proof (induction xs rule: rev_induct)
  case Nil
  then show ?case using assms by (simp add: tp_run_def)
next
  case (snoc x xs)
  then show ?case
    using tp_eval_running [of "tp_run pt t xs" t0 "snd x" pt "fst x"]
    by (cases x) (auto simp: tp_run_snoc Let_def)
qed

lemma tp_trace:
  assumes "\<not> tp_running t" "\<not> tp_prev_in t" "0 < time_pt pt"
    and "\<forall>(inp, now)\<in>set xs. unat now - unat t0 < time_pt pt"
    and "time_pt pt \<le> unat t1 - unat t0"
  shows "tp_q (tp_run pt t ((True, t0) # xs))"
    and "\<not> tp_q (tp_run pt t ((True, t0) # xs @ [(inp, t1)]))"
proof -
  let ?t = "fst (tp_eval t True pt t0)"
  have s: "tp_running ?t \<and> tp_start_ms ?t = t0 \<and> tp_q ?t"
    using tp_eval_start [OF assms(1-3), of t0] by (simp add: Let_def)
  have c: "tp_run pt t ((True, t0) # ys) = tp_run pt ?t ys" for ys
    by (simp add: tp_run_def)
  have p: "tp_running (tp_run pt ?t xs) \<and> tp_start_ms (tp_run pt ?t xs) = t0 \<and> tp_q (tp_run pt ?t xs)"
    by (rule tp_run_pulse) (use s assms(4) in auto)
  then show "tp_q (tp_run pt t ((True, t0) # xs))" by (simp add: c)
  show "\<not> tp_q (tp_run pt t ((True, t0) # xs @ [(inp, t1)]))"
    using p tp_eval_expire [of "tp_run pt ?t xs" t0 pt t1 inp] assms(5)
    by (simp add: c tp_run_snoc Let_def)
qed

subsection \<open>CTU counts rising edges since the last reset\<close>

lemma sint_smax_i32: "sint (smax :: i32) = 2 ^ 31 - 1"
  by (simp add: smax_def)

lemma sint_ssat_inc: "sint (ssat_inc (a :: i32)) = min (sint a + 1) (2 ^ 31 - 1)"
proof (cases "a = smax")
  case True
  then show ?thesis by (simp add: ssat_inc_def sint_smax_i32)
next
  case False
  then have "sint a \<noteq> 2 ^ 31 - 1" by (metis sint_smax_i32 signed_word_eqI)
  then have a: "sint a + 1 < 2 ^ 31" "- (2 ^ 31) \<le> sint a + 1" using sint_i32_range [of a] by simp_all
  have "sint (a + 1) = signed_take_bit 31 (sint a + 1)"
    by (simp add: signed_take_bit_add sint_word_ariths(1))
  also have "\<dots> = sint a + 1" using a signed_take_bit_int_eq_self [of 31 "sint a + 1"] by simp
  finally show ?thesis using False a by (simp add: ssat_inc_def)
qed

lemma ctu_trace:
  "ctu_prev_cu (ctu_run ctu_new xs) = fst (count_edges xs)
   \<and> sint (ctu_cv (ctu_run ctu_new xs)) = snd (count_edges xs)"
proof (induction xs rule: rev_induct)
  case Nil
  then show ?case by (simp add: ctu_run_def count_edges_def ctu_new_def)
next
  case (snoc x xs)
  obtain cu r pv where x: "x = (cu, r, pv)" by (cases x)
  have "ctu_run ctu_new (xs @ [x]) = fst (ctu_eval (ctu_run ctu_new xs) cu r pv)"
    by (simp add: ctu_run_def x)
  moreover have "count_edges (xs @ [x]) = (cu, if r then 0
      else if cu \<and> \<not> fst (count_edges xs) then min (snd (count_edges xs) + 1) (2 ^ 31 - 1)
      else snd (count_edges xs))"
    by (auto simp: count_edges_def x split: prod.splits)
  ultimately show ?case
    using snoc.IH sint_i32_range [of "ctu_cv (ctu_run ctu_new xs)"]
    by (auto simp: ctu_eval_def Let_def sint_ssat_inc sint_smax_i32)
qed

subsection \<open>PID: the pool's default controller never panics and stays in its range\<close>

text \<open>Every instance of a \<open>PrimitiveStore\<close> starts as \<open>Pid::default\<close> and no operation of the
  program changes gains or limits.\<close>

definition pid_ok :: "pid \<Rightarrow> bool" where
  "pid_ok p \<longleftrightarrow> pid_ki p = 0 \<and> pid_out_min p = F_M100 \<and> pid_out_max p = F_100
     \<and> \<not> f32_lt (pid_out p) F_M100 \<and> \<not> f32_lt F_100 (pid_out p)"

lemma f32_limits: "f32_le F_M100 F_100"
  by (simp add: F_M100_def F_100_def fle_def flt_def fdecode_def f32_fmt_def is_nan_val_def
      fqmin_def fbias_def fin_less_def sgnd_def Let_def)

lemma f32_zero_in_limits: "\<not> f32_lt 0 F_M100" "\<not> f32_lt F_100 0"
  by (simp_all add: F_M100_def F_100_def flt_def fdecode_def f32_fmt_def
      fqmin_def fbias_def fin_less_def sgnd_def Let_def)

lemma ki_or_one_zero: "pid_ki p = 0 \<Longrightarrow> ki_or_one p = F_ONE"
  by (simp add: ki_or_one_def F_EPSILON_def fabs_def flt_def fdecode_def f32_fmt_def
      fqmin_def fbias_def fin_less_def sgnd_def Let_def)

lemma f32_limits_div_one: "f32_div F_M100 F_ONE = F_M100" "f32_div F_100 F_ONE = F_100"
  by (code_simp, code_simp)

lemma pid_ok_default: "pid_ok pid_default"
  by (simp add: pid_ok_def pid_default_def pid_new_def f32_zero_in_limits)

lemma pid_ok_cold_reset: "pid_ok p \<Longrightarrow> pid_ok (pid_cold_reset p)"
  by (simp add: pid_ok_def pid_cold_reset_def f32_zero_in_limits)

lemma f32_clamp_limits:
  obtains y where "f32_clamp x F_M100 F_100 = Some y" "\<not> f32_lt y F_M100" "\<not> f32_lt F_100 y"
  using fclamp_Some_iff [of f32_fmt x F_M100 F_100] f32_limits fclamp_bounds by blast

lemma pid_eval_ok:
  assumes "pid_ok p"
  shows "\<exists>p' out. pid_eval p pv sp en now = Some (p', out) \<and> pid_ok p' \<and> pid_out p' = out"
proof -
  have c: "\<exists>y. f32_clamp x F_M100 F_100 = Some y \<and> \<not> f32_lt y F_M100 \<and> \<not> f32_lt F_100 y" for x
    using f32_clamp_limits by blast
  define err where "err = f32_sub sp pv"
  define dt where "dt = (if pid_initialized p
      then f32_div (f32_of_int (uint (sat_sub now (pid_last_now_ms p)))) F_1000 else 0)"
  obtain i where i: "f32_clamp (f32_add (pid_integral p) (f32_mul err dt)) F_M100 F_100 = Some i"
    using c by blast
  obtain o1 where o1: "f32_clamp (f32_add (f32_add (f32_mul (pid_kp p) err) (f32_mul 0 i))
        (f32_div (f32_mul (pid_kd p) (f32_sub err (pid_last_err p))) dt)) F_M100 F_100 = Some o1"
    "\<not> f32_lt o1 F_M100" "\<not> f32_lt F_100 o1" using c by blast
  obtain o2 where o2: "f32_clamp (f32_mul (pid_kp p) err) F_M100 F_100 = Some o2"
    "\<not> f32_lt o2 F_M100" "\<not> f32_lt F_100 o2" using c by blast
  show ?thesis
    using assms i o1 o2
    by (auto simp: pid_eval_def Let_def pid_ok_def ki_or_one_zero f32_limits_div_one
        simp flip: err_def dt_def)
qed

lemma pid_eval_total: "pid_ok p \<Longrightarrow> \<exists>p' out. pid_eval p pv sp en now = Some (p', out)"
  using pid_eval_ok [of p pv sp en now] by auto

lemma pid_eval_pres: "pid_ok p \<Longrightarrow> pid_eval p pv sp en now = Some (p', out) \<Longrightarrow> pid_ok p'"
  using pid_eval_ok [of p pv sp en now] by auto

end
