(* ===== verification/IrCore.thy ===== *)
theory IrCore
  imports Prelude
begin

unbundle bit_operations_syntax

section \<open>IR v0.1: types, opcodes, instruction words (\<open>plc-ir\<close>)\<close>

text \<open>
  \<open>src/crates/plc-ir/src/value.rs\<close>, \<open>opcode.rs\<close>, \<open>encode.rs\<close>, \<open>module.rs\<close> and \<open>error.rs\<close>:
  the type tags, the opcode and primitive catalogs with their numbers and names, the module
  record, and the encoding of instructions as little-endian 32-bit words. An enum
  discriminant is a function into the word type (\<open>opcode_u8\<close>), the decoding match an
  association table.
\<close>

subsection \<open>Errors\<close>

datatype ir_error =
    IrAsm nat string
  | IrSpbc string
  | IrUnknown string u8
  | IrRetainLayout string

datatype verify_error = VerifyRule nat string

subsection \<open>Value types\<close>

datatype ir_type = TBool | TInt | TDint | TReal | TTime | TLint

primrec ir_type_u8 :: "ir_type \<Rightarrow> u8" where
  "ir_type_u8 TBool = 0"
| "ir_type_u8 TInt = 1"
| "ir_type_u8 TDint = 2"
| "ir_type_u8 TReal = 3"
| "ir_type_u8 TTime = 4"
| "ir_type_u8 TLint = 5"

definition ir_type_from_u8 :: "u8 \<Rightarrow> ir_type option" where
  "ir_type_from_u8 v =
     map_of [(0, TBool), (1, TInt), (2, TDint), (3, TReal), (4, TTime), (5, TLint)] v"

definition is_numeric :: "ir_type \<Rightarrow> bool" where
  "is_numeric t \<longleftrightarrow> t \<in> {TInt, TDint, TReal, TTime, TLint}"

definition is_integral :: "ir_type \<Rightarrow> bool" where
  "is_integral t \<longleftrightarrow> t \<in> {TBool, TInt, TDint, TTime, TLint}"

primrec byte_width :: "ir_type \<Rightarrow> nat" where
  "byte_width TBool = 1"
| "byte_width TInt = 2"
| "byte_width TDint = 4"
| "byte_width TReal = 4"
| "byte_width TTime = 4"
| "byte_width TLint = 8"

subsection \<open>Opcodes and primitive function blocks\<close>

datatype opcode =
    OpNop | OpHalt | OpPushIDint | OpPushIReal | OpPushIBool | OpPushTime
  | OpLdData | OpStData | OpLdRetain | OpStRetain | OpLdI | OpStQ | OpLdQ | OpLdIq
  | OpAdd | OpSub | OpMul | OpDiv | OpNeg | OpAnd | OpOr | OpXor | OpNot
  | OpEq | OpNe | OpLt | OpLe | OpGt | OpGe
  | OpJmp | OpJmpIf | OpJmpIfNot | OpCallFb | OpRet | OpConv

primrec opcode_u8 :: "opcode \<Rightarrow> u8" where
  "opcode_u8 OpNop = 0x00"
| "opcode_u8 OpHalt = 0x01"
| "opcode_u8 OpPushIDint = 0x02"
| "opcode_u8 OpPushIReal = 0x03"
| "opcode_u8 OpPushIBool = 0x04"
| "opcode_u8 OpPushTime = 0x05"
| "opcode_u8 OpLdData = 0x10"
| "opcode_u8 OpStData = 0x11"
| "opcode_u8 OpLdRetain = 0x12"
| "opcode_u8 OpStRetain = 0x13"
| "opcode_u8 OpLdI = 0x14"
| "opcode_u8 OpStQ = 0x15"
| "opcode_u8 OpLdQ = 0x16"
| "opcode_u8 OpLdIq = 0x17"
| "opcode_u8 OpAdd = 0x20"
| "opcode_u8 OpSub = 0x21"
| "opcode_u8 OpMul = 0x22"
| "opcode_u8 OpDiv = 0x23"
| "opcode_u8 OpNeg = 0x24"
| "opcode_u8 OpAnd = 0x28"
| "opcode_u8 OpOr = 0x29"
| "opcode_u8 OpXor = 0x2A"
| "opcode_u8 OpNot = 0x2B"
| "opcode_u8 OpEq = 0x30"
| "opcode_u8 OpNe = 0x31"
| "opcode_u8 OpLt = 0x32"
| "opcode_u8 OpLe = 0x33"
| "opcode_u8 OpGt = 0x34"
| "opcode_u8 OpGe = 0x35"
| "opcode_u8 OpJmp = 0x40"
| "opcode_u8 OpJmpIf = 0x41"
| "opcode_u8 OpJmpIfNot = 0x42"
| "opcode_u8 OpCallFb = 0x50"
| "opcode_u8 OpRet = 0x51"
| "opcode_u8 OpConv = 0x60"

definition opcode_from_u8 :: "u8 \<Rightarrow> opcode option" where
  "opcode_from_u8 v = map_of
     [(0x00, OpNop), (0x01, OpHalt), (0x02, OpPushIDint), (0x03, OpPushIReal),
      (0x04, OpPushIBool), (0x05, OpPushTime), (0x10, OpLdData), (0x11, OpStData),
      (0x12, OpLdRetain), (0x13, OpStRetain), (0x14, OpLdI), (0x15, OpStQ),
      (0x16, OpLdQ), (0x17, OpLdIq), (0x20, OpAdd), (0x21, OpSub), (0x22, OpMul),
      (0x23, OpDiv), (0x24, OpNeg), (0x28, OpAnd), (0x29, OpOr), (0x2A, OpXor),
      (0x2B, OpNot), (0x30, OpEq), (0x31, OpNe), (0x32, OpLt), (0x33, OpLe),
      (0x34, OpGt), (0x35, OpGe), (0x40, OpJmp), (0x41, OpJmpIf), (0x42, OpJmpIfNot),
      (0x50, OpCallFb), (0x51, OpRet), (0x60, OpConv)] v"

primrec mnemonic :: "opcode \<Rightarrow> string" where
  "mnemonic OpNop = ''NOP''"
| "mnemonic OpHalt = ''HALT''"
| "mnemonic OpPushIDint = ''PUSHI_DINT''"
| "mnemonic OpPushIReal = ''PUSHI_REAL''"
| "mnemonic OpPushIBool = ''PUSHI_BOOL''"
| "mnemonic OpPushTime = ''PUSH_TIME''"
| "mnemonic OpLdData = ''LD_DATA''"
| "mnemonic OpStData = ''ST_DATA''"
| "mnemonic OpLdRetain = ''LD_RETAIN''"
| "mnemonic OpStRetain = ''ST_RETAIN''"
| "mnemonic OpLdI = ''LD_I''"
| "mnemonic OpStQ = ''ST_Q''"
| "mnemonic OpLdQ = ''LD_Q''"
| "mnemonic OpLdIq = ''LD_IQ''"
| "mnemonic OpAdd = ''ADD''"
| "mnemonic OpSub = ''SUB''"
| "mnemonic OpMul = ''MUL''"
| "mnemonic OpDiv = ''DIV''"
| "mnemonic OpNeg = ''NEG''"
| "mnemonic OpAnd = ''AND''"
| "mnemonic OpOr = ''OR''"
| "mnemonic OpXor = ''XOR''"
| "mnemonic OpNot = ''NOT''"
| "mnemonic OpEq = ''EQ''"
| "mnemonic OpNe = ''NE''"
| "mnemonic OpLt = ''LT''"
| "mnemonic OpLe = ''LE''"
| "mnemonic OpGt = ''GT''"
| "mnemonic OpGe = ''GE''"
| "mnemonic OpJmp = ''JMP''"
| "mnemonic OpJmpIf = ''JMP_IF''"
| "mnemonic OpJmpIfNot = ''JMP_IF_NOT''"
| "mnemonic OpCallFb = ''CALL_FB''"
| "mnemonic OpRet = ''RET''"
| "mnemonic OpConv = ''CONV''"

definition from_mnemonic :: "string \<Rightarrow> opcode option" where
  "from_mnemonic s = map_of
     [(''NOP'', OpNop), (''HALT'', OpHalt), (''PUSHI_DINT'', OpPushIDint),
      (''PUSHI_REAL'', OpPushIReal), (''PUSHI_BOOL'', OpPushIBool), (''PUSH_TIME'', OpPushTime),
      (''LD_DATA'', OpLdData), (''ST_DATA'', OpStData), (''LD_RETAIN'', OpLdRetain),
      (''ST_RETAIN'', OpStRetain), (''LD_I'', OpLdI), (''ST_Q'', OpStQ), (''LD_Q'', OpLdQ),
      (''LD_IQ'', OpLdIq), (''ADD'', OpAdd), (''SUB'', OpSub), (''MUL'', OpMul),
      (''DIV'', OpDiv), (''NEG'', OpNeg), (''AND'', OpAnd), (''OR'', OpOr), (''XOR'', OpXor),
      (''NOT'', OpNot), (''EQ'', OpEq), (''NE'', OpNe), (''LT'', OpLt), (''LE'', OpLe),
      (''GT'', OpGt), (''GE'', OpGe), (''JMP'', OpJmp), (''JMP_IF'', OpJmpIf),
      (''JMP_IF_NOT'', OpJmpIfNot), (''CALL_FB'', OpCallFb), (''RET'', OpRet),
      (''CONV'', OpConv)] (to_ascii_uppercase s)"

datatype primitive_id =
    PrimTon | PrimTof | PrimTp | PrimCtu | PrimCtd | PrimRs | PrimSr | PrimRTrig | PrimFTrig
  | PrimPid

primrec primitive_u32 :: "primitive_id \<Rightarrow> u32" where
  "primitive_u32 PrimTon = 1"
| "primitive_u32 PrimTof = 2"
| "primitive_u32 PrimTp = 3"
| "primitive_u32 PrimCtu = 4"
| "primitive_u32 PrimCtd = 5"
| "primitive_u32 PrimRs = 6"
| "primitive_u32 PrimSr = 7"
| "primitive_u32 PrimRTrig = 8"
| "primitive_u32 PrimFTrig = 9"
| "primitive_u32 PrimPid = 10"

definition primitive_from_name :: "string \<Rightarrow> primitive_id option" where
  "primitive_from_name s = map_of
     [(''TON'', PrimTon), (''TOF'', PrimTof), (''TP'', PrimTp), (''CTU'', PrimCtu),
      (''CTD'', PrimCtd), (''RS'', PrimRs), (''SR'', PrimSr), (''R_TRIG'', PrimRTrig),
      (''RTRIG'', PrimRTrig), (''F_TRIG'', PrimFTrig), (''FTRIG'', PrimFTrig),
      (''PID'', PrimPid)] (to_ascii_uppercase s)"

primrec primitive_name :: "primitive_id \<Rightarrow> string" where
  "primitive_name PrimTon = ''TON''"
| "primitive_name PrimTof = ''TOF''"
| "primitive_name PrimTp = ''TP''"
| "primitive_name PrimCtu = ''CTU''"
| "primitive_name PrimCtd = ''CTD''"
| "primitive_name PrimRs = ''RS''"
| "primitive_name PrimSr = ''SR''"
| "primitive_name PrimRTrig = ''R_TRIG''"
| "primitive_name PrimFTrig = ''F_TRIG''"
| "primitive_name PrimPid = ''PID''"

primrec input_count :: "primitive_id \<Rightarrow> nat" where
  "input_count PrimTon = 2"
| "input_count PrimTof = 2"
| "input_count PrimTp = 2"
| "input_count PrimCtu = 3"
| "input_count PrimCtd = 3"
| "input_count PrimRs = 2"
| "input_count PrimSr = 2"
| "input_count PrimRTrig = 1"
| "input_count PrimFTrig = 1"
| "input_count PrimPid = 3"

primrec output_count :: "primitive_id \<Rightarrow> nat" where
  "output_count PrimTon = 2"
| "output_count PrimTof = 2"
| "output_count PrimTp = 2"
| "output_count PrimCtu = 2"
| "output_count PrimCtd = 2"
| "output_count PrimRs = 1"
| "output_count PrimSr = 1"
| "output_count PrimRTrig = 1"
| "output_count PrimFTrig = 1"
| "output_count PrimPid = 1"

text \<open>The match on a numeric primitive id that the verifier and the VM both spell out.\<close>

definition primitive_of_id :: "u32 \<Rightarrow> primitive_id option" where
  "primitive_of_id n = map_of
     [(1, PrimTon), (2, PrimTof), (3, PrimTp), (4, PrimCtu), (5, PrimCtd), (6, PrimRs),
      (7, PrimSr), (8, PrimRTrig), (9, PrimFTrig), (10, PrimPid)] n"

subsection \<open>Modules\<close>

definition IR_MAJOR :: u16 where "IR_MAJOR = 0"

definition IR_MINOR :: u16 where "IR_MINOR = 1"

definition SPBC_MAGIC :: bytes where "SPBC_MAGIC = str_bytes ''SPBC''"

record entry_point =
  ep_name :: string
  ep_pc :: u32
  ep_is_user_fb :: bool

record ir_module =
  ir_major :: u16
  ir_minor :: u16
  const_size :: u32
  data_size :: u32
  retain_size :: u32
  input_slots :: u32
  output_slots :: u32
  entries :: "entry_point list"
  const_data :: bytes
  code :: bytes

subsection \<open>Instruction words\<close>

datatype decoded_instr =
    Simple opcode u32
  | WithImm32 opcode u32 u32
  | CallFb u32 u32 u32

definition pack_word :: "opcode \<Rightarrow> u32 \<Rightarrow> u32" where
  "pack_word op payload = (push_bit 24 (ucast (opcode_u8 op))) OR (payload AND 0x00FFFFFF)"

fun encode_instruction :: "decoded_instr \<Rightarrow> bytes" where
  "encode_instruction (Simple op payload) = le_bytes 4 (pack_word op payload)"
| "encode_instruction (WithImm32 op payload imm) =
     le_bytes 4 (pack_word op payload) @ le_bytes 4 imm"
| "encode_instruction (CallFb fb_kind fb_id instance_base) =
     le_bytes 4 (pack_word OpCallFb 0)
     @ le_bytes 4 (push_bit 24 (fb_kind AND 0xFF) OR (fb_id AND 0x00FFFFFF))
     @ le_bytes 4 instance_base"

definition u32_at :: "bytes \<Rightarrow> nat \<Rightarrow> u32" where
  "u32_at c i = of_le_bytes (slice i (i + 4) c)"

definition decode_instruction :: "bytes \<Rightarrow> nat \<Rightarrow> ir_error + (decoded_instr \<times> nat)" where
  "decode_instruction c pc =
     (if length c < pc + 4 then Inl (IrSpbc ''truncated decode OOB'')
      else let word = u32_at c pc;
               op_byte = ucast (drop_bit 24 word) :: u8;
               payload = word AND 0x00FFFFFF
           in rbind (ok_or (opcode_from_u8 op_byte) (IrUnknown ''opcode'' op_byte)) (\<lambda>op.
                if op \<in> {OpPushIDint, OpPushIReal, OpPushTime} then
                  (if length c < pc + 8 then Inl (IrSpbc ''missing imm32'')
                   else Inr (WithImm32 op payload (u32_at c (pc + 4)), 8))
                else if op = OpCallFb then
                  (if length c < pc + 12 then Inl (IrSpbc ''CALL_FB missing operands'')
                   else let w1 = u32_at c (pc + 4); base = u32_at c (pc + 8)
                        in Inr (CallFb (drop_bit 24 w1 AND 0xFF) (w1 AND 0x00FFFFFF) base, 12))
                else Inr (Simple op payload, 4)))"

text \<open>
  The instructions the encoder is meant for: the wide opcodes in their wide form, every
  payload within its 24 bits and the block kind within its 8.
\<close>

fun wf_instr :: "decoded_instr \<Rightarrow> bool" where
  "wf_instr (Simple op payload) \<longleftrightarrow>
     op \<notin> {OpPushIDint, OpPushIReal, OpPushTime, OpCallFb} \<and> payload < 0x1000000"
| "wf_instr (WithImm32 op payload imm) \<longleftrightarrow>
     op \<in> {OpPushIDint, OpPushIReal, OpPushTime} \<and> payload < 0x1000000"
| "wf_instr (CallFb fb_kind fb_id instance_base) \<longleftrightarrow> fb_kind < 0x100 \<and> fb_id < 0x1000000"

subsection \<open>Codes and names are inverse\<close>

lemma ir_type_roundtrip [simp]: "ir_type_from_u8 (ir_type_u8 t) = Some t"
  by (cases t) (simp_all add: ir_type_from_u8_def)

lemma ir_type_u8_small: "unat (ir_type_u8 t) \<le> 5"
  by (cases t) simp_all

lemma byte_width_pos [simp]: "0 < byte_width t"
  by (cases t) simp_all

lemma byte_width_le_8: "byte_width t \<le> 8"
  by (cases t) simp_all

lemma opcode_roundtrip [simp]: "opcode_from_u8 (opcode_u8 op) = Some op"
  by (cases op) (simp_all add: opcode_from_u8_def)

declare opcode_u8.simps [simp del]

lemma mnemonic_roundtrip: "from_mnemonic (mnemonic op) = Some op"
  by (cases op) (simp_all add: from_mnemonic_def to_ascii_uppercase_def ascii_upper_def Let_def)

lemma primitive_name_roundtrip: "primitive_from_name (primitive_name p) = Some p"
  by (cases p) (simp_all add: primitive_from_name_def to_ascii_uppercase_def ascii_upper_def Let_def)

lemma primitive_of_id_roundtrip [simp]: "primitive_of_id (primitive_u32 p) = Some p"
  by (cases p) (simp_all add: primitive_of_id_def)

subsection \<open>Instruction words\<close>

lemma mask24: "(0x00FFFFFF :: u32) = mask 24"
  by (simp add: mask_eq_exp_minus_1)

lemma mask8: "(0xFF :: u32) = mask 8"
  by (simp add: mask_eq_exp_minus_1)

lemma and_mask24_id: "p < 0x1000000 \<Longrightarrow> p AND 0x00FFFFFF = (p :: u32)"
  using less_mask_eq [of p 24] by (simp add: mask24)

lemma and_mask8_id: "p < 0x100 \<Longrightarrow> p AND 0xFF = (p :: u32)"
  using less_mask_eq [of p 8] by (simp add: mask8)

lemma pack_hi: "drop_bit 24 (push_bit 24 a OR (p AND 0x00FFFFFF)) = (a AND 0xFF :: u32)"
  unfolding mask24 mask8 by (rule bit_word_eqI) (auto simp: bit_simps)

lemma pack_lo: "(push_bit 24 a OR (p AND 0x00FFFFFF)) AND 0x00FFFFFF = (p AND 0x00FFFFFF :: u32)"
  unfolding mask24 by (rule bit_word_eqI) (auto simp: bit_simps)

lemma ucast_u8_and: "(ucast (b :: u8) AND 0xFF :: u32) = ucast b"
  unfolding mask8 by (rule bit_word_eqI) (auto simp: bit_simps dest: bit_imp_le_length)

lemma ucast_ucast_u8: "ucast (ucast (b :: u8) :: u32) = b"
  by (rule bit_word_eqI) (auto simp: bit_simps)

lemma pack_word_opcode: "ucast (drop_bit 24 (pack_word op p)) = opcode_u8 op"
  by (simp only: pack_word_def pack_hi ucast_u8_and ucast_ucast_u8)

lemma pack_word_payload: "pack_word op p AND 0x00FFFFFF = p AND 0x00FFFFFF"
  by (simp only: pack_word_def pack_lo)

lemma length_encode_instruction:
  "length (encode_instruction i) = (case i of Simple _ _ \<Rightarrow> 4 | WithImm32 _ _ _ \<Rightarrow> 8 | CallFb _ _ _ \<Rightarrow> 12)"
  by (cases i) simp_all

lemma u32_at_append: "i + 4 \<le> length xs \<Longrightarrow> u32_at (xs @ ys) i = u32_at xs i"
  by (simp add: u32_at_def slice_append_left)

lemma u32_at_skip: "u32_at (pre @ xs) (length pre + i) = u32_at xs i"
  by (simp add: u32_at_def slice_append_right)

lemma u32_at_le: "u32_at (le_bytes 4 (w :: u32) @ xs) 0 = w"
  by (simp add: u32_at_append) (simp add: u32_at_def slice_0)

lemma u32_at_le4: "u32_at (le_bytes 4 (v :: u32) @ le_bytes 4 w @ xs) 4 = w"
  using u32_at_skip [of "le_bytes 4 v" "le_bytes 4 w @ xs" 0] by (simp add: u32_at_le)

lemma u32_at_le8: "u32_at (le_bytes 4 (u :: u32) @ le_bytes 4 (v :: u32) @ le_bytes 4 w @ xs) 8 = w"
  using u32_at_skip [of "le_bytes 4 u @ le_bytes 4 v" "le_bytes 4 w @ xs" 0] by (simp add: u32_at_le)

lemma decode_skip: "decode_instruction (pre @ xs) (length pre + pc) = decode_instruction xs pc"
proof -
  have "u32_at (pre @ xs) (length pre + pc + k) = u32_at xs (pc + k)" for k
    using u32_at_skip [of pre xs "pc + k"] by (simp add: add.assoc)
  moreover have "length (pre @ xs) < length pre + pc + k \<longleftrightarrow> length xs < pc + k" for k
    by simp
  ultimately show ?thesis
    unfolding decode_instruction_def by (simp only: u32_at_skip)
qed

lemmas decode_word_simps =
  u32_at_le u32_at_le4 u32_at_le8 pack_word_opcode pack_word_payload and_mask24_id and_mask8_id
  pack_hi pack_lo

lemma call_word:
  assumes "k < 0x100" "d < 0x1000000"
  shows "drop_bit 24 (push_bit 24 (k AND 0xFF) OR (d AND 0x00FFFFFF)) AND 0xFF = (k :: u32)"
    "(push_bit 24 (k AND 0xFF) OR (d AND 0x00FFFFFF)) AND 0x00FFFFFF = d"
  by (metis pack_hi and_mask8_id assms(1)) (metis pack_lo and_mask24_id assms(2))

lemma decode_encode_0:
  assumes "wf_instr i"
  shows "decode_instruction (encode_instruction i @ rest) 0 = Inr (i, length (encode_instruction i))"
proof (cases i)
  case (Simple op p)
  then show ?thesis using assms
    by (simp add: decode_instruction_def Let_def decode_word_simps)
next
  case (WithImm32 op p imm)
  then show ?thesis using assms
    by (simp add: decode_instruction_def Let_def decode_word_simps)
next
  case (CallFb k d b)
  define w where "w = push_bit 24 (k AND 0xFF) OR (d AND 0x00FFFFFF)"
  have "drop_bit 24 w AND 0xFF = k" "w AND 0x00FFFFFF = d"
    using assms CallFb by (simp_all only: w_def wf_instr.simps call_word)
  moreover have "encode_instruction i = le_bytes 4 (pack_word OpCallFb 0) @ le_bytes 4 w @ le_bytes 4 b"
    by (simp only: CallFb encode_instruction.simps w_def)
  ultimately show ?thesis using CallFb
    by (simp add: decode_instruction_def Let_def decode_word_simps)
qed

text \<open>Decoding an encoded instruction, at any offset of a code segment.\<close>

lemma decode_encode_at:
  assumes "wf_instr i"
  shows "decode_instruction (pre @ encode_instruction i @ rest) (length pre)
           = Inr (i, length (encode_instruction i))"
  using decode_skip [of pre "encode_instruction i @ rest" 0] decode_encode_0 [OF assms] by simp

lemma decode_size_pos: "decode_instruction c pc = Inr (i, n) \<Longrightarrow> 4 \<le> n \<and> pc + n \<le> length c"
  by (auto simp: decode_instruction_def Let_def rbind_eq_Inr ok_or_eq_Inr split: if_splits)

end
