(* ===== verification/FbDispatch.thy ===== *)
theory FbDispatch
  imports FbBlocks IrCore
begin

section \<open>Primitive instances and dispatch (\<open>plc-fb-primitives/src/dispatch.rs\<close>)\<close>

text \<open>
  The pools of block instances of one program image, and \<open>call_primitive\<close>, which picks the
  instance, checks the argument types and evaluates the block. \<open>PrimPanic\<close> stands for the
  unwinding panic of \<open>f32::clamp\<close> inside the PID block; it is not a value of
  \<open>PrimitiveCallError\<close>, and \<open>call_primitive_no_panic\<close> shows that it cannot happen.
  The outputs are the first \<open>count\<close> entries of the code's four-element array.
\<close>

subsection \<open>Definitions\<close>

datatype primitive_call_error = PrimBadInstance | PrimArity nat nat | PrimTypeMismatch | PrimPanic

datatype stack_value = SvBool bool | SvDint i32 | SvReal f32

primrec sv_as_bool :: "stack_value \<Rightarrow> bool option" where
  "sv_as_bool (SvBool b) = Some b"
| "sv_as_bool (SvDint v) = None"
| "sv_as_bool (SvReal v) = None"

primrec sv_as_dint :: "stack_value \<Rightarrow> i32 option" where
  "sv_as_dint (SvBool b) = Some (if b then 1 else 0)"
| "sv_as_dint (SvDint v) = Some v"
| "sv_as_dint (SvReal v) = None"

primrec sv_as_real :: "stack_value \<Rightarrow> f32 option" where
  "sv_as_real (SvBool b) = Some (if b then F_ONE else 0)"
| "sv_as_real (SvDint v) = Some (f32_of_int (sint v))"
| "sv_as_real (SvReal v) = Some v"

record primitive_store =
  ps_ton :: "ton list"
  ps_tof :: "tof list"
  ps_tp :: "tp list"
  ps_ctu :: "ctu list"
  ps_ctd :: "ctd list"
  ps_rs :: "rs list"
  ps_sr :: "sr list"
  ps_r_trig :: "r_trig list"
  ps_f_trig :: "f_trig list"
  ps_pid :: "pid list"

definition store_with_capacity :: "nat \<Rightarrow> primitive_store" where
  "store_with_capacity n =
     \<lparr>ps_ton = replicate n ton_new, ps_tof = replicate n tof_new, ps_tp = replicate n tp_new,
      ps_ctu = replicate n ctu_new, ps_ctd = replicate n ctd_new, ps_rs = replicate n rs_new,
      ps_sr = replicate n sr_new, ps_r_trig = replicate n r_trig_new,
      ps_f_trig = replicate n f_trig_new, ps_pid = replicate n pid_default\<rparr>"

definition cold_reset_all :: "primitive_store \<Rightarrow> primitive_store" where
  "cold_reset_all st =
     \<lparr>ps_ton = map (\<lambda>_. ton_new) (ps_ton st), ps_tof = map (\<lambda>_. tof_new) (ps_tof st),
      ps_tp = map (\<lambda>_. tp_new) (ps_tp st), ps_ctu = map (\<lambda>_. ctu_new) (ps_ctu st),
      ps_ctd = map (\<lambda>_. ctd_new) (ps_ctd st), ps_rs = map (\<lambda>_. rs_new) (ps_rs st),
      ps_sr = map (\<lambda>_. sr_new) (ps_sr st), ps_r_trig = map (\<lambda>_. r_trig_new) (ps_r_trig st),
      ps_f_trig = map (\<lambda>_. f_trig_new) (ps_f_trig st), ps_pid = map pid_cold_reset (ps_pid st)\<rparr>"

definition instance_of :: "'a list \<Rightarrow> nat \<Rightarrow> primitive_call_error + 'a" where
  "instance_of pool i = ok_or (nth_opt pool i) PrimBadInstance"

definition arg :: "(stack_value \<Rightarrow> 'a option) \<Rightarrow> stack_value list \<Rightarrow> nat \<Rightarrow> primitive_call_error + 'a" where
  "arg conv inputs i = ok_or (conv (inputs ! i)) PrimTypeMismatch"

definition call_primitive ::
  "primitive_store \<Rightarrow> primitive_id \<Rightarrow> nat \<Rightarrow> stack_value list \<Rightarrow> u64
   \<Rightarrow> primitive_call_error + (primitive_store \<times> stack_value list)" where
  "call_primitive st prim i inputs now_ms =
     (if length inputs \<noteq> input_count prim then Inl (PrimArity (input_count prim) (length inputs))
      else case prim of
        PrimTon \<Rightarrow>
          rbind (instance_of (ps_ton st) i) (\<lambda>inst.
          rbind (arg sv_as_bool inputs 0) (\<lambda>inp.
          rbind (arg sv_as_dint inputs 1) (\<lambda>pt.
          let (inst', q, et) = ton_eval inst inp pt now_ms
          in Inr (st\<lparr>ps_ton := (ps_ton st)[i := inst']\<rparr>, [SvBool q, SvDint et]))))
      | PrimTof \<Rightarrow>
          rbind (instance_of (ps_tof st) i) (\<lambda>inst.
          rbind (arg sv_as_bool inputs 0) (\<lambda>inp.
          rbind (arg sv_as_dint inputs 1) (\<lambda>pt.
          let (inst', q, et) = tof_eval inst inp pt now_ms
          in Inr (st\<lparr>ps_tof := (ps_tof st)[i := inst']\<rparr>, [SvBool q, SvDint et]))))
      | PrimTp \<Rightarrow>
          rbind (instance_of (ps_tp st) i) (\<lambda>inst.
          rbind (arg sv_as_bool inputs 0) (\<lambda>inp.
          rbind (arg sv_as_dint inputs 1) (\<lambda>pt.
          let (inst', q, et) = tp_eval inst inp pt now_ms
          in Inr (st\<lparr>ps_tp := (ps_tp st)[i := inst']\<rparr>, [SvBool q, SvDint et]))))
      | PrimCtu \<Rightarrow>
          rbind (instance_of (ps_ctu st) i) (\<lambda>inst.
          rbind (arg sv_as_bool inputs 0) (\<lambda>cu.
          rbind (arg sv_as_bool inputs 1) (\<lambda>r.
          rbind (arg sv_as_dint inputs 2) (\<lambda>pv.
          let (inst', q, cv) = ctu_eval inst cu r pv
          in Inr (st\<lparr>ps_ctu := (ps_ctu st)[i := inst']\<rparr>, [SvBool q, SvDint cv])))))
      | PrimCtd \<Rightarrow>
          rbind (instance_of (ps_ctd st) i) (\<lambda>inst.
          rbind (arg sv_as_bool inputs 0) (\<lambda>cd.
          rbind (arg sv_as_bool inputs 1) (\<lambda>ld.
          rbind (arg sv_as_dint inputs 2) (\<lambda>pv.
          let (inst', q, cv) = ctd_eval inst cd ld pv
          in Inr (st\<lparr>ps_ctd := (ps_ctd st)[i := inst']\<rparr>, [SvBool q, SvDint cv])))))
      | PrimRs \<Rightarrow>
          rbind (instance_of (ps_rs st) i) (\<lambda>inst.
          rbind (arg sv_as_bool inputs 0) (\<lambda>s.
          rbind (arg sv_as_bool inputs 1) (\<lambda>r.
          let (inst', q) = rs_eval inst s r
          in Inr (st\<lparr>ps_rs := (ps_rs st)[i := inst']\<rparr>, [SvBool q]))))
      | PrimSr \<Rightarrow>
          rbind (instance_of (ps_sr st) i) (\<lambda>inst.
          rbind (arg sv_as_bool inputs 0) (\<lambda>s.
          rbind (arg sv_as_bool inputs 1) (\<lambda>r.
          let (inst', q) = sr_eval inst s r
          in Inr (st\<lparr>ps_sr := (ps_sr st)[i := inst']\<rparr>, [SvBool q]))))
      | PrimRTrig \<Rightarrow>
          rbind (instance_of (ps_r_trig st) i) (\<lambda>inst.
          rbind (arg sv_as_bool inputs 0) (\<lambda>clk.
          let (inst', q) = r_trig_eval inst clk
          in Inr (st\<lparr>ps_r_trig := (ps_r_trig st)[i := inst']\<rparr>, [SvBool q])))
      | PrimFTrig \<Rightarrow>
          rbind (instance_of (ps_f_trig st) i) (\<lambda>inst.
          rbind (arg sv_as_bool inputs 0) (\<lambda>clk.
          let (inst', q) = f_trig_eval inst clk
          in Inr (st\<lparr>ps_f_trig := (ps_f_trig st)[i := inst']\<rparr>, [SvBool q])))
      | PrimPid \<Rightarrow>
          rbind (instance_of (ps_pid st) i) (\<lambda>inst.
          rbind (arg sv_as_real inputs 0) (\<lambda>pv.
          rbind (arg sv_as_real inputs 1) (\<lambda>sp.
          rbind (arg sv_as_bool inputs 2) (\<lambda>en.
          rbind (ok_or (pid_eval inst pv sp en now_ms) PrimPanic) (\<lambda>(inst', out).
          Inr (st\<lparr>ps_pid := (ps_pid st)[i := inst']\<rparr>, [SvReal out])))))))"

subsection \<open>Pools keep their size, the controllers stay in range, nothing panics\<close>

definition store_ok :: "nat \<Rightarrow> primitive_store \<Rightarrow> bool" where
  "store_ok n st \<longleftrightarrow>
     length (ps_ton st) = n \<and> length (ps_tof st) = n \<and> length (ps_tp st) = n
     \<and> length (ps_ctu st) = n \<and> length (ps_ctd st) = n \<and> length (ps_rs st) = n
     \<and> length (ps_sr st) = n \<and> length (ps_r_trig st) = n \<and> length (ps_f_trig st) = n
     \<and> length (ps_pid st) = n \<and> list_all pid_ok (ps_pid st)"

lemma store_ok_with_capacity: "store_ok n (store_with_capacity n)"
  by (simp add: store_ok_def store_with_capacity_def list_all_length pid_ok_default)

lemma store_ok_cold_reset: "store_ok n st \<Longrightarrow> store_ok n (cold_reset_all st)"
  by (simp add: store_ok_def cold_reset_all_def list_all_length pid_ok_cold_reset)

lemma list_all_update: "list_all P xs \<Longrightarrow> P x \<Longrightarrow> list_all P (xs[i := x])"
  by (auto simp: list_all_iff dest: set_update_subset_insert [THEN subsetD])

lemma instance_of_eq_Inr: "instance_of pool i = Inr x \<longleftrightarrow> i < length pool \<and> x = pool ! i"
  by (auto simp: instance_of_def ok_or_eq_Inr nth_opt_eq_Some)

lemma call_pid_ok:
  assumes "store_ok n st"
  shows "call_primitive st PrimPid i inputs now \<noteq> Inl PrimPanic"
    and "call_primitive st PrimPid i inputs now = Inr (st', outs) \<Longrightarrow> store_ok n st' \<and> length outs = 1"
proof -
  have n: "length (ps_pid st) = n" and p: "pid_ok (ps_pid st ! i)" if "i < n"
    using that assms by (simp_all add: store_ok_def list_all_length)
  note s = call_primitive_def rbind_eq_Inr rbind_eq_Inl ok_or_eq_Inr ok_or_eq_Inl arg_def
  show "call_primitive st PrimPid i inputs now \<noteq> Inl PrimPanic"
    using assms p
    by (auto simp: s pid_eval_total instance_of_def nth_opt_eq_Some store_ok_def)
  show "store_ok n st' \<and> length outs = 1" if "call_primitive st PrimPid i inputs now = Inr (st', outs)"
    using that assms p
    by (auto simp: s instance_of_eq_Inr store_ok_def list_all_update dest: pid_eval_pres split: if_splits)
qed

lemma call_primitive_ok:
  assumes "store_ok n st"
  shows "call_primitive st p i inputs now \<noteq> Inl PrimPanic
    \<and> (\<forall>st' outs. call_primitive st p i inputs now = Inr (st', outs) \<longrightarrow>
         store_ok n st' \<and> length outs = output_count p)"
proof (cases "p = PrimPid")
  case True
  then show ?thesis using call_pid_ok [OF assms] by auto
next
  case False
  then show ?thesis
    using assms
    by (cases p) (auto simp: call_primitive_def Let_def rbind_eq_Inr rbind_eq_Inl ok_or_eq_Inl
        instance_of_def arg_def store_ok_def case_prod_unfold split: if_splits)
qed

lemmas call_primitive_store_ok = call_primitive_ok [THEN conjunct2, rule_format]

lemma call_primitive_no_panic: "store_ok n st \<Longrightarrow> call_primitive st p i inputs now \<noteq> Inl PrimPanic"
  using call_primitive_ok by blast

text \<open>Exactly when a call succeeds: the instance exists and every argument has its type.\<close>

primrec input_kinds :: "primitive_id \<Rightarrow> (stack_value \<Rightarrow> bool) list" where
  "input_kinds PrimTon = [\<lambda>v. sv_as_bool v \<noteq> None, \<lambda>v. sv_as_dint v \<noteq> None]"
| "input_kinds PrimTof = [\<lambda>v. sv_as_bool v \<noteq> None, \<lambda>v. sv_as_dint v \<noteq> None]"
| "input_kinds PrimTp = [\<lambda>v. sv_as_bool v \<noteq> None, \<lambda>v. sv_as_dint v \<noteq> None]"
| "input_kinds PrimCtu = [\<lambda>v. sv_as_bool v \<noteq> None, \<lambda>v. sv_as_bool v \<noteq> None, \<lambda>v. sv_as_dint v \<noteq> None]"
| "input_kinds PrimCtd = [\<lambda>v. sv_as_bool v \<noteq> None, \<lambda>v. sv_as_bool v \<noteq> None, \<lambda>v. sv_as_dint v \<noteq> None]"
| "input_kinds PrimRs = [\<lambda>v. sv_as_bool v \<noteq> None, \<lambda>v. sv_as_bool v \<noteq> None]"
| "input_kinds PrimSr = [\<lambda>v. sv_as_bool v \<noteq> None, \<lambda>v. sv_as_bool v \<noteq> None]"
| "input_kinds PrimRTrig = [\<lambda>v. sv_as_bool v \<noteq> None]"
| "input_kinds PrimFTrig = [\<lambda>v. sv_as_bool v \<noteq> None]"
| "input_kinds PrimPid = [\<lambda>v. sv_as_real v \<noteq> None, \<lambda>v. sv_as_real v \<noteq> None, \<lambda>v. sv_as_bool v \<noteq> None]"

lemma call_primitive_succeeds:
  assumes "store_ok n st" "i < n" "list_all2 (\<lambda>k v. k v) (input_kinds p) inputs"
  shows "\<exists>st' outs. call_primitive st p i inputs now = Inr (st', outs)"
proof (cases "p = PrimPid")
  case True
  then obtain pv sp en where "inputs = [pv, sp, en]" "sv_as_real pv \<noteq> None" "sv_as_real sp \<noteq> None"
    "sv_as_bool en \<noteq> None"
    using assms(3) by (auto simp: list_all2_Cons1)
  moreover have "pid_ok (ps_pid st ! i)" "length (ps_pid st) = n"
    using assms(1,2) by (auto simp: store_ok_def list_all_length)
  ultimately show ?thesis
    using True assms(2) pid_eval_total [of "ps_pid st ! i" "the (sv_as_real pv)" "the (sv_as_real sp)"
        "the (sv_as_bool en)" now]
    by (auto simp: call_primitive_def instance_of_def arg_def)
next
  case False
  then show ?thesis
    using assms
    by (cases p) (auto simp: list_all2_Cons1 call_primitive_def instance_of_def arg_def store_ok_def
        numeral_2_eq_2 numeral_3_eq_3 Let_def split: prod.splits)
qed

text \<open>A cold reset brings a store back to the state \<open>with_capacity\<close> builds, the gains apart.\<close>

lemma cold_reset_all_fresh:
  assumes "store_ok n st" "\<forall>p\<in>set (ps_pid st). pid_kp p = F_ONE \<and> pid_kd p = 0"
  shows "cold_reset_all st = store_with_capacity n"
proof -
  have "pid_cold_reset p = pid_default" if "p \<in> set (ps_pid st)" for p
    using that assms
    by (cases p) (auto simp: store_ok_def list_all_iff pid_ok_def pid_cold_reset_def pid_default_def pid_new_def)
  then have "map pid_cold_reset (ps_pid st) = map (\<lambda>_. pid_default) (ps_pid st)" by simp
  then show ?thesis
    using assms(1) by (simp add: cold_reset_all_def store_with_capacity_def store_ok_def map_replicate_const)
qed

end
