(* ===== verification/FbProps.thy ===== *)
theory FbProps
  imports FbDispatch
begin

section \<open>Properties of the function blocks\<close>

text \<open>
  What each block promises over a whole sequence of evaluations, oldest first, and that the
  dispatcher never fails on a call the verifier's arity and the argument types allow.
\<close>

text \<open>C31: after any sequence of evaluations of a fresh TON, its output is on exactly when the input
  has been on without interruption for at least PT, and ET is the time it has been on, at
  most PT.\<close>

theorem ton_correct:
  "let xs' = xs @ [(inp, pt, now)]; t = ton_run ton_new xs' in
     ton_q t = (case on_since xs' of None \<Rightarrow> False | Some t0 \<Rightarrow> time_pt pt \<le> unat now - unat t0)
     \<and> sint (ton_et t) = (case on_since xs' of None \<Rightarrow> 0 | Some t0 \<Rightarrow> int (min (unat now - unat t0) (time_pt pt)))"
  using ton_trace [OF refl] by (simp add: Let_def)

text \<open>C32: with a clock that does not run backwards, the output of a TOF is on exactly when the input
  is on or fell less than PT ago.\<close>

theorem tof_correct:
  assumes "sorted (map snd (xs @ [(inp, now)]))"
  shows "tof_q (tof_run pt tof_new (xs @ [(inp, now)])) = tof_on pt (off_since (xs @ [(inp, now)])) now"
  using tof_trace [OF assms] .

theorem tof_correct_witness:
  "sorted (map snd ([(True, 0), (False, 10)] @ [(False, 14 :: u64)]))
   \<and> tof_q (tof_run 5 tof_new ([(True, 0), (False, 10)] @ [(False, 14)]))
       = tof_on 5 (off_since ([(True, 0), (False, 10)] @ [(False, 14)])) 14"
proof -
  have s: "sorted (map snd ([(True, 0), (False, 10)] @ [(False, 14 :: u64)]))" by code_simp
  show ?thesis using tof_correct [OF s, of 5] s by blast
qed

text \<open>C33: a TP at rest that sees a rising edge at \<open>t0\<close> is on for every evaluation before \<open>t0 + PT\<close>,
  whatever the input does meanwhile, and off at the first evaluation from then on.\<close>

theorem tp_correct:
  assumes "\<not> tp_running t" "\<not> tp_prev_in t" "0 < time_pt pt"
    and "\<forall>(inp, now)\<in>set xs. unat now - unat t0 < time_pt pt"
    and "time_pt pt \<le> unat t1 - unat t0"
  shows "tp_q (tp_run pt t ((True, t0) # xs)) \<and> \<not> tp_q (tp_run pt t ((True, t0) # xs @ [(inp, t1)]))"
  using tp_trace [OF assms] by blast

theorem tp_correct_witness:
  "tp_q (tp_run 5 tp_new ((True, 3) # [(False, 4), (True, 6)]))
   \<and> \<not> tp_q (tp_run 5 tp_new ((True, 3) # [(False, 4), (True, 6)] @ [(True, 8)]))"
  by (rule tp_correct) (simp_all add: tp_new_def time_pt_def)

text \<open>After any sequence of evaluations of a fresh CTU, the count is the number of rising edges of
  CU since the last reset, saturated at the largest DINT, and the output compares it to PV.\<close>

lemma ctu_correct:
  "let xs' = xs @ [(cu, r, pv)]; c = ctu_run ctu_new xs' in
     sint (ctu_cv c) = snd (count_edges xs') \<and> ctu_q c = (sint pv \<le> snd (count_edges xs'))"
proof -
  have "ctu_q (ctu_run ctu_new (xs @ [(cu, r, pv)])) = (sint pv \<le> sint (ctu_cv (ctu_run ctu_new (xs @ [(cu, r, pv)]))))"
    by (simp add: ctu_run_def ctu_eval_def Let_def)
  then show ?thesis using ctu_trace [of "xs @ [(cu, r, pv)]"] by (simp add: Let_def)
qed




text \<open>Any sequence of calls; a call that fails leaves the pools as they are.\<close>

definition prim_calls ::
  "primitive_store \<Rightarrow> (primitive_id \<times> nat \<times> stack_value list \<times> u64) list \<Rightarrow> primitive_store" where
  "prim_calls st cs = foldl (\<lambda>st (p, i, ins, now).
     case call_primitive st p i ins now of Inl _ \<Rightarrow> st | Inr (st', _) \<Rightarrow> st') st cs"

lemma prim_calls_ok: "store_ok n st \<Longrightarrow> store_ok n (prim_calls st cs)"
  unfolding prim_calls_def
  by (induction cs arbitrary: st) (auto split: sum.splits prod.splits dest: call_primitive_store_ok)

text \<open>C35: after any sequence of calls on the pools of a program image, a call on an existing instance
  whose arguments have the types of the block succeeds, yields the declared number of
  outputs, and keeps every pool at its size.\<close>

theorem primitive_call_total:
  assumes "i < n" "list_all2 (\<lambda>k v. k v) (input_kinds p) inputs"
  shows "\<exists>st' outs. call_primitive (prim_calls (store_with_capacity n) cs) p i inputs now = Inr (st', outs)
    \<and> length outs = output_count p \<and> store_ok n st'"
proof -
  have s: "store_ok n (prim_calls (store_with_capacity n) cs)"
    by (rule prim_calls_ok) (rule store_ok_with_capacity)
  show ?thesis using call_primitive_succeeds [OF s assms] call_primitive_store_ok [OF s] by blast
qed

theorem primitive_call_total_witness:
  "1 < (2 :: nat) \<and> list_all2 (\<lambda>k v. k v) (input_kinds PrimTon) [SvBool True, SvDint 500]
   \<and> (\<exists>st' outs. call_primitive (prim_calls (store_with_capacity 2) [(PrimTon, 1, [SvBool False, SvDint 500], 7)])
          PrimTon 1 [SvBool True, SvDint 500] 10 = Inr (st', outs)
        \<and> length outs = output_count PrimTon \<and> store_ok 2 st')"
proof -
  have k: "list_all2 (\<lambda>k v. k v) (input_kinds PrimTon) [SvBool True, SvDint 500]" by auto
  show ?thesis
    using primitive_call_total [of 1 2, OF _ k, of "[(PrimTon, 1, [SvBool False, SvDint 500], 7)]" 10] k by simp
qed

end
