(* ===== verification/PlcTypes.thy ===== *)
theory PlcTypes
  imports Prelude
begin

section \<open>Shared enums: \<open>plc-types\<close>\<close>

text \<open>
  Operating mode, program phase, quality and image region of \<open>src/crates/plc-types\<close>, with
  their wire encodings. A formatted error text is represented by its constant part
  throughout the development: the interpolated values are left out.
\<close>

subsection \<open>Modes, phases, qualities, regions\<close>

datatype operating_mode = Stop | Run | Fault | Sim

datatype program_phase = Idle | Validating | Armed | Swapping

datatype quality = Good | Uncertain | Bad

datatype image_region = RInput | ROutput | RMemory | RRetain

primrec mode_as_str :: "operating_mode \<Rightarrow> string" where
  "mode_as_str Stop = ''STOP''"
| "mode_as_str Run = ''RUN''"
| "mode_as_str Fault = ''FAULT''"
| "mode_as_str Sim = ''SIM''"

definition mode_parse :: "string \<Rightarrow> operating_mode option" where
  "mode_parse s =
     (if eq_ignore_ascii_case s ''STOP'' then Some Stop
      else if eq_ignore_ascii_case s ''RUN'' then Some Run
      else if eq_ignore_ascii_case s ''FAULT'' then Some Fault
      else if eq_ignore_ascii_case s ''SIM'' then Some Sim
      else None)"

definition executes_logic :: "operating_mode \<Rightarrow> bool" where
  "executes_logic m \<longleftrightarrow> m = Run \<or> m = Sim"

primrec phase_as_str :: "program_phase \<Rightarrow> string" where
  "phase_as_str Idle = ''idle''"
| "phase_as_str Validating = ''validating''"
| "phase_as_str Armed = ''armed''"
| "phase_as_str Swapping = ''swapping''"

definition phase_parse :: "string \<Rightarrow> program_phase option" where
  "phase_parse s =
     (if eq_ignore_ascii_case s ''idle'' then Some Idle
      else if eq_ignore_ascii_case s ''validating'' then Some Validating
      else if eq_ignore_ascii_case s ''armed'' then Some Armed
      else if eq_ignore_ascii_case s ''swapping'' then Some Swapping
      else None)"

definition quality_from_u8 :: "u8 \<Rightarrow> quality" where
  "quality_from_u8 v = (if v = 0 then Good else if v = 1 then Uncertain else Bad)"

primrec quality_as_u8 :: "quality \<Rightarrow> u8" where
  "quality_as_u8 Good = 0"
| "quality_as_u8 Uncertain = 1"
| "quality_as_u8 Bad = 2"

definition is_good :: "quality \<Rightarrow> bool" where
  "is_good q \<longleftrightarrow> q = Good"

definition is_bad :: "quality \<Rightarrow> bool" where
  "is_bad q \<longleftrightarrow> q = Bad"

primrec percent_prefix :: "image_region \<Rightarrow> string" where
  "percent_prefix RInput = ''%I''"
| "percent_prefix ROutput = ''%Q''"
| "percent_prefix RMemory = ''%M''"
| "percent_prefix RRetain = ''%R''"

subsection \<open>Wire names and encodings\<close>

lemma mode_parse_as_str: "mode_parse (mode_as_str m) = Some m"
  by (cases m) (simp_all add: mode_parse_def eq_ignore_ascii_case_def to_ascii_uppercase_def
    ascii_upper_def Let_def)

lemma phase_parse_as_str: "phase_parse (phase_as_str p) = Some p"
  by (cases p) (simp_all add: phase_parse_def eq_ignore_ascii_case_def to_ascii_uppercase_def
    ascii_upper_def Let_def)

lemma quality_roundtrip: "quality_from_u8 (quality_as_u8 q) = q"
  by (cases q) (simp_all add: quality_from_u8_def)

lemma quality_unknown_is_bad: "v \<notin> {0, 1} \<Longrightarrow> quality_from_u8 v = Bad"
  by (simp add: quality_from_u8_def)

end
