(* ===== verification/IoImage.thy ===== *)
theory IoImage
  imports PlcTypes Ieee754
begin

section \<open>Process image, forces, drivers (\<open>plc-io\<close>, \<open>plc-io-sim\<close>)\<close>

text \<open>
  The process image with its per-slot values, qualities and written marks, the force table,
  the decision which value an output gets, the scaling of analog values, the double buffer
  between a field worker and the scan (in its sequential use), the mode mirror for field
  workers, and the driver trait: a record of operations on a driver state. The simulation
  driver is one instance. What the scan engine may rely on in a driver is the locale
  \<open>safe_driver\<close>, interpreted here for the simulation driver.
\<close>

subsection \<open>Values and slots\<close>

datatype value_type = TyBool | TyInt | TyDint | TyReal | TyTime

datatype plc_value = PvBool bool | PvInt i16 | PvDint i32 | PvReal f32 | PvTime i32

primrec plc_default_of :: "value_type \<Rightarrow> plc_value" where
  "plc_default_of TyBool = PvBool False"
| "plc_default_of TyInt = PvInt 0"
| "plc_default_of TyDint = PvDint 0"
| "plc_default_of TyReal = PvReal 0"
| "plc_default_of TyTime = PvDint 0"

primrec plc_value_type :: "plc_value \<Rightarrow> value_type" where
  "plc_value_type (PvBool b) = TyBool"
| "plc_value_type (PvInt v) = TyInt"
| "plc_value_type (PvDint v) = TyDint"
| "plc_value_type (PvReal v) = TyReal"
| "plc_value_type (PvTime v) = TyTime"

primrec plc_as_bool :: "plc_value \<Rightarrow> bool" where
  "plc_as_bool (PvBool b) = b"
| "plc_as_bool (PvInt v) = False"
| "plc_as_bool (PvDint v) = False"
| "plc_as_bool (PvReal v) = False"
| "plc_as_bool (PvTime v) = False"

text \<open>\<open>derive(PartialEq)\<close> on the enum compares floats numerically: a NaN differs from itself,
  the two zeros are equal.\<close>

definition plc_value_eq :: "plc_value \<Rightarrow> plc_value \<Rightarrow> bool" where
  "plc_value_eq a b =
     (case (a, b) of (PvReal x, PvReal y) \<Rightarrow> f32_eq x y | _ \<Rightarrow> a = b)"

datatype io_error = IoNotReady string | IoDriver string | IoBounds string | IoMap string

record slot_meta =
  sm_tag :: string
  sm_ty :: value_type
  sm_unit :: string

record typed_slot =
  ts_value :: plc_value
  ts_quality :: quality
  ts_written :: bool

definition slot_zero :: "value_type \<Rightarrow> typed_slot" where
  "slot_zero ty = \<lparr>ts_value = plc_default_of ty, ts_quality = Good, ts_written = False\<rparr>"

record process_image =
  pi_inputs :: "typed_slot list"
  pi_outputs :: "typed_slot list"
  pi_memory :: "typed_slot list"
  pi_input_meta :: "slot_meta list"
  pi_output_meta :: "slot_meta list"
  pi_memory_meta :: "slot_meta list"
  pi_output_safe :: "plc_value list"

definition get_input :: "process_image \<Rightarrow> nat \<Rightarrow> io_error + typed_slot" where
  "get_input im i = ok_or (nth_opt (pi_inputs im) i) (IoBounds ''input slot'')"

definition set_input :: "process_image \<Rightarrow> nat \<Rightarrow> plc_value \<Rightarrow> quality \<Rightarrow> io_error + process_image" where
  "set_input im i v q =
     (if length (pi_inputs im) \<le> i then Inl (IoBounds ''input slot'')
      else Inr (im\<lparr>pi_inputs := (pi_inputs im)[i := \<lparr>ts_value = v, ts_quality = q, ts_written = True\<rparr>]\<rparr>))"

definition get_output :: "process_image \<Rightarrow> nat \<Rightarrow> io_error + typed_slot" where
  "get_output im i = ok_or (nth_opt (pi_outputs im) i) (IoBounds ''output slot'')"

definition set_output :: "process_image \<Rightarrow> nat \<Rightarrow> plc_value \<Rightarrow> io_error + process_image" where
  "set_output im i v =
     (if length (pi_outputs im) \<le> i then Inl (IoBounds ''output slot'')
      else Inr (im\<lparr>pi_outputs := (pi_outputs im)[i := (pi_outputs im ! i)\<lparr>ts_value := v, ts_written := True\<rparr>]\<rparr>))"

definition input_quality_good :: "process_image \<Rightarrow> nat \<Rightarrow> bool" where
  "input_quality_good im i = (case nth_opt (pi_inputs im) i of Some s \<Rightarrow> is_good (ts_quality s) | None \<Rightarrow> False)"

text \<open>\<open>let _ = image.set_...\<close>: the error is dropped.\<close>

definition ignore_err :: "'a \<Rightarrow> 'e + 'a \<Rightarrow> 'a" where
  "ignore_err d r = (case r of Inl _ \<Rightarrow> d | Inr x \<Rightarrow> x)"

subsection \<open>Forces and the effective output\<close>

type_synonym force_table = "u32 \<rightharpoonup> plc_value"

definition force_set :: "force_table \<Rightarrow> u32 \<Rightarrow> plc_value \<Rightarrow> force_table" where
  "force_set f slot v = f(slot \<mapsto> v)"

definition force_clear :: "force_table \<Rightarrow> u32 \<Rightarrow> force_table" where
  "force_clear f slot = f(slot := None)"

definition force_clear_all :: "force_table \<Rightarrow> force_table" where
  "force_clear_all f = (\<lambda>_. None)"

definition force_get :: "force_table \<Rightarrow> u32 \<Rightarrow> plc_value option" where
  "force_get f slot = f slot"

datatype bad_quality_policy = ForceSafe | HoldLast

record effective_output_input =
  eo_mode :: operating_mode
  eo_global_force_safe :: bool
  eo_module_quality :: quality
  eo_on_bad_quality :: bad_quality_policy
  eo_force :: "plc_value option"
  eo_program_value :: plc_value
  eo_program_written :: bool
  eo_safe_state :: plc_value

datatype effective_source = GlobalSafe | SrcForce | ModuleSafe | SrcProgram | DefaultSafe

definition resolve_effective_output :: "effective_output_input \<Rightarrow> plc_value \<times> effective_source" where
  "resolve_effective_output x =
     (if eo_global_force_safe x \<or> eo_mode x = Fault then (eo_safe_state x, GlobalSafe)
      else case eo_force x of
        Some v \<Rightarrow> (v, SrcForce)
      | None \<Rightarrow>
          if is_bad (eo_module_quality x) \<and> eo_on_bad_quality x = ForceSafe
          then (eo_safe_state x, ModuleSafe)
          else if eo_program_written x then (eo_program_value x, SrcProgram)
          else (eo_safe_state x, DefaultSafe))"

subsection \<open>Scaling\<close>

definition apply_scale_offset_clamp ::
  "f64 \<Rightarrow> f64 \<Rightarrow> f64 \<Rightarrow> (f64 \<times> f64) option \<Rightarrow> f64" where
  "apply_scale_offset_clamp raw scale offset clamp =
     (let eng = fadd f64_fmt (fmul f64_fmt raw scale) offset
      in case clamp of
           None \<Rightarrow> eng
         | Some (lo0, hi0) \<Rightarrow>
             let (lo, hi) = (if fle f64_fmt lo0 hi0 then (lo0, hi0) else (hi0, lo0))
             in if flt f64_fmt eng lo then lo else if flt f64_fmt hi eng then hi else eng)"

definition eng_to_raw :: "f64 \<Rightarrow> f64 \<Rightarrow> f64 \<Rightarrow> f64" where
  "eng_to_raw eng scale offset =
     (if feq f64_fmt scale 0 then 0 else fdiv f64_fmt (fsub f64_fmt eng offset) scale)"

subsection \<open>Field gate and double buffer\<close>

primrec mode_code :: "operating_mode \<Rightarrow> u8" where
  "mode_code Stop = 0"
| "mode_code Run = 1"
| "mode_code Fault = 2"
| "mode_code Sim = 3"

definition mode_from :: "u8 \<Rightarrow> operating_mode" where
  "mode_from c = (if c = 1 then Run else if c = 2 then Fault else if c = 3 then Sim else Stop)"

record snapshot =
  sn_seq :: u64
  sn_values :: "plc_value list"
  sn_quality :: "quality list"

definition snapshot_zeros :: "nat \<Rightarrow> snapshot" where
  "snapshot_zeros n = \<lparr>sn_seq = 0, sn_values = replicate n (PvBool False), sn_quality = replicate n Good\<rparr>"

record double_buffer =
  db_front :: snapshot
  db_back :: snapshot
  db_seq :: u64
  db_slots :: nat

definition db_new :: "nat \<Rightarrow> double_buffer" where
  "db_new n = \<lparr>db_front = snapshot_zeros n, db_back = snapshot_zeros n, db_seq = 0, db_slots = n\<rparr>"

text \<open>\<open>None\<close> is a failed \<open>assert_eq\<close> on the lengths.\<close>

definition db_publish :: "double_buffer \<Rightarrow> plc_value list \<Rightarrow> quality list \<Rightarrow> double_buffer option" where
  "db_publish b vs qs =
     (if length vs \<noteq> db_slots b \<or> length qs \<noteq> db_slots b then None
      else let nxt = db_seq b + 1
           in Some (b\<lparr>db_front := \<lparr>sn_seq = nxt, sn_values = vs, sn_quality = qs\<rparr>,
                      db_back := db_front b, db_seq := nxt\<rparr>))"

text \<open>The read loop with no publisher in between; \<open>left\<close> is what remains of \<open>max_retries\<close>,
  of which at least one attempt is made.\<close>

fun db_read_loop :: "nat \<Rightarrow> double_buffer \<Rightarrow> snapshot" where
  "db_read_loop 0 b = db_front b"
| "db_read_loop (Suc left) b =
     (if sn_seq (db_front b) = db_seq b then db_front b
      else if left = 0 then db_front b else db_read_loop left b)"

definition db_read :: "nat \<Rightarrow> double_buffer \<Rightarrow> snapshot" where
  "db_read max_retries b = db_read_loop max_retries b"

subsection \<open>Drivers\<close>

record input_update =
  iu_values :: "plc_value list"
  iu_quality :: "quality list"
  iu_seq :: u64

definition input_update_zeros :: "nat \<Rightarrow> input_update" where
  "input_update_zeros n = \<lparr>iu_values = replicate n (PvBool False), iu_quality = replicate n Good, iu_seq = 0\<rparr>"

record output_image =
  oi_values :: "plc_value list"
  oi_force_safe :: bool

record output_module_state =
  om_quality :: quality
  om_on_bad_quality :: bad_quality_policy

text \<open>The methods of \<open>trait IoDriver\<close> that the scan engine calls, on a driver state \<open>'d\<close>.\<close>

record 'd driver_ops =
  drv_start :: "'d \<Rightarrow> 'd \<times> (io_error + unit)"
  drv_poll_inputs :: "'d \<Rightarrow> input_update \<Rightarrow> 'd \<times> input_update \<times> (io_error + unit)"
  drv_apply_outputs :: "'d \<Rightarrow> output_image \<Rightarrow> 'd \<times> (io_error + unit)"
  drv_fill_output_module_state ::
    "'d \<Rightarrow> output_module_state list \<Rightarrow> output_module_state list \<times> bool"

record sim_driver =
  sd_name :: string
  sd_n_outputs :: nat
  sd_running :: bool
  sd_inputs :: "plc_value list"
  sd_input_quality :: "quality list"
  sd_last_outputs :: "plc_value list"
  sd_last_force_safe :: bool
  sd_seq :: u64
  sd_quality_overrides :: "nat \<rightharpoonup> quality"

definition sim_new :: "string \<Rightarrow> nat \<Rightarrow> nat \<Rightarrow> sim_driver" where
  "sim_new name n_inputs n_outputs =
     \<lparr>sd_name = name, sd_n_outputs = n_outputs, sd_running = False,
      sd_inputs = replicate n_inputs (PvBool False), sd_input_quality = replicate n_inputs Good,
      sd_last_outputs = replicate n_outputs (PvBool False), sd_last_force_safe = False, sd_seq = 0,
      sd_quality_overrides = (\<lambda>_. None)\<rparr>"

definition sim_set_input :: "sim_driver \<Rightarrow> nat \<Rightarrow> plc_value \<Rightarrow> sim_driver" where
  "sim_set_input d i v = d\<lparr>sd_inputs := (sd_inputs d)[i := v]\<rparr>"

definition sim_set_input_quality :: "sim_driver \<Rightarrow> nat \<Rightarrow> quality \<Rightarrow> sim_driver" where
  "sim_set_input_quality d i q =
     d\<lparr>sd_input_quality := (sd_input_quality d)[i := q],
       sd_quality_overrides := (sd_quality_overrides d)(i \<mapsto> q)\<rparr>"

definition sim_start :: "sim_driver \<Rightarrow> sim_driver \<times> (io_error + unit)" where
  "sim_start d = (d\<lparr>sd_running := True\<rparr>, Inr ())"

definition sim_stop :: "sim_driver \<Rightarrow> sim_driver" where
  "sim_stop d = d\<lparr>sd_running := False\<rparr>"

definition sim_poll_inputs :: "sim_driver \<Rightarrow> input_update \<Rightarrow> sim_driver \<times> input_update \<times> (io_error + unit)" where
  "sim_poll_inputs d out =
     (if \<not> sd_running d then (d, out, Inl (IoNotReady (sd_name d)))
      else let seq = sd_seq d + 1;
               qs = map (\<lambda>(i, q). case sd_quality_overrides d i of Some q' \<Rightarrow> q' | None \<Rightarrow> q)
                      (enumerate 0 (sd_input_quality d));
               pad = replicate (length (sd_inputs d) - length qs) Good
           in (d\<lparr>sd_seq := seq\<rparr>,
               \<lparr>iu_values = sd_inputs d, iu_quality = qs @ pad, iu_seq = seq\<rparr>, Inr ()))"

definition sim_apply_outputs :: "sim_driver \<Rightarrow> output_image \<Rightarrow> sim_driver \<times> (io_error + unit)" where
  "sim_apply_outputs d im =
     (if \<not> sd_running d then (d, Inl (IoNotReady (sd_name d)))
      else let outs = (if oi_force_safe im
                       then replicate (max (sd_n_outputs d) (length (oi_values im))) (PvBool False)
                       else oi_values im
                            @ replicate (sd_n_outputs d - length (oi_values im)) (PvBool False))
           in (d\<lparr>sd_last_force_safe := oi_force_safe im, sd_last_outputs := outs\<rparr>, Inr ()))"

definition sim_ops :: "sim_driver driver_ops" where
  "sim_ops = \<lparr>drv_start = sim_start, drv_poll_inputs = sim_poll_inputs,
     drv_apply_outputs = sim_apply_outputs,
     drv_fill_output_module_state = (\<lambda>d st. (st, False))\<rparr>"

subsection \<open>What the engine may rely on in a driver\<close>

text \<open>
  The documented obligations of the trait: outputs that were applied with \<open>force_safe\<close> are
  de-energized, outputs applied without it are driven with the given values, and the slot
  states are edited in place. \<open>deenergized\<close> and \<open>drives\<close> observe the field side: the latter says
  that the outputs the driver has are driven with the given values of their slots.
\<close>

locale safe_driver =
  fixes ops :: "'d driver_ops"
    and deenergized :: "'d \<Rightarrow> bool"
    and drives :: "'d \<Rightarrow> plc_value list \<Rightarrow> bool"
  assumes apply_force_safe:
      "drv_apply_outputs ops d im = (d', Inr ()) \<Longrightarrow> oi_force_safe im \<Longrightarrow> deenergized d'"
    and apply_drives:
      "drv_apply_outputs ops d im = (d', Inr ()) \<Longrightarrow> \<not> oi_force_safe im \<Longrightarrow>
         drives d' (oi_values im)"
    and fill_length: "length (fst (drv_fill_output_module_state ops d st)) = length st"

text \<open>A driver that has been started applies outputs without error.\<close>

locale ready_driver = safe_driver ops deenergized drives
  for ops :: "'d driver_ops" and deenergized :: "'d \<Rightarrow> bool" and drives :: "'d \<Rightarrow> plc_value list \<Rightarrow> bool" +
  fixes ready :: "'d \<Rightarrow> bool"
  assumes apply_ok: "ready d \<Longrightarrow> \<exists>d'. drv_apply_outputs ops d im = (d', Inr ()) \<and> ready d'"
    and poll_ready: "ready d \<Longrightarrow> ready (fst (drv_poll_inputs ops d out))"
    and start_ready: "drv_start ops d = (d', Inr ()) \<Longrightarrow> ready d'"

definition sim_deenergized :: "sim_driver \<Rightarrow> bool" where
  "sim_deenergized d \<longleftrightarrow> sd_last_force_safe d \<and> list_all (\<lambda>v. v = PvBool False) (sd_last_outputs d)"

definition sim_drives :: "sim_driver \<Rightarrow> plc_value list \<Rightarrow> bool" where
  "sim_drives d vs \<longleftrightarrow> take (length vs) (sd_last_outputs d) = vs"

interpretation sim: ready_driver sim_ops sim_deenergized sim_drives sd_running
  by unfold_locales
    (auto simp: sim_ops_def sim_apply_outputs_def sim_poll_inputs_def sim_start_def sim_deenergized_def sim_drives_def
      list_all_iff Let_def split: if_splits)

subsection \<open>Priority of the effective output\<close>

text \<open>A NaN-free clamp keeps the scaled value between its limits, whatever their order.\<close>

lemma scale_clamped:
  assumes "\<not> is_nan_val (fdecode f64_fmt lo)" "\<not> is_nan_val (fdecode f64_fmt hi)"
  shows "let y = apply_scale_offset_clamp raw scale offset (Some (lo, hi)) in
    \<not> flt f64_fmt y (if fle f64_fmt lo hi then lo else hi)
    \<and> \<not> flt f64_fmt (if fle f64_fmt lo hi then hi else lo) y"
proof -
  have "fle f64_fmt lo hi \<or> fle f64_fmt hi lo" using assms by (rule fle_total)
  then show ?thesis
    by (auto simp: apply_scale_offset_clamp_def Let_def dest: fle_not_flt)
qed

lemma mode_code_roundtrip [simp]: "mode_from (mode_code m) = m"
  by (cases m) (simp_all add: mode_from_def)

subsection \<open>The double buffer returns the last published snapshot\<close>

lemma db_read_front: "db_read n b = db_front b"
  by (induction n) (simp_all add: db_read_def)

lemma db_read_publish:
  "db_publish b vs qs = Some b' \<Longrightarrow>
     db_read n b' = \<lparr>sn_seq = db_seq b + 1, sn_values = vs, sn_quality = qs\<rparr> \<and> db_seq b' = db_seq b + 1"
  by (auto simp: db_read_front db_publish_def Let_def split: if_splits)

lemma length_set_input: "length (pi_inputs (ignore_err im (set_input im i v q))) = length (pi_inputs im)"
  by (simp add: ignore_err_def set_input_def)

end
