(* ===== verification/VmMemory.thy ===== *)
theory VmMemory
  imports FbDispatch
begin

section \<open>VM values and memory (\<open>plc-vm/src/value.rs\<close>, \<open>memory.rs\<close>, \<open>error.rs\<close>)\<close>

text \<open>
  Tagged values with their byte encodings and conversions, the byte segments with their
  per-offset type tags, and the slot images. \<open>VmPanic\<close> is not a value of \<open>VmError\<close>:
  it marks a run that ends in an unwinding Rust panic. A REAL is its IEEE-754 bit pattern.
\<close>

subsection \<open>Values\<close>

datatype vm_error =
    VmVerify string
  | VmUnknownEntry string
  | VmStackUnderflow nat
  | VmStackOverflow nat
  | VmCallDepth nat
  | VmRetOutsideFb nat
  | VmBounds nat string
  | VmType nat string
  | VmDecode nat string
  | VmPrimitive nat string
  | VmUnknownUserFb u32
  | VmBudget u64
  | VmPanic string

datatype vm_value = VBool bool | VInt i16 | VDint i32 | VReal f32 | VTime i32 | VLint i64

primrec value_ir_type :: "vm_value \<Rightarrow> ir_type" where
  "value_ir_type (VBool b) = TBool"
| "value_ir_type (VInt v) = TInt"
| "value_ir_type (VDint v) = TDint"
| "value_ir_type (VReal v) = TReal"
| "value_ir_type (VTime v) = TTime"
| "value_ir_type (VLint v) = TLint"

primrec value_zero :: "ir_type \<Rightarrow> vm_value" where
  "value_zero TBool = VBool False"
| "value_zero TInt = VInt 0"
| "value_zero TDint = VDint 0"
| "value_zero TReal = VReal 0"
| "value_zero TTime = VTime 0"
| "value_zero TLint = VLint 0"

primrec value_width :: "vm_value \<Rightarrow> nat" where
  "value_width (VBool b) = 1"
| "value_width (VInt v) = 2"
| "value_width (VDint v) = 4"
| "value_width (VReal v) = 4"
| "value_width (VTime v) = 4"
| "value_width (VLint v) = 8"

text \<open>The bytes the match of \<open>ByteSegment::store\<close> writes, and the match on the type that
  \<open>load_as\<close> and \<open>VmValue::from_le_bytes\<close> share.\<close>

primrec value_bytes :: "vm_value \<Rightarrow> bytes" where
  "value_bytes (VBool b) = [if b then 1 else 0]"
| "value_bytes (VInt v) = le_bytes 2 v"
| "value_bytes (VDint v) = le_bytes 4 v"
| "value_bytes (VReal v) = le_bytes 4 v"
| "value_bytes (VTime v) = le_bytes 4 v"
| "value_bytes (VLint v) = le_bytes 8 v"

primrec decode_value :: "ir_type \<Rightarrow> bytes \<Rightarrow> vm_value" where
  "decode_value TBool bs = VBool (bs ! 0 \<noteq> 0)"
| "decode_value TInt bs = VInt (of_le_bytes (take 2 bs))"
| "decode_value TDint bs = VDint (of_le_bytes (take 4 bs))"
| "decode_value TReal bs = VReal (of_le_bytes (take 4 bs))"
| "decode_value TTime bs = VTime (of_le_bytes (take 4 bs))"
| "decode_value TLint bs = VLint (of_le_bytes (take 8 bs))"

definition value_from_le_bytes :: "ir_type \<Rightarrow> bytes \<Rightarrow> vm_error + vm_value" where
  "value_from_le_bytes ty bs =
     (if length bs < value_width (value_zero ty) then Inl (VmBounds 0 ''value decode'')
      else Inr (decode_value ty bs))"

primrec value_as_bool :: "vm_value \<Rightarrow> bool" where
  "value_as_bool (VBool b) = b"
| "value_as_bool (VInt v) = False"
| "value_as_bool (VDint v) = False"
| "value_as_bool (VReal v) = False"
| "value_as_bool (VTime v) = False"
| "value_as_bool (VLint v) = False"

primrec value_as_i64 :: "vm_value \<Rightarrow> i64 option" where
  "value_as_i64 (VBool b) = Some (if b then 1 else 0)"
| "value_as_i64 (VInt v) = Some (scast v)"
| "value_as_i64 (VDint v) = Some (scast v)"
| "value_as_i64 (VReal v) = None"
| "value_as_i64 (VTime v) = Some (scast v)"
| "value_as_i64 (VLint v) = Some v"

primrec to_stack_value :: "vm_value \<Rightarrow> stack_value" where
  "to_stack_value (VBool b) = SvBool b"
| "to_stack_value (VInt v) = SvDint (scast v)"
| "to_stack_value (VDint v) = SvDint v"
| "to_stack_value (VReal v) = SvReal v"
| "to_stack_value (VTime v) = SvDint v"
| "to_stack_value (VLint v) = SvDint (ucast v)"

definition from_stack_value :: "stack_value \<Rightarrow> bool \<Rightarrow> vm_value" where
  "from_stack_value v prefer_time =
     (case v of SvBool b \<Rightarrow> VBool b
      | SvDint d \<Rightarrow> if prefer_time then VTime d else VDint d
      | SvReal r \<Rightarrow> VReal r)"

text \<open>\<open>VmValue::convert\<close>: narrowing casts truncate, a float to integer cast saturates.\<close>

definition convert_bool :: "vm_value \<Rightarrow> bool" where
  "convert_bool v =
     (case v of VBool b \<Rightarrow> b | VInt x \<Rightarrow> x \<noteq> 0 | VDint x \<Rightarrow> x \<noteq> 0 | VTime x \<Rightarrow> x \<noteq> 0
      | VReal x \<Rightarrow> \<not> f32_eq x 0 | VLint x \<Rightarrow> x \<noteq> 0)"

definition convert_i16 :: "vm_value \<Rightarrow> i16" where
  "convert_i16 v =
     (case v of VBool b \<Rightarrow> if b then 1 else 0 | VInt x \<Rightarrow> x | VDint x \<Rightarrow> ucast x | VTime x \<Rightarrow> ucast x
      | VReal x \<Rightarrow> word_of_int (f32_to_int x (- 32768) 32767) | VLint x \<Rightarrow> ucast x)"

definition convert_i32 :: "vm_value \<Rightarrow> i32" where
  "convert_i32 v =
     (case v of VBool b \<Rightarrow> if b then 1 else 0 | VInt x \<Rightarrow> scast x | VDint x \<Rightarrow> x | VTime x \<Rightarrow> x
      | VReal x \<Rightarrow> word_of_int (f32_to_int x (- 2147483648) 2147483647) | VLint x \<Rightarrow> ucast x)"

definition convert_i64 :: "vm_value \<Rightarrow> i64" where
  "convert_i64 v =
     (case v of VBool b \<Rightarrow> if b then 1 else 0 | VInt x \<Rightarrow> scast x | VDint x \<Rightarrow> scast x
      | VTime x \<Rightarrow> scast x
      | VReal x \<Rightarrow> word_of_int (f32_to_int x (- 9223372036854775808) 9223372036854775807)
      | VLint x \<Rightarrow> x)"

definition convert_f32 :: "vm_value \<Rightarrow> f32" where
  "convert_f32 v =
     (case v of VBool b \<Rightarrow> if b then F_ONE else 0 | VInt x \<Rightarrow> f32_of_int (sint x)
      | VDint x \<Rightarrow> f32_of_int (sint x) | VTime x \<Rightarrow> f32_of_int (sint x) | VReal x \<Rightarrow> x
      | VLint x \<Rightarrow> f32_of_int (sint x))"

definition value_convert :: "vm_value \<Rightarrow> ir_type \<Rightarrow> vm_value" where
  "value_convert v target =
     (case target of TBool \<Rightarrow> VBool (convert_bool v) | TInt \<Rightarrow> VInt (convert_i16 v)
      | TDint \<Rightarrow> VDint (convert_i32 v) | TReal \<Rightarrow> VReal (convert_f32 v)
      | TTime \<Rightarrow> VTime (convert_i32 v) | TLint \<Rightarrow> VLint (convert_i64 v))"

subsection \<open>Byte segments\<close>

definition TAG_UNSET :: u8 where "TAG_UNSET = 0xFF"

record byte_segment =
  seg_bytes :: bytes
  seg_tags :: bytes

definition seg_zeros :: "nat \<Rightarrow> byte_segment" where
  "seg_zeros n = \<lparr>seg_bytes = replicate n 0, seg_tags = replicate n TAG_UNSET\<rparr>"

definition seg_len :: "byte_segment \<Rightarrow> nat" where
  "seg_len s = length (seg_bytes s)"

definition seg_store :: "byte_segment \<Rightarrow> nat \<Rightarrow> vm_value \<Rightarrow> nat \<Rightarrow> vm_error + byte_segment" where
  "seg_store s off v pc =
     (let width = value_width v
      in if seg_len s < off + width then Inl (VmBounds pc ''store offset exceeds segment'')
         else Inr \<lparr>seg_bytes = blit (seg_bytes s) off (value_bytes v),
                   seg_tags = blit (seg_tags s) off
                     (ir_type_u8 (value_ir_type v) # replicate (width - 1) TAG_UNSET)\<rparr>)"

definition seg_load_as :: "byte_segment \<Rightarrow> nat \<Rightarrow> ir_type \<Rightarrow> nat \<Rightarrow> vm_error + vm_value" where
  "seg_load_as s off ty pc =
     (let width = value_width (value_zero ty)
      in if seg_len s < off + width then Inl (VmBounds pc ''load OOB'')
         else Inr (decode_value ty (slice off (off + width) (seg_bytes s))))"

definition seg_tag_type :: "byte_segment \<Rightarrow> nat \<Rightarrow> ir_type" where
  "seg_tag_type s off =
     (let t = (case nth_opt (seg_tags s) off of Some t \<Rightarrow> t | None \<Rightarrow> TAG_UNSET)
      in if t = TAG_UNSET then TBool
         else (case ir_type_from_u8 t of Some ty \<Rightarrow> ty | None \<Rightarrow> TBool))"

definition seg_load :: "byte_segment \<Rightarrow> nat \<Rightarrow> nat \<Rightarrow> vm_error + vm_value" where
  "seg_load s off pc =
     (if seg_len s \<le> off then Inl (VmBounds pc ''load offset exceeds segment'')
      else seg_load_as s off (seg_tag_type s off) pc)"

definition seg_fill_zero :: "byte_segment \<Rightarrow> byte_segment" where
  "seg_fill_zero s =
     \<lparr>seg_bytes = map (\<lambda>_. 0) (seg_bytes s), seg_tags = map (\<lambda>_. TAG_UNSET) (seg_tags s)\<rparr>"

definition seg_blit_from ::
  "byte_segment \<Rightarrow> nat \<Rightarrow> byte_segment \<Rightarrow> nat \<Rightarrow> nat \<Rightarrow> vm_error + byte_segment" where
  "seg_blit_from s dst src src_off len =
     (if seg_len s < dst + len \<or> seg_len src < src_off + len then Inl (VmBounds 0 ''blit'')
      else Inr \<lparr>seg_bytes = blit (seg_bytes s) dst (slice src_off (src_off + len) (seg_bytes src)),
                seg_tags = blit (seg_tags s) dst (slice src_off (src_off + len) (seg_tags src))\<rparr>)"

subsection \<open>Slot images\<close>

record slot_image =
  si_values :: "vm_value list"
  si_quality_good :: "bool list"
  si_written :: "bool list"

definition slots_bools :: "nat \<Rightarrow> slot_image" where
  "slots_bools n = \<lparr>si_values = replicate n (VBool False), si_quality_good = replicate n True,
     si_written = replicate n False\<rparr>"

definition slot_get :: "slot_image \<Rightarrow> nat \<Rightarrow> nat \<Rightarrow> vm_error + vm_value" where
  "slot_get im i pc = ok_or (nth_opt (si_values im) i) (VmBounds pc ''slot'')"

definition slot_set :: "slot_image \<Rightarrow> nat \<Rightarrow> vm_value \<Rightarrow> nat \<Rightarrow> vm_error + slot_image" where
  "slot_set im i v pc =
     (if length (si_values im) \<le> i then Inl (VmBounds pc ''slot'')
      else Inr (im\<lparr>si_values := (si_values im)[i := v], si_written := (si_written im)[i := True]\<rparr>))"

definition slot_written :: "slot_image \<Rightarrow> nat \<Rightarrow> bool" where
  "slot_written im i = (case nth_opt (si_written im) i of Some b \<Rightarrow> b | None \<Rightarrow> False)"

definition slots_clear_written :: "slot_image \<Rightarrow> slot_image" where
  "slots_clear_written im = im\<lparr>si_written := map (\<lambda>_. False) (si_written im)\<rparr>"

definition slots_fill_bool_false :: "slot_image \<Rightarrow> slot_image" where
  "slots_fill_bool_false im =
     \<lparr>si_values = map (\<lambda>_. VBool False) (si_values im),
      si_quality_good = map (\<lambda>_. True) (si_quality_good im),
      si_written = map (\<lambda>_. False) (si_written im)\<rparr>"

definition slot_quality_good :: "slot_image \<Rightarrow> nat \<Rightarrow> nat \<Rightarrow> vm_error + bool" where
  "slot_quality_good im i pc = ok_or (nth_opt (si_quality_good im) i) (VmBounds pc ''quality slot'')"

definition slot_set_quality_good :: "slot_image \<Rightarrow> nat \<Rightarrow> bool \<Rightarrow> nat \<Rightarrow> vm_error + slot_image" where
  "slot_set_quality_good im i good pc =
     (if length (si_quality_good im) \<le> i then Inl (VmBounds pc ''quality slot'')
      else Inr (im\<lparr>si_quality_good := (si_quality_good im)[i := good]\<rparr>))"

subsection \<open>Invariants\<close>

text \<open>A segment has one tag per byte, each a type or unset.\<close>

definition seg_inv :: "byte_segment \<Rightarrow> bool" where
  "seg_inv s \<longleftrightarrow> length (seg_tags s) = length (seg_bytes s)
     \<and> list_all (\<lambda>t. t = TAG_UNSET \<or> t \<in> range ir_type_u8) (seg_tags s)"

definition slots_inv :: "nat \<Rightarrow> slot_image \<Rightarrow> bool" where
  "slots_inv n im \<longleftrightarrow>
     length (si_values im) = n \<and> length (si_quality_good im) = n \<and> length (si_written im) = n"

lemma value_width_type [simp]: "value_width v = byte_width (value_ir_type v)"
  by (cases v) simp_all

lemma value_zero_type [simp]: "value_ir_type (value_zero t) = t"
  by (cases t) simp_all

lemma length_value_bytes [simp]: "length (value_bytes v) = byte_width (value_ir_type v)"
  by (cases v) simp_all

lemma decode_value_bytes [simp]: "decode_value (value_ir_type v) (value_bytes v) = v"
  by (cases v) simp_all

lemma value_ir_type_decode [simp]: "value_ir_type (decode_value t bs) = t"
  by (cases t) simp_all

lemma value_convert_type [simp]: "value_ir_type (value_convert v t) = t"
  by (cases t) (simp_all add: value_convert_def)

lemma seg_inv_zeros [simp]: "seg_inv (seg_zeros n)"
  by (simp add: seg_inv_def seg_zeros_def list_all_iff)

lemma seg_len_zeros [simp]: "seg_len (seg_zeros n) = n"
  by (simp add: seg_len_def seg_zeros_def)

lemma slots_inv_bools [simp]: "slots_inv n (slots_bools n)"
  by (simp add: slots_inv_def slots_bools_def)

lemma byte_width_Suc: "Suc (byte_width t - Suc 0) = byte_width t"
  using byte_width_pos [of t] by simp

lemma blit_all:
  "list_all P xs \<Longrightarrow> list_all P ys \<Longrightarrow> list_all P (blit xs off ys)"
  by (auto simp: blit_def list_all_iff dest: in_set_takeD in_set_dropD)

lemma seg_store_cases:
  assumes "seg_store s off v pc = Inr s'"
  obtains "off + byte_width (value_ir_type v) \<le> length (seg_bytes s)"
    "seg_bytes s' = blit (seg_bytes s) off (value_bytes v)"
    "seg_tags s' = blit (seg_tags s) off
       (ir_type_u8 (value_ir_type v) # replicate (byte_width (value_ir_type v) - 1) TAG_UNSET)"
  using assms that by (auto simp: seg_store_def Let_def seg_len_def split: if_splits)

lemma seg_store_inv:
  assumes "seg_inv s" "seg_store s off v pc = Inr s'"
  shows "seg_inv s' \<and> seg_len s' = seg_len s"
  using assms(2)
proof (rule seg_store_cases)
  let ?P = "\<lambda>t. t = TAG_UNSET \<or> t \<in> range ir_type_u8"
  let ?w = "byte_width (value_ir_type v)"
  let ?t = "ir_type_u8 (value_ir_type v) # replicate (?w - 1) TAG_UNSET"
  assume w: "off + ?w \<le> length (seg_bytes s)"
    and s': "seg_bytes s' = blit (seg_bytes s) off (value_bytes v)" "seg_tags s' = blit (seg_tags s) off ?t"
  have "list_all ?P ?t" by (simp add: list_all_iff)
  then have "list_all ?P (seg_tags s')"
    unfolding s' using assms(1) by (intro blit_all) (simp_all add: seg_inv_def)
  moreover have "length (seg_tags s') = length (seg_tags s)"
    unfolding s' using assms(1) w by (intro length_blit) (simp add: seg_inv_def byte_width_Suc)
  ultimately show ?thesis using assms(1) w by (simp add: seg_inv_def seg_len_def s'(1))
qed

lemma seg_fill_zero_inv: "seg_inv s \<Longrightarrow> seg_inv (seg_fill_zero s) \<and> seg_len (seg_fill_zero s) = seg_len s"
  by (simp add: seg_inv_def seg_fill_zero_def seg_len_def list_all_iff)

lemma slice_all: "list_all P xs \<Longrightarrow> list_all P (slice a b xs)"
  by (auto simp: slice_def list_all_iff dest: in_set_takeD in_set_dropD)

lemma seg_blit_inv:
  assumes "seg_inv s" "seg_inv src" "seg_blit_from s dst src so n = Inr s'"
  shows "seg_inv s' \<and> seg_len s' = seg_len s"
  using assms
  by (auto simp: seg_blit_from_def seg_inv_def seg_len_def blit_all slice_all split: if_splits)

subsection \<open>Reading back what was stored\<close>

lemma seg_tag_type_nth:
  "seg_inv s \<Longrightarrow> off < seg_len s \<Longrightarrow> seg_tags s ! off = ir_type_u8 t \<Longrightarrow> seg_tag_type s off = t"
  by (cases t) (simp_all add: seg_inv_def seg_len_def seg_tag_type_def TAG_UNSET_def ir_type_from_u8_def)

lemma seg_store_load:
  assumes "seg_inv s" "seg_store s off v pc = Inr s'"
  shows "seg_load s' off pc' = Inr v"
proof -
  have w: "off + byte_width (value_ir_type v) \<le> length (seg_bytes s)"
    and s': "seg_bytes s' = blit (seg_bytes s) off (value_bytes v)"
      "seg_tags s' = blit (seg_tags s) off
         (ir_type_u8 (value_ir_type v) # replicate (byte_width (value_ir_type v) - 1) TAG_UNSET)"
    using assms(2) by (auto elim: seg_store_cases)
  have i: "seg_inv s'" "seg_len s' = seg_len s" using seg_store_inv [OF assms] by auto
  have o: "off < length (seg_bytes s)" using w byte_width_pos [of "value_ir_type v"] by linarith
  have "seg_tags s' ! off = ir_type_u8 (value_ir_type v)"
    using assms(1) w o by (simp add: s' seg_inv_def nth_blit byte_width_Suc)
  then have "seg_tag_type s' off = value_ir_type v"
    using seg_tag_type_nth [OF i(1)] i(2) o by (simp add: seg_len_def)
  moreover have "slice off (off + byte_width (value_ir_type v)) (seg_bytes s') = value_bytes v"
    using slice_blit_same [of off "value_bytes v" "seg_bytes s"] w by (simp add: s')
  ultimately show ?thesis
    using i(2) w o by (simp add: seg_load_def seg_load_as_def Let_def seg_len_def)
qed

text \<open>A store leaves every cell that does not overlap it as it was.\<close>

lemma seg_store_frame:
  assumes "seg_inv s" "seg_store s off v pc = Inr s'"
    and "off' + byte_width (seg_tag_type s off') \<le> off \<or> off + byte_width (value_ir_type v) \<le> off'"
  shows "seg_load s' off' pc' = seg_load s off' pc'"
proof (cases "off' < seg_len s")
  case False
  then show ?thesis using seg_store_inv [OF assms(1,2)] by (simp add: seg_load_def)
next
  case True
  let ?w = "byte_width (value_ir_type v)"
  have w: "off + ?w \<le> length (seg_bytes s)"
    and s': "seg_bytes s' = blit (seg_bytes s) off (value_bytes v)"
      "seg_tags s' = blit (seg_tags s) off
         (ir_type_u8 (value_ir_type v) # replicate (?w - 1) TAG_UNSET)"
    using assms(2) by (auto elim: seg_store_cases)
  have i: "seg_len s' = seg_len s" using seg_store_inv [OF assms(1,2)] by simp
  have "off' < off \<or> off + ?w \<le> off'"
    using assms(3) byte_width_pos [of "seg_tag_type s off'"] by linarith
  then have "seg_tags s' ! off' = seg_tags s ! off'"
    using assms(1) w True by (auto simp: s' seg_inv_def seg_len_def nth_blit byte_width_Suc)
  then have t: "seg_tag_type s' off' = seg_tag_type s off'"
    using assms(1) w True
    by (simp add: seg_tag_type_def nth_opt_def s' seg_inv_def seg_len_def byte_width_Suc)
  have "slice off' (off' + byte_width (seg_tag_type s off')) (seg_bytes s')
      = slice off' (off' + byte_width (seg_tag_type s off')) (seg_bytes s)"
    if "off' + byte_width (seg_tag_type s off') \<le> seg_len s"
    unfolding s' using slice_blit_disjoint [of off "value_bytes v" "seg_bytes s"] w that assms(3)
    by (simp add: seg_len_def)
  then show ?thesis using True by (simp add: seg_load_def seg_load_as_def Let_def t i)
qed

lemma seg_store_ok_iff:
  "(\<exists>s'. seg_store s off v pc = Inr s') \<longleftrightarrow> off + byte_width (value_ir_type v) \<le> seg_len s"
  by (auto simp: seg_store_def Let_def)

subsection \<open>Slots\<close>

lemma slot_set_inv: "slots_inv n im \<Longrightarrow> slot_set im i v pc = Inr im' \<Longrightarrow> slots_inv n im'"
  by (auto simp: slot_set_def slots_inv_def split: if_splits)

lemma slots_clear_written_inv: "slots_inv n im \<Longrightarrow> slots_inv n (slots_clear_written im)"
  by (simp add: slots_clear_written_def slots_inv_def)

lemma slots_fill_bool_false_bools: "slots_inv n im \<Longrightarrow> slots_fill_bool_false im = slots_bools n"
  by (simp add: slots_fill_bool_false_def slots_inv_def slots_bools_def map_replicate_const)

lemma slots_fill_bool_false_inv: "slots_inv n im \<Longrightarrow> slots_inv n (slots_fill_bool_false im)"
  by (simp add: slots_fill_bool_false_bools)

lemma slot_get_ok: "slots_inv n im \<Longrightarrow> i < n \<Longrightarrow> slot_get im i pc = Inr (si_values im ! i)"
  by (simp add: slot_get_def slots_inv_def)

lemma slot_quality_ok: "slots_inv n im \<Longrightarrow> i < n \<Longrightarrow> slot_quality_good im i pc = Inr (si_quality_good im ! i)"
  by (simp add: slot_quality_good_def slots_inv_def)

lemma slot_set_ok: "slots_inv n im \<Longrightarrow> i < n \<Longrightarrow> \<exists>im'. slot_set im i v pc = Inr im'"
  by (simp add: slot_set_def slots_inv_def)

lemma slot_set_written:
  "slots_inv n im \<Longrightarrow> slot_set im i v pc = Inr im' \<Longrightarrow> slot_written im' k = (k = i \<or> slot_written im k)"
  by (auto simp: slot_set_def slots_inv_def slot_written_def nth_opt_def nth_list_update split: if_splits)

lemma slot_set_other:
  "slot_set im i v pc = Inr im' \<Longrightarrow> k \<noteq> i \<Longrightarrow> nth_opt (si_values im') k = nth_opt (si_values im) k"
  by (auto simp: slot_set_def nth_opt_def split: if_splits)

end
