(* ===== verification/Verifier.thy ===== *)
theory Verifier
  imports IrCore
begin

section \<open>The IR verifier (\<open>plc-ir/src/verify.rs\<close>)\<close>

text \<open>
  The verifier interprets an entry abstractly: the operand stack is a list of known or unknown
  types, \<open>seen\<close> maps a pc to the stack on which it was first reached, and a worklist holds
  the pcs still to visit. The top of a stack and the next item of the worklist are the list's
  head (the code keeps both at the end of a \<open>Vec\<close>). The loop is a total function: each
  turn either shortens the worklist or visits one more pc of the code.

  \<open>certificate\<close> is the inductive annotation the loop computes: a map that covers the entry,
  on which every instruction checks and all successors are covered again. Soundness of the
  verifier for the machine rests on it alone (theory \<open>VmSafety\<close>).
\<close>

subsection \<open>Definitions\<close>

type_synonym astack = "ir_type option list"

definition MAX_STACK :: nat where "MAX_STACK = 256"

definition MAX_CALL_DEPTH :: nat where "MAX_CALL_DEPTH = 32"

definition MAX_CODE_BYTES :: u32 where "MAX_CODE_BYTES = 4 * 1024 * 1024"

definition MAX_DATA_RETAIN :: u32 where "MAX_DATA_RETAIN = 16 * 1024 * 1024"

definition segment_size :: "ir_module \<Rightarrow> opcode \<Rightarrow> u32" where
  "segment_size m op =
     (if op \<in> {OpLdData, OpStData} then data_size m
      else if op \<in> {OpLdRetain, OpStRetain} then retain_size m
      else 0)"

definition check_offset :: "u32 \<Rightarrow> u32 \<Rightarrow> verify_error + unit" where
  "check_offset off sz =
     (if 0 < sz \<and> sz \<le> off then Inl (VerifyRule 4 ''offset out of segment size'') else Inr ())"

definition check_jmp_target :: "ir_module \<Rightarrow> nat \<Rightarrow> verify_error + unit" where
  "check_jmp_target m target =
     (if target mod 4 \<noteq> 0 then Inl (VerifyRule 1 ''JMP target unaligned'')
      else if length (code m) \<le> target then Inl (VerifyRule 1 ''JMP target out of bounds'')
      else Inr ())"

definition vpush :: "ir_type option \<Rightarrow> astack \<Rightarrow> verify_error + astack" where
  "vpush t st = (if MAX_STACK \<le> length st then Inl (VerifyRule 2 ''stack depth > 256'') else Inr (t # st))"

definition vpop :: "astack \<Rightarrow> verify_error + (ir_type option \<times> astack)" where
  "vpop st = (case st of [] \<Rightarrow> Inl (VerifyRule 2 ''stack underflow'') | t # st' \<Rightarrow> Inr (t, st'))"

definition stacks_compatible :: "astack \<Rightarrow> astack \<Rightarrow> bool" where
  "stacks_compatible a b \<longleftrightarrow>
     length a = length b
     \<and> list_all (\<lambda>(x, y). case (x, y) of (Some t, Some u) \<Rightarrow> t = u | _ \<Rightarrow> True) (zip a b)"

definition opt_or :: "'a option \<Rightarrow> 'a option \<Rightarrow> 'a option" where
  "opt_or a b = (case a of None \<Rightarrow> b | Some x \<Rightarrow> Some x)"

definition binary_numeric :: "ir_type option \<Rightarrow> ir_type option \<Rightarrow> verify_error + ir_type option" where
  "binary_numeric a b =
     (case (a, b) of
        (Some x, Some y) \<Rightarrow>
          if x = y \<and> is_numeric x then Inr (Some x)
          else if x \<noteq> y then Inl (VerifyRule 3 ''numeric type mismatch'')
          else Inr (opt_or a b)
      | _ \<Rightarrow> Inr (opt_or a b))"

definition binary_logic :: "ir_type option \<Rightarrow> ir_type option \<Rightarrow> verify_error + ir_type option" where
  "binary_logic a b =
     (case (a, b) of
        (Some x, Some y) \<Rightarrow>
          if x = TBool \<and> y = TBool then Inr (Some TBool)
          else if x = y \<and> is_integral x then Inr (Some x)
          else Inl (VerifyRule 3 ''logic operand type mismatch'')
      | _ \<Rightarrow> Inr (opt_or (opt_or a b) (Some TBool)))"

fun vpop_n :: "nat \<Rightarrow> astack \<Rightarrow> verify_error + astack" where
  "vpop_n 0 st = Inr st"
| "vpop_n (Suc n) st = rbind (vpop st) (\<lambda>(_, st'). vpop_n n st')"

text \<open>The output loop of a primitive call, from output \<open>i\<close> on: the first result is a BOOL,
  the others are TIME.\<close>

fun vpush_outputs :: "nat \<Rightarrow> nat \<Rightarrow> astack \<Rightarrow> verify_error + astack" where
  "vpush_outputs i 0 st = Inr st"
| "vpush_outputs i (Suc n) st =
     rbind (vpush (if i = 0 then Some TBool else Some TTime) st) (vpush_outputs (Suc i) n)"

text \<open>One turn of the match on the instruction: either a terminal instruction, or the stack
  after it and the successors with their call depths, in the order the code pushes them.\<close>

datatype verify_step = VTerminal | VNext astack "(nat \<times> nat) list"

definition verify_simple ::
  "ir_module \<Rightarrow> bool \<Rightarrow> nat \<Rightarrow> nat \<Rightarrow> nat \<Rightarrow> opcode \<Rightarrow> u32 \<Rightarrow> astack \<Rightarrow> verify_error + verify_step" where
  "verify_simple m is_user_fb pc sz depth op payload stack =
     (let next = \<lambda>st. Inr (VNext st [(pc + sz, depth)])
      in case op of
        OpNop \<Rightarrow> next stack
      | OpHalt \<Rightarrow> if is_user_fb then Inl (VerifyRule 6 ''user FB must end in RET, not HALT'')
                  else Inr VTerminal
      | OpRet \<Rightarrow> Inr VTerminal
      | OpPushIBool \<Rightarrow> rbind (vpush (Some TBool) stack) next
      | OpLdData \<Rightarrow> rbind (check_offset payload (segment_size m op)) (\<lambda>_. rbind (vpush None stack) next)
      | OpLdRetain \<Rightarrow> rbind (check_offset payload (segment_size m op)) (\<lambda>_. rbind (vpush None stack) next)
      | OpStData \<Rightarrow> rbind (check_offset payload (segment_size m op)) (\<lambda>_. rbind (vpop stack) (next \<circ> snd))
      | OpStRetain \<Rightarrow> rbind (check_offset payload (segment_size m op)) (\<lambda>_. rbind (vpop stack) (next \<circ> snd))
      | OpLdI \<Rightarrow> if input_slots m \<le> payload then Inl (VerifyRule 4 ''LD_I/LD_IQ index >= input_slots'')
                 else rbind (vpush None stack) next
      | OpLdIq \<Rightarrow> if input_slots m \<le> payload then Inl (VerifyRule 4 ''LD_I/LD_IQ index >= input_slots'')
                  else rbind (vpush (Some TBool) stack) next
      | OpStQ \<Rightarrow> if output_slots m \<le> payload then Inl (VerifyRule 4 ''ST_Q index >= output_slots'')
                 else rbind (vpop stack) (next \<circ> snd)
      | OpLdQ \<Rightarrow> if output_slots m \<le> payload then Inl (VerifyRule 4 ''LD_Q index >= output_slots'')
                 else rbind (vpush None stack) next
      | OpNeg \<Rightarrow> rbind (vpop stack) (\<lambda>(a, st). rbind (vpush a st) next)
      | OpNot \<Rightarrow> rbind (vpop stack) (\<lambda>(a, st). rbind (vpush (opt_or a (Some TBool)) st) next)
      | OpJmp \<Rightarrow> rbind (check_jmp_target m (unat payload)) (\<lambda>_.
                   Inr (VNext stack [(unat payload, depth)]))
      | OpConv \<Rightarrow> rbind (vpop stack) (\<lambda>(_, st).
                   rbind (ok_or (ir_type_from_u8 (ucast payload)) (VerifyRule 3 ''CONV bad type tag'')) (\<lambda>ty.
                   rbind (vpush (Some ty) st) next))
      | _ \<Rightarrow>
        if op \<in> {OpAdd, OpSub, OpMul, OpDiv} then
          rbind (vpop stack) (\<lambda>(b, st1). rbind (vpop st1) (\<lambda>(a, st2).
            rbind (binary_numeric a b) (\<lambda>r. rbind (vpush r st2) next)))
        else if op \<in> {OpAnd, OpOr, OpXor} then
          rbind (vpop stack) (\<lambda>(b, st1). rbind (vpop st1) (\<lambda>(a, st2).
            rbind (binary_logic a b) (\<lambda>r. rbind (vpush r st2) next)))
        else if op \<in> {OpEq, OpNe, OpLt, OpLe, OpGt, OpGe} then
          rbind (vpop stack) (\<lambda>(_, st1). rbind (vpop st1) (\<lambda>(_, st2).
            rbind (vpush (Some TBool) st2) next))
        else if op \<in> {OpJmpIf, OpJmpIfNot} then
          rbind (vpop stack) (\<lambda>(c, st).
            if c \<noteq> None \<and> c \<noteq> Some TBool then Inl (VerifyRule 3 ''JMP_IF* requires BOOL condition'')
            else rbind (check_jmp_target m (unat payload)) (\<lambda>_.
              Inr (VNext st [(unat payload, depth), (pc + sz, depth)])))
        else Inl (VerifyRule 7 ''opcode should be wide form''))"

definition verify_instr ::
  "ir_module \<Rightarrow> bool \<Rightarrow> nat \<Rightarrow> nat \<Rightarrow> decoded_instr \<Rightarrow> nat \<Rightarrow> astack \<Rightarrow> verify_error + verify_step" where
  "verify_instr m is_user_fb pc depth instr sz stack =
     (let next = \<lambda>st. Inr (VNext st [(pc + sz, depth)])
      in case instr of
        Simple op payload \<Rightarrow> verify_simple m is_user_fb pc sz depth op payload stack
      | WithImm32 op payload imm \<Rightarrow>
          if op = OpPushIDint then rbind (vpush (Some TDint) stack) next
          else if op = OpPushIReal then rbind (vpush (Some TReal) stack) next
          else if op = OpPushTime then rbind (vpush (Some TTime) stack) next
          else Inl (VerifyRule 7 ''unexpected WithImm32'')
      | CallFb fb_kind fb_id instance_base \<Rightarrow>
          if fb_kind = 0 then
            rbind (ok_or (primitive_of_id fb_id) (VerifyRule 7 ''unknown primitive id'')) (\<lambda>prim.
            rbind (vpop_n (input_count prim) stack) (\<lambda>st.
            rbind (vpush_outputs 0 (output_count prim) st) next))
          else Inr (VNext stack [(pc + sz, depth + 1)]))"

text \<open>The body of the loop after the \<open>seen\<close> test.\<close>

definition verify_at ::
  "ir_module \<Rightarrow> bool \<Rightarrow> nat \<Rightarrow> nat \<Rightarrow> astack \<Rightarrow> verify_error + verify_step" where
  "verify_at m is_user_fb pc depth stack =
     (if length (code m) \<le> pc then Inl (VerifyRule 1 ''fall off end of code'')
      else case decode_instruction (code m) pc of
        Inl e \<Rightarrow> Inl (VerifyRule 7 ''decode at pc'')
      | Inr (instr, sz) \<Rightarrow>
          rbind (verify_instr m is_user_fb pc depth instr sz stack) (\<lambda>r.
            case r of VNext st [] \<Rightarrow> Inl (VerifyRule 6 ''no successor'') | _ \<Rightarrow> Inr r))"

type_synonym work_item = "nat \<times> astack \<times> nat"

function verify_loop ::
  "ir_module \<Rightarrow> bool \<Rightarrow> (nat \<rightharpoonup> astack) \<Rightarrow> work_item list \<Rightarrow> bool \<Rightarrow> verify_error + bool" where
  "verify_loop m is_user_fb seen [] ended_ok = Inr ended_ok"
| "verify_loop m is_user_fb seen ((pc, stack, depth) # work) ended_ok =
     (if MAX_CALL_DEPTH < depth then Inl (VerifyRule 5 ''call depth > 32'')
      else case seen pc of
        Some prev \<Rightarrow>
          if stacks_compatible prev stack then verify_loop m is_user_fb seen work ended_ok
          else Inl (VerifyRule 3 ''stack type conflict'')
      | None \<Rightarrow>
          (case verify_at m is_user_fb pc depth stack of
             Inl e \<Rightarrow> Inl e
           | Inr VTerminal \<Rightarrow> verify_loop m is_user_fb (seen(pc \<mapsto> stack)) work True
           | Inr (VNext st nexts) \<Rightarrow>
               verify_loop m is_user_fb (seen(pc \<mapsto> stack))
                 (rev (map (\<lambda>(npc, nd). (npc, st, nd)) nexts) @ work) ended_ok))"
  by pat_completeness auto

lemma verify_at_in_code: "verify_at m fb pc d st = Inr r \<Longrightarrow> pc < length (code m)"
  by (simp add: verify_at_def split: if_splits)

lemma unseen_decreases:
  assumes "seen pc = None" "pc < (n :: nat)"
  shows "card ({..<n} - insert pc (dom seen)) < card ({..<n} - dom seen)"
  using assms by (intro psubset_card_mono) (auto simp: domIff)

termination verify_loop
  by (relation "measures [\<lambda>(m, fb, seen, work, e). card ({..<length (code m)} - dom seen),
                          \<lambda>(m, fb, seen, work, e). length work]")
    (auto dest!: verify_at_in_code unseen_decreases)

definition verify_entry :: "ir_module \<Rightarrow> nat \<Rightarrow> bool \<Rightarrow> verify_error + unit" where
  "verify_entry m entry_pc is_user_fb =
     rbind (verify_loop m is_user_fb (\<lambda>_. None) [(entry_pc, [], 0)] False) (\<lambda>ended_ok.
       if \<not> ended_ok then Inl (VerifyRule 6 ''entry has path without HALT/RET'') else Inr ())"

fun verify_entries :: "ir_module \<Rightarrow> entry_point list \<Rightarrow> verify_error + unit" where
  "verify_entries m [] = Inr ()"
| "verify_entries m (e # es) =
     (if length (code m) \<le> unat (ep_pc e) \<and> code m \<noteq> []
      then Inl (VerifyRule 1 ''entry pc out of bounds'')
      else if ep_pc e mod 4 \<noteq> 0 then Inl (VerifyRule 1 ''entry pc not aligned'')
      else rbind (verify_entry m (unat (ep_pc e)) (ep_is_user_fb e)) (\<lambda>_. verify_entries m es))"

definition verify_module :: "ir_module \<Rightarrow> verify_error + unit" where
  "verify_module m =
     (if ir_major m \<noteq> IR_MAJOR then Inl (VerifyRule 7 ''unsupported ir_major'')
      else if MAX_CODE_BYTES < word_of_nat (length (code m))
      then Inl (VerifyRule 9 ''code exceeds 4 MiB'')
      else if MAX_DATA_RETAIN < sat_add (data_size m) (retain_size m)
      then Inl (VerifyRule 9 ''data+retain exceeds 16 MiB'')
      else if length (code m) mod 4 \<noteq> 0 then Inl (VerifyRule 1 ''code size not multiple of 4'')
      else if word_of_nat (length (const_data m)) \<noteq> const_size m
      then Inl (VerifyRule 4 ''const_data length disagrees with const_size'')
      else verify_entries m (entries m))"

text \<open>
  The annotation a successful run leaves behind. It speaks of stack heights and of the
  instruction checks, not of the types: \<open>stacks_compatible\<close> is not transitive, so the
  first-seen stack need not describe the types of a later visit.
\<close>

definition covered :: "(nat \<rightharpoonup> astack) \<Rightarrow> nat \<Rightarrow> astack \<Rightarrow> bool" where
  "covered S pc st \<longleftrightarrow> (\<exists>prev. S pc = Some prev \<and> stacks_compatible prev st)"

definition annotated :: "ir_module \<Rightarrow> bool \<Rightarrow> (nat \<rightharpoonup> astack) \<Rightarrow> nat \<Rightarrow> astack \<Rightarrow> bool" where
  "annotated m fb S pc st \<longleftrightarrow>
     (\<exists>d r. verify_at m fb pc d st = Inr r
        \<and> (case r of VTerminal \<Rightarrow> True | VNext st' nexts \<Rightarrow> \<forall>(npc, nd)\<in>set nexts. covered S npc st'))"

definition certificate :: "ir_module \<Rightarrow> bool \<Rightarrow> nat \<Rightarrow> (nat \<rightharpoonup> astack) \<Rightarrow> bool" where
  "certificate m fb entry S \<longleftrightarrow>
     S entry = Some [] \<and> (\<forall>pc st. S pc = Some st \<longrightarrow> annotated m fb S pc st)"

subsection \<open>A successful run leaves a certificate\<close>

lemma stacks_compatible_refl [simp]: "stacks_compatible st st"
  by (induction st) (auto simp: stacks_compatible_def split: option.splits)

lemma stacks_compatible_length: "stacks_compatible a b \<Longrightarrow> length a = length b"
  by (simp add: stacks_compatible_def)

lemma covered_mono: "covered S pc st \<Longrightarrow> S \<subseteq>\<^sub>m S' \<Longrightarrow> covered S' pc st"
  by (auto simp: covered_def map_le_def dom_def)

text \<open>The loop extends \<open>seen\<close> to a map that covers the worklist and annotates every pc it adds.\<close>

lemma verify_loop_certificate:
  assumes "verify_loop m fb seen work e = Inr r"
  shows "\<exists>S. seen \<subseteq>\<^sub>m S \<and> (\<forall>(pc, st, d)\<in>set work. covered S pc st)
    \<and> (\<forall>pc st. S pc = Some st \<longrightarrow> seen pc = Some st \<or> annotated m fb S pc st)"
  using assms
proof (induction m fb seen work e rule: verify_loop.induct)
  case (1 m fb seen e)
  then show ?case by (intro exI [of _ seen]) simp
next
  case (2 m fb seen pc st d work e)
  have d: "\<not> MAX_CALL_DEPTH < d" using "2.prems" by (simp split: if_splits)
  show ?case
  proof (cases "seen pc")
    case (Some prev)
    then have c: "stacks_compatible prev st" using "2.prems" d by (simp split: if_splits)
    then obtain S where S: "seen \<subseteq>\<^sub>m S" "\<forall>(pc, st, d)\<in>set work. covered S pc st"
      "\<forall>pc st. S pc = Some st \<longrightarrow> seen pc = Some st \<or> annotated m fb S pc st"
      using "2.IH"(3) [OF d Some c] "2.prems" d Some by auto
    moreover have "S pc = Some prev" using S(1) Some by (auto simp: map_le_def dom_def)
    ultimately show ?thesis using c by (intro exI [of _ S]) (auto simp: covered_def)
  next
    case None
    then obtain q where q: "verify_at m fb pc d st = Inr q"
      using "2.prems" d by (auto split: sum.splits)
    let ?seen = "seen(pc \<mapsto> st)"
    let ?new = "case q of VTerminal \<Rightarrow> [] | VNext st' nexts \<Rightarrow> rev (map (\<lambda>(npc, nd). (npc, st', nd)) nexts)"
    have "\<exists>S. ?seen \<subseteq>\<^sub>m S \<and> (\<forall>(pc, st, d)\<in>set (?new @ work). covered S pc st)
      \<and> (\<forall>pc st. S pc = Some st \<longrightarrow> ?seen pc = Some st \<or> annotated m fb S pc st)"
      using "2.IH"(1,2) [OF d None q] "2.prems" d None q
      by (cases q) (simp_all del: fun_upd_apply)
    then obtain S where S: "?seen \<subseteq>\<^sub>m S" "\<forall>(pc, st, d)\<in>set (?new @ work). covered S pc st"
      "\<forall>pc st. S pc = Some st \<longrightarrow> ?seen pc = Some st \<or> annotated m fb S pc st"
      by blast
    have "S pc = Some st" using S(1) by (auto simp: map_le_def)
    moreover have "annotated m fb S pc st"
      unfolding annotated_def using q S(2) by (intro exI [of _ d] exI [of _ q]) (cases q; force)
    moreover have "seen \<subseteq>\<^sub>m S" using S(1) None by (auto simp: map_le_def dom_def split: if_splits)
    ultimately have "\<forall>pc' st'. S pc' = Some st' \<longrightarrow> seen pc' = Some st' \<or> annotated m fb S pc' st'"
      using S(3) by (metis fun_upd_other option.inject)
    moreover have "covered S pc st" using \<open>S pc = Some st\<close> by (simp add: covered_def)
    ultimately show ?thesis using S(2) \<open>seen \<subseteq>\<^sub>m S\<close> by (intro exI [of _ S]) simp
  qed
qed

lemma verify_entry_certificate:
  assumes "verify_entry m pc fb = Inr ()"
  shows "\<exists>S. certificate m fb pc S"
proof -
  obtain r where r: "verify_loop m fb (\<lambda>_. None) [(pc, [], 0)] False = Inr r"
    using assms by (auto simp: verify_entry_def rbind_eq_Inr)
  from verify_loop_certificate [OF r]
  obtain S where "covered S pc []" "\<forall>pc st. S pc = Some st \<longrightarrow> annotated m fb S pc st"
    by auto
  then show ?thesis
    by (intro exI [of _ S]) (auto simp: certificate_def covered_def dest: stacks_compatible_length)
qed

lemma verify_entries_all:
  "verify_entries m es = Inr () \<Longrightarrow> e \<in> set es \<Longrightarrow>
     verify_entry m (unat (ep_pc e)) (ep_is_user_fb e) = Inr ()"
  by (induction es) (auto simp: rbind_eq_Inr split: if_splits)

lemma verify_module_entry:
  "verify_module m = Inr () \<Longrightarrow> e \<in> set (entries m) \<Longrightarrow>
     verify_entry m (unat (ep_pc e)) (ep_is_user_fb e) = Inr ()"
  using verify_entries_all by (auto simp: verify_module_def split: if_splits)

subsection \<open>Stack effect of a checked instruction\<close>

text \<open>How many operands an instruction takes and how many results it leaves.\<close>

definition stack_effect :: "decoded_instr \<Rightarrow> nat \<times> nat" where
  "stack_effect i =
     (case i of
        Simple op _ \<Rightarrow>
          if op \<in> {OpPushIBool, OpLdData, OpLdRetain, OpLdI, OpLdIq, OpLdQ} then (0, 1)
          else if op \<in> {OpStData, OpStRetain, OpStQ, OpJmpIf, OpJmpIfNot} then (1, 0)
          else if op \<in> {OpNeg, OpNot, OpConv} then (1, 1)
          else if op \<in> {OpAdd, OpSub, OpMul, OpDiv, OpAnd, OpOr, OpXor,
                        OpEq, OpNe, OpLt, OpLe, OpGt, OpGe} then (2, 1)
          else (0, 0)
      | WithImm32 _ _ _ \<Rightarrow> (0, 1)
      | CallFb k d _ \<Rightarrow>
          (case primitive_of_id d of
             Some p \<Rightarrow> if k = 0 then (input_count p, output_count p) else (0, 0)
           | None \<Rightarrow> (0, 0)))"

lemma vpop_eq_Inr: "vpop st = Inr (t, st') \<longleftrightarrow> st = t # st'"
  by (cases st) (auto simp: vpop_def)

lemma vpush_eq_Inr: "vpush t st = Inr st' \<longleftrightarrow> length st < MAX_STACK \<and> st' = t # st"
  by (auto simp: vpush_def)

lemma vpop_n_length: "vpop_n n st = Inr st' \<Longrightarrow> n \<le> length st \<and> length st' = length st - n"
  by (induction n arbitrary: st) (auto simp: rbind_eq_Inr vpop_eq_Inr)

lemma vpush_outputs_length:
  "vpush_outputs i n st = Inr st' \<Longrightarrow> length st' = length st + n \<and> (0 < n \<longrightarrow> length st' \<le> MAX_STACK)"
proof (induction n arbitrary: i st)
  case 0
  then show ?case by simp
next
  case (Suc n)
  then obtain t where t: "length st < MAX_STACK" "vpush_outputs (Suc i) n (t # st) = Inr st'"
    by (auto simp: rbind_eq_Inr vpush_eq_Inr)
  from Suc.IH [OF t(2)] t show ?case by (cases n) auto
qed

lemmas verify_step_simps =
  rbind_eq_Inr vpop_eq_Inr vpush_eq_Inr ok_or_eq_Inr stack_effect_def Let_def

lemma verify_simple_effect:
  assumes "verify_simple m fb pc n d op p st = Inr (VNext st' nexts)"
    and "stack_effect (Simple op p) = (k, j)"
  shows "k \<le> length st \<and> length st' = length st - k + j \<and> (0 < j \<longrightarrow> length st' \<le> MAX_STACK)"
  using assms unfolding verify_simple_def
  by (cases op) (auto simp: verify_step_simps split: if_splits)

lemma verify_instr_effect:
  assumes "verify_instr m fb pc d i n st = Inr (VNext st' nexts)" and "stack_effect i = (k, j)"
  shows "k \<le> length st \<and> length st' = length st - k + j \<and> (0 < j \<longrightarrow> length st' \<le> MAX_STACK)"
proof (cases i)
  case (Simple op p)
  then have "verify_simple m fb pc n d op p st = Inr (VNext st' nexts)"
    using assms(1) by (simp add: verify_instr_def)
  from verify_simple_effect [OF this] show ?thesis using assms(2) Simple by blast
next
  case (WithImm32 op p imm)
  then show ?thesis using assms
    by (auto simp: verify_instr_def verify_step_simps split: if_splits)
next
  case (CallFb kd fid base)
  show ?thesis
  proof (cases "kd = 0")
    case False
    then show ?thesis using assms CallFb
      by (auto simp: verify_instr_def stack_effect_def split: option.splits)
  next
    case True
    then obtain p st1 where p: "primitive_of_id fid = Some p" "vpop_n (input_count p) st = Inr st1"
      "vpush_outputs 0 (output_count p) st1 = Inr st'"
      using assms(1) CallFb by (auto simp: verify_instr_def verify_step_simps)
    then show ?thesis
      using assms(2) CallFb True vpop_n_length [OF p(2)] vpush_outputs_length [OF p(3)]
      by (auto simp: stack_effect_def)
  qed
qed

lemma verify_at_instr:
  assumes "verify_at m fb pc d st = Inr r"
  shows "\<exists>i sz. decode_instruction (code m) pc = Inr (i, sz) \<and> verify_instr m fb pc d i sz st = Inr r"
proof (cases "decode_instruction (code m) pc")
  case (Inl e)
  then show ?thesis using assms by (simp add: verify_at_def split: if_splits)
next
  case (Inr y)
  obtain i sz where y: "y = (i, sz)" by (cases y)
  obtain q where q: "verify_instr m fb pc d i sz st = Inr q"
    using assms Inr y by (auto simp: verify_at_def rbind_eq_Inr split: if_splits)
  have "q = r"
    using assms Inr y q by (cases q; cases "case q of VNext _ ns \<Rightarrow> ns | VTerminal \<Rightarrow> []")
      (auto simp: verify_at_def split: if_splits list.splits)
  then show ?thesis using Inr y q by simp
qed

end
