(* ===== verification/RetainLayout.thy ===== *)
theory RetainLayout
  imports IrCore "HOL-Library.Multiset"
begin

section \<open>Retain layouts (\<open>plc-ir/src/retain.rs\<close>)\<close>

text \<open>
  A layout names the typed cells of the retain segment. \<open>layout_new\<close> is
  \<open>RetainLayout::new\<close>: it sorts by name, rejects duplicate and empty names, cells outside
  the segment and, on a copy sorted by offset, overlapping cells. The lemmas characterise the
  accepted symbol lists exactly and show that \<open>layout_get\<close>, a binary search, finds what is
  in the table.
\<close>

subsection \<open>Definitions\<close>

record retain_symbol =
  rs_name :: string
  rs_ty :: ir_type
  rs_offset :: u32

definition end_offset :: "retain_symbol \<Rightarrow> u32" where
  "end_offset s = sat_add (rs_offset s) (word_of_nat (byte_width (rs_ty s)))"

record retain_layout =
  rl_size :: u32
  rl_symbols :: "retain_symbol list"

definition windows2 :: "'a list \<Rightarrow> ('a \<times> 'a) list" where
  "windows2 xs = zip xs (tl xs)"

text \<open>The second loop of \<open>new\<close>: the first bad symbol decides the error.\<close>

fun layout_check_bounds :: "u32 \<Rightarrow> retain_symbol list \<Rightarrow> ir_error + unit" where
  "layout_check_bounds rsize [] = Inr ()"
| "layout_check_bounds rsize (s # ss) =
     (if rs_name s = [] then Inl (IrRetainLayout ''empty symbol name'')
      else if unat rsize < unat (rs_offset s) + byte_width (rs_ty s)
      then Inl (IrRetainLayout ''symbol exceeds retain_size'')
      else layout_check_bounds rsize ss)"

definition layout_new :: "u32 \<Rightarrow> retain_symbol list \<Rightarrow> ir_error + retain_layout" where
  "layout_new rsize syms =
     (let sorted_syms = sort_key rs_name syms
      in if list_ex (\<lambda>(a, b). rs_name a = rs_name b) (windows2 sorted_syms)
         then Inl (IrRetainLayout ''duplicate symbol'')
         else rbind (layout_check_bounds rsize sorted_syms) (\<lambda>_.
           let by_off = sort_key rs_offset sorted_syms
           in if list_ex (\<lambda>(a, b). rs_offset b < end_offset a) (windows2 by_off)
              then Inl (IrRetainLayout ''symbols overlap'')
              else Inr \<lparr>rl_size = rsize, rl_symbols = sorted_syms\<rparr>))"

definition layout_empty :: "u32 \<Rightarrow> retain_layout" where
  "layout_empty rsize = \<lparr>rl_size = rsize, rl_symbols = []\<rparr>"

definition layout_get :: "retain_layout \<Rightarrow> string \<Rightarrow> retain_symbol option" where
  "layout_get l name =
     map_option (\<lambda>i. rl_symbols l ! i) (binary_search (map rs_name (rl_symbols l)) name)"

text \<open>The specification: distinct non-empty names, cells inside the segment, disjoint cells.\<close>

definition cells_disjoint :: "retain_symbol \<Rightarrow> retain_symbol \<Rightarrow> bool" where
  "cells_disjoint a b \<longleftrightarrow>
     unat (rs_offset a) + byte_width (rs_ty a) \<le> unat (rs_offset b)
     \<or> unat (rs_offset b) + byte_width (rs_ty b) \<le> unat (rs_offset a)"

definition valid_symbols :: "u32 \<Rightarrow> retain_symbol list \<Rightarrow> bool" where
  "valid_symbols rsize syms \<longleftrightarrow>
     distinct (map rs_name syms)
     \<and> (\<forall>s\<in>set syms. rs_name s \<noteq> [] \<and> unat (rs_offset s) + byte_width (rs_ty s) \<le> unat rsize)
     \<and> (\<forall>a\<in>set syms. \<forall>b\<in>set syms. a \<noteq> b \<longrightarrow> cells_disjoint a b)"

definition layout_inv :: "retain_layout \<Rightarrow> bool" where
  "layout_inv l \<longleftrightarrow> sorted (map rs_name (rl_symbols l)) \<and> valid_symbols (rl_size l) (rl_symbols l)"

subsection \<open>The three checks\<close>

lemma windows2_nth: "set (windows2 xs) = {(xs ! i, xs ! Suc i) | i. Suc i < length xs}"
  by (auto simp: windows2_def set_zip nth_tl less_diff_conv)

lemma layout_check_bounds_iff:
  "layout_check_bounds rsize ss = Inr () \<longleftrightarrow>
     (\<forall>s\<in>set ss. rs_name s \<noteq> [] \<and> unat (rs_offset s) + byte_width (rs_ty s) \<le> unat rsize)"
  by (induction ss) auto

lemma sorted_adjacent_distinct:
  assumes "sorted xs"
  shows "(\<forall>i. Suc i < length xs \<longrightarrow> xs ! i \<noteq> xs ! Suc i) \<longleftrightarrow> distinct xs"
proof
  assume "\<forall>i. Suc i < length xs \<longrightarrow> xs ! i \<noteq> xs ! Suc i"
  then have "\<forall>i. Suc i < length xs \<longrightarrow> xs ! i < xs ! Suc i"
    using sorted_nth_mono [OF assms] by (metis le_less lessI less_or_eq_imp_le)
  then have "sorted_wrt (<) xs"
    by (simp add: sorted_wrt_iff_nth_Suc_transp)
  then show "distinct xs" by (simp add: strict_sorted_iff)
next
  assume "distinct xs"
  then show "\<forall>i. Suc i < length xs \<longrightarrow> xs ! i \<noteq> xs ! Suc i"
    by (auto simp: nth_eq_iff_index_eq)
qed

lemma dup_check_iff:
  "list_ex (\<lambda>(a, b). rs_name a = rs_name b) (windows2 (sort_key rs_name syms))
     \<longleftrightarrow> \<not> distinct (map rs_name syms)"
proof -
  let ?s = "sort_key rs_name syms"
  have "distinct (map rs_name syms) \<longleftrightarrow> distinct (map rs_name ?s)"
    by (metis mset_map mset_sort mset_eq_imp_distinct_iff)
  also have "\<dots> \<longleftrightarrow> (\<forall>i. Suc i < length ?s \<longrightarrow> rs_name (?s ! i) \<noteq> rs_name (?s ! Suc i))"
    using sorted_adjacent_distinct [of "map rs_name ?s"] by (auto simp del: length_sort)
  finally show ?thesis
    by (auto simp: list_ex_iff windows2_nth)
qed

lemma unat_end_offset:
  "unat (rs_offset s) + byte_width (rs_ty s) \<le> unat (rsize :: u32) \<Longrightarrow>
     unat (end_offset s) = unat (rs_offset s) + byte_width (rs_ty s)"
  using unat_bound [of rsize] byte_width_le_8 [of "rs_ty s"]
  by (simp add: end_offset_def unat_sat_add unat_of_nat)

lemma overlap_check_iff:
  assumes "distinct syms"
    and b: "\<forall>s\<in>set syms. unat (rs_offset s) + byte_width (rs_ty s) \<le> unat (rsize :: u32)"
  shows "list_ex (\<lambda>(a, b). rs_offset b < end_offset a) (windows2 (sort_key rs_offset syms))
     \<longleftrightarrow> \<not> (\<forall>a\<in>set syms. \<forall>b\<in>set syms. a \<noteq> b \<longrightarrow> cells_disjoint a b)"
proof -
  let ?s = "sort_key rs_offset syms"
  let ?R = "\<lambda>a b. unat (rs_offset a) + byte_width (rs_ty a) \<le> unat (rs_offset b)"
  have e: "rs_offset b < end_offset a \<longleftrightarrow> \<not> ?R a b" if "a \<in> set syms" for a b
    using that assms(2) by (auto simp: word_less_nat_alt unat_end_offset)
  have d: "distinct ?s" using assms(1) by simp
  have "transp ?R" by (auto simp: transp_def)
  then have w: "sorted_wrt ?R ?s \<longleftrightarrow> (\<forall>i. Suc i < length ?s \<longrightarrow> ?R (?s ! i) (?s ! Suc i))"
    by (rule sorted_wrt_iff_nth_Suc_transp)
  have m: "?s ! i \<in> set syms" if "i < length ?s" for i
    using that nth_mem [of i ?s] by (simp del: length_sort)
  have "sorted_wrt ?R ?s \<longleftrightarrow> (\<forall>a\<in>set syms. \<forall>b\<in>set syms. a \<noteq> b \<longrightarrow> cells_disjoint a b)"
  proof
    assume "sorted_wrt ?R ?s"
    then show "\<forall>a\<in>set syms. \<forall>b\<in>set syms. a \<noteq> b \<longrightarrow> cells_disjoint a b"
      by (metis (no_types, lifting) cells_disjoint_def in_set_conv_nth linorder_neqE_nat set_sort
          sorted_wrt_nth_less)
  next
    assume disj: "\<forall>a\<in>set syms. \<forall>b\<in>set syms. a \<noteq> b \<longrightarrow> cells_disjoint a b"
    show "sorted_wrt ?R ?s"
      unfolding w
    proof (intro allI impI)
      fix i assume i: "Suc i < length ?s"
      then have "?s ! i \<noteq> ?s ! Suc i" using d by (simp add: nth_eq_iff_index_eq del: length_sort)
      then have "cells_disjoint (?s ! i) (?s ! Suc i)" using disj m i by simp
      moreover have "unat (rs_offset (?s ! i)) \<le> unat (rs_offset (?s ! Suc i))"
        using sorted_nth_mono [of "map rs_offset ?s" i "Suc i"] i
        by (simp add: word_le_nat_alt del: length_sort)
      ultimately show "?R (?s ! i) (?s ! Suc i)"
        using byte_width_pos [of "rs_ty (?s ! Suc i)"] unfolding cells_disjoint_def by linarith
    qed
  qed
  moreover have "list_ex (\<lambda>(a, b). rs_offset b < end_offset a) (windows2 ?s) \<longleftrightarrow>
      (\<exists>i. Suc i < length ?s \<and> rs_offset (?s ! Suc i) < end_offset (?s ! i))"
    by (auto simp: list_ex_iff windows2_nth)
  moreover have "\<dots> \<longleftrightarrow> \<not> sorted_wrt ?R ?s"
    using e [OF m] by (auto simp only: w dest: Suc_lessD)
  ultimately show ?thesis by simp
qed

subsection \<open>What \<open>layout_new\<close> accepts\<close>

lemma valid_symbols_sort: "valid_symbols rsize (sort_key f syms) \<longleftrightarrow> valid_symbols rsize syms"
proof -
  have "distinct (map rs_name (sort_key f syms)) \<longleftrightarrow> distinct (map rs_name syms)"
    by (metis mset_map mset_sort mset_eq_imp_distinct_iff)
  then show ?thesis by (simp add: valid_symbols_def)
qed

lemma layout_new_iff:
  "layout_new rsize syms = Inr l \<longleftrightarrow>
     valid_symbols rsize syms \<and> l = \<lparr>rl_size = rsize, rl_symbols = sort_key rs_name syms\<rparr>"
proof (cases "distinct (map rs_name syms)
    \<and> (\<forall>s\<in>set syms. rs_name s \<noteq> [] \<and> unat (rs_offset s) + byte_width (rs_ty s) \<le> unat rsize)")
  case True
  then have "distinct syms" by (simp add: distinct_map)
  then have "list_ex (\<lambda>(a, b). rs_offset b < end_offset a)
      (windows2 (sort_key rs_offset (sort_key rs_name syms)))
     \<longleftrightarrow> \<not> (\<forall>a\<in>set syms. \<forall>b\<in>set syms. a \<noteq> b \<longrightarrow> cells_disjoint a b)"
    using overlap_check_iff [of "sort_key rs_name syms" rsize] True by simp
  then show ?thesis
    using True layout_check_bounds_iff [of rsize "sort_key rs_name syms"]
    by (auto simp: layout_new_def Let_def dup_check_iff valid_symbols_def)
next
  case False
  then show ?thesis
    using layout_check_bounds_iff [of rsize "sort_key rs_name syms"]
    by (auto simp: layout_new_def Let_def dup_check_iff valid_symbols_def rbind_eq_Inr)
qed

lemma layout_new_inv: "layout_new rsize syms = Inr l \<Longrightarrow> layout_inv l"
  by (simp add: layout_new_iff layout_inv_def valid_symbols_sort)

lemma layout_get_iff:
  assumes "layout_inv l"
  shows "layout_get l n = Some s \<longleftrightarrow> s \<in> set (rl_symbols l) \<and> rs_name s = n"
proof -
  let ?ns = "map rs_name (rl_symbols l)"
  have d: "distinct ?ns" "sorted ?ns"
    using assms by (simp_all add: layout_inv_def valid_symbols_def)
  then have "layout_get l n = Some s
      \<longleftrightarrow> (\<exists>i. i < length ?ns \<and> ?ns ! i = n \<and> s = rl_symbols l ! i)"
    by (auto simp: layout_get_def binary_search_iff)
  also have "\<dots> \<longleftrightarrow> s \<in> set (rl_symbols l) \<and> rs_name s = n"
    by (auto simp: in_set_conv_nth)
  finally show ?thesis .
qed

end
