(* ===== verification/VmExec.thy ===== *)
theory VmExec
  imports VmMemory Verifier RetainLayout "HOL-Library.Signed_Division"
begin

unbundle bit_operations_syntax

section \<open>The virtual machine (\<open>plc-vm/src/exec.rs\<close>, \<open>load.rs\<close>)\<close>

text \<open>
  An operation of the machine is a function from the machine to the machine and a result, so
  that what an instruction changed before it failed stays changed, as with \<open>&mut self\<close>.
  The operand and call stacks are the live parts of the code's arrays, top first.
  \<open>run_loop\<close> is the loop of \<open>run_at\<close>: its fuel is the instruction budget, so running out
  of fuel is the code's own budget error and the function is total. Integer arithmetic is on
  32 or 64 bit words; \<open>Dint::MIN / -1\<close> is the one division that overflows, and panics.
\<close>

subsection \<open>State\<close>

datatype exec_result = Halted | Returned

record vm_frame =
  fr_return_pc :: nat
  fr_data_base :: u32

record vm =
  vm_code :: bytes
  vm_const_data :: bytes
  vm_data :: byte_segment
  vm_retain :: byte_segment
  vm_inputs :: slot_image
  vm_outputs :: slot_image
  vm_entries :: "(string \<times> u32 \<times> bool) list"
  vm_user_fb_pc :: "u32 option list"
  vm_primitives :: primitive_store
  vm_stack :: "vm_value list"
  vm_frames :: "vm_frame list"
  vm_data_base :: u32
  vm_budget :: u64
  vm_div0_count :: u32
  vm_retain_dirty :: bool
  vm_first_scan :: bool

type_synonym 'a vm_op = "vm \<Rightarrow> vm \<times> (vm_error + 'a)"

definition vret :: "'a \<Rightarrow> 'a vm_op" where
  "vret x = (\<lambda>s. (s, Inr x))"

definition vfail :: "vm_error \<Rightarrow> 'a vm_op" where
  "vfail e = (\<lambda>s. (s, Inl e))"

definition vbind :: "'a vm_op \<Rightarrow> ('a \<Rightarrow> 'b vm_op) \<Rightarrow> 'b vm_op" where
  "vbind m f = (\<lambda>s. case m s of (s', Inl e) \<Rightarrow> (s', Inl e) | (s', Inr x) \<Rightarrow> f x s')"

definition vlift :: "vm_error + 'a \<Rightarrow> 'a vm_op" where
  "vlift r = (\<lambda>s. (s, r))"

definition vupd :: "(vm \<Rightarrow> vm) \<Rightarrow> unit vm_op" where
  "vupd f = (\<lambda>s. (f s, Inr ()))"

definition vreads :: "(vm \<Rightarrow> vm_error + 'a) \<Rightarrow> 'a vm_op" where
  "vreads f = (\<lambda>s. (s, f s))"

subsection \<open>Loading a module\<close>

record vm_config =
  vc_primitive_instances :: nat
  vc_instruction_budget :: u64
  vc_verify :: bool

text \<open>\<open>str::parse::<u32>\<close>: an optional plus sign and decimal digits within range.\<close>

definition digit_val :: "char \<Rightarrow> nat option" where
  "digit_val c = (let n = of_char c :: nat in if 48 \<le> n \<and> n \<le> 57 then Some (n - 48) else None)"

fun parse_digits :: "nat \<Rightarrow> string \<Rightarrow> nat option" where
  "parse_digits acc [] = Some acc"
| "parse_digits acc (c # cs) =
     (case digit_val c of
        None \<Rightarrow> None
      | Some d \<Rightarrow> if 2 ^ 32 \<le> 10 * acc + d then None else parse_digits (10 * acc + d) cs)"

definition parse_u32 :: "string \<Rightarrow> u32 option" where
  "parse_u32 s =
     (let ds = (if s \<noteq> [] \<and> hd s = CHR ''+'' then tl s else s)
      in if ds = [] then None else map_option word_of_nat (parse_digits 0 ds))"

definition parse_user_fb_id :: "string \<Rightarrow> u32 option" where
  "parse_user_fb_id name =
     (if take 3 name = ''fb.'' \<or> take 3 name = ''FB.'' then parse_u32 (drop 3 name) else None)"

definition register_fb :: "entry_point \<Rightarrow> u32 option list \<Rightarrow> u32 option list" where
  "register_fb e fbs =
     (if ep_is_user_fb e then
        let idx = unat (case parse_user_fb_id (ep_name e) of
                          Some k \<Rightarrow> k | None \<Rightarrow> (word_of_nat (length fbs) :: u32));
            fbs' = (if length fbs \<le> idx then fbs @ replicate (idx + 1 - length fbs) None else fbs)
        in fbs'[idx := Some (ep_pc e)]
      else fbs)"

definition vm_load :: "ir_module \<Rightarrow> vm_config \<Rightarrow> vm_error + vm" where
  "vm_load m cfg =
     rbind (if vc_verify cfg
            then (case verify_module m of Inl e \<Rightarrow> Inl (VmVerify ''verify'') | Inr u \<Rightarrow> Inr u)
            else Inr ()) (\<lambda>_.
       Inr \<lparr>vm_code = code m, vm_const_data = const_data m,
            vm_data = seg_zeros (unat (data_size m)), vm_retain = seg_zeros (unat (retain_size m)),
            vm_inputs = slots_bools (unat (input_slots m)),
            vm_outputs = slots_bools (unat (output_slots m)),
            vm_entries = map (\<lambda>e. (ep_name e, ep_pc e, ep_is_user_fb e)) (entries m),
            vm_user_fb_pc = fold register_fb (entries m) [],
            vm_primitives = store_with_capacity (vc_primitive_instances cfg),
            vm_stack = [], vm_frames = [], vm_data_base = 0,
            vm_budget = vc_instruction_budget cfg, vm_div0_count = 0, vm_retain_dirty = False,
            vm_first_scan = False\<rparr>)"

definition cold_reset_non_retain :: "vm \<Rightarrow> vm" where
  "cold_reset_non_retain s =
     s\<lparr>vm_data := seg_fill_zero (vm_data s), vm_outputs := slots_fill_bool_false (vm_outputs s),
       vm_primitives := cold_reset_all (vm_primitives s), vm_stack := [], vm_frames := [],
       vm_data_base := 0, vm_div0_count := 0\<rparr>"

definition clear_retain_dirty :: "vm \<Rightarrow> vm" where
  "clear_retain_dirty s = s\<lparr>vm_retain_dirty := False\<rparr>"

definition vm_set_first_scan :: "bool \<Rightarrow> vm \<Rightarrow> vm" where
  "vm_set_first_scan v s = s\<lparr>vm_first_scan := v\<rparr>"

definition entry_pc :: "vm \<Rightarrow> string \<Rightarrow> vm_error + nat" where
  "entry_pc s name =
     ok_or (map_option (\<lambda>(_, pc, _). unat pc) (find (\<lambda>(n, _, _). n = name) (vm_entries s)))
       (VmUnknownEntry name)"

definition blit_retain_from :: "vm \<Rightarrow> nat \<Rightarrow> vm \<Rightarrow> nat \<Rightarrow> nat \<Rightarrow> vm_error + vm" where
  "blit_retain_from s dst src src_off len =
     rbind (seg_blit_from (vm_retain s) dst (vm_retain src) src_off len) (\<lambda>r. Inr (s\<lparr>vm_retain := r\<rparr>))"

fun load_retain_symbols :: "retain_symbol list \<Rightarrow> bytes \<Rightarrow> unit vm_op" where
  "load_retain_symbols [] img = vret ()"
| "load_retain_symbols (sy # sys) img =
     (let off = unat (rs_offset sy); fin = off + byte_width (rs_ty sy)
      in if length img < fin then vfail (VmBounds 0 ''retain symbol OOB'')
         else vbind (vlift (value_from_le_bytes (rs_ty sy) (slice off fin img))) (\<lambda>v.
              vbind (vreads (\<lambda>s. seg_store (vm_retain s) off v 0)) (\<lambda>r.
              vbind (vupd (\<lambda>s. s\<lparr>vm_retain := r\<rparr>)) (\<lambda>_. load_retain_symbols sys img))))"

definition load_retain_image :: "bytes \<Rightarrow> retain_layout \<Rightarrow> unit vm_op" where
  "load_retain_image img layout = (\<lambda>s.
     if length img \<noteq> seg_len (vm_retain s) then vfail (VmBounds 0 ''retain image != segment'') s
     else if unat (rl_size layout) \<noteq> length img
     then vfail (VmBounds 0 ''retain layout size != image'') s
     else load_retain_symbols (rl_symbols layout) img s)"

subsection \<open>Operators\<close>

definition vpush_value :: "vm_value \<Rightarrow> nat \<Rightarrow> unit vm_op" where
  "vpush_value v pc = (\<lambda>s.
     if MAX_STACK \<le> length (vm_stack s) then (s, Inl (VmStackOverflow pc))
     else (s\<lparr>vm_stack := v # vm_stack s\<rparr>, Inr ()))"

definition vpop_value :: "nat \<Rightarrow> vm_value vm_op" where
  "vpop_value pc = (\<lambda>s.
     case vm_stack s of [] \<Rightarrow> (s, Inl (VmStackUnderflow pc))
     | v # st \<Rightarrow> (s\<lparr>vm_stack := st\<rparr>, Inr v))"

definition unary_op :: "opcode \<Rightarrow> vm_value \<Rightarrow> nat \<Rightarrow> vm_error + vm_value" where
  "unary_op op v pc =
     (if op = OpNot then
        (case v of VBool b \<Rightarrow> Inr (VBool (\<not> b)) | VInt x \<Rightarrow> Inr (VInt (NOT x))
         | VDint x \<Rightarrow> Inr (VDint (NOT x)) | VTime x \<Rightarrow> Inr (VTime (NOT x))
         | VLint x \<Rightarrow> Inr (VLint (NOT x)) | VReal x \<Rightarrow> Inl (VmType pc ''NOT on REAL''))
      else if op = OpNeg then
        (case v of VInt x \<Rightarrow> Inr (VInt (- x)) | VDint x \<Rightarrow> Inr (VDint (- x))
         | VTime x \<Rightarrow> Inr (VTime (- x)) | VLint x \<Rightarrow> Inr (VLint (- x))
         | VReal x \<Rightarrow> Inr (VReal (f32_neg x)) | VBool b \<Rightarrow> Inl (VmType pc ''NEG on BOOL''))
      else Inl (VmType pc ''not a unary op''))"

definition values_eq :: "vm_value \<Rightarrow> vm_value \<Rightarrow> bool" where
  "values_eq a b =
     (case (a, b) of
        (VBool x, VBool y) \<Rightarrow> x = y
      | (VReal x, VReal y) \<Rightarrow> x = y
      | _ \<Rightarrow> (case (value_as_i64 a, value_as_i64 b) of (Some x, Some y) \<Rightarrow> x = y | _ \<Rightarrow> False))"

definition logic_word :: "opcode \<Rightarrow> 'a::len word \<Rightarrow> 'a word \<Rightarrow> 'a word" where
  "logic_word op x y = (if op = OpAnd then x AND y else if op = OpOr then x OR y else x XOR y)"

definition logic_op :: "opcode \<Rightarrow> vm_value \<Rightarrow> vm_value \<Rightarrow> nat \<Rightarrow> vm_error + vm_value" where
  "logic_op op a b pc =
     (case (a, b) of
        (VBool x, VBool y) \<Rightarrow>
          Inr (VBool (if op = OpAnd then x \<and> y else if op = OpOr then x \<or> y else x \<noteq> y))
      | (VDint x, VDint y) \<Rightarrow> Inr (VDint (logic_word op x y))
      | (VInt x, VInt y) \<Rightarrow> Inr (VInt (logic_word op x y))
      | _ \<Rightarrow> Inl (VmType pc ''logic type mismatch''))"

definition cmp_op :: "opcode \<Rightarrow> vm_value \<Rightarrow> vm_value \<Rightarrow> nat \<Rightarrow> vm_error + vm_value" where
  "cmp_op op a b pc =
     (case (a, b) of
        (VReal x, VReal y) \<Rightarrow>
          Inr (VBool (if op = OpLt then f32_lt x y else if op = OpLe then f32_le x y
                      else if op = OpGt then f32_lt y x else if op = OpGe then f32_le y x else False))
      | _ \<Rightarrow>
          rbind (ok_or (value_as_i64 a) (VmType pc ''cmp needs numeric'')) (\<lambda>x.
          rbind (ok_or (value_as_i64 b) (VmType pc ''cmp needs numeric'')) (\<lambda>y.
          Inr (VBool (if op = OpLt then sint x < sint y else if op = OpLe then sint x \<le> sint y
                      else if op = OpGt then sint y < sint x else if op = OpGe then sint y \<le> sint x
                      else False)))))"

text \<open>Rust's signed \<open>/\<close> truncates towards zero and panics when the quotient overflows.\<close>

definition word_sdiv :: "'a::len word \<Rightarrow> 'a word \<Rightarrow> vm_error + 'a word" where
  "word_sdiv x y =
     (if x = smin \<and> y = - 1 then Inl (VmPanic ''attempt to divide with overflow'')
      else Inr (word_of_int (sint x sdiv sint y)))"

text \<open>The integer operators return the quotient with a flag: was it a division by zero.\<close>

definition int_arith :: "opcode \<Rightarrow> 'a::len word \<Rightarrow> 'a word \<Rightarrow> vm_error + ('a word \<times> bool)" where
  "int_arith op x y =
     (if op = OpAdd then Inr (x + y, False)
      else if op = OpSub then Inr (x - y, False)
      else if op = OpMul then Inr (x * y, False)
      else if op = OpDiv then
        (if y = 0 then Inr (0, True) else rbind (word_sdiv x y) (\<lambda>q. Inr (q, False)))
      else Inr (0, False))"

definition real_arith :: "opcode \<Rightarrow> f32 \<Rightarrow> f32 \<Rightarrow> nat \<Rightarrow> vm_error + (f32 \<times> bool)" where
  "real_arith op x y pc =
     (if op = OpAdd then Inr (f32_add x y, False)
      else if op = OpSub then Inr (f32_sub x y, False)
      else if op = OpMul then Inr (f32_mul x y, False)
      else if op = OpDiv then
        (if f32_eq y 0 then Inr (0, True) else Inr (f32_div x y, False))
      else Inl (VmType pc ''bad arith''))"

definition arith_op :: "opcode \<Rightarrow> vm_value \<Rightarrow> vm_value \<Rightarrow> nat \<Rightarrow> vm_error + (vm_value \<times> bool)" where
  "arith_op op a b pc =
     (case (a, b) of
        (VReal x, VReal y) \<Rightarrow> rbind (real_arith op x y pc) (\<lambda>(r, z). Inr (VReal r, z))
      | (VTime x, VTime y) \<Rightarrow> rbind (int_arith op x y) (\<lambda>(r, z). Inr (VTime r, z))
      | (VDint x, VDint y) \<Rightarrow> rbind (int_arith op x y) (\<lambda>(r, z). Inr (VDint r, z))
      | (VInt x, VInt y) \<Rightarrow>
          rbind (int_arith op (scast x :: i32) (scast y)) (\<lambda>(r, z). Inr (VInt (ucast r), z))
      | (VLint x, VLint y) \<Rightarrow>
          if op \<in> {OpAdd, OpSub, OpMul, OpDiv}
          then rbind (int_arith op x y) (\<lambda>(r, z). Inr (VLint r, z))
          else Inl (VmType pc ''bad arith'')
      | (VInt x, VDint y) \<Rightarrow> rbind (int_arith op (scast x) y) (\<lambda>(r, z). Inr (VDint r, z))
      | (VDint x, VInt y) \<Rightarrow> rbind (int_arith op x (scast y)) (\<lambda>(r, z). Inr (VDint r, z))
      | _ \<Rightarrow> Inl (VmType pc ''arith type mismatch''))"

definition binop :: "opcode \<Rightarrow> vm_value \<Rightarrow> vm_value \<Rightarrow> nat \<Rightarrow> vm_value vm_op" where
  "binop op a b pc =
     (if op \<in> {OpAnd, OpOr, OpXor} then vlift (logic_op op a b pc)
      else if op = OpEq then vret (VBool (values_eq a b))
      else if op = OpNe then vret (VBool (\<not> values_eq a b))
      else if op \<in> {OpLt, OpLe, OpGt, OpGe} then vlift (cmp_op op a b pc)
      else if op \<in> {OpAdd, OpSub, OpMul, OpDiv} then
        vbind (vlift (arith_op op a b pc)) (\<lambda>(r, z).
        vbind (vupd (\<lambda>s. if z then s\<lparr>vm_div0_count := vm_div0_count s + 1\<rparr> else s)) (\<lambda>_. vret r))
      else vfail (VmType pc ''not a binary op''))"

subsection \<open>Calling a primitive\<close>

text \<open>Pops \<open>n\<close> operands; the result lists them bottom first, which is declaration order.\<close>

fun vpop_values :: "nat \<Rightarrow> nat \<Rightarrow> vm_value list vm_op" where
  "vpop_values 0 pc = vret []"
| "vpop_values (Suc n) pc =
     vbind (vpop_value pc) (\<lambda>v. vbind (vpop_values n pc) (\<lambda>vs. vret (vs @ [v])))"

fun vpush_values :: "vm_value list \<Rightarrow> nat \<Rightarrow> unit vm_op" where
  "vpush_values [] pc = vret ()"
| "vpush_values (v # vs) pc = vbind (vpush_value v pc) (\<lambda>_. vpush_values vs pc)"

definition prim_outputs :: "primitive_id \<Rightarrow> stack_value list \<Rightarrow> vm_value list" where
  "prim_outputs p outs =
     map (\<lambda>(i, v). from_stack_value v (p \<in> {PrimTon, PrimTof, PrimTp} \<and> i = 1)) (enumerate 0 outs)"

definition prim_error :: "primitive_call_error \<Rightarrow> nat \<Rightarrow> vm_error" where
  "prim_error e pc =
     (case e of PrimPanic \<Rightarrow> VmPanic ''clamp'' | PrimBadInstance \<Rightarrow> VmPrimitive pc ''BadInstance''
      | PrimArity _ _ \<Rightarrow> VmPrimitive pc ''Arity'' | PrimTypeMismatch \<Rightarrow> VmPrimitive pc ''TypeMismatch'')"

definition call_prim :: "u32 \<Rightarrow> nat \<Rightarrow> u64 \<Rightarrow> nat \<Rightarrow> unit vm_op" where
  "call_prim fb_id i now_ms pc =
     (case primitive_of_id fb_id of
        None \<Rightarrow> vfail (VmPrimitive pc ''unknown primitive id'')
      | Some p \<Rightarrow>
          vbind (vpop_values (input_count p) pc) (\<lambda>vs.
          vbind (vreads (\<lambda>s. case call_primitive (vm_primitives s) p i (map to_stack_value vs) now_ms of
                               Inl e \<Rightarrow> Inl (prim_error e pc) | Inr r \<Rightarrow> Inr r)) (\<lambda>(st, outs).
          vbind (vupd (\<lambda>s. s\<lparr>vm_primitives := st\<rparr>)) (\<lambda>_.
          vpush_values (rev (prim_outputs p outs)) pc))))"

subsection \<open>One instruction\<close>

datatype control = Goto nat | Exit exec_result

definition seg_offset :: "vm \<Rightarrow> u32 \<Rightarrow> nat" where
  "seg_offset s payload = unat (sat_add (vm_data_base s) payload)"

text \<open>\<open>vnext\<close> runs an operation and falls through to the next instruction.\<close>

definition vnext :: "nat \<Rightarrow> 'a vm_op \<Rightarrow> control vm_op" where
  "vnext npc m = vbind m (\<lambda>_. vret (Goto npc))"

definition exec_ret :: "control vm_op" where
  "exec_ret = (\<lambda>s.
     case vm_frames s of
       [] \<Rightarrow> (s, Inr (Exit Returned))
     | fr # frs \<Rightarrow>
         (s\<lparr>vm_frames := frs,
            vm_data_base := (case frs of [] \<Rightarrow> 0 | fr' # _ \<Rightarrow> fr_data_base fr')\<rparr>,
          Inr (Goto (fr_return_pc fr))))"

definition exec_simple :: "opcode \<Rightarrow> u32 \<Rightarrow> nat \<Rightarrow> nat \<Rightarrow> control vm_op" where
  "exec_simple op payload pc npc =
     (case op of
        OpNop \<Rightarrow> vret (Goto npc)
      | OpHalt \<Rightarrow> vret (Exit Halted)
      | OpRet \<Rightarrow> exec_ret
      | OpPushIBool \<Rightarrow> vnext npc (vpush_value (VBool (payload \<noteq> 0)) pc)
      | OpLdData \<Rightarrow> vnext npc (vbind (vreads (\<lambda>s. seg_load (vm_data s) (seg_offset s payload) pc))
                                (\<lambda>v. vpush_value v pc))
      | OpStData \<Rightarrow> vnext npc (vbind (vpop_value pc) (\<lambda>v.
                      vbind (vreads (\<lambda>s. seg_store (vm_data s) (seg_offset s payload) v pc)) (\<lambda>d.
                      vupd (\<lambda>s. s\<lparr>vm_data := d\<rparr>))))
      | OpLdRetain \<Rightarrow> vnext npc (vbind (vreads (\<lambda>s. seg_load (vm_retain s) (seg_offset s payload) pc))
                                  (\<lambda>v. vpush_value v pc))
      | OpStRetain \<Rightarrow> vnext npc (vbind (vpop_value pc) (\<lambda>v.
                        vbind (vreads (\<lambda>s. seg_store (vm_retain s) (seg_offset s payload) v pc)) (\<lambda>d.
                        vupd (\<lambda>s. s\<lparr>vm_retain := d, vm_retain_dirty := True\<rparr>))))
      | OpLdI \<Rightarrow> vnext npc (vbind (vreads (\<lambda>s. slot_get (vm_inputs s) (unat payload) pc))
                             (\<lambda>v. vpush_value v pc))
      | OpStQ \<Rightarrow> vnext npc (vbind (vpop_value pc) (\<lambda>v.
                   vbind (vreads (\<lambda>s. slot_set (vm_outputs s) (unat payload) v pc)) (\<lambda>im.
                   vupd (\<lambda>s. s\<lparr>vm_outputs := im\<rparr>))))
      | OpLdQ \<Rightarrow> vnext npc (vbind (vreads (\<lambda>s. slot_get (vm_outputs s) (unat payload) pc))
                             (\<lambda>v. vpush_value v pc))
      | OpLdIq \<Rightarrow> vnext npc (vbind (vreads (\<lambda>s. slot_quality_good (vm_inputs s) (unat payload) pc))
                              (\<lambda>g. vpush_value (VBool g) pc))
      | OpNeg \<Rightarrow> vnext npc (vbind (vpop_value pc) (\<lambda>a. vbind (vlift (unary_op op a pc)) (\<lambda>r. vpush_value r pc)))
      | OpNot \<Rightarrow> vnext npc (vbind (vpop_value pc) (\<lambda>a. vbind (vlift (unary_op op a pc)) (\<lambda>r. vpush_value r pc)))
      | OpJmp \<Rightarrow> vret (Goto (unat payload))
      | OpJmpIf \<Rightarrow> vbind (vpop_value pc) (\<lambda>c. vret (Goto (if value_as_bool c then unat payload else npc)))
      | OpJmpIfNot \<Rightarrow> vbind (vpop_value pc) (\<lambda>c. vret (Goto (if \<not> value_as_bool c then unat payload else npc)))
      | OpConv \<Rightarrow> vnext npc (vbind (vpop_value pc) (\<lambda>a.
                    vbind (vlift (ok_or (ir_type_from_u8 (ucast payload)) (VmType pc ''bad CONV tag''))) (\<lambda>ty.
                    vpush_value (value_convert a ty) pc)))
      | _ \<Rightarrow>
        if op \<in> {OpPushIDint, OpPushIReal, OpPushTime, OpCallFb}
        then vfail (VmDecode pc ''opcode expected wide form'')
        else vnext npc (vbind (vpop_value pc) (\<lambda>b. vbind (vpop_value pc) (\<lambda>a.
               vbind (binop op a b pc) (\<lambda>r. vpush_value r pc)))))"

definition call_user_fb :: "u32 \<Rightarrow> u32 \<Rightarrow> nat \<Rightarrow> nat \<Rightarrow> control vm_op" where
  "call_user_fb fb_id base pc npc = (\<lambda>s.
     case nth_opt (vm_user_fb_pc s) (unat fb_id) of
       Some (Some entry) \<Rightarrow>
         if MAX_CALL_DEPTH \<le> length (vm_frames s) then (s, Inl (VmCallDepth pc))
         else (s\<lparr>vm_frames := \<lparr>fr_return_pc = npc, fr_data_base = base\<rparr> # vm_frames s,
                 vm_data_base := base\<rparr>, Inr (Goto (unat entry)))
     | _ \<Rightarrow> (s, Inl (VmUnknownUserFb fb_id)))"

definition exec_instr :: "u64 \<Rightarrow> nat \<Rightarrow> decoded_instr \<Rightarrow> nat \<Rightarrow> control vm_op" where
  "exec_instr now_ms pc instr sz =
     (case instr of
        Simple op payload \<Rightarrow> exec_simple op payload pc (pc + sz)
      | WithImm32 op payload imm \<Rightarrow>
          if op = OpPushIDint then vnext (pc + sz) (vpush_value (VDint imm) pc)
          else if op = OpPushIReal then vnext (pc + sz) (vpush_value (VReal imm) pc)
          else if op = OpPushTime then vnext (pc + sz) (vpush_value (VTime imm) pc)
          else vfail (VmDecode pc ''unexpected WithImm32'')
      | CallFb fb_kind fb_id base \<Rightarrow>
          if fb_kind = 0 then vnext (pc + sz) (call_prim fb_id (unat base) now_ms pc)
          else call_user_fb fb_id base pc (pc + sz))"

definition vm_step :: "u64 \<Rightarrow> nat \<Rightarrow> control vm_op" where
  "vm_step now_ms pc = (\<lambda>s.
     case decode_instruction (vm_code s) pc of
       Inl e \<Rightarrow> (s, Inl (VmDecode pc ''decode''))
     | Inr (instr, sz) \<Rightarrow> exec_instr now_ms pc instr sz s)"

fun run_loop :: "nat \<Rightarrow> u64 \<Rightarrow> nat \<Rightarrow> exec_result vm_op" where
  "run_loop 0 now_ms pc s = (s, Inl (VmBudget (vm_budget s)))"
| "run_loop (Suc n) now_ms pc s =
     (case vm_step now_ms pc s of
        (s', Inl e) \<Rightarrow> (s', Inl e)
      | (s', Inr (Exit r)) \<Rightarrow> (s', Inr r)
      | (s', Inr (Goto pc')) \<Rightarrow> run_loop n now_ms pc' s')"

definition run_reset :: "vm \<Rightarrow> vm" where
  "run_reset s =
     s\<lparr>vm_stack := [], vm_frames := [], vm_data_base := 0,
       vm_outputs := slots_clear_written (vm_outputs s)\<rparr>"

definition run_at :: "nat \<Rightarrow> u64 \<Rightarrow> exec_result vm_op" where
  "run_at start_pc now_ms s = run_loop (unat (vm_budget s)) now_ms start_pc (run_reset s)"

definition run_entry :: "string \<Rightarrow> u64 \<Rightarrow> exec_result vm_op" where
  "run_entry name now_ms s =
     (case entry_pc s name of Inl e \<Rightarrow> (s, Inl e) | Inr pc \<Rightarrow> run_at pc now_ms s)"

end
