(* ===== verification/ScanParts.thy ===== *)
theory ScanParts
  imports IoImage VmExec
begin

section \<open>Parts of the scan engine (\<open>plc-scan\<close>: mode, watchdog, spsc, hooks, telemetry, ...)\<close>

text \<open>
  The mode cell with its pending request, the software watchdog, the bounded telemetry queue,
  the epoch hooks, the retain signal, publish tracking and the value conversions. The atomics
  of the code are plain fields: each operation performs one atomic access per field, and the
  engine theory interleaves whole operations. The bounded queue is specified by the locale
  \<open>bounded_queue\<close> and interpreted for the code's \<open>VecDeque\<close>.
\<close>

subsection \<open>Errors\<close>

datatype scan_error =
    ScConfig string
  | ScImageMismatch string
  | ScVm vm_error
  | ScIo io_error
  | ScInvalidState string

subsection \<open>Mode requests (\<open>mode.rs\<close>)\<close>

datatype mode_request = ReqStop | ReqRun | ReqSim | ReqFaultReset

primrec encode_mode :: "operating_mode \<Rightarrow> u8" where
  "encode_mode Stop = 0"
| "encode_mode Run = 1"
| "encode_mode Fault = 2"
| "encode_mode Sim = 3"

definition decode_mode :: "u8 \<Rightarrow> operating_mode" where
  "decode_mode raw = (if raw = 1 then Run else if raw = 2 then Fault else if raw = 3 then Sim else Stop)"

primrec encode_request :: "mode_request \<Rightarrow> u8" where
  "encode_request ReqStop = 1"
| "encode_request ReqRun = 2"
| "encode_request ReqSim = 3"
| "encode_request ReqFaultReset = 4"

definition decode_request :: "u8 \<Rightarrow> mode_request option" where
  "decode_request raw =
     (if raw = 1 then Some ReqStop else if raw = 2 then Some ReqRun
      else if raw = 3 then Some ReqSim else if raw = 4 then Some ReqFaultReset else None)"

definition apply_request :: "operating_mode \<Rightarrow> mode_request \<Rightarrow> scan_error + operating_mode" where
  "apply_request current req =
     (case (current, req) of
        (Fault, ReqStop) \<Rightarrow> Inl (ScInvalidState ''STOP while FAULT (FAULT_RESET first)'')
      | (_, ReqStop) \<Rightarrow> Inr Stop
      | (Stop, ReqRun) \<Rightarrow> Inr Run
      | (Sim, ReqRun) \<Rightarrow> Inr Run
      | (Run, ReqRun) \<Rightarrow> Inr Run
      | (Stop, ReqSim) \<Rightarrow> Inr Sim
      | (Sim, ReqSim) \<Rightarrow> Inr Sim
      | (Fault, ReqFaultReset) \<Rightarrow> Inr Stop
      | (Fault, ReqRun) \<Rightarrow> Inl (ScInvalidState ''RUN while FAULT (FAULT_RESET first)'')
      | (Fault, ReqSim) \<Rightarrow> Inl (ScInvalidState ''SIM while FAULT'')
      | (Run, ReqSim) \<Rightarrow> Inl (ScInvalidState ''SIM from RUN'')
      | (_, ReqFaultReset) \<Rightarrow> Inl (ScInvalidState ''FAULT_RESET while not FAULT''))"

record mode_cell =
  mc_mode :: u8
  mc_pending :: u8
  mc_rejected :: u64

definition mode_cell_new :: mode_cell where
  "mode_cell_new = \<lparr>mc_mode = 0, mc_pending = 0, mc_rejected = 0\<rparr>"

definition cell_mode :: "mode_cell \<Rightarrow> operating_mode" where
  "cell_mode c = decode_mode (mc_mode c)"

definition cell_set_mode :: "mode_cell \<Rightarrow> operating_mode \<Rightarrow> mode_cell" where
  "cell_set_mode c m = c\<lparr>mc_mode := encode_mode m\<rparr>"

definition cell_request :: "mode_cell \<Rightarrow> mode_request \<Rightarrow> mode_cell" where
  "cell_request c req = c\<lparr>mc_pending := encode_request req\<rparr>"

definition reject_pending :: "mode_cell \<Rightarrow> mode_cell" where
  "reject_pending c =
     (let c' = c\<lparr>mc_pending := 0\<rparr>
      in if decode_request (mc_pending c) \<noteq> None then c'\<lparr>mc_rejected := mc_rejected c' + 1\<rparr> else c')"

definition apply_pending :: "mode_cell \<Rightarrow> mode_cell \<times> (scan_error + (operating_mode \<times> bool))" where
  "apply_pending c =
     (let c' = c\<lparr>mc_pending := 0\<rparr>
      in case decode_request (mc_pending c) of
           None \<Rightarrow> (c', Inr (cell_mode c', False))
         | Some req \<Rightarrow>
             (case apply_request (cell_mode c') req of
                Inr nxt \<Rightarrow>
                  let clear_forces = req \<in> {ReqStop, ReqFaultReset} \<or> nxt = Stop
                  in (cell_set_mode c' nxt, Inr (nxt, clear_forces \<or> nxt = Fault))
              | Inl e \<Rightarrow> (c'\<lparr>mc_rejected := mc_rejected c' + 1\<rparr>, Inl e)))"

subsection \<open>Watchdog (\<open>watchdog.rs\<close>)\<close>

record software_watchdog =
  wd_overrun_limit :: u32
  wd_consecutive :: "u32 list"

definition watchdog_new :: "nat \<Rightarrow> u32 \<Rightarrow> software_watchdog" where
  "watchdog_new n limit = \<lparr>wd_overrun_limit = max limit 1, wd_consecutive = replicate n 0\<rparr>"

definition watchdog_note :: "software_watchdog \<Rightarrow> nat \<Rightarrow> u64 \<Rightarrow> u32 \<Rightarrow> software_watchdog \<times> bool" where
  "watchdog_note w task duration_us period_ms =
     (let budget = sat_mul (ucast period_ms :: u64) 1000
      in case nth_opt (wd_consecutive w) task of
           None \<Rightarrow> (w, False)
         | Some slot \<Rightarrow>
             if budget \<le> duration_us then
               let slot' = sat_add slot 1
               in (w\<lparr>wd_consecutive := (wd_consecutive w)[task := slot']\<rparr>, wd_overrun_limit w \<le> slot')
             else (w\<lparr>wd_consecutive := (wd_consecutive w)[task := 0]\<rparr>, False))"

definition watchdog_consecutive :: "software_watchdog \<Rightarrow> nat \<Rightarrow> u32" where
  "watchdog_consecutive w task = (case nth_opt (wd_consecutive w) task of Some k \<Rightarrow> k | None \<Rightarrow> 0)"

subsection \<open>Bounded queue (\<open>spsc.rs\<close>)\<close>

record 'a spsc =
  sq_items :: "'a list"
  sq_cap :: nat
  sq_drops :: u64

definition spsc_channel :: "nat \<Rightarrow> 'a spsc" where
  "spsc_channel capacity = \<lparr>sq_items = [], sq_cap = max capacity 1, sq_drops = 0\<rparr>"

text \<open>\<open>locked\<close> says whether \<open>try_lock\<close> found the queue held by the consumer.\<close>

definition push_drop_oldest :: "bool \<Rightarrow> 'a spsc \<Rightarrow> 'a \<Rightarrow> 'a spsc" where
  "push_drop_oldest locked q v =
     (if locked then q\<lparr>sq_drops := sq_drops q + 1\<rparr>
      else let q' = (if sq_cap q \<le> length (sq_items q)
                     then q\<lparr>sq_items := drop 1 (sq_items q), sq_drops := sq_drops q + 1\<rparr> else q)
           in q'\<lparr>sq_items := sq_items q' @ [v]\<rparr>)"

definition try_recv :: "'a spsc \<Rightarrow> 'a spsc \<times> 'a option" where
  "try_recv q = (case sq_items q of [] \<Rightarrow> (q, None) | v # vs \<Rightarrow> (q\<lparr>sq_items := vs\<rparr>, Some v))"

subsection \<open>Epoch hooks, armed programs, retain signal\<close>

primrec encode_phase :: "program_phase \<Rightarrow> u8" where
  "encode_phase Idle = 0"
| "encode_phase Validating = 1"
| "encode_phase Armed = 2"
| "encode_phase Swapping = 3"

definition decode_phase :: "u8 \<Rightarrow> program_phase" where
  "decode_phase raw = (if raw = 1 then Validating else if raw = 2 then Armed else if raw = 3 then Swapping else Idle)"

record epoch_hooks =
  hk_phase :: u8
  hk_activate_requested :: bool
  hk_first_scan :: "bool list"
  hk_in_invocation :: bool

definition hooks_new :: "nat \<Rightarrow> epoch_hooks" where
  "hooks_new n = \<lparr>hk_phase = 0, hk_activate_requested = False, hk_first_scan = replicate n False,
     hk_in_invocation = False\<rparr>"

definition hooks_phase :: "epoch_hooks \<Rightarrow> program_phase" where
  "hooks_phase h = decode_phase (hk_phase h)"

definition hooks_set_phase :: "epoch_hooks \<Rightarrow> program_phase \<Rightarrow> epoch_hooks" where
  "hooks_set_phase h p = h\<lparr>hk_phase := encode_phase p\<rparr>"

definition hooks_is_quiet :: "epoch_hooks \<Rightarrow> bool" where
  "hooks_is_quiet h \<longleftrightarrow> \<not> hk_in_invocation h"

definition hooks_first_scan :: "epoch_hooks \<Rightarrow> nat \<Rightarrow> bool" where
  "hooks_first_scan h i = (case nth_opt (hk_first_scan h) i of Some b \<Rightarrow> b | None \<Rightarrow> False)"

definition hooks_set_first_scan_all :: "epoch_hooks \<Rightarrow> bool \<Rightarrow> epoch_hooks" where
  "hooks_set_first_scan_all h v = h\<lparr>hk_first_scan := map (\<lambda>_. v) (hk_first_scan h)\<rparr>"

definition hooks_clear_first_scan :: "epoch_hooks \<Rightarrow> nat \<Rightarrow> epoch_hooks" where
  "hooks_clear_first_scan h i = h\<lparr>hk_first_scan := (hk_first_scan h)[i := False]\<rparr>"

datatype output_restart_policy = SafeReset | Bumpless

record retain_copy =
  rc_src_offset :: nat
  rc_dst_offset :: nat
  rc_len :: nat

record armed_program =
  ap_vm :: vm
  ap_program_id :: string
  ap_compatibility_hash :: string
  ap_task_entries :: "string list"
  ap_restart_policy :: output_restart_policy
  ap_retain_copies :: "retain_copy list"

datatype activate_request = ActPending | ActNoOp

datatype install_outcome = InstIdle | InstInstalled | InstDeferred | InstFaulted

record retain_signal =
  rsig_dirty :: bool
  rsig_seq :: u64

definition retain_notify :: "retain_signal \<Rightarrow> retain_signal" where
  "retain_notify r = r\<lparr>rsig_seq := rsig_seq r + 1, rsig_dirty := True\<rparr>"

definition retain_take :: "retain_signal \<Rightarrow> retain_signal \<times> u64 option" where
  "retain_take r = (r\<lparr>rsig_dirty := False\<rparr>, if rsig_dirty r then Some (rsig_seq r) else None)"

subsection \<open>Telemetry, timing buckets, value conversion\<close>

record telemetry_sample =
  tl_alias :: u32
  tl_tag_hint :: u32
  tl_value :: plc_value
  tl_quality :: quality
  tl_forced :: bool
  tl_now_ms :: u64
  tl_is_input :: bool

record publish_track =
  pt_last_value :: "plc_value option"
  pt_last_ms :: u64
  pt_ever :: bool

definition publish_track_new :: publish_track where
  "publish_track_new = \<lparr>pt_last_value = None, pt_last_ms = 0, pt_ever = False\<rparr>"

definition should_publish :: "publish_track \<Rightarrow> plc_value \<Rightarrow> u64 \<Rightarrow> bool \<Rightarrow> u32 \<Rightarrow> u32 \<Rightarrow> bool" where
  "should_publish t v now_ms is_bool analog_period_ms digital_cos_ms =
     (if \<not> pt_ever t then True
      else let changed = (case pt_last_value t of None \<Rightarrow> True | Some l \<Rightarrow> \<not> plc_value_eq l v);
               elapsed = sat_sub now_ms (pt_last_ms t)
           in if is_bool then changed \<and> ucast digital_cos_ms \<le> elapsed
              else changed \<or> ucast analog_period_ms \<le> elapsed)"

definition publish_mark :: "publish_track \<Rightarrow> plc_value \<Rightarrow> u64 \<Rightarrow> publish_track" where
  "publish_mark t v now_ms = \<lparr>pt_last_value = Some v, pt_last_ms = now_ms, pt_ever = True\<rparr>"

definition DURATION_BUCKET_BOUNDS_US :: "u64 list" where
  "DURATION_BUCKET_BOUNDS_US = [100, 500, 1000, 2000, 5000, 10000, 20000, 50000, 100000]"

fun duration_bucket_from :: "nat \<Rightarrow> u64 list \<Rightarrow> u64 \<Rightarrow> nat" where
  "duration_bucket_from i [] us = i"
| "duration_bucket_from i (b # bs) us = (if us \<le> b then i else duration_bucket_from (Suc i) bs us)"

definition duration_bucket :: "u64 \<Rightarrow> nat" where
  "duration_bucket us = duration_bucket_from 0 DURATION_BUCKET_BOUNDS_US us"

primrec plc_to_vm :: "plc_value \<Rightarrow> vm_value" where
  "plc_to_vm (PvBool b) = VBool b"
| "plc_to_vm (PvInt v) = VInt v"
| "plc_to_vm (PvDint v) = VDint v"
| "plc_to_vm (PvReal v) = VReal v"
| "plc_to_vm (PvTime v) = VTime v"

primrec vm_to_plc :: "vm_value \<Rightarrow> plc_value" where
  "vm_to_plc (VBool b) = PvBool b"
| "vm_to_plc (VInt v) = PvInt v"
| "vm_to_plc (VDint v) = PvDint v"
| "vm_to_plc (VReal v) = PvReal v"
| "vm_to_plc (VTime v) = PvTime v"
| "vm_to_plc (VLint v) = PvDint (ucast v)"

subsection \<open>Codes are inverse\<close>

lemma decode_encode_mode [simp]: "decode_mode (encode_mode m) = m"
  by (cases m) (simp_all add: decode_mode_def)

lemma decode_encode_request [simp]: "decode_request (encode_request r) = Some r"
  by (cases r) (simp_all add: decode_request_def)

lemma decode_encode_phase [simp]: "decode_phase (encode_phase p) = p"
  by (cases p) (simp_all add: decode_phase_def)

lemma cell_mode_set [simp]: "cell_mode (cell_set_mode c m) = m"
  by (simp add: cell_mode_def cell_set_mode_def)

lemma hooks_phase_set [simp]: "hooks_phase (hooks_set_phase h p) = p"
  by (simp add: hooks_phase_def hooks_set_phase_def)

lemma vm_to_plc_to_vm [simp]: "vm_to_plc (plc_to_vm v) = v"
  by (cases v) simp_all

subsection \<open>Mode requests\<close>

lemma apply_request_fault: "apply_request Fault r = Inr m \<longleftrightarrow> r = ReqFaultReset \<and> m = Stop"
  by (cases r) (auto simp: apply_request_def)

lemma apply_request_not_fault: "apply_request c r = Inr m \<Longrightarrow> m \<noteq> Fault"
  by (cases c; cases r) (auto simp: apply_request_def)

lemma apply_pending_fault:
  "cell_mode c = Fault \<Longrightarrow> decode_request (mc_pending c) \<noteq> Some ReqFaultReset \<Longrightarrow>
     cell_mode (fst (apply_pending c)) = Fault"
  by (cases "decode_request (mc_pending c)"; cases "the (decode_request (mc_pending c))")
    (auto simp: apply_pending_def Let_def cell_mode_def apply_request_def)

lemma apply_pending_mode:
  "cell_mode (fst (apply_pending c)) = Fault \<Longrightarrow> cell_mode c = Fault"
  by (auto simp: apply_pending_def Let_def cell_mode_def cell_set_mode_def
      split: option.splits sum.splits dest: apply_request_not_fault)

text \<open>Leaving a running mode clears the forces: every request that ends in STOP reports it.\<close>

lemma apply_pending_clears:
  "apply_pending c = (c', Inr (Stop, clear)) \<Longrightarrow> decode_request (mc_pending c) \<noteq> None \<Longrightarrow> clear"
  by (auto simp: apply_pending_def Let_def split: option.splits sum.splits)

subsection \<open>The watchdog trips after the configured run of overruns\<close>

text \<open>Samples \<open>(duration, period)\<close> of one task; the last \<open>k\<close> of them all overran.\<close>

definition overran :: "u64 \<times> u32 \<Rightarrow> bool" where
  "overran x \<longleftrightarrow> 1000 * unat (snd x) \<le> unat (fst x)"

definition wd_run :: "nat \<Rightarrow> software_watchdog \<Rightarrow> (u64 \<times> u32) list \<Rightarrow> software_watchdog" where
  "wd_run task w xs = foldl (\<lambda>w (d, p). fst (watchdog_note w task d p)) w xs"

definition trailing_overruns :: "(u64 \<times> u32) list \<Rightarrow> nat" where
  "trailing_overruns xs = length (takeWhile overran (rev xs))"

lemma budget_overran: "sat_mul (ucast (p :: u32) :: u64) 1000 \<le> d \<longleftrightarrow> overran (d, p)"
proof -
  have p: "unat p < 2 ^ 32" using unat_bound [of p] by simp
  have "unat (ucast p :: u64) = unat p"
    using p by (simp add: unsigned_ucast_eq take_bit_nat_eq_self)
  then have "unat (sat_mul (ucast p :: u64) 1000) = unat p * 1000"
    using p by (simp add: unat_sat_mul)
  then show ?thesis by (simp add: word_le_nat_alt overran_def mult.commute)
qed

lemma wd_run_consecutive:
  assumes "task < n"
  shows "length (wd_consecutive (wd_run task (watchdog_new n limit) xs)) = n
    \<and> wd_overrun_limit (wd_run task (watchdog_new n limit) xs) = max limit 1
    \<and> unat (wd_consecutive (wd_run task (watchdog_new n limit) xs) ! task)
        = min (trailing_overruns xs) (2 ^ 32 - 1)"
proof (induction xs rule: rev_induct)
  case Nil
  then show ?case using assms by (simp add: wd_run_def watchdog_new_def trailing_overruns_def)
next
  case (snoc x xs)
  obtain d p where x: "x = (d, p)" by (cases x)
  define w where "w = wd_run task (watchdog_new n limit) xs"
  have r: "wd_run task (watchdog_new n limit) (xs @ [x]) = fst (watchdog_note w task d p)"
    by (simp add: wd_run_def w_def x)
  have w: "length (wd_consecutive w) = n" "wd_overrun_limit w = max limit 1"
    "unat (wd_consecutive w ! task) = min (trailing_overruns xs) (2 ^ 32 - 1)"
    using snoc.IH by (simp_all add: w_def)
  have t: "trailing_overruns (xs @ [x]) = (if overran (d, p) then Suc (trailing_overruns xs) else 0)"
    by (simp add: trailing_overruns_def x)
  show ?case
    unfolding r t using w assms
    by (cases "overran (d, p)")
      (auto simp: watchdog_note_def Let_def budget_overran unat_sat_add min_def)
qed

lemma watchdog_trips:
  assumes "task < n" "trailing_overruns xs < 2 ^ 32 - 1"
  shows "snd (watchdog_note (wd_run task (watchdog_new n limit) xs) task d p)
    = (max (unat limit) 1 \<le> trailing_overruns (xs @ [(d, p)]))"
proof -
  let ?w = "wd_run task (watchdog_new n limit) xs"
  note w = wd_run_consecutive [OF assms(1), of limit xs]
  have t: "trailing_overruns (xs @ [(d, p)]) = (if overran (d, p) then Suc (trailing_overruns xs) else 0)"
    by (simp add: trailing_overruns_def)
  have l: "unat (max limit 1) = max (unat limit) 1"
    by (simp add: max_def word_le_nat_alt)
  show ?thesis
    using w assms t l
    by (auto simp: watchdog_note_def Let_def budget_overran [unfolded word_le_nat_alt]
        word_le_nat_alt unat_sat_add)
qed

subsection \<open>The bounded queue\<close>

text \<open>
  A bounded lossy queue: a push appends and never exceeds the capacity, what is lost is the
  oldest element and is counted, a receive takes the oldest.
\<close>

locale bounded_queue =
  fixes valid :: "'q \<Rightarrow> bool" and items :: "'q \<Rightarrow> 'a list" and cap :: "'q \<Rightarrow> nat"
    and drops :: "'q \<Rightarrow> u64" and push :: "'q \<Rightarrow> 'a \<Rightarrow> 'q" and recv :: "'q \<Rightarrow> 'q \<times> 'a option"
  assumes valid_cap: "valid q \<Longrightarrow> 0 < cap q \<and> length (items q) \<le> cap q"
    and push_valid: "valid q \<Longrightarrow> valid (push q v)"
    and push_items: "items (push q v) = (if length (items q) < cap q then items q else drop 1 (items q)) @ [v]"
    and push_cap: "cap (push q v) = cap q"
    and push_drops: "drops (push q v) = drops q + (if length (items q) < cap q then 0 else 1)"
    and recv_valid: "valid q \<Longrightarrow> valid (fst (recv q))"
    and recv_head: "snd (recv q) = (case items q of [] \<Rightarrow> None | v # _ \<Rightarrow> Some v)"
    and recv_rest: "items (fst (recv q)) = drop 1 (items q)"
begin

text \<open>After any pushes the queue holds the newest elements in order, as many as fit.\<close>

lemma pushes_newest:
  assumes "valid q"
  shows "items (foldl push q vs) = drop (length (items q @ vs) - cap q) (items q @ vs)
    \<and> cap (foldl push q vs) = cap q \<and> valid (foldl push q vs)"
proof (induction vs rule: rev_induct)
  case Nil
  then show ?case using assms valid_cap [of q] by simp
next
  case (snoc v vs)
  define xs where "xs = items q @ vs"
  let ?q = "foldl push q vs"
  have IH: "items ?q = drop (length xs - cap q) xs" "cap ?q = cap q" "valid ?q"
    using snoc by (simp_all add: xs_def)
  have "items (push ?q v) = drop (Suc (length xs) - cap q) (xs @ [v])"
  proof (cases "length xs < cap q")
    case True
    then show ?thesis using IH by (simp add: push_items)
  next
    case False
    then have "Suc (length xs) - cap q = Suc (length xs - cap q)" "Suc (length xs - cap q) \<le> length xs"
      using valid_cap [OF assms] by auto
    moreover have "length (items ?q) = cap q" using IH(1) False by simp
    ultimately show ?thesis using IH by (simp add: push_items drop_drop)
  qed
  then show ?case using IH push_valid by (simp add: push_cap xs_def)
qed

text \<open>No element is lost uncounted: what was pushed is still queued or was dropped.\<close>

lemma pushes_drops:
  assumes "valid q"
  shows "drops (foldl push q vs) = drops q + word_of_nat (length (items q @ vs) - cap q)"
proof (induction vs rule: rev_induct)
  case Nil
  then show ?case using valid_cap [OF assms] by simp
next
  case (snoc v vs)
  let ?q = "foldl push q vs"
  have l: "length (items ?q) = min (length (items q @ vs)) (cap q)" "cap ?q = cap q"
    using pushes_newest [OF assms, of vs] by auto
  show ?case
  proof (cases "length (items q @ vs) < cap q")
    case True
    then show ?thesis using snoc l by (simp add: push_drops)
  next
    case False
    then have "length (items q @ vs @ [v]) - cap q = Suc (length (items q @ vs) - cap q)" by simp
    then show ?thesis using snoc l False by (simp add: push_drops)
  qed
qed

end

definition spsc_valid :: "'a spsc \<Rightarrow> bool" where
  "spsc_valid q \<longleftrightarrow> 0 < sq_cap q \<and> length (sq_items q) \<le> sq_cap q"

interpretation spsc: bounded_queue spsc_valid sq_items sq_cap sq_drops "push_drop_oldest False" try_recv
  by unfold_locales
    (auto simp: spsc_valid_def push_drop_oldest_def try_recv_def Let_def split: list.splits)

lemma spsc_channel_valid: "spsc_valid (spsc_channel n)"
  by (simp add: spsc_valid_def spsc_channel_def)

end
