(* ===== verification/ScanEngine.thy ===== *)
theory ScanEngine
  imports ScanParts "HOL-Library.Product_Lexorder"
begin

section \<open>The scan engine (\<open>plc-scan/src/engine.rs\<close>)\<close>

text \<open>
  The engine's state and every method that changes it. What the engine does not control is in
  a record of parameters: the driver's operations, the clock as the sequence of its readings
  in nanoseconds, and whether \<open>try_lock\<close> found the telemetry queue held at the \<open>k\<close>-th push.
  \<open>invoke\<close> and what calls it return \<open>None\<close> when the VM panics: nothing catches the unwinding,
  the scan thread ends. \<open>run_due\<close> repeats until no task is due; its loop takes fuel, and
  theory \<open>ScanProps\<close> shows how much is enough.
\<close>

subsection \<open>Plans and state\<close>

datatype stop_output_policy = StopSafe | StopHold

record task_plan =
  tk_name :: string
  tk_period_ms :: u32
  tk_entry :: string
  tk_priority :: u8

record scan_plan =
  sp_tasks :: "task_plan list"
  sp_overrun_limit :: u32
  sp_stop_output_policy :: stop_output_policy
  sp_fault_on_module_bad :: bool
  sp_telemetry_enabled :: bool
  sp_analog_period_ms :: u32
  sp_digital_cos_ms :: u32
  sp_telemetry_capacity :: nat

fun validate_tasks_from :: "string set \<Rightarrow> task_plan list \<Rightarrow> scan_error + unit" where
  "validate_tasks_from names [] = Inr ()"
| "validate_tasks_from names (t # ts) =
     (if str_blank (tk_name t) then Inl (ScConfig ''task.name must be non-empty'')
      else if tk_name t \<in> names then Inl (ScConfig ''duplicate task.name'')
      else if tk_period_ms t = 0 then Inl (ScConfig ''period_ms must be > 0'')
      else if str_blank (tk_entry t) then Inl (ScConfig ''entry must be non-empty'')
      else validate_tasks_from (insert (tk_name t) names) ts)"

definition validate_tasks :: "task_plan list \<Rightarrow> scan_error + unit" where
  "validate_tasks ts =
     (if ts = [] then Inl (ScConfig ''scan.tasks must not be empty'') else validate_tasks_from {} ts)"

definition scan_plan_new :: "task_plan list \<Rightarrow> scan_error + scan_plan" where
  "scan_plan_new ts =
     rbind (validate_tasks ts) (\<lambda>_. Inr
       \<lparr>sp_tasks = ts, sp_overrun_limit = 2, sp_stop_output_policy = StopSafe,
        sp_fault_on_module_bad = False, sp_telemetry_enabled = True, sp_analog_period_ms = 500,
        sp_digital_cos_ms = 20, sp_telemetry_capacity = 1024\<rparr>)"

record 'd scan_io =
  io_image :: process_image
  io_driver :: 'd
  io_remote_inputs :: "double_buffer option"
  io_forces :: force_table
  io_module_quality :: quality
  io_on_bad_quality :: bad_quality_policy
  io_field_gate :: "u8 option"

definition scan_io_new :: "process_image \<Rightarrow> 'd \<Rightarrow> 'd scan_io" where
  "scan_io_new im d =
     \<lparr>io_image = im, io_driver = d, io_remote_inputs = None, io_forces = (\<lambda>_. None),
      io_module_quality = Good, io_on_bad_quality = ForceSafe, io_field_gate = None\<rparr>"

datatype step_outcome = StepIdle u64 | StepRan nat u64

record task_runtime =
  tr_next_due_ms :: u64
  tr_last_us :: u64
  tr_max_us :: u64
  tr_sum_us :: u64
  tr_samples :: u64
  tr_duration_buckets :: "u64 list"
  tr_overruns :: u32

record 'd engine =
  en_plan :: scan_plan
  en_io :: "'d scan_io"
  en_vm :: "vm option"
  en_ticks :: nat
  en_modes :: mode_cell
  en_overruns_total :: u64
  en_sw_wd :: software_watchdog
  en_hw_strokes :: nat
  en_tel :: "telemetry_sample spsc"
  en_tel_pushes :: nat
  en_tel_in :: "publish_track list"
  en_tel_out :: "publish_track list"
  en_retain :: retain_signal
  en_hooks :: epoch_hooks
  en_tasks :: "task_runtime list"
  en_schedule_order :: "nat list"
  en_input_scratch :: input_update
  en_output_image :: output_image
  en_output_slot_state :: "output_module_state list"
  en_first_run_complete :: bool
  en_min_duration_us :: "u64 list"
  en_last_ran :: "nat option"
  en_armed :: "armed_program option"
  en_current_id :: "string option"
  en_current_hash :: "string option"
  en_bumpless_hold :: bool
  en_install_min_duration_us :: u64
  en_activate_deferred_count :: u64
  en_last_activate_deferred :: bool

record 'd env =
  env_ops :: "'d driver_ops"
  env_clock :: "nat \<Rightarrow> u64"
  env_tel_locked :: "nat \<Rightarrow> bool"

subsection \<open>Construction\<close>

definition schedule_order_of :: "task_plan list \<Rightarrow> nat list" where
  "schedule_order_of ts =
     sort_key (\<lambda>i. (255 - unat (tk_priority (ts ! i)), tk_name (ts ! i))) [0..<length ts]"

definition task_runtime_new :: task_runtime where
  "task_runtime_new = \<lparr>tr_next_due_ms = 0, tr_last_us = 0, tr_max_us = 0, tr_sum_us = 0, tr_samples = 0,
     tr_duration_buckets = replicate 10 0, tr_overruns = 0\<rparr>"

definition vm_matches :: "vm \<Rightarrow> process_image \<Rightarrow> scan_error + unit" where
  "vm_matches v im =
     (if length (si_values (vm_inputs v)) \<noteq> length (pi_inputs im)
      then Inl (ScImageMismatch ''VM inputs != image inputs'')
      else if length (si_values (vm_outputs v)) \<noteq> length (pi_outputs im)
      then Inl (ScImageMismatch ''VM outputs != image outputs'')
      else Inr ())"

definition engine_new ::
  "'d driver_ops \<Rightarrow> scan_plan \<Rightarrow> 'd scan_io \<Rightarrow> vm option \<Rightarrow> scan_error + 'd engine" where
  "engine_new ops plan io v =
     rbind (case v of None \<Rightarrow> Inr () | Some v \<Rightarrow> vm_matches v (io_image io)) (\<lambda>_.
     case drv_start ops (io_driver io) of
       (d, Inl e) \<Rightarrow> Inl (ScIo e)
     | (d, Inr _) \<Rightarrow>
         let n = length (sp_tasks plan); n_i = length (pi_inputs (io_image io));
             n_q = length (pi_outputs (io_image io))
         in Inr \<lparr>en_plan = plan, en_io = io\<lparr>io_driver := d\<rparr>, en_vm = v, en_ticks = 0,
              en_modes = mode_cell_new, en_overruns_total = 0,
              en_sw_wd = watchdog_new n (sp_overrun_limit plan), en_hw_strokes = 0,
              en_tel = spsc_channel (max (sp_telemetry_capacity plan) 1), en_tel_pushes = 0,
              en_tel_in = replicate n_i publish_track_new, en_tel_out = replicate n_q publish_track_new,
              en_retain = \<lparr>rsig_dirty = False, rsig_seq = 0\<rparr>, en_hooks = hooks_new n,
              en_tasks = replicate n task_runtime_new, en_schedule_order = schedule_order_of (sp_tasks plan),
              en_input_scratch = input_update_zeros n_i,
              en_output_image = \<lparr>oi_values = replicate n_q (PvBool False), oi_force_safe = True\<rparr>,
              en_output_slot_state = replicate n_q \<lparr>om_quality = Good, om_on_bad_quality = ForceSafe\<rparr>,
              en_first_run_complete = False, en_min_duration_us = replicate n 0, en_last_ran = None,
              en_armed = None, en_current_id = None, en_current_hash = None, en_bumpless_hold = False,
              en_install_min_duration_us = 0, en_activate_deferred_count = 0,
              en_last_activate_deferred = False\<rparr>)"

subsection \<open>Clock, mode, faults\<close>

definition now_ns :: "'d env \<Rightarrow> 'd engine \<Rightarrow> 'd engine \<times> u64" where
  "now_ns v e = (e\<lparr>en_ticks := Suc (en_ticks e)\<rparr>, env_clock v (en_ticks e))"

definition now_ms :: "'d env \<Rightarrow> 'd engine \<Rightarrow> 'd engine \<times> u64" where
  "now_ms v e = (let (e', t) = now_ns v e in (e', t div 1000000))"

definition engine_mode :: "'d engine \<Rightarrow> operating_mode" where
  "engine_mode e = cell_mode (en_modes e)"

definition enter_fault :: "'d engine \<Rightarrow> 'd engine" where
  "enter_fault e =
     e\<lparr>en_modes := cell_set_mode (en_modes e) Fault,
       en_io := (en_io e)\<lparr>io_forces := force_clear_all (io_forces (en_io e))\<rparr>\<rparr>"

definition request_mode :: "'d engine \<Rightarrow> mode_request \<Rightarrow> 'd engine" where
  "request_mode e r = e\<lparr>en_modes := cell_request (en_modes e) r\<rparr>"

definition apply_mode_boundary :: "'d engine \<Rightarrow> 'd engine" where
  "apply_mode_boundary e =
     (if hooks_phase (en_hooks e) = Swapping then e\<lparr>en_modes := reject_pending (en_modes e)\<rparr>
      else case apply_pending (en_modes e) of
        (c, Inr (_, clear_forces)) \<Rightarrow>
          let e' = e\<lparr>en_modes := c\<rparr>
          in if clear_forces
             then e'\<lparr>en_io := (en_io e')\<lparr>io_forces := force_clear_all (io_forces (en_io e'))\<rparr>\<rparr>
             else e'
      | (c, Inl _) \<Rightarrow> e\<lparr>en_modes := c\<rparr>)"

subsection \<open>Arming and activating a program\<close>

definition arm :: "'d engine \<Rightarrow> armed_program \<Rightarrow> scan_error + 'd engine" where
  "arm e program =
     (if hooks_phase (en_hooks e) = Swapping then Inl (ScInvalidState ''arm while swapping'')
      else if length (ap_task_entries program) \<noteq> length (sp_tasks (en_plan e))
      then Inl (ScConfig ''armed task_entries != plan tasks'')
      else rbind (vm_matches (ap_vm program) (io_image (en_io e))) (\<lambda>_.
        Inr (e\<lparr>en_armed := Some (program\<lparr>ap_vm := cold_reset_non_retain (ap_vm program)\<rparr>),
               en_hooks := (hooks_set_phase (en_hooks e) Armed)\<lparr>hk_activate_requested := False\<rparr>\<rparr>)))"

definition disarm :: "'d engine \<Rightarrow> scan_error + 'd engine" where
  "disarm e =
     (if hooks_phase (en_hooks e) = Swapping then Inl (ScInvalidState ''disarm while swapping'')
      else Inr (e\<lparr>en_armed := None,
                  en_hooks := hooks_set_phase ((en_hooks e)\<lparr>hk_activate_requested := False\<rparr>) Idle\<rparr>))"

definition request_activate :: "'d engine \<Rightarrow> scan_error + ('d engine \<times> activate_request)" where
  "request_activate e =
     (if hooks_phase (en_hooks e) = Swapping then Inl (ScInvalidState ''activate while swapping'')
      else case en_armed e of
        None \<Rightarrow> Inl (ScInvalidState ''activate while not armed'')
      | Some armed \<Rightarrow>
          if en_current_id e = Some (ap_program_id armed)
             \<and> en_current_hash e = Some (ap_compatibility_hash armed)
          then Inr (e\<lparr>en_armed := None,
                      en_hooks := hooks_set_phase ((en_hooks e)\<lparr>hk_activate_requested := False\<rparr>) Idle\<rparr>,
                    ActNoOp)
          else Inr (e\<lparr>en_hooks := (en_hooks e)\<lparr>hk_activate_requested := True\<rparr>\<rparr>, ActPending))"

definition pick_due :: "'d engine \<Rightarrow> u64 \<Rightarrow> nat option" where
  "pick_due e now = find (\<lambda>i. tr_next_due_ms (en_tasks e ! i) \<le> now) (en_schedule_order e)"

definition min_task_period_us :: "scan_plan \<Rightarrow> u64" where
  "min_task_period_us plan =
     (let ms = (case map tk_period_ms (sp_tasks plan) of [] \<Rightarrow> 1 | p # ps \<Rightarrow> fold min ps p)
      in sat_mul (ucast ms) 1000)"

fun blit_retain_copies :: "retain_copy list \<Rightarrow> vm \<Rightarrow> vm \<Rightarrow> vm \<times> (vm_error + unit)" where
  "blit_retain_copies [] cur v = (v, Inr ())"
| "blit_retain_copies (c # cs) cur v =
     (case blit_retain_from v (rc_dst_offset c) cur (rc_src_offset c) (rc_len c) of
        Inl er \<Rightarrow> (v, Inl er)
      | Inr v' \<Rightarrow> blit_retain_copies cs cur v')"

definition blit_retain_into :: "armed_program \<Rightarrow> vm option \<Rightarrow> armed_program \<times> (vm_error + unit)" where
  "blit_retain_into a cur =
     (case cur of
        None \<Rightarrow> (a, Inr ())
      | Some c \<Rightarrow>
          let (v, r) = blit_retain_copies (ap_retain_copies a) c (ap_vm a) in (a\<lparr>ap_vm := v\<rparr>, r))"

definition cold_init_memory :: "process_image \<Rightarrow> process_image" where
  "cold_init_memory im =
     im\<lparr>pi_memory := map (\<lambda>i. slot_zero (case nth_opt (pi_memory_meta im) i of Some m \<Rightarrow> sm_ty m | None \<Rightarrow> TyBool))
                      [0..<length (pi_memory im)]\<rparr>"

definition apply_safe_reset_outputs :: "process_image \<Rightarrow> process_image" where
  "apply_safe_reset_outputs im =
     im\<lparr>pi_outputs := map (\<lambda>(i, s). s\<lparr>ts_value := (case nth_opt (pi_output_safe im) i of Some v \<Rightarrow> v | None \<Rightarrow> PvBool False),
                                       ts_written := True\<rparr>) (enumerate 0 (pi_outputs im))\<rparr>"

definition advance_due :: "scan_plan \<Rightarrow> nat \<Rightarrow> task_runtime \<Rightarrow> task_runtime" where
  "advance_due plan i t =
     t\<lparr>tr_next_due_ms := sat_add (tr_next_due_ms t) (ucast (tk_period_ms (sp_tasks plan ! i)))\<rparr>"

definition set_task_entries :: "string list \<Rightarrow> task_plan list \<Rightarrow> task_plan list" where
  "set_task_entries es ts =
     map (\<lambda>(i, t). if i < length es then t\<lparr>tk_entry := es ! i\<rparr> else t) (enumerate 0 ts)"

definition commit_install :: "'d env \<Rightarrow> 'd engine \<Rightarrow> armed_program \<Rightarrow> 'd engine" where
  "commit_install v e0 armed =
     (let (e, now) = now_ms v e0;
          highest = en_schedule_order e ! 0;
          tasks = map (\<lambda>(i, t). if i \<noteq> highest \<and> tr_next_due_ms t \<le> now
                                then advance_due (en_plan e) i t else t) (enumerate 0 (en_tasks e));
          im = cold_init_memory (io_image (en_io e))
      in e\<lparr>en_tasks := tasks,
           en_plan := (en_plan e)\<lparr>sp_tasks := set_task_entries (ap_task_entries armed) (sp_tasks (en_plan e))\<rparr>,
           en_current_id := Some (ap_program_id armed),
           en_current_hash := Some (ap_compatibility_hash armed),
           en_bumpless_hold := (ap_restart_policy armed = Bumpless),
           en_vm := Some (ap_vm armed),
           en_hooks := hooks_set_phase
             ((hooks_set_first_scan_all (en_hooks e) True)\<lparr>hk_activate_requested := False\<rparr>) Idle,
           en_last_activate_deferred := False,
           en_io := (en_io e)\<lparr>io_image :=
             (if ap_restart_policy armed = SafeReset then apply_safe_reset_outputs im else im)\<rparr>\<rparr>)"

definition set_phase :: "'d engine \<Rightarrow> program_phase \<Rightarrow> 'd engine" where
  "set_phase e p = e\<lparr>en_hooks := hooks_set_phase (en_hooks e) p\<rparr>"

definition set_activate_requested :: "'d engine \<Rightarrow> bool \<Rightarrow> 'd engine" where
  "set_activate_requested e b = e\<lparr>en_hooks := (en_hooks e)\<lparr>hk_activate_requested := b\<rparr>\<rparr>"

definition try_epoch_install :: "'d env \<Rightarrow> 'd engine \<Rightarrow> 'd engine \<times> install_outcome" where
  "try_epoch_install v e =
     (if \<not> hk_activate_requested (en_hooks e) \<or> en_armed e = None then (e, InstIdle)
      else if \<not> hooks_is_quiet (en_hooks e) then (e, InstIdle)
      else let (e1, now) = now_ms v e
           in case pick_due e1 now of
                None \<Rightarrow> (e1, InstIdle)
              | Some due \<Rightarrow>
                  if due \<noteq> en_schedule_order e1 ! 0 then (e1, InstIdle)
                  else let (e2, t0) = now_ns v (set_phase e1 Swapping)
                       in case en_armed e2 of
                            None \<Rightarrow> (set_phase e2 Idle, InstIdle)
                          | Some armed0 \<Rightarrow>
                              let (armed, prepare) = blit_retain_into armed0 (en_vm e2);
                                  (e3, t1) = now_ns v (e2\<lparr>en_armed := None\<rparr>);
                                  measured = sat_sub t1 t0 div 1000;
                                  duration_us = (if measured < en_install_min_duration_us e3
                                                 then en_install_min_duration_us e3 else measured)
                              in case prepare of
                                   Inl _ \<Rightarrow>
                                     (set_phase (set_activate_requested
                                        (enter_fault (e3\<lparr>en_armed := Some armed\<rparr>)) False) Idle, InstFaulted)
                                 | Inr _ \<Rightarrow>
                                     if min_task_period_us (en_plan e3) \<le> duration_us then
                                       (set_activate_requested (set_phase (e3\<lparr>en_armed := Some armed\<rparr>) Armed) False
                                          \<lparr>en_last_activate_deferred := True,
                                           en_activate_deferred_count := sat_add (en_activate_deferred_count e3) 1\<rparr>,
                                        InstDeferred)
                                     else (commit_install v e3 armed, InstInstalled))"

subsection \<open>Input phase\<close>

definition publish_field_mode :: "'d engine \<Rightarrow> 'd engine" where
  "publish_field_mode e =
     e\<lparr>en_io := (en_io e)\<lparr>io_field_gate := map_option (\<lambda>_. mode_code (engine_mode e)) (io_field_gate (en_io e))\<rparr>\<rparr>"

definition store_inputs :: "(plc_value \<times> quality) list \<Rightarrow> process_image \<Rightarrow> process_image" where
  "store_inputs vqs im =
     fold (\<lambda>(i, v, q) im. if i < length (pi_inputs im) then ignore_err im (set_input im i v q) else im)
       (enumerate 0 vqs) im"

definition polled_inputs :: "input_update \<Rightarrow> nat \<Rightarrow> (plc_value \<times> quality) list" where
  "polled_inputs u n =
     map (\<lambda>i. (case nth_opt (iu_values u) i of Some v \<Rightarrow> v | None \<Rightarrow> PvBool False,
               case nth_opt (iu_quality u) i of Some q \<Rightarrow> q | None \<Rightarrow> Good)) [0..<n]"

fun worst_quality :: "quality \<Rightarrow> typed_slot list \<Rightarrow> quality" where
  "worst_quality w [] = w"
| "worst_quality w (s # ss) =
     (if is_bad (ts_quality s) then Bad
      else worst_quality (if ts_quality s = Uncertain then Uncertain else w) ss)"

definition copy_inputs_to_vm :: "typed_slot list \<Rightarrow> vm \<Rightarrow> vm" where
  "copy_inputs_to_vm slots v =
     fold (\<lambda>(i, s) v.
       let v1 = v\<lparr>vm_inputs := ignore_err (vm_inputs v) (slot_set (vm_inputs v) i (plc_to_vm (ts_value s)) 0)\<rparr>
       in v1\<lparr>vm_inputs := ignore_err (vm_inputs v1)
               (slot_set_quality_good (vm_inputs v1) i (is_good (ts_quality s)) 0)\<rparr>)
       (enumerate 0 slots) v"

definition set_image :: "'d engine \<Rightarrow> process_image \<Rightarrow> 'd engine" where
  "set_image e im = e\<lparr>en_io := (en_io e)\<lparr>io_image := im\<rparr>\<rparr>"

definition set_module_quality :: "'d engine \<Rightarrow> quality \<Rightarrow> 'd engine" where
  "set_module_quality e q = e\<lparr>en_io := (en_io e)\<lparr>io_module_quality := q\<rparr>\<rparr>"

definition fault_if :: "bool \<Rightarrow> 'd engine \<Rightarrow> 'd engine" where
  "fault_if b e = (if b \<and> sp_fault_on_module_bad (en_plan e) then enter_fault e else e)"

definition read_remote_inputs :: "'d engine \<Rightarrow> 'd engine" where
  "read_remote_inputs e =
     (case io_remote_inputs (en_io e) of
        None \<Rightarrow> e
      | Some db \<Rightarrow> let snap = db_read 8 db
                   in set_image e (store_inputs (zip (sn_values snap) (sn_quality snap)) (io_image (en_io e))))"

definition poll_driver :: "'d driver_ops \<Rightarrow> 'd engine \<Rightarrow> 'd engine" where
  "poll_driver ops e =
     (case drv_poll_inputs ops (io_driver (en_io e)) (en_input_scratch e) of
        (d, u, r) \<Rightarrow>
          let e1 = e\<lparr>en_io := (en_io e)\<lparr>io_driver := d\<rparr>, en_input_scratch := u\<rparr>
          in case r of
               Inr _ \<Rightarrow> set_image e1 (store_inputs (polled_inputs u (length (pi_inputs (io_image (en_io e1)))))
                                       (io_image (en_io e1)))
             | Inl _ \<Rightarrow> fault_if True (set_module_quality e1 Bad))"

definition sample_inputs :: "'d driver_ops \<Rightarrow> 'd engine \<Rightarrow> 'd engine" where
  "sample_inputs ops e =
     (let e1 = poll_driver ops (read_remote_inputs (publish_field_mode e));
          worst = worst_quality Good (pi_inputs (io_image (en_io e1)));
          e2 = fault_if (is_bad worst) (set_module_quality e1 worst)
      in e2\<lparr>en_vm := map_option (copy_inputs_to_vm (pi_inputs (io_image (en_io e2)))) (en_vm e2)\<rparr>)"

subsection \<open>Logic phase\<close>

datatype logic_result = LogicOk | LogicErr | LogicPanic

definition copy_outputs_from_vm :: "bool \<Rightarrow> slot_image \<Rightarrow> process_image \<Rightarrow> process_image" where
  "copy_outputs_from_vm bumpless outs im =
     fold (\<lambda>i im.
       if bumpless \<and> \<not> slot_written outs i then im
       else case slot_get outs i 0 of
              Inr v \<Rightarrow> ignore_err im (set_output im i (vm_to_plc v))
            | Inl _ \<Rightarrow> im)
       [0..<length (si_values outs)] im"

definition run_logic :: "'d engine \<Rightarrow> nat \<Rightarrow> u64 \<Rightarrow> 'd engine \<times> logic_result" where
  "run_logic e task now =
     (case en_vm e of
        None \<Rightarrow> (e, LogicErr)
      | Some v \<Rightarrow>
          (case run_entry (tk_entry (sp_tasks (en_plan e) ! task)) now
                  (vm_set_first_scan (hooks_first_scan (en_hooks e) task) v) of
             (v1, Inl (VmPanic _)) \<Rightarrow> (e\<lparr>en_vm := Some v1\<rparr>, LogicPanic)
           | (v1, Inl _) \<Rightarrow> (e\<lparr>en_vm := Some v1\<rparr>, LogicErr)
           | (v1, Inr _) \<Rightarrow>
               let v2 = (if vm_retain_dirty v1 then clear_retain_dirty v1 else v1);
                   ret = (if vm_retain_dirty v1 then retain_notify (en_retain e) else en_retain e);
                   im = copy_outputs_from_vm (en_bumpless_hold e) (vm_outputs v2) (io_image (en_io e))
               in (set_image (e\<lparr>en_vm := Some v2, en_retain := ret\<rparr>) im, LogicOk)))"

subsection \<open>Output phase\<close>

definition global_force_safe :: "'d engine \<Rightarrow> bool \<Rightarrow> bool" where
  "global_force_safe e ran_logic_ok \<longleftrightarrow>
     engine_mode e = Fault
     \<or> (engine_mode e = Stop \<and> sp_stop_output_policy (en_plan e) = StopSafe)
     \<or> (\<not> en_first_run_complete e \<and> \<not> ran_logic_ok)"

definition effective_output :: "'d engine \<Rightarrow> bool \<Rightarrow> output_module_state list \<Rightarrow> bool \<Rightarrow> nat \<Rightarrow> plc_value" where
  "effective_output e gfs states per_slot i =
     (let io = en_io e; im = io_image io;
          slot = (case nth_opt (pi_outputs im) i of Some s \<Rightarrow> s | None \<Rightarrow> slot_zero TyBool);
          safe = (case nth_opt (pi_output_safe im) i of Some v \<Rightarrow> v | None \<Rightarrow> PvBool False)
      in fst (resolve_effective_output
           \<lparr>eo_mode = engine_mode e, eo_global_force_safe = gfs,
            eo_module_quality = (if per_slot then om_quality (states ! i) else io_module_quality io),
            eo_on_bad_quality = (if per_slot then om_on_bad_quality (states ! i) else io_on_bad_quality io),
            eo_force = force_get (io_forces io) (word_of_nat i),
            eo_program_value = ts_value slot, eo_program_written = ts_written slot,
            eo_safe_state = safe\<rparr>))"

definition apply_outputs :: "'d driver_ops \<Rightarrow> 'd engine \<Rightarrow> bool \<Rightarrow> 'd engine" where
  "apply_outputs ops e0 ran_logic_ok =
     (let e = publish_field_mode e0;
          gfs = global_force_safe e ran_logic_ok;
          n_q = length (pi_outputs (io_image (en_io e)));
          (states, per_slot) = drv_fill_output_module_state ops (io_driver (en_io e))
             (replicate n_q \<lparr>om_quality = io_module_quality (en_io e),
                             om_on_bad_quality = io_on_bad_quality (en_io e)\<rparr>);
          oi = \<lparr>oi_values = map (effective_output e gfs states per_slot) [0..<n_q], oi_force_safe = gfs\<rparr>
      in case drv_apply_outputs ops (io_driver (en_io e)) oi of
           (d, r) \<Rightarrow>
             let e1 = e\<lparr>en_output_slot_state := states, en_output_image := oi,
                        en_io := (en_io e)\<lparr>io_driver := d\<rparr>\<rparr>
             in case r of Inr _ \<Rightarrow> e1 | Inl _ \<Rightarrow> fault_if True (set_module_quality e1 Bad))"

subsection \<open>Telemetry\<close>

definition is_bool_value :: "plc_value \<Rightarrow> bool" where
  "is_bool_value v \<longleftrightarrow> plc_value_type v = TyBool"

definition tel_push :: "'d env \<Rightarrow> 'd engine \<Rightarrow> telemetry_sample \<Rightarrow> 'd engine" where
  "tel_push v e s =
     e\<lparr>en_tel := push_drop_oldest (env_tel_locked v (en_tel_pushes e)) (en_tel e) s,
       en_tel_pushes := Suc (en_tel_pushes e)\<rparr>"

definition publish_slot :: "'d env \<Rightarrow> bool \<Rightarrow> u64 \<Rightarrow> nat \<times> typed_slot \<Rightarrow> 'd engine \<Rightarrow> 'd engine" where
  "publish_slot v is_input now x e =
     (case x of (i, slot) \<Rightarrow>
        let tracks = (if is_input then en_tel_in e else en_tel_out e)
        in if should_publish (tracks ! i) (ts_value slot) now (is_bool_value (ts_value slot))
                (sp_analog_period_ms (en_plan e)) (sp_digital_cos_ms (en_plan e))
           then let e1 = tel_push v e
                      \<lparr>tl_alias = word_of_nat (if is_input then i else length (pi_inputs (io_image (en_io e))) + i),
                       tl_tag_hint = word_of_nat i, tl_value = ts_value slot, tl_quality = ts_quality slot,
                       tl_forced = (\<not> is_input \<and> force_get (io_forces (en_io e)) (word_of_nat i) \<noteq> None),
                       tl_now_ms = now, tl_is_input = is_input\<rparr>;
                    tracks' = tracks[i := publish_mark (tracks ! i) (ts_value slot) now]
                in if is_input then e1\<lparr>en_tel_in := tracks'\<rparr> else e1\<lparr>en_tel_out := tracks'\<rparr>
           else e)"

definition publish_telemetry :: "'d env \<Rightarrow> u64 \<Rightarrow> 'd engine \<Rightarrow> 'd engine" where
  "publish_telemetry v now e =
     (let e1 = fold (publish_slot v True now) (enumerate 0 (pi_inputs (io_image (en_io e)))) e
      in fold (publish_slot v False now) (enumerate 0 (pi_outputs (io_image (en_io e1)))) e1)"

subsection \<open>One task invocation\<close>

definition set_in_invocation :: "'d engine \<Rightarrow> bool \<Rightarrow> 'd engine" where
  "set_in_invocation e b = e\<lparr>en_hooks := (en_hooks e)\<lparr>hk_in_invocation := b\<rparr>\<rparr>"

definition update_task :: "'d engine \<Rightarrow> nat \<Rightarrow> (task_runtime \<Rightarrow> task_runtime) \<Rightarrow> 'd engine" where
  "update_task e i f = e\<lparr>en_tasks := (en_tasks e)[i := f (en_tasks e ! i)]\<rparr>"

definition record_duration :: "u64 \<Rightarrow> task_runtime \<Rightarrow> task_runtime" where
  "record_duration us t =
     (let b = duration_bucket us
      in t\<lparr>tr_last_us := us, tr_max_us := (if tr_max_us t < us then us else tr_max_us t),
           tr_sum_us := sat_add (tr_sum_us t) us, tr_samples := sat_add (tr_samples t) 1,
           tr_duration_buckets := (tr_duration_buckets t)[b := sat_add (tr_duration_buckets t ! b) 1]\<rparr>)"

definition check_overrun :: "'d engine \<Rightarrow> nat \<Rightarrow> u64 \<Rightarrow> u32 \<Rightarrow> 'd engine" where
  "check_overrun e task duration_us period_ms =
     (let (w, trip) = watchdog_note (en_sw_wd e) task duration_us period_ms;
          e1 = e\<lparr>en_sw_wd := w\<rparr>;
          e2 = (if sat_mul (ucast period_ms :: u64) 1000 \<le> duration_us
                then (update_task e1 task (\<lambda>t. t\<lparr>tr_overruns := sat_add (tr_overruns t) 1\<rparr>))
                       \<lparr>en_overruns_total := en_overruns_total e1 + 1\<rparr>
                else e1)
      in if trip then enter_fault e2 else e2)"

text \<open>The part of \<open>invoke\<close> after the logic, from the measured duration on.\<close>

definition finish_invoke :: "'d env \<Rightarrow> 'd engine \<Rightarrow> nat \<Rightarrow> operating_mode \<Rightarrow> bool \<Rightarrow> u64 \<Rightarrow> 'd engine \<times> u64" where
  "finish_invoke v e0 task mode ran_logic_ok t0 =
     (let period_ms = tk_period_ms (sp_tasks (en_plan e0) ! task);
          (e1, t1) = now_ns v e0;
          measured = sat_sub t1 t0 div 1000;
          inject = (case nth_opt (en_min_duration_us e1) task of Some u \<Rightarrow> u | None \<Rightarrow> 0);
          duration_us = (if measured < inject then inject else measured);
          e2 = (if executes_logic mode then check_overrun e1 task duration_us period_ms else e1);
          e3 = apply_outputs (env_ops v) (update_task e2 task (record_duration duration_us)) ran_logic_ok;
          e4 = (if ran_logic_ok then e3\<lparr>en_first_run_complete := True\<rparr> else e3);
          e5 = (if sp_telemetry_enabled (en_plan e4) then publish_telemetry v (t0 div 1000000) e4 else e4);
          e6 = e5\<lparr>en_hw_strokes := Suc (en_hw_strokes e5)\<rparr>;
          e7 = (if ran_logic_ok \<and> hooks_first_scan (en_hooks e6) task
                then e6\<lparr>en_hooks := hooks_clear_first_scan (en_hooks e6) task\<rparr> else e6);
          e8 = update_task e7 task (advance_due (en_plan e7) task)
      in (set_in_invocation (e8\<lparr>en_last_ran := Some task\<rparr>) False, duration_us))"

definition invoke :: "'d env \<Rightarrow> 'd engine \<Rightarrow> nat \<Rightarrow> ('d engine \<times> u64) option" where
  "invoke v e task =
     (let (e1, t0) = now_ns v (set_in_invocation e True);
          e2 = sample_inputs (env_ops v) e1;
          mode = engine_mode e2
      in if executes_logic mode then
           (case run_logic e2 task (t0 div 1000000) of
              (e3, LogicPanic) \<Rightarrow> None
            | (e3, LogicErr) \<Rightarrow> Some (finish_invoke v (enter_fault e3) task mode False t0)
            | (e3, LogicOk) \<Rightarrow> Some (finish_invoke v e3 task mode True t0))
         else Some (finish_invoke v e2 task mode False t0))"

definition next_wakeup_ms :: "'d engine \<Rightarrow> u64" where
  "next_wakeup_ms e = (case map tr_next_due_ms (en_tasks e) of [] \<Rightarrow> 0 | t # ts \<Rightarrow> fold min ts t)"

definition engine_step :: "'d env \<Rightarrow> 'd engine \<Rightarrow> ('d engine \<times> step_outcome) option" where
  "engine_step v e =
     (let e1 = fst (try_epoch_install v (apply_mode_boundary e));
          (e2, now) = now_ms v e1
      in case pick_due e2 now of
           None \<Rightarrow> Some (e2, StepIdle (next_wakeup_ms e2))
         | Some task \<Rightarrow>
             (case invoke v e2 task of
                None \<Rightarrow> None
              | Some (e3, us) \<Rightarrow> Some (e3, StepRan task us)))"

datatype 'e loop_outcome = LoopDone 'e u32 | LoopPanic | LoopFuel

fun run_due_loop :: "nat \<Rightarrow> 'd env \<Rightarrow> 'd engine \<Rightarrow> u32 \<Rightarrow> 'd engine loop_outcome" where
  "run_due_loop 0 v e n = LoopFuel"
| "run_due_loop (Suc fuel) v e n =
     (let (e1, now) = now_ms v (fst (try_epoch_install v e))
      in case pick_due e1 now of
           None \<Rightarrow> LoopDone e1 n
         | Some task \<Rightarrow>
             (case invoke v e1 task of
                None \<Rightarrow> LoopPanic
              | Some (e2, _) \<Rightarrow> run_due_loop fuel v e2 (sat_add n 1)))"

definition run_due :: "nat \<Rightarrow> 'd env \<Rightarrow> 'd engine \<Rightarrow> 'd engine loop_outcome" where
  "run_due fuel v e = run_due_loop fuel v (apply_mode_boundary e) 0"

end
