(* ===== verification/VmSafety.thy ===== *)
theory VmSafety
  imports VmExec
begin

section \<open>What verification guarantees at run time\<close>

text \<open>
  The verifier's certificate makes the machine safe. \<open>wp\<close> is the weakest precondition of an
  operation of the machine, with one postcondition for success and one for failure; its
  equations evaluate the machine's operations symbolically. The invariant relates the height
  of the operand stack to the heights the certificate records, through all open calls of
  user function blocks: a block may leave values behind, so inside calls the recorded heights
  are lower bounds, and exact ones without such calls.
\<close>

subsection \<open>Weakest preconditions\<close>

definition wp :: "'a vm_op \<Rightarrow> ('a \<Rightarrow> vm \<Rightarrow> bool) \<Rightarrow> (vm_error \<Rightarrow> vm \<Rightarrow> bool) \<Rightarrow> vm \<Rightarrow> bool" where
  "wp m Q E s = (case m s of (s', Inl e) \<Rightarrow> E e s' | (s', Inr x) \<Rightarrow> Q x s')"

named_theorems wp_simps \<open>equations of the weakest precondition\<close>

lemma wp_vret [wp_simps]: "wp (vret x) Q E = Q x"
  by (simp add: wp_def vret_def fun_eq_iff)

lemma wp_vfail [wp_simps]: "wp (vfail e) Q E = E e"
  by (simp add: wp_def vfail_def fun_eq_iff)

lemma wp_vbind [wp_simps]: "wp (vbind m f) Q E = wp m (\<lambda>x. wp (f x) Q E) E"
  by (auto simp: wp_def vbind_def fun_eq_iff split: prod.splits sum.splits)

lemma wp_vlift [wp_simps]: "wp (vlift r) Q E = (\<lambda>s. case r of Inl e \<Rightarrow> E e s | Inr x \<Rightarrow> Q x s)"
  by (simp add: wp_def vlift_def fun_eq_iff)

lemma wp_vreads [wp_simps]: "wp (vreads f) Q E = (\<lambda>s. case f s of Inl e \<Rightarrow> E e s | Inr x \<Rightarrow> Q x s)"
  by (simp add: wp_def vreads_def fun_eq_iff)

lemma wp_vupd [wp_simps]: "wp (vupd f) Q E = (\<lambda>s. Q () (f s))"
  by (simp add: wp_def vupd_def fun_eq_iff)

lemma wp_vnext [wp_simps]: "wp (vnext npc m) Q E = wp m (\<lambda>_. Q (Goto npc)) E"
  by (simp add: vnext_def wp_simps)

lemma wp_vpush [wp_simps]:
  "wp (vpush_value v pc) Q E = (\<lambda>s.
     if MAX_STACK \<le> length (vm_stack s) then E (VmStackOverflow pc) s
     else Q () (s\<lparr>vm_stack := v # vm_stack s\<rparr>))"
  by (simp add: wp_def vpush_value_def fun_eq_iff)

lemma wp_vpop [wp_simps]:
  "wp (vpop_value pc) Q E = (\<lambda>s.
     case vm_stack s of [] \<Rightarrow> E (VmStackUnderflow pc) s | v # st \<Rightarrow> Q v (s\<lparr>vm_stack := st\<rparr>))"
  by (simp add: wp_def vpop_value_def fun_eq_iff split: list.splits)

lemma wp_mono:
  "wp m Q E s \<Longrightarrow> (\<And>x s'. Q x s' \<Longrightarrow> Q' x s') \<Longrightarrow> (\<And>e s'. E e s' \<Longrightarrow> E' e s') \<Longrightarrow> wp m Q' E' s"
  by (auto simp: wp_def split: prod.splits sum.splits)

lemma wp_vpop_values:
  assumes "n \<le> length (vm_stack s)"
  shows "wp (vpop_values n pc) Q E s
    = Q (rev (take n (vm_stack s))) (s\<lparr>vm_stack := drop n (vm_stack s)\<rparr>)"
  using assms
proof (induction n arbitrary: s Q)
  case 0
  then show ?case by (simp add: wp_simps)
next
  case (Suc n)
  then obtain v st where "vm_stack s = v # st" by (cases "vm_stack s") auto
  then show ?case using Suc by (simp add: wp_simps)
qed

lemma wp_vpush_values:
  assumes "length (vm_stack s) + length vs \<le> MAX_STACK"
  shows "wp (vpush_values vs pc) Q E s = Q () (s\<lparr>vm_stack := rev vs @ vm_stack s\<rparr>)"
  using assms
  by (induction vs arbitrary: s) (simp_all add: wp_simps)

lemma wp_vpush_values_overflow:
  assumes "MAX_STACK < length (vm_stack s) + length vs" "length (vm_stack s) \<le> MAX_STACK"
    and "\<And>st. length st \<le> MAX_STACK \<Longrightarrow> E (VmStackOverflow pc) (s\<lparr>vm_stack := st\<rparr>)"
  shows "wp (vpush_values vs pc) Q E s"
  using assms
proof (induction vs arbitrary: s)
  case Nil
  then show ?case by simp
next
  case (Cons v vs)
  show ?case
  proof (cases "MAX_STACK \<le> length (vm_stack s)")
    case True
    then show ?thesis using Cons.prems(2) Cons.prems(3) [of "vm_stack s"] by (simp add: wp_simps)
  next
    case False
    then show ?thesis using Cons by (simp add: wp_simps)
  qed
qed

subsection \<open>The invariant of a loaded machine\<close>

definition vm_inv :: "ir_module \<Rightarrow> nat \<Rightarrow> vm \<Rightarrow> bool" where
  "vm_inv m n s \<longleftrightarrow>
     vm_code s = code m
     \<and> vm_entries s = map (\<lambda>e. (ep_name e, ep_pc e, ep_is_user_fb e)) (entries m)
     \<and> vm_user_fb_pc s = fold register_fb (entries m) []
     \<and> slots_inv (unat (input_slots m)) (vm_inputs s)
     \<and> slots_inv (unat (output_slots m)) (vm_outputs s)
     \<and> seg_inv (vm_data s) \<and> seg_len (vm_data s) = unat (data_size m)
     \<and> seg_inv (vm_retain s) \<and> seg_len (vm_retain s) = unat (retain_size m)
     \<and> store_ok n (vm_primitives s) \<and> length (vm_stack s) \<le> MAX_STACK"

lemma vm_load_inv: "vm_load m cfg = Inr s \<Longrightarrow> vm_inv m (vc_primitive_instances cfg) s"
  by (auto simp: vm_load_def rbind_eq_Inr vm_inv_def store_ok_with_capacity)

lemma vm_inv_run_reset: "vm_inv m n s \<Longrightarrow> vm_inv m n (run_reset s)"
  by (simp add: vm_inv_def run_reset_def slots_clear_written_inv)

lemma vm_inv_cold_reset: "vm_inv m n s \<Longrightarrow> vm_inv m n (cold_reset_non_retain s)"
  by (simp add: vm_inv_def cold_reset_non_retain_def seg_fill_zero_inv store_ok_cold_reset
      slots_fill_bool_false_inv)

text \<open>The errors that remain possible for a verified program.\<close>

definition allowed_error :: "vm_error \<Rightarrow> bool" where
  "allowed_error e =
     (case e of
        VmStackOverflow _ \<Rightarrow> True
      | VmCallDepth _ \<Rightarrow> True
      | VmUnknownUserFb _ \<Rightarrow> True
      | VmBudget _ \<Rightarrow> True
      | VmBounds _ d \<Rightarrow> d \<notin> {''slot'', ''quality slot''}
      | VmType _ d \<Rightarrow> d \<notin> {''bad CONV tag'', ''not a binary op'', ''not a unary op'', ''bad arith''}
      | VmPrimitive _ d \<Rightarrow> d \<in> {''BadInstance'', ''TypeMismatch''}
      | VmPanic d \<Rightarrow> d = ''attempt to divide with overflow''
      | _ \<Rightarrow> False)"

definition is_overflow :: "vm_error \<Rightarrow> bool" where
  "is_overflow e \<longleftrightarrow> (\<exists>pc. e = VmStackOverflow pc)"

definition is_call_error :: "vm_error \<Rightarrow> bool" where
  "is_call_error e \<longleftrightarrow> (\<exists>pc. e = VmCallDepth pc) \<or> (\<exists>k. e = VmUnknownUserFb k)"

definition local_error :: "vm_error \<Rightarrow> bool" where
  "local_error e \<longleftrightarrow> allowed_error e \<and> \<not> is_overflow e \<and> \<not> is_call_error e"

lemmas error_defs = local_error_def allowed_error_def is_overflow_def is_call_error_def

subsection \<open>Operators fail only with local errors\<close>

lemma unary_op_error: "op \<in> {OpNeg, OpNot} \<Longrightarrow> unary_op op v pc = Inl e \<Longrightarrow> local_error e"
  by (cases v) (auto simp: unary_op_def error_defs split: if_splits)

lemma logic_op_error: "logic_op op a b pc = Inl e \<Longrightarrow> local_error e"
  by (cases a; cases b) (auto simp: logic_op_def error_defs)

lemma cmp_op_error: "cmp_op op a b pc = Inl e \<Longrightarrow> local_error e"
  by (cases a; cases b) (auto simp: cmp_op_def error_defs)

lemma int_arith_error: "int_arith op x y = Inl e \<Longrightarrow> local_error e"
  by (auto simp: int_arith_def word_sdiv_def error_defs split: if_splits)

lemma arith_op_error:
  assumes "op \<in> {OpAdd, OpSub, OpMul, OpDiv}" "arith_op op a b pc = Inl e"
  shows "local_error e"
proof -
  have "real_arith op x y pc \<noteq> Inl e" for x y
    using assms(1) by (auto simp: real_arith_def)
  moreover have "local_error (VmType pc ''arith type mismatch'')" by (simp add: error_defs)
  ultimately show ?thesis
    using assms by (cases a; cases b) (auto simp: arith_op_def rbind_eq_Inl dest: int_arith_error)
qed

lemma seg_load_error: "seg_load g off pc = Inl e \<Longrightarrow> local_error e"
  by (auto simp: seg_load_def seg_load_as_def Let_def error_defs split: if_splits)

lemma seg_store_error: "seg_store g off v pc = Inl e \<Longrightarrow> local_error e"
  by (auto simp: seg_store_def Let_def error_defs split: if_splits)

definition binary_ops :: "opcode set" where
  "binary_ops = {OpAdd, OpSub, OpMul, OpDiv, OpAnd, OpOr, OpXor, OpEq, OpNe, OpLt, OpLe, OpGt, OpGe}"

lemma binop_wp:
  assumes "op \<in> binary_ops"
    and "\<And>r z. Q r (if z then s\<lparr>vm_div0_count := vm_div0_count s + 1\<rparr> else s)"
    and "\<And>e. local_error e \<Longrightarrow> E e s"
  shows "wp (binop op a b pc) Q E s"
proof -
  have Q: "Q r s" "Q r (s\<lparr>vm_div0_count := vm_div0_count s + 1\<rparr>)" for r
    using assms(2) [of r False] assms(2) [of r True] by simp_all
  consider "op \<in> {OpAnd, OpOr, OpXor}" | "op \<in> {OpEq, OpNe}" | "op \<in> {OpLt, OpLe, OpGt, OpGe}"
    | "op \<in> {OpAdd, OpSub, OpMul, OpDiv}"
    using assms(1) unfolding binary_ops_def by blast
  then show ?thesis
  proof cases
    case 1
    then show ?thesis using Q assms(3) logic_op_error [of op a b pc]
      by (simp add: binop_def wp_simps split: sum.splits)
  next
    case 2
    then show ?thesis using Q by (auto simp: binop_def wp_simps)
  next
    case 3
    then have "binop op a b pc = vlift (cmp_op op a b pc)" by (auto simp: binop_def)
    then show ?thesis using Q assms(3) cmp_op_error [of op a b pc]
      by (simp add: wp_simps split: sum.splits)
  next
    case 4
    then have "binop op a b pc = vbind (vlift (arith_op op a b pc)) (\<lambda>(r, z).
        vbind (vupd (\<lambda>s. if z then s\<lparr>vm_div0_count := vm_div0_count s + 1\<rparr> else s)) (\<lambda>_. vret r))"
      by (auto simp: binop_def)
    then show ?thesis using Q assms(3) arith_op_error [OF 4, of a b pc]
      by (auto simp: wp_simps split: sum.splits)
  qed
qed

subsection \<open>One instruction\<close>

definition step_post ::
  "ir_module \<Rightarrow> nat \<Rightarrow> vm \<Rightarrow> nat \<times> nat \<Rightarrow> nat set \<Rightarrow> control \<Rightarrow> vm \<Rightarrow> bool" where
  "step_post m n s eff nexts c s' \<longleftrightarrow>
     vm_inv m n s' \<and> vm_frames s' = vm_frames s
     \<and> length (vm_stack s') = length (vm_stack s) - fst eff + snd eff
     \<and> (\<exists>npc\<in>nexts. c = Goto npc)"

definition step_err :: "ir_module \<Rightarrow> nat \<Rightarrow> vm \<Rightarrow> nat \<times> nat \<Rightarrow> vm_error \<Rightarrow> vm \<Rightarrow> bool" where
  "step_err m n s eff e s' \<longleftrightarrow>
     vm_inv m n s' \<and> allowed_error e \<and> \<not> is_call_error e
     \<and> (is_overflow e \<longrightarrow> MAX_STACK < length (vm_stack s) - fst eff + snd eff)"

lemma vm_inv_stack: "vm_inv m n s \<Longrightarrow> length st \<le> MAX_STACK \<Longrightarrow> vm_inv m n (s\<lparr>vm_stack := st\<rparr>)"
  by (simp add: vm_inv_def)

lemma vm_inv_stack_bound: "vm_inv m n s \<Longrightarrow> length (vm_stack s) \<le> MAX_STACK"
  by (simp add: vm_inv_def)

lemma vm_inv_div0: "vm_inv m n s \<Longrightarrow> vm_inv m n (s\<lparr>vm_div0_count := k\<rparr>)"
  by (simp add: vm_inv_def)

lemma step_err_local: "vm_inv m n s' \<Longrightarrow> local_error e \<Longrightarrow> step_err m n s eff e s'"
  by (simp add: step_err_def local_error_def)

lemma step_err_overflow:
  "vm_inv m n s' \<Longrightarrow> MAX_STACK < length (vm_stack s) - fst eff + snd eff \<Longrightarrow>
     step_err m n s eff (VmStackOverflow pc) s'"
  by (simp add: step_err_def allowed_error_def is_call_error_def)

text \<open>The shapes of the simple instructions: push a value that was read, pop and write, pop
  and push.\<close>

lemma wp_load_shape:
  assumes "vm_inv m n s" "npc \<in> nexts" "\<And>e. f s = Inl e \<Longrightarrow> local_error e"
  shows "wp (vnext npc (vbind (vreads f) (\<lambda>v. vpush_value (g v) pc)))
    (step_post m n s (0, 1) nexts) (step_err m n s (0, 1)) s"
  using assms vm_inv_stack_bound [OF assms(1)]
  by (auto simp: wp_simps step_post_def vm_inv_stack intro!: step_err_local step_err_overflow
      split: sum.splits)

lemma wp_push_shape:
  assumes "vm_inv m n s" "npc \<in> nexts"
  shows "wp (vnext npc (vpush_value v pc)) (step_post m n s (0, 1) nexts) (step_err m n s (0, 1)) s"
  using assms vm_inv_stack_bound [OF assms(1)]
  by (auto simp: wp_simps step_post_def vm_inv_stack intro!: step_err_overflow)

lemma wp_store_shape:
  assumes "vm_inv m n s" "npc \<in> nexts" "1 \<le> length (vm_stack s)"
    and "\<And>v e s'. vm_inv m n s' \<Longrightarrow> f v s' = Inl e \<Longrightarrow> local_error e"
    and "\<And>v d s'. vm_inv m n s' \<Longrightarrow> f v s' = Inr d \<Longrightarrow>
           vm_inv m n (u d s') \<and> vm_frames (u d s') = vm_frames s' \<and> vm_stack (u d s') = vm_stack s'"
  shows "wp (vnext npc (vbind (vpop_value pc) (\<lambda>v. vbind (vreads (f v)) (\<lambda>d. vupd (u d)))))
    (step_post m n s (1, 0) nexts) (step_err m n s (1, 0)) s"
proof -
  obtain v st where st: "vm_stack s = v # st" using assms(3) by (cases "vm_stack s") auto
  have i: "vm_inv m n (s\<lparr>vm_stack := st\<rparr>)"
    using vm_inv_stack_bound [OF assms(1)] st by (intro vm_inv_stack assms(1)) simp
  show ?thesis
    using assms(2) assms(4) [OF i] assms(5) [OF i] i
    by (auto simp: wp_simps st step_post_def intro: step_err_local split: sum.splits)
qed

lemma wp_unary_shape:
  assumes "vm_inv m n s" "npc \<in> nexts" "1 \<le> length (vm_stack s)"
    and "\<And>v e. f v = Inl e \<Longrightarrow> local_error e"
  shows "wp (vnext npc (vbind (vpop_value pc) (\<lambda>a. vbind (vlift (f a)) (\<lambda>r. vpush_value (g a r) pc))))
    (step_post m n s (1, 1) nexts) (step_err m n s (1, 1)) s"
proof -
  obtain v st where st: "vm_stack s = v # st" using assms(3) by (cases "vm_stack s") auto
  have b: "length st < MAX_STACK" using vm_inv_stack_bound [OF assms(1)] st by simp
  then have i: "vm_inv m n (s\<lparr>vm_stack := st\<rparr>)" by (intro vm_inv_stack assms(1)) simp
  show ?thesis
    using assms(2) assms(4) i b assms(1)
    by (auto simp: wp_simps st step_post_def vm_inv_stack intro: step_err_local split: sum.splits)
qed

lemma wp_binary_shape:
  assumes "vm_inv m n s" "npc \<in> nexts" "2 \<le> length (vm_stack s)" "op \<in> binary_ops"
  shows "wp (vnext npc (vbind (vpop_value pc) (\<lambda>b. vbind (vpop_value pc) (\<lambda>a.
            vbind (binop op a b pc) (\<lambda>r. vpush_value r pc)))))
    (step_post m n s (2, 1) nexts) (step_err m n s (2, 1)) s"
proof -
  obtain b a st where st: "vm_stack s = b # a # st"
    using assms(3) by (metis One_nat_def Suc_le_length_iff numeral_2_eq_2)
  have l: "length st < MAX_STACK" using vm_inv_stack_bound [OF assms(1)] st by simp
  then have i: "vm_inv m n (s\<lparr>vm_stack := st\<rparr>)" by (intro vm_inv_stack assms(1)) simp
  have "wp (binop op a b pc) (\<lambda>r. wp (vnext npc (vpush_value r pc))
      (step_post m n s (2, 1) nexts) (step_err m n s (2, 1))) (step_err m n s (2, 1))
      (s\<lparr>vm_stack := st\<rparr>)"
  proof (rule binop_wp [OF assms(4)])
    fix e assume "local_error e"
    then show "step_err m n s (2, 1) e (s\<lparr>vm_stack := st\<rparr>)" using i by (rule step_err_local [rotated])
  next
    fix r z
    show "wp (vnext npc (vpush_value r pc)) (step_post m n s (2, 1) nexts) (step_err m n s (2, 1))
      (if z then (s\<lparr>vm_stack := st\<rparr>)\<lparr>vm_div0_count := vm_div0_count (s\<lparr>vm_stack := st\<rparr>) + 1\<rparr>
       else s\<lparr>vm_stack := st\<rparr>)"
      using l assms(1,2) by (auto simp: wp_simps step_post_def st vm_inv_def)
  qed
  then show ?thesis by (simp add: wp_simps st)
qed

lemma vm_inv_slots:
  assumes "vm_inv m n s"
  shows "i < unat (input_slots m) \<Longrightarrow> slot_get (vm_inputs s) i pc = Inl e \<Longrightarrow> local_error e"
    and "i < unat (input_slots m) \<Longrightarrow> slot_quality_good (vm_inputs s) i pc = Inl e \<Longrightarrow> local_error e"
    and "i < unat (output_slots m) \<Longrightarrow> slot_get (vm_outputs s) i pc = Inl e \<Longrightarrow> local_error e"
    and "i < unat (output_slots m) \<Longrightarrow> slot_set (vm_outputs s) i v pc = Inl e \<Longrightarrow> local_error e"
  using assms
  by (auto simp: vm_inv_def slot_get_def slot_quality_good_def slot_set_def slots_inv_def)

lemma vm_inv_updates:
  assumes "vm_inv m n s"
  shows "seg_store (vm_data s) off v pc = Inr d \<Longrightarrow> vm_inv m n (s\<lparr>vm_data := d\<rparr>)"
    and "seg_store (vm_retain s) off v pc = Inr d \<Longrightarrow>
           vm_inv m n (s\<lparr>vm_retain := d, vm_retain_dirty := True\<rparr>)"
    and "slot_set (vm_outputs s) i v pc = Inr im \<Longrightarrow> vm_inv m n (s\<lparr>vm_outputs := im\<rparr>)"
  using assms seg_store_inv [of "vm_data s" off v pc d] seg_store_inv [of "vm_retain s" off v pc d]
  by (auto simp: vm_inv_def intro: slot_set_inv)

lemma exec_simple_load_wp:
  assumes "verify_simple m fb pc sz d op p st = Inr (VNext st' nexts)" "vm_inv m n s"
    and "op \<in> {OpLdData, OpLdRetain, OpLdI, OpLdIq, OpLdQ}"
  shows "wp (exec_simple op p pc (pc + sz)) (step_post m n s (0, 1) (fst ` set nexts))
    (step_err m n s (0, 1)) s"
proof -
  have n: "pc + sz \<in> fst ` set nexts"
    and i: "op \<in> {OpLdI, OpLdIq} \<Longrightarrow> unat p < unat (input_slots m)"
    and q: "op = OpLdQ \<Longrightarrow> unat p < unat (output_slots m)"
    using assms(1,3)
    by (auto simp: verify_simple_def Let_def rbind_eq_Inr word_le_nat_alt split: if_splits)
  note shape = wp_load_shape [OF assms(2) n]
  show ?thesis
    using assms(3)
  proof (elim insertE emptyE)
    assume "op = OpLdData"
    then show ?thesis unfolding exec_simple_def
      by (simp only: opcode.case) (rule shape, rule seg_load_error)
  next
    assume "op = OpLdRetain"
    then show ?thesis unfolding exec_simple_def
      by (simp only: opcode.case) (rule shape, rule seg_load_error)
  next
    assume "op = OpLdI"
    then show ?thesis unfolding exec_simple_def using i
      by (simp only: opcode.case) (rule shape, rule vm_inv_slots(1) [OF assms(2)], simp)
  next
    assume "op = OpLdIq"
    then show ?thesis unfolding exec_simple_def using i
      by (simp only: opcode.case) (rule shape, rule vm_inv_slots(2) [OF assms(2)], simp)
  next
    assume "op = OpLdQ"
    then show ?thesis unfolding exec_simple_def using q
      by (simp only: opcode.case) (rule shape, rule vm_inv_slots(3) [OF assms(2)], simp)
  qed
qed

lemma exec_simple_store_wp:
  assumes "verify_simple m fb pc sz d op p st = Inr (VNext st' nexts)" "vm_inv m n s"
    and "op \<in> {OpStData, OpStRetain, OpStQ}" "1 \<le> length (vm_stack s)"
  shows "wp (exec_simple op p pc (pc + sz)) (step_post m n s (1, 0) (fst ` set nexts))
    (step_err m n s (1, 0)) s"
proof -
  have n: "pc + sz \<in> fst ` set nexts" and q: "op = OpStQ \<Longrightarrow> unat p < unat (output_slots m)"
    using assms(1,3)
    by (auto simp: verify_simple_def Let_def rbind_eq_Inr word_le_nat_alt split: if_splits)
  note shape = wp_store_shape [OF assms(2) n assms(4)]
  show ?thesis
    using assms(3)
  proof (elim insertE emptyE)
    assume "op = OpStData"
    then show ?thesis unfolding exec_simple_def
      by (simp only: opcode.case) (rule shape, auto dest: seg_store_error simp: vm_inv_updates)
  next
    assume "op = OpStRetain"
    then show ?thesis unfolding exec_simple_def
      by (simp only: opcode.case) (rule shape, auto dest: seg_store_error simp: vm_inv_updates)
  next
    assume "op = OpStQ"
    then show ?thesis unfolding exec_simple_def
      by (simp only: opcode.case) (rule shape, auto dest: vm_inv_slots(4) [OF _ q] simp: vm_inv_updates)
  qed
qed

lemma exec_simple_unary_wp:
  assumes "verify_simple m fb pc sz d op p st = Inr (VNext st' nexts)" "vm_inv m n s"
    and "op \<in> {OpNeg, OpNot, OpConv}" "1 \<le> length (vm_stack s)"
  shows "wp (exec_simple op p pc (pc + sz)) (step_post m n s (1, 1) (fst ` set nexts))
    (step_err m n s (1, 1)) s"
proof -
  have n: "pc + sz \<in> fst ` set nexts"
    and c: "op = OpConv \<Longrightarrow> \<exists>ty. ir_type_from_u8 (ucast p) = Some ty"
    using assms(1,3)
    by (auto simp: verify_simple_def Let_def rbind_eq_Inr ok_or_eq_Inr split: if_splits)
  note shape = wp_unary_shape [OF assms(2) n assms(4)]
  show ?thesis
  proof (cases "op = OpConv")
    case True
    then show ?thesis using c unfolding exec_simple_def
      by (simp only: opcode.case) (rule shape, auto simp: ok_or_eq_Inl)
  next
    case False
    then have o: "op \<in> {OpNeg, OpNot}" using assms(3) by simp
    then have "wp (vnext (pc + sz) (vbind (vpop_value pc) (\<lambda>a.
        vbind (vlift (unary_op op a pc)) (\<lambda>r. vpush_value r pc))))
        (step_post m n s (1, 1) (fst ` set nexts)) (step_err m n s (1, 1)) s"
      by (intro shape) (rule unary_op_error)
    then show ?thesis using o by (auto simp: exec_simple_def)
  qed
qed

lemma exec_simple_jump_wp:
  assumes "verify_simple m fb pc sz d op p st = Inr (VNext st' nexts)" "vm_inv m n s"
    and "op \<in> {OpNop, OpJmp, OpJmpIf, OpJmpIfNot}" "k \<le> length (vm_stack s)"
    and "k = (if op \<in> {OpJmpIf, OpJmpIfNot} then 1 else 0)"
  shows "wp (exec_simple op p pc (pc + sz)) (step_post m n s (k, 0) (fst ` set nexts))
    (step_err m n s (k, 0)) s"
proof -
  define N where "N = fst ` set nexts"
  have n: "pc + sz \<in> N \<or> op = OpJmp" "unat p \<in> N \<or> op = OpNop"
    using assms(1,3) by (auto simp: N_def verify_simple_def Let_def rbind_eq_Inr split: if_splits)
  have inv: "vm_inv m n (s\<lparr>vm_stack := tl (vm_stack s)\<rparr>)"
    using assms(2) vm_inv_stack_bound [OF assms(2)] by (simp add: vm_inv_stack)
  consider "op = OpNop" | "op = OpJmp" | "op \<in> {OpJmpIf, OpJmpIfNot}" using assms(3) by blast
  then show ?thesis
  proof cases
    case 1
    then have "k = 0" "exec_simple op p pc (pc + sz) = vret (Goto (pc + sz))"
      using assms(5) by (simp_all add: exec_simple_def)
    then show ?thesis using 1 n assms(2) by (simp add: wp_vret step_post_def N_def)
  next
    case 2
    then have "k = 0" "exec_simple op p pc (pc + sz) = vret (Goto (unat p))"
      using assms(5) by (simp_all add: exec_simple_def)
    then show ?thesis using 2 n assms(2) by (simp add: wp_vret step_post_def N_def)
  next
    case 3
    then have k: "k = 1" using assms(5) by simp
    then obtain v st where st: "vm_stack s = v # st" using assms(4) by (cases "vm_stack s") auto
    have x: "exec_simple op p pc (pc + sz) = vbind (vpop_value pc) (\<lambda>c.
        vret (Goto (if value_as_bool c = (op = OpJmpIf) then unat p else pc + sz)))"
      using 3 by (elim insertE emptyE) (simp_all add: exec_simple_def)
    have "(if value_as_bool v = (op = OpJmpIf) then unat p else pc + sz) \<in> N" using n 3 by auto
    then show ?thesis using inv by (simp add: x k wp_vbind wp_vpop wp_vret st step_post_def N_def)
  qed
qed

lemma exec_simple_wp:
  assumes "verify_simple m fb pc sz d op p st = Inr (VNext st' nexts)" "vm_inv m n s"
    and "fst (stack_effect (Simple op p)) \<le> length (vm_stack s)"
  shows "wp (exec_simple op p pc (pc + sz)) (step_post m n s (stack_effect (Simple op p)) (fst ` set nexts))
    (step_err m n s (stack_effect (Simple op p))) s"
proof -
  consider "op \<in> binary_ops" | "op \<in> {OpLdData, OpLdRetain, OpLdI, OpLdIq, OpLdQ}"
    | "op \<in> {OpStData, OpStRetain, OpStQ}" | "op \<in> {OpNeg, OpNot, OpConv}"
    | "op \<in> {OpNop, OpJmp, OpJmpIf, OpJmpIfNot}" | "op = OpPushIBool"
    | "op \<in> {OpHalt, OpRet, OpPushIDint, OpPushIReal, OpPushTime, OpCallFb}"
    by (cases op) (auto simp: binary_ops_def)
  then show ?thesis
  proof cases
    case 1
    have "pc + sz \<in> fst ` set nexts"
      using assms(1) 1 by (auto simp: binary_ops_def verify_simple_def Let_def rbind_eq_Inr)
    moreover have "stack_effect (Simple op p) = (2, 1)"
      using 1 by (auto simp: binary_ops_def stack_effect_def)
    moreover have "exec_simple op p pc (pc + sz) = vnext (pc + sz) (vbind (vpop_value pc) (\<lambda>b.
        vbind (vpop_value pc) (\<lambda>a. vbind (binop op a b pc) (\<lambda>r. vpush_value r pc))))"
      using 1 by (auto simp: binary_ops_def exec_simple_def)
    ultimately show ?thesis using wp_binary_shape [OF assms(2)] 1 assms(3) by simp
  next
    case 2
    then have "stack_effect (Simple op p) = (0, 1)" by (auto simp: stack_effect_def)
    then show ?thesis using exec_simple_load_wp [OF assms(1,2) 2] by simp
  next
    case 3
    then have "stack_effect (Simple op p) = (1, 0)" by (auto simp: stack_effect_def)
    then show ?thesis using exec_simple_store_wp [OF assms(1,2) 3] assms(3) by simp
  next
    case 4
    then have "stack_effect (Simple op p) = (1, 1)" by (auto simp: stack_effect_def)
    then show ?thesis using exec_simple_unary_wp [OF assms(1,2) 4] assms(3) by simp
  next
    case 5
    then have "stack_effect (Simple op p) = (if op \<in> {OpJmpIf, OpJmpIfNot} then 1 else 0, 0)"
      by (auto simp: stack_effect_def)
    then show ?thesis using exec_simple_jump_wp [OF assms(1,2) 5 _ refl] assms(3) by simp
  next
    case 6
    then show ?thesis
      using assms wp_push_shape [OF assms(2), of "pc + sz" "fst ` set nexts"]
      by (auto simp: exec_simple_def stack_effect_def verify_simple_def rbind_eq_Inr Let_def)
  next
    case 7
    then show ?thesis using assms(1) by (auto simp: verify_simple_def Let_def split: if_splits)
  qed
qed

lemma length_prim_outputs [simp]: "length (prim_outputs p outs) = length outs"
  by (simp add: prim_outputs_def)

lemma prim_error_local:
  assumes "store_ok k st" "length inputs = input_count p" "call_primitive st p i inputs now = Inl e"
  shows "local_error (prim_error e pc)"
proof -
  have "e \<noteq> PrimPanic" using call_primitive_no_panic [OF assms(1)] assms(3) by metis
  moreover have "e \<noteq> PrimArity a b" for a b
    using assms(2,3) by (cases p) (auto simp: call_primitive_def rbind_eq_Inl instance_of_def arg_def
        ok_or_eq_Inl Let_def case_prod_unfold)
  ultimately show ?thesis by (cases e) (auto simp: prim_error_def error_defs)
qed

lemma call_prim_wp:
  assumes "vm_inv m n s" "primitive_of_id fid = Some p" "input_count p \<le> length (vm_stack s)"
    "npc \<in> nexts"
  shows "wp (vnext npc (call_prim fid i now pc))
    (step_post m n s (input_count p, output_count p) nexts)
    (step_err m n s (input_count p, output_count p)) s"
proof -
  let ?s = "s\<lparr>vm_stack := drop (input_count p) (vm_stack s)\<rparr>"
  let ?in = "map to_stack_value (rev (take (input_count p) (vm_stack s)))"
  have st: "store_ok n (vm_primitives s)" using assms(1) by (simp add: vm_inv_def)
  have b: "length (vm_stack s) \<le> MAX_STACK" using assms(1) by (rule vm_inv_stack_bound)
  have i: "vm_inv m n ?s" using assms(1) b by (simp add: vm_inv_stack)
  have li: "length ?in = input_count p" using assms(3) by simp
  show ?thesis
  proof (cases "call_primitive (vm_primitives s) p i ?in now")
    case (Inl e)
    then have "local_error (prim_error e pc)" using prim_error_local [OF st li] by blast
    then show ?thesis
      using Inl i assms(2,3) by (simp add: call_prim_def wp_simps wp_vpop_values step_err_local)
  next
    case (Inr r)
    obtain st' outs where r: "r = (st', outs)" by (cases r)
    have o: "store_ok n st'" "length outs = output_count p"
      using call_primitive_store_ok [OF st] Inr r by auto
    let ?s' = "?s\<lparr>vm_primitives := st'\<rparr>"
    have s': "vm_inv m n ?s'" using i o by (simp add: vm_inv_def)
    have "wp (vpush_values (rev (prim_outputs p outs)) pc)
      (\<lambda>_. step_post m n s (input_count p, output_count p) nexts (Goto npc))
      (step_err m n s (input_count p, output_count p)) ?s'"
    proof (cases "length (vm_stack ?s') + output_count p \<le> MAX_STACK")
      case True
      then show ?thesis
        using o assms(3,4) s' by (simp add: wp_vpush_values step_post_def vm_inv_def ac_simps)
    next
      case False
      show ?thesis
      proof (rule wp_vpush_values_overflow)
        show "MAX_STACK < length (vm_stack ?s') + length (rev (prim_outputs p outs))"
          using False o by simp
        show "length (vm_stack ?s') \<le> MAX_STACK" using b by simp
      next
        fix st1 :: "vm_value list" assume "length st1 \<le> MAX_STACK"
        then show "step_err m n s (input_count p, output_count p) (VmStackOverflow pc) (?s'\<lparr>vm_stack := st1\<rparr>)"
          using s' False assms(3) by (intro step_err_overflow) (simp_all add: vm_inv_def)
      qed
    qed
    then show ?thesis
      using Inr r assms(2,3) by (simp add: call_prim_def wp_simps wp_vpop_values)
  qed
qed

definition is_user_call :: "decoded_instr \<Rightarrow> bool" where
  "is_user_call i \<longleftrightarrow> (case i of CallFb k _ _ \<Rightarrow> k \<noteq> 0 | _ \<Rightarrow> False)"

lemma exec_instr_wp:
  assumes "verify_instr m fb pc d i sz st = Inr (VNext st' nexts)" "vm_inv m n s"
    and "fst (stack_effect i) \<le> length (vm_stack s)" "\<not> is_user_call i"
  shows "wp (exec_instr now pc i sz) (step_post m n s (stack_effect i) (fst ` set nexts))
    (step_err m n s (stack_effect i)) s"
proof (cases i)
  case (Simple op p)
  then show ?thesis
    using assms exec_simple_wp [of m fb pc sz d op p st st' nexts n s]
    by (simp add: exec_instr_def verify_instr_def)
next
  case (WithImm32 op p imm)
  then show ?thesis
    using assms wp_push_shape [OF assms(2), of "pc + sz" "fst ` set nexts"]
    by (auto simp: exec_instr_def verify_instr_def stack_effect_def rbind_eq_Inr Let_def split: if_splits)
next
  case (CallFb k fid base)
  then have k: "k = 0" using assms(4) by (simp add: is_user_call_def)
  then obtain p where p: "primitive_of_id fid = Some p" "pc + sz \<in> fst ` set nexts"
    using assms(1) CallFb by (auto simp: verify_instr_def rbind_eq_Inr ok_or_eq_Inr Let_def)
  then show ?thesis
    using call_prim_wp [OF assms(2) p(1) _ p(2)] assms(3) k CallFb
    by (simp add: exec_instr_def stack_effect_def)
qed

lemma verify_terminal:
  assumes "verify_instr m fb pc d i sz st = Inr VTerminal"
  shows "\<exists>p. i = Simple OpHalt p \<or> i = Simple OpRet p"
proof (cases i)
  case (Simple op p)
  then show ?thesis using assms
    by (cases op) (auto simp: verify_instr_def verify_simple_def rbind_eq_Inr Let_def split: if_splits)
qed (use assms in \<open>auto simp: verify_instr_def rbind_eq_Inr Let_def split: if_splits\<close>)

subsection \<open>Open calls\<close>

text \<open>\<open>certified m pc st\<close>: some entry's certificate records the stack \<open>st\<close> at \<open>pc\<close>.\<close>

definition certified :: "ir_module \<Rightarrow> nat \<Rightarrow> astack \<Rightarrow> bool" where
  "certified m pc st \<longleftrightarrow> (\<exists>fb entry S. certificate m fb entry S \<and> S pc = Some st)"

inductive frames_height :: "ir_module \<Rightarrow> vm_frame list \<Rightarrow> nat \<Rightarrow> bool" where
  frames_Nil: "frames_height m [] 0"
| frames_Cons: "frames_height m frs h \<Longrightarrow> certified m (fr_return_pc fr) st \<Longrightarrow>
    frames_height m (fr # frs) (h + length st)"

inductive_cases frames_ConsE: "frames_height m (fr # frs) h"

definition height_inv :: "ir_module \<Rightarrow> vm \<Rightarrow> nat \<Rightarrow> bool" where
  "height_inv m s pc \<longleftrightarrow>
     (\<exists>h st. frames_height m (vm_frames s) h \<and> certified m pc st \<and> h + length st \<le> length (vm_stack s))"

text \<open>What a certificate says of one pc.\<close>

lemma certified_step:
  assumes "certified m pc st"
  obtains fb d i sz r where "decode_instruction (code m) pc = Inr (i, sz)"
    "verify_instr m fb pc d i sz st = Inr r"
    "\<And>st' nexts npc. r = VNext st' nexts \<Longrightarrow> npc \<in> fst ` set nexts \<Longrightarrow>
       \<exists>prev. certified m npc prev \<and> length prev = length st'"
proof -
  obtain fb entry S where S: "certificate m fb entry S" "S pc = Some st"
    using assms by (auto simp: certified_def)
  then have "annotated m fb S pc st" by (simp add: certificate_def)
  then obtain d r where r: "verify_at m fb pc d st = Inr r"
    "case r of VTerminal \<Rightarrow> True | VNext st' nexts \<Rightarrow> \<forall>(npc, nd)\<in>set nexts. covered S npc st'"
    unfolding annotated_def by blast
  obtain i sz where i: "decode_instruction (code m) pc = Inr (i, sz)"
    "verify_instr m fb pc d i sz st = Inr r"
    using verify_at_instr [OF r(1)] by blast
  have "\<exists>prev. certified m npc prev \<and> length prev = length st'"
    if "r = VNext st' nexts" "npc \<in> fst ` set nexts" for st' nexts npc
    using r(2) that S(1) by (fastforce simp: covered_def certified_def dest: stacks_compatible_length)
  with i show ?thesis using that by blast
qed

lemma certified_entry: "verify_module m = Inr () \<Longrightarrow> e \<in> set (entries m) \<Longrightarrow> certified m (unat (ep_pc e)) []"
  using verify_entry_certificate [OF verify_module_entry, of m e]
  unfolding certified_def certificate_def by blast

lemma register_fb_targets:
  assumes "Some pc \<in> set (fold register_fb es fbs)"
  shows "Some pc \<in> set fbs \<or> (\<exists>e\<in>set es. pc = ep_pc e)"
  using assms
proof (induction es arbitrary: fbs)
  case Nil
  then show ?case by simp
next
  case (Cons e es)
  then have "Some pc \<in> set (register_fb e fbs) \<or> (\<exists>e\<in>set es. pc = ep_pc e)" by simp
  moreover have "Some pc \<in> set fbs \<or> pc = ep_pc e" if "Some pc \<in> set (register_fb e fbs)"
    using that by (auto simp: register_fb_def Let_def split: if_splits
        dest!: set_update_subset_insert [THEN subsetD])
  ultimately show ?case by auto
qed

subsection \<open>The invariant is preserved by every step\<close>

lemma vm_inv_frames: "vm_inv m n s \<Longrightarrow> vm_inv m n (s\<lparr>vm_frames := frs, vm_data_base := b\<rparr>)"
  by (simp add: vm_inv_def)

definition step_goal :: "ir_module \<Rightarrow> nat \<Rightarrow> control \<Rightarrow> vm \<Rightarrow> bool" where
  "step_goal m n c s' \<longleftrightarrow> vm_inv m n s' \<and> (case c of Goto pc' \<Rightarrow> height_inv m s' pc' | Exit _ \<Rightarrow> True)"

lemma exec_ret_wp:
  assumes "vm_inv m n s" "height_inv m s pc"
  shows "wp exec_ret (step_goal m n) E s"
proof (cases "vm_frames s")
  case Nil
  then show ?thesis using assms(1) by (simp add: wp_def exec_ret_def step_goal_def)
next
  case (Cons fr frs)
  obtain h where h: "frames_height m (fr # frs) h" "h \<le> length (vm_stack s)"
    using assms(2) Cons by (auto simp: height_inv_def)
  from h(1) obtain h' st' where "h = h' + length st'" "frames_height m frs h'"
    "certified m (fr_return_pc fr) st'"
    by (rule frames_ConsE) blast
  then show ?thesis
    using h(2) Cons vm_inv_frames [OF assms(1)]
    by (auto simp: wp_def exec_ret_def step_goal_def height_inv_def)
qed

lemma call_user_fb_wp:
  assumes "verify_module m = Inr ()" "vm_inv m n s" "frames_height m (vm_frames s) h"
    "certified m npc st" "h + length st \<le> length (vm_stack s)"
  shows "wp (call_user_fb fid base pc npc) (step_goal m n)
    (\<lambda>e s'. vm_inv m n s' \<and> allowed_error e) s"
proof (cases "\<exists>entry. nth_opt (vm_user_fb_pc s) (unat fid) = Some (Some entry)")
  case False
  then show ?thesis using assms(2)
    by (auto simp: wp_def call_user_fb_def allowed_error_def split: option.splits)
next
  case True
  then obtain entry where e: "nth_opt (vm_user_fb_pc s) (unat fid) = Some (Some entry)" by blast
  then have "Some entry \<in> set (vm_user_fb_pc s)" by (auto simp: nth_opt_eq_Some in_set_conv_nth)
  moreover have "vm_user_fb_pc s = fold register_fb (entries m) []"
    using assms(2) by (simp add: vm_inv_def)
  ultimately have "Some entry \<in> set (fold register_fb (entries m) [])" by simp
  then obtain ep where "ep \<in> set (entries m)" "entry = ep_pc ep"
    using register_fb_targets [of entry "entries m" "[]"] by auto
  then have "certified m (unat entry) []" using certified_entry [OF assms(1)] by simp
  moreover have "frames_height m (\<lparr>fr_return_pc = npc, fr_data_base = base\<rparr> # vm_frames s) (h + length st)"
    using assms(3,4) by (intro frames_Cons) simp_all
  ultimately have "height_inv m (s\<lparr>vm_frames := \<lparr>fr_return_pc = npc, fr_data_base = base\<rparr> # vm_frames s,
      vm_data_base := base\<rparr>) (unat entry)"
    unfolding height_inv_def using assms(5)
    by (intro exI [of _ "h + length st"] exI [of _ "[]"]) simp
  then show ?thesis
    using e assms(2) vm_inv_frames [OF assms(2)]
    by (simp add: wp_def call_user_fb_def allowed_error_def step_goal_def)
qed

lemma vm_step_inv:
  assumes "verify_module m = Inr ()" "vm_inv m n s" "height_inv m s pc"
  shows "wp (vm_step now pc) (step_goal m n) (\<lambda>e s'. vm_inv m n s' \<and> allowed_error e) s"
proof -
  obtain h st where h: "frames_height m (vm_frames s) h" "certified m pc st"
    "h + length st \<le> length (vm_stack s)"
    using assms(3) by (auto simp: height_inv_def)
  from h(2) obtain fb d i sz r where i: "decode_instruction (code m) pc = Inr (i, sz)"
    "verify_instr m fb pc d i sz st = Inr r"
    and nx: "\<And>st' nexts npc. r = VNext st' nexts \<Longrightarrow> npc \<in> fst ` set nexts \<Longrightarrow>
       \<exists>prev. certified m npc prev \<and> length prev = length st'"
    by (rule certified_step) blast
  have step: "vm_step now pc s = exec_instr now pc i sz s"
    using i(1) assms(2) by (simp add: vm_step_def vm_inv_def)
  have "wp (exec_instr now pc i sz) (step_goal m n) (\<lambda>e s'. vm_inv m n s' \<and> allowed_error e) s"
  proof (cases r)
    case VTerminal
    then obtain p where "i = Simple OpHalt p \<or> i = Simple OpRet p"
      using verify_terminal i(2) by blast
    then show ?thesis using assms(2) exec_ret_wp [OF assms(2,3)]
      by (auto simp: exec_instr_def exec_simple_def wp_simps step_goal_def)
  next
    case (VNext st' nexts)
    obtain k j where eff: "stack_effect i = (k, j)" by (cases "stack_effect i")
    note v = i(2) [unfolded VNext]
    have e: "k \<le> length st" "length st' = length st - k + j"
      using verify_instr_effect [OF v eff] by simp_all
    show ?thesis
    proof (cases "is_user_call i")
      case True
      then obtain kd fid base where c: "i = CallFb kd fid base" "kd \<noteq> 0"
        by (cases i) (auto simp: is_user_call_def)
      then have n: "st' = st" "nexts = [(pc + sz, d + 1)]" using v by (auto simp: verify_instr_def Let_def)
      obtain prev where "certified m (pc + sz) prev" "length prev = length st"
        using nx [OF VNext, of "pc + sz"] n by auto
      then show ?thesis
        using call_user_fb_wp [OF assms(1,2) h(1), of "pc + sz" prev fid base pc] h(3) c
        by (simp add: exec_instr_def)
    next
      case False
      have "wp (exec_instr now pc i sz) (step_post m n s (k, j) (fst ` set nexts)) (step_err m n s (k, j)) s"
        using exec_instr_wp [OF v assms(2) _ False] e(1) h(3) eff by simp
      then show ?thesis
      proof (rule wp_mono)
        fix c s' assume p: "step_post m n s (k, j) (fst ` set nexts) c s'"
        then obtain npc where npc: "npc \<in> fst ` set nexts" "c = Goto npc"
          by (auto simp: step_post_def)
        obtain prev where "certified m npc prev" "length prev = length st'"
          using nx [OF VNext npc(1)] by blast
        then have "height_inv m s' npc"
          unfolding height_inv_def using p e h(1,3)
          by (intro exI [of _ h] exI [of _ prev]) (simp add: step_post_def)
        then show "step_goal m n c s'" using p npc by (simp add: step_goal_def step_post_def)
      qed (simp add: step_err_def)
    qed
  qed
  then show ?thesis by (simp add: wp_def step)
qed

lemma wp_run_loop_Suc:
  "wp (run_loop (Suc k) now pc) Q E s =
     wp (vm_step now pc) (\<lambda>c s'. case c of Goto pc' \<Rightarrow> wp (run_loop k now pc') Q E s' | Exit r \<Rightarrow> Q r s') E s"
  by (auto simp: wp_def split: prod.splits sum.splits control.splits)

text \<open>An invariant of the steps is an invariant of the run.\<close>

lemma wp_run_loop:
  assumes "\<And>s pc. I pc s \<Longrightarrow> wp (vm_step now pc) (\<lambda>c s'. case c of Goto pc' \<Rightarrow> I pc' s' | Exit r \<Rightarrow> Q r s') E s"
    and "\<And>pc s. I pc s \<Longrightarrow> E (VmBudget (vm_budget s)) s" and "I pc s"
  shows "wp (run_loop k now pc) Q E s"
  using assms(3)
proof (induction k arbitrary: pc s)
  case 0
  then show ?case using assms(2) by (simp add: wp_def)
next
  case (Suc k)
  show ?case unfolding wp_run_loop_Suc
    by (rule wp_mono [OF assms(1) [OF Suc.prems]]) (auto simp: Suc.IH split: control.splits)
qed

lemma run_loop_inv:
  assumes "verify_module m = Inr ()" "vm_inv m n s" "height_inv m s pc"
  shows "wp (run_loop k now pc) (\<lambda>r. vm_inv m n) (\<lambda>e s'. vm_inv m n s' \<and> allowed_error e) s"
proof (rule wp_run_loop [where I = "\<lambda>pc s. vm_inv m n s \<and> height_inv m s pc"])
  fix s pc assume "vm_inv m n s \<and> height_inv m s pc"
  then have "wp (vm_step now pc) (step_goal m n) (\<lambda>e s'. vm_inv m n s' \<and> allowed_error e) s"
    using vm_step_inv [OF assms(1)] by blast
  then show "wp (vm_step now pc)
      (\<lambda>c s'. case c of Goto pc' \<Rightarrow> vm_inv m n s' \<and> height_inv m s' pc' | Exit r \<Rightarrow> vm_inv m n s')
      (\<lambda>e s'. vm_inv m n s' \<and> allowed_error e) s"
    by (rule wp_mono) (auto simp: step_goal_def split: control.splits)
qed (use assms in \<open>simp_all add: allowed_error_def\<close>)

lemma height_inv_start:
  "verify_module m = Inr () \<Longrightarrow> e \<in> set (entries m) \<Longrightarrow> height_inv m (run_reset s) (unat (ep_pc e))"
  unfolding height_inv_def using certified_entry frames_Nil
  by (intro exI [of _ 0] exI [of _ "[]"]) (simp add: run_reset_def)

lemma run_at_safe:
  assumes "verify_module m = Inr ()" "vm_inv m n s" "e \<in> set (entries m)"
  shows "wp (run_at (unat (ep_pc e)) now) (\<lambda>r. vm_inv m n) (\<lambda>e s'. vm_inv m n s' \<and> allowed_error e) s"
  using run_loop_inv [OF assms(1) vm_inv_run_reset [OF assms(2)] height_inv_start [OF assms(1,3)],
      of "unat (vm_budget s)" now]
  by (simp add: wp_def run_at_def)

subsection \<open>Without user function blocks the heights are exact\<close>

definition no_user_calls :: "bytes \<Rightarrow> bool" where
  "no_user_calls c \<longleftrightarrow> list_all (\<lambda>pc. case decode_instruction c pc of
     Inr (i, _) \<Rightarrow> \<not> is_user_call i | Inl _ \<Rightarrow> True) [0..<length c]"

lemma no_user_calls_at:
  assumes "no_user_calls c" "decode_instruction c pc = Inr (i, sz)"
  shows "\<not> is_user_call i"
proof -
  have "pc < length c" using decode_size_pos [OF assms(2)] by simp
  then show ?thesis using assms by (force simp: no_user_calls_def list_all_iff)
qed

definition exact_inv :: "ir_module \<Rightarrow> nat \<Rightarrow> nat \<Rightarrow> vm \<Rightarrow> bool" where
  "exact_inv m n pc s \<longleftrightarrow>
     vm_inv m n s \<and> vm_frames s = [] \<and> (\<exists>st. certified m pc st \<and> length st = length (vm_stack s))"

lemma vm_step_exact:
  assumes "no_user_calls (code m)" "exact_inv m n pc s"
  shows "wp (vm_step now pc) (\<lambda>c s'. case c of Goto pc' \<Rightarrow> exact_inv m n pc' s' | Exit _ \<Rightarrow> True)
    (\<lambda>e s'. local_error e) s"
proof -
  obtain st where inv: "vm_inv m n s" and f: "vm_frames s = []" and c: "certified m pc st"
    and l: "length st = length (vm_stack s)" using assms(2) by (auto simp: exact_inv_def)
  from c obtain fb d i sz r where i: "decode_instruction (code m) pc = Inr (i, sz)"
    "verify_instr m fb pc d i sz st = Inr r"
    and nx: "\<And>st' nexts npc. r = VNext st' nexts \<Longrightarrow> npc \<in> fst ` set nexts \<Longrightarrow>
       \<exists>prev. certified m npc prev \<and> length prev = length st'"
    by (rule certified_step) blast
  have u: "\<not> is_user_call i" using no_user_calls_at [OF assms(1) i(1)] .
  have step: "vm_step now pc s = exec_instr now pc i sz s"
    using i(1) inv by (simp add: vm_step_def vm_inv_def)
  have "wp (exec_instr now pc i sz)
    (\<lambda>c s'. case c of Goto pc' \<Rightarrow> exact_inv m n pc' s' | Exit _ \<Rightarrow> True) (\<lambda>e s'. local_error e) s"
  proof (cases r)
    case VTerminal
    then obtain p where "i = Simple OpHalt p \<or> i = Simple OpRet p"
      using verify_terminal i(2) by blast
    then show ?thesis using f
      by (auto simp: exec_instr_def exec_simple_def vret_def wp_def exec_ret_def)
  next
    case (VNext st' nexts)
    obtain k j where eff: "stack_effect i = (k, j)" by (cases "stack_effect i")
    note v = i(2) [unfolded VNext]
    have e: "k \<le> length st" "length st' = length st - k + j" "0 < j \<longrightarrow> length st' \<le> MAX_STACK"
      using verify_instr_effect [OF v eff] by auto
    have "wp (exec_instr now pc i sz) (step_post m n s (k, j) (fst ` set nexts)) (step_err m n s (k, j)) s"
      using exec_instr_wp [OF v inv _ u] e(1) l eff by simp
    then show ?thesis
    proof (rule wp_mono)
      fix c s' assume p: "step_post m n s (k, j) (fst ` set nexts) c s'"
      then obtain npc where npc: "npc \<in> fst ` set nexts" "c = Goto npc"
        by (auto simp: step_post_def)
      obtain prev where "certified m npc prev" "length prev = length st'"
        using nx [OF VNext npc(1)] by blast
      then show "case c of Goto pc' \<Rightarrow> exact_inv m n pc' s' | Exit _ \<Rightarrow> True"
        using p f e(2) l npc(2) by (auto simp: exact_inv_def step_post_def)
    next
      fix er s' assume "step_err m n s (k, j) er s'"
      moreover have "length (vm_stack s) - k + j \<le> MAX_STACK"
        using e l vm_inv_stack_bound [OF inv] by (cases "j = 0") auto
      ultimately show "local_error er" by (auto simp: step_err_def local_error_def)
    qed
  qed
  then show ?thesis by (simp add: wp_def step)
qed

lemma run_at_exact:
  assumes "verify_module m = Inr ()" "vm_inv m n s" "e \<in> set (entries m)" "no_user_calls (code m)"
  shows "wp (run_at (unat (ep_pc e)) now) (\<lambda>_ _. True) (\<lambda>e _. local_error e) s"
proof -
  have "exact_inv m n (unat (ep_pc e)) (run_reset s)"
    using certified_entry [OF assms(1,3)] vm_inv_run_reset [OF assms(2)]
    by (auto simp: exact_inv_def run_reset_def)
  then have "wp (run_loop (unat (vm_budget s)) now (unat (ep_pc e))) (\<lambda>_ _. True) (\<lambda>e _. local_error e)
      (run_reset s)"
    by (rule wp_run_loop [rotated 2, where I = "exact_inv m n"])
      (rule vm_step_exact [OF assms(4)], simp_all add: error_defs)
  then show ?thesis by (simp add: wp_def run_at_def)
qed

subsection \<open>What a run may change\<close>

text \<open>
  Logic never changes its inputs; a changed output slot is marked written; a changed retain
  segment is marked dirty. \<open>framed\<close> holds of every operation of the machine.
\<close>

definition run_frame :: "nat \<Rightarrow> vm \<Rightarrow> vm \<Rightarrow> bool" where
  "run_frame n s s' \<longleftrightarrow>
     vm_inputs s' = vm_inputs s \<and> vm_first_scan s' = vm_first_scan s \<and> vm_budget s' = vm_budget s
     \<and> (vm_retain_dirty s \<longrightarrow> vm_retain_dirty s')
     \<and> (\<not> vm_retain_dirty s' \<longrightarrow> vm_retain s' = vm_retain s)
     \<and> slots_inv n (vm_outputs s')
     \<and> (\<forall>i. \<not> slot_written (vm_outputs s') i \<longrightarrow>
          nth_opt (si_values (vm_outputs s')) i = nth_opt (si_values (vm_outputs s)) i)"

definition framed :: "'a vm_op \<Rightarrow> bool" where
  "framed m \<longleftrightarrow> (\<forall>n s0 s. run_frame n s0 s \<longrightarrow> wp m (\<lambda>_. run_frame n s0) (\<lambda>_. run_frame n s0) s)"

named_theorems framed_intros \<open>operations that keep the frame\<close>

lemma framed_if [framed_intros]: "framed a \<Longrightarrow> framed b \<Longrightarrow> framed (if c then a else b)"
  by simp

lemma framed_case_prod [framed_intros]: "(\<And>x y. framed (f x y)) \<Longrightarrow> framed (case p of (x, y) \<Rightarrow> f x y)"
  by (cases p) simp

lemma framed_case_option [framed_intros]:
  "framed a \<Longrightarrow> (\<And>x. framed (f x)) \<Longrightarrow> framed (case p of None \<Rightarrow> a | Some x \<Rightarrow> f x)"
  by (cases p) simp_all

lemma framed_vret [framed_intros]: "framed (vret x)"
  by (simp add: framed_def wp_simps)

lemma framed_vfail [framed_intros]: "framed (vfail e)"
  by (simp add: framed_def wp_simps)

lemma framed_vlift [framed_intros]: "framed (vlift r)"
  by (simp add: framed_def wp_simps split: sum.splits)

lemma framed_vreads [framed_intros]: "framed (vreads f)"
  by (simp add: framed_def wp_simps split: sum.splits)

lemma framed_vbind [framed_intros]: "framed m \<Longrightarrow> (\<And>x. framed (f x)) \<Longrightarrow> framed (vbind m f)"
  unfolding framed_def wp_simps by (blast intro: wp_mono)

lemma framed_vnext [framed_intros]: "framed m \<Longrightarrow> framed (vnext npc m)"
  unfolding vnext_def by (intro framed_intros)

lemma framed_vupd: "(\<And>n s0 s. run_frame n s0 s \<Longrightarrow> run_frame n s0 (f s)) \<Longrightarrow> framed (vupd f)"
  by (simp add: framed_def wp_simps)

lemma framed_vpush [framed_intros]: "framed (vpush_value v pc)"
  by (simp add: framed_def wp_simps) (simp add: run_frame_def)

lemma framed_vpop [framed_intros]: "framed (vpop_value pc)"
  by (simp add: framed_def wp_simps split: list.splits) (simp add: run_frame_def)

lemma framed_vpop_values [framed_intros]: "framed (vpop_values n pc)"
  by (induction n) (auto intro!: framed_intros)

lemma framed_vpush_values [framed_intros]: "framed (vpush_values vs pc)"
  by (induction vs) (auto intro!: framed_intros)

lemma framed_updates [framed_intros]:
  "framed (vupd (\<lambda>s. s\<lparr>vm_data := d\<rparr>))"
  "framed (vupd (\<lambda>s. s\<lparr>vm_retain := d, vm_retain_dirty := True\<rparr>))"
  "framed (vupd (\<lambda>s. s\<lparr>vm_primitives := p\<rparr>))"
  "framed (vupd (\<lambda>s. if z then s\<lparr>vm_div0_count := vm_div0_count s + 1\<rparr> else s))"
  by (rule framed_vupd, simp add: run_frame_def)+

lemma framed_store_output [framed_intros]:
  "framed (vbind (vreads (\<lambda>s. slot_set (vm_outputs s) i v pc)) (\<lambda>im. vupd (\<lambda>s. s\<lparr>vm_outputs := im\<rparr>)))"
  unfolding framed_def wp_simps
proof (intro allI impI)
  fix n s0 s assume f: "run_frame n s0 s"
  show "case slot_set (vm_outputs s) i v pc of Inl e \<Rightarrow> run_frame n s0 s
      | Inr im \<Rightarrow> run_frame n s0 (s\<lparr>vm_outputs := im\<rparr>)"
  proof (cases "slot_set (vm_outputs s) i v pc")
    case (Inr im)
    have i: "slots_inv n (vm_outputs s)" using f by (simp add: run_frame_def)
    have "nth_opt (si_values im) k = nth_opt (si_values (vm_outputs s0)) k" if "\<not> slot_written im k" for k
      using f that slot_set_written [OF i Inr] slot_set_other [OF Inr] by (simp add: run_frame_def)
    then show ?thesis using Inr f slot_set_inv [OF i Inr] by (simp add: run_frame_def)
  qed (use f in simp)
qed

lemma framed_binop [framed_intros]: "framed (binop op a b pc)"
  unfolding binop_def by (intro framed_intros)

lemma framed_call_prim [framed_intros]: "framed (call_prim fid i now pc)"
  unfolding call_prim_def by (intro framed_intros)

lemma framed_exec_ret [framed_intros]: "framed exec_ret"
  by (simp add: framed_def wp_def exec_ret_def split: list.splits) (simp add: run_frame_def)

lemma framed_call_user_fb [framed_intros]: "framed (call_user_fb fid base pc npc)"
  by (simp add: framed_def wp_def call_user_fb_def split: option.splits) (simp add: run_frame_def)

lemma framed_exec_simple [framed_intros]: "framed (exec_simple op p pc npc)"
  unfolding exec_simple_def by (cases op; simp only: opcode.case; intro framed_intros)

lemma framed_exec_instr: "framed (exec_instr now pc i sz)"
  unfolding exec_instr_def by (cases i; simp only: decoded_instr.case; intro framed_intros)

lemma framed_vm_step: "framed (vm_step now pc)"
  using framed_exec_instr by (auto simp: framed_def vm_step_def wp_def split: sum.splits)

lemma run_at_frame:
  assumes "slots_inv n (vm_outputs s)"
  shows "run_frame n (run_reset s) (fst (run_at pc now s))"
proof -
  have "wp (run_loop (unat (vm_budget s)) now pc) (\<lambda>_. run_frame n (run_reset s))
      (\<lambda>_. run_frame n (run_reset s)) (run_reset s)"
  proof (rule wp_run_loop [where I = "\<lambda>_. run_frame n (run_reset s)"])
    show "run_frame n (run_reset s) (run_reset s)"
      using assms by (simp add: run_frame_def run_reset_def slots_clear_written_inv)
  next
    fix s1 pc assume "run_frame n (run_reset s) s1"
    then have "wp (vm_step now pc) (\<lambda>_. run_frame n (run_reset s)) (\<lambda>_. run_frame n (run_reset s)) s1"
      using framed_vm_step by (auto simp: framed_def)
    then show "wp (vm_step now pc) (\<lambda>c s'. case c of Goto pc' \<Rightarrow> run_frame n (run_reset s) s'
        | Exit r \<Rightarrow> run_frame n (run_reset s) s') (\<lambda>_. run_frame n (run_reset s)) s1"
      by (rule wp_mono) (auto split: control.splits)
  qed
  then show ?thesis by (auto simp: wp_def run_at_def split: prod.splits sum.splits)
qed

end
