(* ===== verification/ScanProps.thy ===== *)
theory ScanProps
  imports ScanEngine VmSafety
begin

section \<open>Correctness of the scan engine\<close>

text \<open>
  Three groups of facts. \<open>keeps\<close> bounds what the phases of an invocation change: the plan, the
  schedule and all table sizes stay, and the mode stays or becomes FAULT; with it the
  well-formedness invariant \<open>engine_inv\<close> is preserved by every operation, and FAULT is
  latched over any sequence of events without a reset. The output phase is analysed for any
  driver that meets the \<open>safe_driver\<close> contract, and instantiated with the simulation driver.
  The last group is about scheduling: the highest due priority runs first, and the catch-up
  loop of \<open>run_due\<close> ends.
\<close>

subsection \<open>Well-formed engines\<close>

definition vm_fits :: "process_image \<Rightarrow> vm \<Rightarrow> bool" where
  "vm_fits im v \<longleftrightarrow> slots_inv (length (pi_inputs im)) (vm_inputs v)
     \<and> slots_inv (length (pi_outputs im)) (vm_outputs v)"

definition engine_good :: "'d engine \<Rightarrow> bool" where
  "engine_good e \<longleftrightarrow> spsc_valid (en_tel e) \<and> (\<forall>t\<in>set (en_tasks e). length (tr_duration_buckets t) = 10)
     \<and> (\<forall>v. en_vm e = Some v \<longrightarrow> vm_fits (io_image (en_io e)) v)"

definition engine_inv :: "'d engine \<Rightarrow> bool" where
  "engine_inv e \<longleftrightarrow>
     (let n = length (sp_tasks (en_plan e)); im = io_image (en_io e)
      in sp_tasks (en_plan e) \<noteq> []
       \<and> length (en_tasks e) = n \<and> length (hk_first_scan (en_hooks e)) = n
       \<and> length (wd_consecutive (en_sw_wd e)) = n \<and> length (en_min_duration_us e) = n
       \<and> en_schedule_order e = schedule_order_of (sp_tasks (en_plan e))
       \<and> length (en_tel_in e) = length (pi_inputs im) \<and> length (en_tel_out e) = length (pi_outputs im)
       \<and> (\<forall>t\<in>set (sp_tasks (en_plan e)). tk_period_ms t \<noteq> 0)
       \<and> engine_good e
       \<and> (\<forall>a. en_armed e = Some a \<longrightarrow> vm_fits im (ap_vm a) \<and> length (ap_task_entries a) = n)
       \<and> hooks_phase (en_hooks e) \<noteq> Swapping \<and> hooks_is_quiet (en_hooks e))"

text \<open>When each task is due next; it only ever moves forward.\<close>

definition dues :: "'d engine \<Rightarrow> u64 list" where
  "dues e = map tr_next_due_ms (en_tasks e)"

lemma dues_upd [simp]:
  "dues (e\<lparr>en_plan := x0\<rparr>) = dues e" "dues (e\<lparr>en_io := x1\<rparr>) = dues e"
  "dues (e\<lparr>en_vm := x2\<rparr>) = dues e" "dues (e\<lparr>en_ticks := x3\<rparr>) = dues e"
  "dues (e\<lparr>en_modes := x4\<rparr>) = dues e" "dues (e\<lparr>en_overruns_total := x5\<rparr>) = dues e"
  "dues (e\<lparr>en_sw_wd := x6\<rparr>) = dues e" "dues (e\<lparr>en_hw_strokes := x7\<rparr>) = dues e"
  "dues (e\<lparr>en_tel := x8\<rparr>) = dues e" "dues (e\<lparr>en_tel_pushes := x9\<rparr>) = dues e"
  "dues (e\<lparr>en_tel_in := x10\<rparr>) = dues e" "dues (e\<lparr>en_tel_out := x11\<rparr>) = dues e"
  "dues (e\<lparr>en_retain := x12\<rparr>) = dues e" "dues (e\<lparr>en_hooks := x13\<rparr>) = dues e"
  "dues (e\<lparr>en_input_scratch := x14\<rparr>) = dues e" "dues (e\<lparr>en_output_image := x15\<rparr>) = dues e"
  "dues (e\<lparr>en_output_slot_state := x16\<rparr>) = dues e" "dues (e\<lparr>en_first_run_complete := x17\<rparr>) = dues e"
  "dues (e\<lparr>en_last_ran := x18\<rparr>) = dues e" "dues (e\<lparr>en_armed := x19\<rparr>) = dues e"
  "dues (e\<lparr>en_current_id := x20\<rparr>) = dues e" "dues (e\<lparr>en_current_hash := x21\<rparr>) = dues e"
  "dues (e\<lparr>en_bumpless_hold := x22\<rparr>) = dues e" "dues (e\<lparr>en_activate_deferred_count := x23\<rparr>) = dues e"
  "dues (e\<lparr>en_last_activate_deferred := x24\<rparr>) = dues e"
  by (simp_all add: dues_def)

text \<open>What the phases of an invocation and of an install attempt leave alone.\<close>

definition keeps :: "'d engine \<Rightarrow> 'd engine \<Rightarrow> bool" where
  "keeps e e' \<longleftrightarrow>
     en_plan e' = en_plan e \<and> en_schedule_order e' = en_schedule_order e
     \<and> mc_pending (en_modes e') = mc_pending (en_modes e)
     \<and> (engine_mode e' = engine_mode e \<or> engine_mode e' = Fault)
     \<and> length (pi_inputs (io_image (en_io e'))) = length (pi_inputs (io_image (en_io e)))
     \<and> length (pi_outputs (io_image (en_io e'))) = length (pi_outputs (io_image (en_io e)))
     \<and> pi_output_safe (io_image (en_io e')) = pi_output_safe (io_image (en_io e))
     \<and> length (en_tasks e') = length (en_tasks e)
     \<and> length (hk_first_scan (en_hooks e')) = length (hk_first_scan (en_hooks e))
     \<and> length (wd_consecutive (en_sw_wd e')) = length (wd_consecutive (en_sw_wd e))
     \<and> en_min_duration_us e' = en_min_duration_us e
     \<and> length (en_tel_in e') = length (en_tel_in e) \<and> length (en_tel_out e') = length (en_tel_out e)
     \<and> hk_phase (en_hooks e') = hk_phase (en_hooks e)
     \<and> hk_activate_requested (en_hooks e') = hk_activate_requested (en_hooks e)
     \<and> en_armed e' = en_armed e \<and> (engine_good e \<longrightarrow> engine_good e')
     \<and> list_all2 (\<le>) (dues e) (dues e')"

lemma dues_le_refl [simp]: "list_all2 (\<le>) (xs :: u64 list) xs"
  by (simp add: list_all2_refl)

lemma dues_le_trans: "list_all2 (\<le>) (xs :: u64 list) ys \<Longrightarrow> list_all2 (\<le>) ys zs \<Longrightarrow> list_all2 (\<le>) xs zs"
  by (rule list_all2_trans [of "(\<le>)" "(\<le>)" "(\<le>)"]) (rule order_trans)

lemma keeps_refl [simp]: "keeps e e"
  by (simp add: keeps_def)

lemma keeps_trans [trans]: "keeps e1 e2 \<Longrightarrow> keeps e2 e3 \<Longrightarrow> keeps e1 e3"
  unfolding keeps_def by (elim conjE) (intro conjI; metis dues_le_trans)

lemma engine_good_same:
  "en_tel e' = en_tel e \<Longrightarrow> en_tasks e' = en_tasks e \<Longrightarrow> en_vm e' = en_vm e \<Longrightarrow>
   length (pi_inputs (io_image (en_io e'))) = length (pi_inputs (io_image (en_io e))) \<Longrightarrow>
   length (pi_outputs (io_image (en_io e'))) = length (pi_outputs (io_image (en_io e))) \<Longrightarrow>
   engine_good e \<Longrightarrow> engine_good e'"
  by (simp add: engine_good_def vm_fits_def)

lemma keeps_fault: "keeps e e' \<Longrightarrow> engine_mode e = Fault \<Longrightarrow> engine_mode e' = Fault"
  by (auto simp: keeps_def)

lemma engine_mode_upd [simp]:
  "engine_mode (e\<lparr>en_vm := x1\<rparr>) = engine_mode e" "engine_mode (e\<lparr>en_io := x2\<rparr>) = engine_mode e"
  "engine_mode (e\<lparr>en_ticks := x3\<rparr>) = engine_mode e" "engine_mode (e\<lparr>en_hooks := x4\<rparr>) = engine_mode e"
  "engine_mode (e\<lparr>en_tasks := x5\<rparr>) = engine_mode e" "engine_mode (e\<lparr>en_armed := x6\<rparr>) = engine_mode e"
  "engine_mode (e\<lparr>en_tel := x7\<rparr>) = engine_mode e" "engine_mode (e\<lparr>en_tel_pushes := x8\<rparr>) = engine_mode e"
  "engine_mode (e\<lparr>en_tel_in := x9\<rparr>) = engine_mode e" "engine_mode (e\<lparr>en_tel_out := x10\<rparr>) = engine_mode e"
  "engine_mode (e\<lparr>en_retain := x11\<rparr>) = engine_mode e" "engine_mode (e\<lparr>en_sw_wd := x12\<rparr>) = engine_mode e"
  "engine_mode (e\<lparr>en_hw_strokes := x13\<rparr>) = engine_mode e"
  "engine_mode (e\<lparr>en_input_scratch := x14\<rparr>) = engine_mode e"
  "engine_mode (e\<lparr>en_output_image := x15\<rparr>) = engine_mode e"
  "engine_mode (e\<lparr>en_output_slot_state := x16\<rparr>) = engine_mode e"
  "engine_mode (e\<lparr>en_first_run_complete := x17\<rparr>) = engine_mode e"
  "engine_mode (e\<lparr>en_last_ran := x18\<rparr>) = engine_mode e"
  "engine_mode (e\<lparr>en_overruns_total := x19\<rparr>) = engine_mode e"
  "engine_mode (e\<lparr>en_plan := x20\<rparr>) = engine_mode e"
  "engine_mode (e\<lparr>en_current_id := x21\<rparr>) = engine_mode e"
  "engine_mode (e\<lparr>en_current_hash := x22\<rparr>) = engine_mode e"
  "engine_mode (e\<lparr>en_bumpless_hold := x23\<rparr>) = engine_mode e"
  "engine_mode (e\<lparr>en_last_activate_deferred := x24\<rparr>) = engine_mode e"
  "engine_mode (e\<lparr>en_activate_deferred_count := x25\<rparr>) = engine_mode e"
  by (simp_all add: engine_mode_def)

lemma engine_mode_enter_fault [simp]: "engine_mode (enter_fault e) = Fault"
  by (simp add: engine_mode_def enter_fault_def)

lemma cell_set_mode_pending [simp]: "mc_pending (cell_set_mode c m) = mc_pending c"
  by (simp add: cell_set_mode_def)

subsection \<open>Each phase keeps the frame\<close>

named_theorems keeps_intros \<open>operations that keep the frame\<close>

lemma keeps_enter_fault [keeps_intros]: "keeps e (enter_fault e)"
  by (simp add: keeps_def) (simp add: enter_fault_def engine_good_def)

lemma keeps_fault_if [keeps_intros]: "keeps e (fault_if b e)"
  by (simp add: fault_if_def keeps_enter_fault)

lemma keeps_now_ns [keeps_intros]: "keeps e (fst (now_ns v e))"
  by (simp add: keeps_def now_ns_def engine_good_def)

lemma keeps_publish_field_mode [keeps_intros]: "keeps e (publish_field_mode e)"
  by (simp add: keeps_def publish_field_mode_def engine_good_def)

lemma keeps_set_module_quality [keeps_intros]: "keeps e (set_module_quality e q)"
  by (simp add: keeps_def set_module_quality_def engine_good_def)

lemma keeps_set_image:
  "length (pi_inputs im) = length (pi_inputs (io_image (en_io e))) \<Longrightarrow>
   length (pi_outputs im) = length (pi_outputs (io_image (en_io e))) \<Longrightarrow>
   pi_output_safe im = pi_output_safe (io_image (en_io e)) \<Longrightarrow> keeps e (set_image e im)"
  by (simp add: keeps_def set_image_def engine_good_def vm_fits_def)

lemma set_input_frame:
  "pi_outputs (ignore_err im (set_input im i v q)) = pi_outputs im"
  "pi_output_safe (ignore_err im (set_input im i v q)) = pi_output_safe im"
  by (simp_all add: ignore_err_def set_input_def)

lemma store_inputs_frame:
  "length (pi_inputs (store_inputs vqs im)) = length (pi_inputs im)
   \<and> pi_outputs (store_inputs vqs im) = pi_outputs im
   \<and> pi_output_safe (store_inputs vqs im) = pi_output_safe im"
  unfolding store_inputs_def
  by (rule fold_invariant [where Q = "\<lambda>_. True"])
    (auto simp: length_set_input set_input_frame split: prod.splits)

lemma set_output_frame:
  "pi_inputs (ignore_err im (set_output im i v)) = pi_inputs im"
  "length (pi_outputs (ignore_err im (set_output im i v))) = length (pi_outputs im)"
  "pi_output_safe (ignore_err im (set_output im i v)) = pi_output_safe im"
  by (simp_all add: ignore_err_def set_output_def)

lemma copy_outputs_frame:
  "pi_inputs (copy_outputs_from_vm b outs im) = pi_inputs im
   \<and> length (pi_outputs (copy_outputs_from_vm b outs im)) = length (pi_outputs im)
   \<and> pi_output_safe (copy_outputs_from_vm b outs im) = pi_output_safe im"
  unfolding copy_outputs_from_vm_def
  by (rule fold_invariant [where Q = "\<lambda>_. True"]) (auto simp: set_output_frame split: sum.splits)

lemma copy_inputs_fits: "vm_fits im v \<Longrightarrow> vm_fits im (copy_inputs_to_vm slots v)"
  unfolding copy_inputs_to_vm_def
  by (rule fold_invariant [where Q = "\<lambda>_. True"])
    (auto simp: vm_fits_def Let_def ignore_err_def slots_inv_def slot_set_def slot_set_quality_good_def)

lemma keeps_vm_inputs [keeps_intros]: "keeps e (e\<lparr>en_vm := map_option (copy_inputs_to_vm slots) (en_vm e)\<rparr>)"
  by (auto simp: keeps_def engine_good_def copy_inputs_fits)

lemma run_entry_fits:
  assumes "vm_fits im v" shows "vm_fits im (fst (run_entry name now v))"
proof -
  have "vm_fits im (fst (run_at pc now v))" for pc
    using run_at_frame [of _ v pc now] assms by (auto simp: vm_fits_def run_frame_def run_reset_def)
  then show ?thesis using assms by (auto simp: run_entry_def split: sum.splits)
qed

lemma vm_fits_upd [simp]:
  "vm_fits im (vm_set_first_scan b v) = vm_fits im v" "vm_fits im (clear_retain_dirty v) = vm_fits im v"
  by (simp_all add: vm_fits_def vm_set_first_scan_def clear_retain_dirty_def)

lemma keeps_read_remote [keeps_intros]: "keeps e (read_remote_inputs e)"
  by (auto simp: read_remote_inputs_def Let_def store_inputs_frame split: option.splits intro!: keeps_set_image)

lemma keeps_poll_driver [keeps_intros]: "keeps e (poll_driver ops e)"
proof -
  obtain d u r where p: "drv_poll_inputs ops (io_driver (en_io e)) (en_input_scratch e) = (d, u, r)"
    by (metis prod_cases3)
  let ?e1 = "e\<lparr>en_io := (en_io e)\<lparr>io_driver := d\<rparr>, en_input_scratch := u\<rparr>"
  have 1: "keeps e ?e1" by (simp add: keeps_def engine_good_def)
  have "keeps ?e1 (poll_driver ops e)"
  proof (cases r)
    case (Inl x)
    then have "poll_driver ops e = fault_if True (set_module_quality ?e1 Bad)"
      by (simp add: poll_driver_def p Let_def)
    then show ?thesis by (metis keeps_fault_if keeps_set_module_quality keeps_trans)
  next
    case (Inr x)
    then show ?thesis
      by (simp add: poll_driver_def p Let_def) (rule keeps_set_image; simp add: store_inputs_frame)
  qed
  with 1 show ?thesis by (rule keeps_trans)
qed

lemma keeps_sample_inputs [keeps_intros]: "keeps e (sample_inputs ops e)"
proof -
  let ?e1 = "poll_driver ops (read_remote_inputs (publish_field_mode e))"
  let ?w = "worst_quality Good (pi_inputs (io_image (en_io ?e1)))"
  have "keeps e ?e1"
    using keeps_trans [OF keeps_trans [OF keeps_publish_field_mode keeps_read_remote] keeps_poll_driver] .
  moreover have "keeps ?e1 (fault_if (is_bad ?w) (set_module_quality ?e1 ?w))"
    using keeps_trans [OF keeps_set_module_quality keeps_fault_if] .
  ultimately have "keeps e (fault_if (is_bad ?w) (set_module_quality ?e1 ?w))" by (rule keeps_trans)
  then show ?thesis
    unfolding sample_inputs_def Let_def by (rule keeps_trans) (rule keeps_vm_inputs)
qed

lemma keeps_run_logic [keeps_intros]: "keeps e (fst (run_logic e task now))"
proof (cases "en_vm e")
  case (Some v)
  define r where "r = run_entry (tk_entry (sp_tasks (en_plan e) ! task)) now
    (vm_set_first_scan (hooks_first_scan (en_hooks e) task) v)"
  have fit: "vm_fits im (fst r)" if "vm_fits im v" for im
    unfolding r_def by (rule run_entry_fits) (simp add: that)
  have 1: "keeps e (e\<lparr>en_vm := Some (fst r)\<rparr>)" using fit Some by (auto simp: keeps_def engine_good_def)
  have 2: "keeps e (set_image (e\<lparr>en_vm := Some v2, en_retain := ret\<rparr>) (copy_outputs_from_vm b outs (io_image (en_io e))))"
    if "\<And>im. vm_fits im v2 = vm_fits im (fst r)" for v2 ret b outs
    using fit Some that
    by (auto simp: keeps_def set_image_def copy_outputs_frame engine_good_def) (auto simp: vm_fits_def copy_outputs_frame)
  have "run_logic e task now = (case r of
             (v1, Inl (VmPanic _)) \<Rightarrow> (e\<lparr>en_vm := Some v1\<rparr>, LogicPanic)
           | (v1, Inl _) \<Rightarrow> (e\<lparr>en_vm := Some v1\<rparr>, LogicErr)
           | (v1, Inr _) \<Rightarrow>
               let v2 = (if vm_retain_dirty v1 then clear_retain_dirty v1 else v1);
                   ret = (if vm_retain_dirty v1 then retain_notify (en_retain e) else en_retain e);
                   im = copy_outputs_from_vm (en_bumpless_hold e) (vm_outputs v2) (io_image (en_io e))
               in (set_image (e\<lparr>en_vm := Some v2, en_retain := ret\<rparr>) im, LogicOk))"
    by (simp only: run_logic_def Some option.case r_def)
  with 1 2 show ?thesis
    by (cases r) (simp only: Let_def prod.case fst_conv split: sum.split vm_error.split, simp)
qed (simp add: run_logic_def)

lemma keeps_update_task:
  assumes "\<And>t. length (tr_duration_buckets (f t)) = length (tr_duration_buckets t)"
    and "\<And>t. tr_next_due_ms t \<le> tr_next_due_ms (f t)"
  shows "keeps e (update_task e i f)"
proof -
  have "\<forall>t\<in>set ((en_tasks e)[i := f (en_tasks e ! i)]). length (tr_duration_buckets t) = 10"
    if "\<forall>t\<in>set (en_tasks e). length (tr_duration_buckets t) = 10"
    using that assms(1) unfolding all_set_conv_all_nth by (metis length_list_update nth_list_update_eq nth_list_update_neq)
  moreover have "list_all2 (\<le>) (dues e) (dues (e\<lparr>en_tasks := (en_tasks e)[i := f (en_tasks e ! i)]\<rparr>))"
    using assms(2) by (simp add: dues_def list_all2_conv_all_nth) (metis nth_list_update_eq nth_list_update_neq order_refl)
  ultimately show ?thesis by (simp add: keeps_def update_task_def engine_good_def)
qed

lemma sat_add_le: "x \<le> sat_add x (y :: 'a::len word)"
  unfolding word_le_nat_alt unat_sat_add min.bounded_iff using unat_bound [of x] by linarith

lemma due_kept [simp]:
  "tr_next_due_ms (record_duration us t) = tr_next_due_ms t" "tr_next_due_ms t \<le> tr_next_due_ms (advance_due plan i t)"
  by (simp_all add: record_duration_def advance_due_def Let_def sat_add_le)

lemma buckets_kept [simp]:
  "length (tr_duration_buckets (record_duration us t)) = length (tr_duration_buckets t)"
  "length (tr_duration_buckets (advance_due plan i t)) = length (tr_duration_buckets t)"
  by (simp_all add: record_duration_def advance_due_def Let_def)

lemma keeps_check_overrun [keeps_intros]: "keeps e (check_overrun e task us p)"
proof -
  obtain w trip where w: "watchdog_note (en_sw_wd e) task us p = (w, trip)" by (cases "watchdog_note (en_sw_wd e) task us p")
  have l: "length (wd_consecutive w) = length (wd_consecutive (en_sw_wd e))"
    using w by (auto simp: watchdog_note_def Let_def split: option.splits if_splits)
  let ?e1 = "e\<lparr>en_sw_wd := w\<rparr>"
  have 1: "keeps e ?e1" using l by (simp add: keeps_def engine_good_def)
  let ?e2 = "if sat_mul (ucast p :: u64) 1000 \<le> us
    then (update_task ?e1 task (\<lambda>t. t\<lparr>tr_overruns := sat_add (tr_overruns t) 1\<rparr>))
           \<lparr>en_overruns_total := en_overruns_total ?e1 + 1\<rparr> else ?e1"
  have "keeps ?e1 (update_task ?e1 task (\<lambda>t. t\<lparr>tr_overruns := sat_add (tr_overruns t) 1\<rparr>))"
    by (rule keeps_update_task) simp_all
  then have "keeps ?e1 ?e2" by (simp add: keeps_def engine_good_def)
  with 1 have 2: "keeps e ?e2" by (rule keeps_trans)
  have "keeps ?e2 (if trip then enter_fault ?e2 else ?e2)" by (simp add: keeps_enter_fault)
  with 2 have "keeps e (if trip then enter_fault ?e2 else ?e2)" by (rule keeps_trans)
  then show ?thesis by (simp only: check_overrun_def w Let_def prod.case)
qed

lemma keeps_apply_outputs [keeps_intros]: "keeps e (apply_outputs ops e ok)"
proof -
  let ?e = "publish_field_mode e"
  have 1: "keeps ?e (?e\<lparr>en_output_slot_state := s, en_output_image := o1, en_io := (en_io ?e)\<lparr>io_driver := d\<rparr>\<rparr>)"
    for s o1 d by (simp add: keeps_def engine_good_def)
  have 2: "keeps x (fault_if True (set_module_quality x Bad))" for x :: "'a engine"
    using keeps_trans [OF keeps_set_module_quality keeps_fault_if] .
  have "keeps ?e (apply_outputs ops e ok)"
    unfolding apply_outputs_def Let_def
    by (auto split: prod.splits sum.splits intro: 1 keeps_trans [OF 1 2])
  with keeps_publish_field_mode show ?thesis by (rule keeps_trans)
qed

lemma spsc_valid_push: "spsc_valid q \<Longrightarrow> spsc_valid (push_drop_oldest locked q x)"
  by (auto simp: spsc_valid_def push_drop_oldest_def Let_def)

lemma keeps_publish_slot: "keeps e (publish_slot v b now x e)"
  by (cases x) (simp add: publish_slot_def tel_push_def Let_def keeps_def engine_good_def spsc_valid_push)

lemma keeps_fold: "(\<And>x e. keeps e (f x e)) \<Longrightarrow> keeps e (fold f xs e)"
  by (rule fold_invariant [where Q = "\<lambda>_. True"]) (auto intro: keeps_trans)

lemma keeps_publish_telemetry [keeps_intros]: "keeps e (publish_telemetry v now e)"
  unfolding publish_telemetry_def Let_def
  by (rule keeps_trans [OF keeps_fold keeps_fold]) (rule keeps_publish_slot)+

text \<open>The steps of an invocation after the logic, one by one.\<close>

lemma keeps_finish_steps [keeps_intros]:
  "keeps e (e\<lparr>en_first_run_complete := b\<rparr>)"
  "keeps e (e\<lparr>en_hw_strokes := n\<rparr>)"
  "keeps e (e\<lparr>en_hooks := hooks_clear_first_scan (en_hooks e) task\<rparr>)"
  "keeps e (e\<lparr>en_last_ran := t\<rparr>)"
  "keeps e (set_in_invocation e b)"
  by (simp_all add: keeps_def hooks_clear_first_scan_def set_in_invocation_def engine_good_def)

lemma keeps_if: "keeps e (f e) \<Longrightarrow> keeps e (if b then f e else e)"
  by simp

text \<open>The tail of \<open>finish_invoke\<close>, from the output phase on.\<close>

definition after_outputs :: "'d env \<Rightarrow> 'd engine \<Rightarrow> nat \<Rightarrow> bool \<Rightarrow> u64 \<Rightarrow> 'd engine" where
  "after_outputs v e3 task ok t0 =
     (let e4 = (if ok then e3\<lparr>en_first_run_complete := True\<rparr> else e3);
          e5 = (if sp_telemetry_enabled (en_plan e4) then publish_telemetry v (t0 div 1000000) e4 else e4);
          e6 = e5\<lparr>en_hw_strokes := Suc (en_hw_strokes e5)\<rparr>;
          e7 = (if ok \<and> hooks_first_scan (en_hooks e6) task
                then e6\<lparr>en_hooks := hooks_clear_first_scan (en_hooks e6) task\<rparr> else e6);
          e8 = update_task e7 task (advance_due (en_plan e7) task)
      in set_in_invocation (e8\<lparr>en_last_ran := Some task\<rparr>) False)"

definition before_outputs :: "'d env \<Rightarrow> 'd engine \<Rightarrow> nat \<Rightarrow> operating_mode \<Rightarrow> u64 \<Rightarrow> 'd engine \<times> u64" where
  "before_outputs v e0 task mode t0 =
     (let period_ms = tk_period_ms (sp_tasks (en_plan e0) ! task);
          (e1, t1) = now_ns v e0;
          measured = sat_sub t1 t0 div 1000;
          inject = (case nth_opt (en_min_duration_us e1) task of Some u \<Rightarrow> u | None \<Rightarrow> 0);
          duration_us = (if measured < inject then inject else measured);
          e2 = (if executes_logic mode then check_overrun e1 task duration_us period_ms else e1)
      in (update_task e2 task (record_duration duration_us), duration_us))"

lemma finish_invoke_split:
  "finish_invoke v e task mode ok t0 =
     (let (e2, us) = before_outputs v e task mode t0
      in (after_outputs v (apply_outputs (env_ops v) e2 ok) task ok t0, us))"
  by (simp only: finish_invoke_def before_outputs_def after_outputs_def Let_def case_prod_unfold fst_conv snd_conv)

lemma keeps_before_outputs: "keeps e (fst (before_outputs v e task mode t0))"
proof -
  have "keeps (fst (now_ns v e)) (if b then check_overrun (fst (now_ns v e)) task us p else fst (now_ns v e))" for b us p
    by (simp add: keeps_check_overrun)
  then have "keeps e (if b then check_overrun (fst (now_ns v e)) task us p else fst (now_ns v e))" for b us p
    by (rule keeps_trans [OF keeps_now_ns])
  then show ?thesis
    unfolding before_outputs_def Let_def case_prod_unfold fst_conv by (rule keeps_trans) (rule keeps_update_task, simp_all)
qed

lemma after_outputs_split:
  obtains e7 where "keeps e e7"
    "after_outputs v e task ok t0 = set_in_invocation
       ((update_task e7 task (advance_due (en_plan e7) task))\<lparr>en_last_ran := Some task\<rparr>) False"
proof -
  let ?e4 = "if ok then e\<lparr>en_first_run_complete := True\<rparr> else e"
  let ?e5 = "if sp_telemetry_enabled (en_plan ?e4) then publish_telemetry v (t0 div 1000000) ?e4 else ?e4"
  let ?e6 = "?e5\<lparr>en_hw_strokes := Suc (en_hw_strokes ?e5)\<rparr>"
  let ?e7 = "if ok \<and> hooks_first_scan (en_hooks ?e6) task
    then ?e6\<lparr>en_hooks := hooks_clear_first_scan (en_hooks ?e6) task\<rparr> else ?e6"
  have "keeps e ?e4" by (rule keeps_if) (rule keeps_finish_steps)
  then have "keeps e ?e5" by (rule keeps_trans) (rule keeps_if, rule keeps_publish_telemetry)
  then have "keeps e ?e6" by (rule keeps_trans) (rule keeps_finish_steps)
  then have "keeps e ?e7" by (rule keeps_trans) (rule keeps_if, rule keeps_finish_steps)
  then show thesis by (rule that) (simp only: after_outputs_def Let_def)
qed

lemma keeps_after_outputs: "keeps e (after_outputs v e task ok t0)"
proof (rule after_outputs_split [of e v task ok t0])
  fix e7 assume k: "keeps e e7" and
    a: "after_outputs v e task ok t0 = set_in_invocation
       ((update_task e7 task (advance_due (en_plan e7) task))\<lparr>en_last_ran := Some task\<rparr>) False"
  have "keeps e (update_task e7 task (advance_due (en_plan e7) task))"
    by (rule keeps_trans [OF k keeps_update_task]) simp_all
  from keeps_trans [OF keeps_trans [OF this keeps_finish_steps(4)] keeps_finish_steps(5)]
  show ?thesis unfolding a .
qed

lemma keeps_finish_invoke: "keeps e (fst (finish_invoke v e task mode ok t0))"
  unfolding finish_invoke_split Let_def case_prod_unfold fst_conv
  using keeps_trans [OF keeps_trans [OF keeps_before_outputs keeps_apply_outputs] keeps_after_outputs] .

text \<open>Nothing but the input and output phases touches the driver.\<close>

definition driver_of :: "'d engine \<Rightarrow> 'd" where
  "driver_of e = io_driver (en_io e)"

lemma driver_of_upd [simp]:
  "driver_of (enter_fault e) = driver_of e" "driver_of (fault_if b e) = driver_of e"
  "driver_of (set_image e im) = driver_of e" "driver_of (set_module_quality e q) = driver_of e"
  "driver_of (publish_field_mode e) = driver_of e" "driver_of (read_remote_inputs e) = driver_of e"
  "driver_of (e\<lparr>en_vm := x\<rparr>) = driver_of e" "driver_of (e\<lparr>en_retain := y\<rparr>) = driver_of e"
  "driver_of (set_in_invocation e c) = driver_of e" "driver_of (fst (now_ns v e)) = driver_of e"
  "driver_of (update_task e i f) = driver_of e" "driver_of (e\<lparr>en_overruns_total := n\<rparr>) = driver_of e"
  "driver_of (e\<lparr>en_sw_wd := w\<rparr>) = driver_of e"
  by (simp_all add: driver_of_def enter_fault_def fault_if_def set_image_def set_module_quality_def
      publish_field_mode_def set_in_invocation_def now_ns_def update_task_def read_remote_inputs_def Let_def
      split: option.split)

lemma input_scratch_upd [simp]:
  "en_input_scratch (publish_field_mode e) = en_input_scratch e"
  "en_input_scratch (read_remote_inputs e) = en_input_scratch e"
  by (simp_all add: publish_field_mode_def read_remote_inputs_def set_image_def Let_def split: option.split)

lemma driver_of_sample_inputs:
  "driver_of (sample_inputs ops e) = fst (drv_poll_inputs ops (driver_of e) (en_input_scratch e))"
proof -
  have "driver_of (poll_driver ops e) = fst (drv_poll_inputs ops (driver_of e) (en_input_scratch e))" for e
    by (auto simp: poll_driver_def Let_def driver_of_def [symmetric] split: prod.split sum.split)
      (simp_all add: driver_of_def)
  then show ?thesis by (simp add: sample_inputs_def Let_def)
qed

lemma driver_of_run_logic [simp]: "driver_of (fst (run_logic e task now)) = driver_of e"
  by (auto simp: run_logic_def Let_def split: option.splits prod.splits sum.splits vm_error.splits)

lemma driver_of_before_outputs [simp]: "driver_of (fst (before_outputs v e task mode t0)) = driver_of e"
  by (simp add: before_outputs_def check_overrun_def Let_def case_prod_unfold)

text \<open>How an invocation goes: it panics, or the engine at the output phase is reached through
  frame-keeping steps.\<close>

lemma invoke_cases:
  assumes "invoke v e task = Some (e', us)"
  obtains e2 mode ok t0 where "keeps e e2" "finish_invoke v e2 task mode ok t0 = (e', us)"
    "driver_of e2 = fst (drv_poll_inputs (env_ops v) (driver_of e) (en_input_scratch e))"
proof -
  let ?e1 = "fst (now_ns v (set_in_invocation e True))" and ?t0 = "snd (now_ns v (set_in_invocation e True))"
  let ?e2 = "sample_inputs (env_ops v) ?e1"
  let ?m = "engine_mode ?e2"
  have k: "keeps e ?e2"
    using keeps_trans [OF keeps_trans [OF keeps_finish_steps(5) keeps_now_ns] keeps_sample_inputs] .
  have d: "driver_of ?e2 = fst (drv_poll_inputs (env_ops v) (driver_of e) (en_input_scratch e))"
    unfolding driver_of_sample_inputs by (simp add: now_ns_def set_in_invocation_def driver_of_def)
  show thesis
  proof (cases "executes_logic ?m")
    case False
    then show thesis using assms k d that unfolding invoke_def Let_def case_prod_unfold by auto
  next
    case True
    obtain e3 r where r: "run_logic ?e2 task (?t0 div 1000000) = (e3, r)" by (cases "run_logic ?e2 task (?t0 div 1000000)")
    have "keeps ?e2 e3" "driver_of e3 = driver_of ?e2"
      using keeps_run_logic [of ?e2 task "?t0 div 1000000"] driver_of_run_logic [of ?e2 task "?t0 div 1000000"] r
      by simp_all
    with k d have k3: "keeps e e3" "driver_of e3 = fst (drv_poll_inputs (env_ops v) (driver_of e) (en_input_scratch e))"
      by (auto intro: keeps_trans)
    then have k3': "keeps e (enter_fault e3)" by (blast intro: keeps_trans keeps_enter_fault)
    show thesis
      using assms True r k3 k3' that unfolding invoke_def Let_def case_prod_unfold by (cases r) auto
  qed
qed

lemma keeps_invoke: "invoke v e task = Some (e', us) \<Longrightarrow> keeps e e'"
  by (erule invoke_cases) (metis fst_conv keeps_finish_invoke keeps_trans)

subsection \<open>Mode boundary and program install\<close>

lemma blit_copies_fits:
  "vm_fits im v \<Longrightarrow> vm_fits im (fst (blit_retain_copies cs cur v))"
proof (induction cs cur v rule: blit_retain_copies.induct)
  case (2 c cs cur v)
  have "vm_fits im v'" if "blit_retain_from v (rc_dst_offset c) cur (rc_src_offset c) (rc_len c) = Inr v'" for v'
    using that 2(2) by (auto simp: blit_retain_from_def rbind_eq_Inr vm_fits_def)
  then show ?case using 2 by (auto split: sum.splits)
qed simp

lemma blit_retain_into_frame:
  assumes "blit_retain_into a cur = (a', r)"
  shows "ap_task_entries a' = ap_task_entries a" "ap_program_id a' = ap_program_id a"
    "ap_compatibility_hash a' = ap_compatibility_hash a" "vm_fits im (ap_vm a) \<Longrightarrow> vm_fits im (ap_vm a')"
proof -
  show "ap_task_entries a' = ap_task_entries a" "ap_program_id a' = ap_program_id a"
    "ap_compatibility_hash a' = ap_compatibility_hash a"
    using assms by (auto simp: blit_retain_into_def split: option.splits prod.splits)
  show "vm_fits im (ap_vm a')" if "vm_fits im (ap_vm a)"
    using assms that blit_copies_fits [OF that, of "ap_retain_copies a"]
    by (cases cur) (auto simp: blit_retain_into_def case_prod_unfold Let_def)
qed

text \<open>The engine while a swap is prepared: in phase Swapping, the armed program set aside.\<close>

definition swapping :: "'d engine \<Rightarrow> nat \<Rightarrow> armed_program option \<Rightarrow> 'd engine" where
  "swapping e n a = e\<lparr>en_hooks := hooks_set_phase (en_hooks e) Swapping, en_ticks := n, en_armed := a\<rparr>"

lemma try_epoch_install_cases:
  obtains (idle) n where "try_epoch_install v e = (e\<lparr>en_ticks := n\<rparr>, InstIdle)"
  | (faulted) n a0 a er where "en_armed e = Some a0" "blit_retain_into a0 (en_vm e) = (a, Inl er)"
      "try_epoch_install v e =
         (set_phase (set_activate_requested (enter_fault (swapping e n (Some a))) False) Idle, InstFaulted)"
  | (deferred) n a0 a where "en_armed e = Some a0" "blit_retain_into a0 (en_vm e) = (a, Inr ())"
      "try_epoch_install v e =
         (set_activate_requested (set_phase (swapping e n (Some a)) Armed) False
            \<lparr>en_last_activate_deferred := True,
             en_activate_deferred_count := sat_add (en_activate_deferred_count e) 1\<rparr>, InstDeferred)"
  | (installed) n a0 a where "en_armed e = Some a0" "blit_retain_into a0 (en_vm e) = (a, Inr ())"
      "hk_activate_requested (en_hooks e)" "hooks_is_quiet (en_hooks e)"
      "try_epoch_install v e = (commit_install v (swapping e n None) a, InstInstalled)"
proof -
  let ?n = "en_ticks e"
  show thesis
  proof (cases "hk_activate_requested (en_hooks e) \<and> en_armed e \<noteq> None \<and> hooks_is_quiet (en_hooks e)
      \<and> pick_due (e\<lparr>en_ticks := Suc ?n\<rparr>) (env_clock v ?n div 1000000) = Some (en_schedule_order e ! 0)")
    case False
    then have "try_epoch_install v e \<in> {(e\<lparr>en_ticks := ?n\<rparr>, InstIdle), (e\<lparr>en_ticks := Suc ?n\<rparr>, InstIdle)}"
      by (auto simp: try_epoch_install_def now_ms_def now_ns_def Let_def split: option.splits)
    then show thesis by (blast intro: idle)
  next
    case True
    then obtain a0 where a0: "en_armed e = Some a0" by auto
    have swap: "e\<lparr>en_hooks := h, en_armed := None, en_ticks := n\<rparr> = e\<lparr>en_hooks := h, en_ticks := n, en_armed := None\<rparr>"
      for h n by simp
    obtain a r where b: "blit_retain_into a0 (en_vm e) = (a, r)" by (cases "blit_retain_into a0 (en_vm e)")
    show thesis
    proof (cases r)
      case (Inl er)
      show thesis
        by (rule faulted [OF a0 b [unfolded Inl], of "Suc (Suc (Suc ?n))"])
          (use True a0 b Inl in \<open>simp add: try_epoch_install_def now_ms_def now_ns_def Let_def set_phase_def swapping_def\<close>)
    next
      case (Inr u)
      show thesis
      proof (cases "snd (try_epoch_install v e) = InstDeferred")
        case d: True
        show thesis
          by (rule deferred [OF a0, of a "Suc (Suc (Suc ?n))"])
            (use True a0 b Inr d in \<open>auto simp: try_epoch_install_def now_ms_def now_ns_def Let_def set_phase_def swapping_def
               split: if_splits\<close>)
      next
        case d: False
        show thesis
          by (rule installed [OF a0, of a "Suc (Suc (Suc ?n))"])
            (use True a0 b Inr d in \<open>auto simp: swap try_epoch_install_def now_ms_def now_ns_def Let_def set_phase_def swapping_def
               split: if_splits\<close>)
      qed
    qed
  qed
qed

lemma phase_code [simp]: "decode_phase (encode_phase p) = p"
  by (cases p) (simp_all add: decode_phase_def)

lemma phase_code_num [simp]: "decode_phase 0 = Idle" "decode_phase 2 = Armed"
  by (simp_all add: decode_phase_def)

lemmas hooks_defs = hooks_set_phase_def hooks_phase_def hooks_is_quiet_def hooks_set_first_scan_all_def
lemmas engine_upd_defs = set_phase_def set_activate_requested_def swapping_def enter_fault_def

lemma engine_inv_keeps:
  assumes "engine_inv e" "keeps e e'" "hooks_is_quiet (en_hooks e')"
  shows "engine_inv e'"
  using assms by (auto simp: engine_inv_def keeps_def Let_def hooks_phase_def vm_fits_def)

lemma engine_inv_ticks [simp]: "engine_inv (e\<lparr>en_ticks := n\<rparr>) = engine_inv e"
  by (simp add: engine_inv_def engine_good_def Let_def)

lemma sort_key_cong_on: "(\<And>x. x \<in> set xs \<Longrightarrow> f x = g x) \<Longrightarrow> sort_key f xs = sort_key g xs"
proof (induction xs)
  case (Cons x xs)
  have "insort_key f x ys = insort_key g x ys" if "set ys \<subseteq> set (x # xs)" for ys
    using that Cons.prems by (induction ys) auto
  then show ?case using Cons by (simp add: subset_insertI)
qed simp

lemma schedule_order_entries: "schedule_order_of (set_task_entries es ts) = schedule_order_of ts"
proof -
  have n: "set_task_entries es ts ! i = (if i < length es then (ts ! i)\<lparr>tk_entry := es ! i\<rparr> else ts ! i)"
    if "i < length ts" for i using that by (simp add: set_task_entries_def nth_enumerate_eq)
  have l: "length (set_task_entries es ts) = length ts" by (simp add: set_task_entries_def)
  show ?thesis
    unfolding schedule_order_of_def l by (rule sort_key_cong_on) (auto simp: n)
qed

lemma length_set_task_entries [simp]: "length (set_task_entries es ts) = length ts"
  by (simp add: set_task_entries_def)

lemma period_set_task_entries:
  "i < length ts \<Longrightarrow> tk_period_ms (set_task_entries es ts ! i) = tk_period_ms (ts ! i)"
  by (simp add: set_task_entries_def nth_enumerate_eq)

lemma image_reset_lengths [simp]:
  "length (pi_inputs (cold_init_memory im)) = length (pi_inputs im)"
  "length (pi_outputs (cold_init_memory im)) = length (pi_outputs im)"
  "length (pi_inputs (apply_safe_reset_outputs im)) = length (pi_inputs im)"
  "length (pi_outputs (apply_safe_reset_outputs im)) = length (pi_outputs im)"
  by (simp_all add: cold_init_memory_def apply_safe_reset_outputs_def)

lemma vm_fits_image:
  "length (pi_inputs im') = length (pi_inputs im) \<Longrightarrow> length (pi_outputs im') = length (pi_outputs im) \<Longrightarrow>
   vm_fits im v \<Longrightarrow> vm_fits im' v"
  by (simp add: vm_fits_def)

lemma commit_install_inv:
  assumes "engine_inv e" "en_armed e = Some a0" "blit_retain_into a0 (en_vm e) = (a, r)"
  shows "engine_inv (commit_install v (swapping e n None) a)"
proof -
  let ?im = "io_image (en_io e)" and ?ts = "sp_tasks (en_plan e)"
  have e: "length (ap_task_entries a) = length ?ts" "vm_fits ?im (ap_vm a)"
    using assms blit_retain_into_frame [OF assms(3)] by (auto simp: engine_inv_def Let_def)
  have p: "\<forall>t\<in>set (set_task_entries es ?ts). tk_period_ms t \<noteq> 0" for es
    using assms(1) by (auto simp: engine_inv_def Let_def all_set_conv_all_nth period_set_task_entries)
  have ne: "set_task_entries es ?ts \<noteq> []" for es
    using assms(1) by (metis engine_inv_def length_0_conv length_set_task_entries)
  show ?thesis
    using assms(1) e p ne
    by (simp add: commit_install_def engine_inv_def engine_good_def Let_def case_prod_unfold now_ms_def now_ns_def
        swapping_def hooks_defs schedule_order_entries vm_fits_def) (auto simp: in_set_enumerate_eq)
qed

lemma try_epoch_install_inv:
  assumes "engine_inv e" shows "engine_inv (fst (try_epoch_install v e))"
proof (cases rule: try_epoch_install_cases [of v e])
  case (installed n a0 a)
  then show ?thesis using commit_install_inv [OF assms] by simp
next
  case (faulted n a0 a er)
  then show ?thesis using assms blit_retain_into_frame [OF faulted(2)]
    by (auto simp: engine_inv_def engine_good_def Let_def engine_upd_defs hooks_defs)
next
  case (deferred n a0 a)
  then show ?thesis using assms blit_retain_into_frame [OF deferred(2)]
    by (auto simp: engine_inv_def engine_good_def Let_def engine_upd_defs hooks_defs)
qed (use assms in simp)

lemma apply_mode_boundary_inv: "engine_inv e \<Longrightarrow> engine_inv (apply_mode_boundary e)"
  by (auto simp: apply_mode_boundary_def engine_inv_def engine_good_def Let_def split: prod.splits sum.splits)

lemma quiet_after_invoke: "invoke v e task = Some (e', us) \<Longrightarrow> hooks_is_quiet (en_hooks e')"
  by (erule invoke_cases)
    (auto simp: finish_invoke_split after_outputs_def Let_def case_prod_unfold set_in_invocation_def hooks_is_quiet_def)

lemma invoke_inv: "engine_inv e \<Longrightarrow> invoke v e task = Some (e', us) \<Longrightarrow> engine_inv e'"
  using engine_inv_keeps keeps_invoke quiet_after_invoke by blast

lemma engine_step_inv:
  assumes "engine_inv e" "engine_step v e = Some (e', out)"
  shows "engine_inv e'"
proof -
  define e1 where "e1 = fst (try_epoch_install v (apply_mode_boundary e))"
  have "engine_inv e1" unfolding e1_def using assms(1) by (intro try_epoch_install_inv apply_mode_boundary_inv)
  then show ?thesis
    using assms(2)
    by (auto simp: engine_step_def e1_def [symmetric] now_ms_def now_ns_def Let_def
        split: option.splits dest!: invoke_inv [rotated])
qed

lemma run_due_loop_inv: "engine_inv e \<Longrightarrow> run_due_loop fuel v e n = LoopDone e' k \<Longrightarrow> engine_inv e'"
proof (induction fuel arbitrary: e n)
  case (Suc fuel)
  have "engine_inv (fst (now_ms v (fst (try_epoch_install v e))))"
    using try_epoch_install_inv [OF Suc.prems(1)] by (simp add: now_ms_def now_ns_def)
  then show ?case
    using Suc by (auto simp: case_prod_unfold Let_def split: option.splits dest!: invoke_inv [rotated])
qed simp

subsection \<open>Traces of engine events\<close>

datatype engine_event =
    EvRequest mode_request
  | EvArm armed_program
  | EvDisarm
  | EvActivate
  | EvStep
  | EvRunDue nat

inductive engine_trans :: "'d env \<Rightarrow> 'd engine \<Rightarrow> engine_event \<Rightarrow> 'd engine \<Rightarrow> bool" for v where
  request: "engine_trans v e (EvRequest r) (request_mode e r)"
| arm: "arm e p = Inr e' \<Longrightarrow> engine_trans v e (EvArm p) e'"
| disarm: "disarm e = Inr e' \<Longrightarrow> engine_trans v e EvDisarm e'"
| activate: "request_activate e = Inr (e', r) \<Longrightarrow> engine_trans v e EvActivate e'"
| step: "engine_step v e = Some (e', out) \<Longrightarrow> engine_trans v e EvStep e'"
| run_due: "run_due fuel v e = LoopDone e' n \<Longrightarrow> engine_trans v e (EvRunDue fuel) e'"

inductive engine_trace :: "'d env \<Rightarrow> 'd engine \<Rightarrow> engine_event list \<Rightarrow> 'd engine \<Rightarrow> bool" for v where
  stop: "engine_trace v e [] e"
| more: "engine_trans v e ev e1 \<Longrightarrow> engine_trace v e1 evs e2 \<Longrightarrow> engine_trace v e (ev # evs) e2"

inductive_cases traceE: "engine_trace v e evs e'"

text \<open>A machine whose slot images are consistent, as \<open>vm_load\<close> makes them.\<close>

definition vm_ready :: "vm \<Rightarrow> bool" where
  "vm_ready v \<longleftrightarrow> slots_inv (length (si_values (vm_inputs v))) (vm_inputs v)
     \<and> slots_inv (length (si_values (vm_outputs v))) (vm_outputs v)"

definition arms_ready :: "engine_event list \<Rightarrow> bool" where
  "arms_ready evs \<longleftrightarrow> list_all (\<lambda>ev. case ev of EvArm p \<Rightarrow> vm_ready (ap_vm p) | _ \<Rightarrow> True) evs"

lemma vm_ready_load: "vm_load m cfg = Inr v \<Longrightarrow> vm_ready v"
  by (auto simp: vm_load_def rbind_eq_Inr vm_ready_def slots_bools_def slots_inv_def)

lemma vm_matches_fits: "vm_matches v im = Inr () \<Longrightarrow> vm_ready v \<Longrightarrow> vm_fits im v"
  by (auto simp: vm_matches_def vm_ready_def vm_fits_def split: if_splits)

lemma vm_fits_cold_reset: "vm_fits im v \<Longrightarrow> vm_fits im (cold_reset_non_retain v)"
  by (simp add: vm_fits_def cold_reset_non_retain_def slots_fill_bool_false_inv)

lemma arm_inv:
  assumes "engine_inv e" "arm e p = Inr e'" "vm_ready (ap_vm p)"
  shows "engine_inv e'"
proof -
  have m: "vm_matches (ap_vm p) (io_image (en_io e)) = Inr ()"
    and l: "length (ap_task_entries p) = length (sp_tasks (en_plan e))"
    and e': "e' = e\<lparr>en_armed := Some (p\<lparr>ap_vm := cold_reset_non_retain (ap_vm p)\<rparr>),
               en_hooks := (hooks_set_phase (en_hooks e) Armed)\<lparr>hk_activate_requested := False\<rparr>\<rparr>"
    using assms(2) by (auto simp: arm_def rbind_eq_Inr split: if_splits)
  show ?thesis
    using assms(1) l vm_fits_cold_reset [OF vm_matches_fits [OF m assms(3)]]
    by (simp add: e' engine_inv_def engine_good_def Let_def hooks_defs)
qed

lemma engine_trans_inv:
  assumes "engine_trans v e ev e'" "engine_inv e" "arms_ready [ev]"
  shows "engine_inv e'"
  using assms
proof cases
  case (arm p)
  then show ?thesis using assms arm_inv by (auto simp: arms_ready_def)
next
  case (run_due fuel n)
  then show ?thesis by (metis run_due_def run_due_loop_inv apply_mode_boundary_inv assms(2))
next
  case (step out)
  then show ?thesis using engine_step_inv [OF assms(2)] by blast
next
  case disarm
  then show ?thesis using assms(2)
    by (auto simp: disarm_def engine_inv_def engine_good_def Let_def hooks_defs split: if_splits)
next
  case (activate r)
  then show ?thesis using assms(2)
    by (auto simp: request_activate_def engine_inv_def engine_good_def Let_def hooks_defs split: if_splits option.splits)
qed (use assms(2) in \<open>simp add: request_mode_def engine_inv_def engine_good_def Let_def\<close>)

lemma engine_trace_inv:
  "engine_trace v e evs e' \<Longrightarrow> engine_inv e \<Longrightarrow> arms_ready evs \<Longrightarrow> engine_inv e'"
  by (induction rule: engine_trace.induct) (auto simp: arms_ready_def dest: engine_trans_inv)

text \<open>Construction establishes the invariant for a validated plan.\<close>

lemma validate_tasks_from_periods:
  "validate_tasks_from ns ts = Inr () \<Longrightarrow> \<forall>t\<in>set ts. tk_period_ms t \<noteq> 0"
  by (induction ns ts rule: validate_tasks_from.induct) (auto split: if_splits)

lemma engine_new_inv:
  assumes "validate_tasks (sp_tasks plan) = Inr ()" "engine_new ops plan io v = Inr e"
    and "\<And>m. v = Some m \<Longrightarrow> vm_ready m"
  shows "engine_inv e \<and> engine_mode e = Stop"
proof -
  have "sp_tasks plan \<noteq> []" "\<forall>t\<in>set (sp_tasks plan). tk_period_ms t \<noteq> 0"
    using assms(1) by (auto simp: validate_tasks_def dest!: validate_tasks_from_periods split: if_splits)
  moreover have "vm_fits (io_image io) m" if "v = Some m" for m
    using assms(2,3) that by (auto simp: engine_new_def rbind_eq_Inr intro: vm_matches_fits)
  ultimately show ?thesis
    using assms(2)
    by (auto simp: engine_new_def rbind_eq_Inr engine_inv_def engine_good_def Let_def hooks_new_def hooks_phase_def
        hooks_is_quiet_def watchdog_new_def task_runtime_new_def spsc_channel_valid engine_mode_def mode_cell_new_def
        cell_mode_def decode_mode_def split: prod.splits sum.splits)
qed

subsection \<open>FAULT is latched\<close>

text \<open>The mode is FAULT and no reset is pending: this state is left only by a reset request.\<close>

definition fault_latched :: "'d engine \<Rightarrow> bool" where
  "fault_latched e \<longleftrightarrow> engine_mode e = Fault \<and> decode_request (mc_pending (en_modes e)) \<noteq> Some ReqFaultReset"

lemma fault_latched_keeps: "keeps e e' \<Longrightarrow> fault_latched e \<Longrightarrow> fault_latched e'"
  by (auto simp: fault_latched_def keeps_def)

lemma fault_latched_boundary:
  assumes "fault_latched e" shows "fault_latched (apply_mode_boundary e)"
proof -
  have d: "decode_request 0 = None" by (simp add: decode_request_def)
  have "cell_mode (fst (apply_pending (en_modes e))) = Fault" "mc_pending (fst (apply_pending (en_modes e))) = 0"
    using assms unfolding fault_latched_def engine_mode_def
    by (auto simp: apply_pending_def apply_request_def cell_mode_def cell_set_mode_def Let_def
        split: option.splits sum.splits mode_request.splits)
  then show ?thesis
    using assms d
    by (auto simp: apply_mode_boundary_def fault_latched_def engine_mode_def reject_pending_def cell_mode_def Let_def
        split: prod.splits sum.splits)
qed

lemma fault_latched_install: "fault_latched e \<Longrightarrow> fault_latched (fst (try_epoch_install v e))"
  by (rule try_epoch_install_cases [of v e])
    (auto simp: fault_latched_def engine_mode_def engine_upd_defs commit_install_def now_ms_def now_ns_def Let_def
      case_prod_unfold cell_set_mode_def cell_mode_def decode_mode_def)

lemma fault_latched_invoke: "invoke v e task = Some (e', us) \<Longrightarrow> fault_latched e \<Longrightarrow> fault_latched e'"
  using fault_latched_keeps keeps_invoke by blast

lemma fault_latched_ticks [simp]: "fault_latched (e\<lparr>en_ticks := n\<rparr>) = fault_latched e"
  by (simp add: fault_latched_def)

lemma fault_latched_step:
  assumes "fault_latched e" "engine_step v e = Some (e', out)" shows "fault_latched e'"
proof -
  define e1 where "e1 = fst (try_epoch_install v (apply_mode_boundary e))"
  have "fault_latched e1" unfolding e1_def using assms(1) by (intro fault_latched_install fault_latched_boundary)
  then show ?thesis
    using assms(2)
    by (auto simp: engine_step_def e1_def [symmetric] now_ms_def now_ns_def Let_def
        split: option.splits dest!: fault_latched_invoke)
qed

lemma fault_latched_loop:
  "fault_latched e \<Longrightarrow> run_due_loop fuel v e n = LoopDone e' k \<Longrightarrow> fault_latched e'"
proof (induction fuel arbitrary: e n)
  case (Suc fuel)
  have "fault_latched (fst (now_ms v (fst (try_epoch_install v e))))"
    using fault_latched_install [OF Suc.prems(1)] by (simp add: now_ms_def now_ns_def)
  then show ?case
    using Suc by (auto simp: case_prod_unfold Let_def split: option.splits dest!: fault_latched_invoke)
qed simp

lemma encode_request_inverse: "decode_request (encode_request r) = Some r"
  by (cases r) (simp_all add: decode_request_def)

lemma fault_latched_trans:
  assumes "engine_trans v e ev e'" "fault_latched e" "ev \<noteq> EvRequest ReqFaultReset"
  shows "fault_latched e'"
  using assms
proof cases
  case (run_due fuel n)
  then show ?thesis by (metis run_due_def fault_latched_loop fault_latched_boundary assms(2))
next
  case (step out)
  then show ?thesis using fault_latched_step [OF assms(2)] by blast
next
  case (request r)
  then show ?thesis using assms(2,3)
    by (simp add: request_mode_def cell_request_def fault_latched_def engine_mode_def cell_mode_def encode_request_inverse)
qed (use assms(2) in \<open>auto simp: disarm_def request_activate_def arm_def rbind_eq_Inr fault_latched_def engine_mode_def
      split: if_splits option.splits\<close>)

lemma fault_latched_trace:
  "engine_trace v e evs e' \<Longrightarrow> fault_latched e \<Longrightarrow> EvRequest ReqFaultReset \<notin> set evs \<Longrightarrow> fault_latched e'"
  by (induction rule: engine_trace.induct) (auto dest: fault_latched_trans)

subsection \<open>The output phase\<close>

text \<open>When the field must be de-energized, and what a slot is driven with otherwise.\<close>

definition safe_required :: "'d engine \<Rightarrow> bool" where
  "safe_required e \<longleftrightarrow> engine_mode e = Fault
     \<or> engine_mode e = Stop \<and> sp_stop_output_policy (en_plan e) = StopSafe \<or> \<not> en_first_run_complete e"

definition same_io :: "'d engine \<Rightarrow> 'd engine \<Rightarrow> bool" where
  "same_io e e' \<longleftrightarrow> en_modes e' = en_modes e \<and> en_io e' = en_io e \<and> en_plan e' = en_plan e
     \<and> en_output_image e' = en_output_image e \<and> en_output_slot_state e' = en_output_slot_state e"

lemma same_io_trans: "same_io e1 e2 \<Longrightarrow> same_io e2 e3 \<Longrightarrow> same_io e1 e3"
  by (simp add: same_io_def)

definition same_io_run :: "'d engine \<Rightarrow> 'd engine \<Rightarrow> bool" where
  "same_io_run e e' \<longleftrightarrow> same_io e e' \<and> en_first_run_complete e' = en_first_run_complete e"

lemma same_io_run_fold: "(\<And>x e. same_io_run e (f x e)) \<Longrightarrow> same_io_run e (fold f xs e)"
proof (induction xs arbitrary: e)
  case (Cons x xs)
  then show ?case by (simp add: same_io_run_def) (metis same_io_trans)
qed (simp add: same_io_run_def same_io_def)

lemma publish_telemetry_io: "same_io_run e (publish_telemetry v now e)"
proof -
  have s: "same_io_run e (publish_slot v b now x e)" for b x and e :: "'a engine"
    by (cases x) (simp add: publish_slot_def tel_push_def Let_def same_io_run_def same_io_def)
  have f: "same_io_run e (fold (publish_slot v b now) xs e)" for b xs and e :: "'a engine"
    by (rule same_io_run_fold) (rule s)
  have t: "same_io_run e1 e2 \<Longrightarrow> same_io_run e2 e3 \<Longrightarrow> same_io_run e1 e3" for e1 e2 e3 :: "'a engine"
    by (auto simp: same_io_run_def same_io_def)
  show ?thesis unfolding publish_telemetry_def Let_def by (rule t [OF f f])
qed

lemma after_outputs_io:
  "same_io e (after_outputs v e task ok t0)
   \<and> en_first_run_complete (after_outputs v e task ok t0) = (en_first_run_complete e \<or> ok)"
  using publish_telemetry_io [of "if ok then e\<lparr>en_first_run_complete := True\<rparr> else e" v "t0 div 1000000"]
  by (auto simp: after_outputs_def Let_def same_io_run_def same_io_def update_task_def set_in_invocation_def)

lemma publish_field_mode_frame [simp]:
  "engine_mode (publish_field_mode e) = engine_mode e" "en_plan (publish_field_mode e) = en_plan e"
  "en_first_run_complete (publish_field_mode e) = en_first_run_complete e"
  "io_image (en_io (publish_field_mode e)) = io_image (en_io e)"
  "io_forces (en_io (publish_field_mode e)) = io_forces (en_io e)"
  "io_module_quality (en_io (publish_field_mode e)) = io_module_quality (en_io e)"
  "io_on_bad_quality (en_io (publish_field_mode e)) = io_on_bad_quality (en_io e)"
  "global_force_safe (publish_field_mode e) ok = global_force_safe e ok"
  by (simp_all add: publish_field_mode_def global_force_safe_def)

text \<open>The engine after outputs were applied without error.\<close>

definition applied :: "'d driver_ops \<Rightarrow> 'd engine \<Rightarrow> bool \<Rightarrow> 'd \<Rightarrow> 'd engine \<Rightarrow> bool" where
  "applied ops e ok d' e' \<longleftrightarrow>
     driver_of e' = d' \<and> engine_mode e' = engine_mode e \<and> en_plan e' = en_plan e
     \<and> en_first_run_complete e' = en_first_run_complete e \<and> io_image (en_io e') = io_image (en_io e)
     \<and> io_forces (en_io e') = io_forces (en_io e) \<and> io_module_quality (en_io e') = io_module_quality (en_io e)
     \<and> io_on_bad_quality (en_io e') = io_on_bad_quality (en_io e)
     \<and> drv_apply_outputs ops (driver_of e) (en_output_image e') = (d', Inr ())
     \<and> oi_force_safe (en_output_image e') = global_force_safe e ok
     \<and> length (oi_values (en_output_image e')) = length (pi_outputs (io_image (en_io e)))
     \<and> (\<exists>states per_slot. (states, per_slot) = drv_fill_output_module_state ops (driver_of e)
             (replicate (length (pi_outputs (io_image (en_io e))))
                \<lparr>om_quality = io_module_quality (en_io e), om_on_bad_quality = io_on_bad_quality (en_io e)\<rparr>)
          \<and> oi_values (en_output_image e') =
              map (effective_output e' (global_force_safe e ok) states per_slot) [0..<length (pi_outputs (io_image (en_io e)))])"

lemma effective_output_cong:
  "io_image (en_io e') = io_image (en_io e) \<Longrightarrow> io_forces (en_io e') = io_forces (en_io e) \<Longrightarrow>
   io_module_quality (en_io e') = io_module_quality (en_io e) \<Longrightarrow>
   io_on_bad_quality (en_io e') = io_on_bad_quality (en_io e) \<Longrightarrow> engine_mode e' = engine_mode e \<Longrightarrow>
   effective_output e' = effective_output e"
  by (intro ext) (simp add: effective_output_def Let_def)

lemma apply_outputs_applied:
  assumes "\<And>im. \<exists>d'. drv_apply_outputs ops (driver_of e) im = (d', Inr ())"
  obtains d' where "applied ops e ok d' (apply_outputs ops e ok)"
proof -
  let ?e = "publish_field_mode e" and ?nq = "length (pi_outputs (io_image (en_io e)))"
  obtain states ps where f: "drv_fill_output_module_state ops (driver_of e) (replicate ?nq
      \<lparr>om_quality = io_module_quality (en_io e), om_on_bad_quality = io_on_bad_quality (en_io e)\<rparr>) = (states, ps)"
    by (metis prod.exhaust)
  define oi where "oi = \<lparr>oi_values = map (effective_output ?e (global_force_safe e ok) states ps) [0..<?nq],
    oi_force_safe = global_force_safe e ok\<rparr>"
  obtain d' where d: "drv_apply_outputs ops (driver_of e) oi = (d', Inr ())" using assms by blast
  have drv: "io_driver (en_io ?e) = driver_of e" by (simp add: driver_of_def publish_field_mode_def)
  let ?r = "?e\<lparr>en_output_slot_state := states, en_output_image := oi, en_io := (en_io ?e)\<lparr>io_driver := d'\<rparr>\<rparr>"
  have r: "apply_outputs ops e ok = ?r"
    unfolding apply_outputs_def Let_def drv using f d by (simp add: oi_def)
  have "effective_output ?r = effective_output ?e" by (rule effective_output_cong) simp_all
  then have "applied ops e ok d' ?r"
    unfolding applied_def using d f
    by (intro conjI exI [of _ states] exI [of _ ps]) (simp_all add: oi_def driver_of_def)
  then show thesis using that r by simp
qed

context ready_driver
begin

text \<open>After an invocation the driver is safe exactly when it has to be, and otherwise driven
  with the output image.\<close>

lemma invoke_applied:
  assumes "env_ops v = ops" "ready (driver_of e)" "invoke v e task = Some (e', us)"
  obtains e3 ok d' where "applied ops e3 ok d' (apply_outputs ops e3 ok)" "same_io (apply_outputs ops e3 ok) e'"
    "en_first_run_complete e' = (en_first_run_complete e3 \<or> ok)" "ready (driver_of e')"
proof -
  obtain e2 mode ok t0 where f: "finish_invoke v e2 task mode ok t0 = (e', us)"
    and "driver_of e2 = fst (drv_poll_inputs ops (driver_of e) (en_input_scratch e))"
    using assms(1,3) by (metis invoke_cases)
  then have rd: "ready (driver_of e2)" using poll_ready [OF assms(2)] by simp
  define e3 where "e3 = fst (before_outputs v e2 task mode t0)"
  have r3: "ready (driver_of e3)" using rd by (simp add: e3_def)
  have e': "e' = after_outputs v (apply_outputs ops e3 ok) task ok t0"
    using f assms(1) by (simp add: finish_invoke_split e3_def case_prod_unfold Let_def)
  obtain d' where d: "applied ops e3 ok d' (apply_outputs ops e3 ok)"
    using apply_outputs_applied [of ops e3 ok] apply_ok [OF r3] by blast
  then have "ready d'" using apply_ok [OF r3] unfolding applied_def by (metis prod.inject)
  moreover have io: "same_io (apply_outputs ops e3 ok) e'"
      "en_first_run_complete e' = (en_first_run_complete (apply_outputs ops e3 ok) \<or> ok)"
    using after_outputs_io [of "apply_outputs ops e3 ok"] by (simp_all add: e')
  ultimately show thesis using that [OF d] d by (simp add: applied_def same_io_def driver_of_def)
qed

lemma invoke_outputs:
  assumes "env_ops v = ops" "ready (driver_of e)" "invoke v e task = Some (e', us)"
  shows "ready (driver_of e') \<and> length (oi_values (en_output_image e')) = length (pi_outputs (io_image (en_io e')))
    \<and> (if safe_required e' then deenergized (driver_of e')
       else drives (driver_of e') (oi_values (en_output_image e')))"
proof -
  obtain e3 ok d' where a: "applied ops e3 ok d' (apply_outputs ops e3 ok)" "same_io (apply_outputs ops e3 ok) e'"
    "en_first_run_complete e' = (en_first_run_complete e3 \<or> ok)" "ready (driver_of e')"
    using assms by (rule invoke_applied)
  have "safe_required e' = global_force_safe e3 ok"
    using a by (auto simp: safe_required_def global_force_safe_def applied_def same_io_def engine_mode_def)
  then have "oi_force_safe (en_output_image e') = safe_required e'"
    and d: "drv_apply_outputs ops (driver_of e3) (en_output_image e') = (driver_of e', Inr ())"
    and l: "length (oi_values (en_output_image e')) = length (pi_outputs (io_image (en_io e')))"
    using a by (auto simp: applied_def same_io_def driver_of_def)
  then show ?thesis using a(4) apply_force_safe [OF d] apply_drives [OF d] l by auto
qed

end

subsection \<open>Scheduling\<close>

lemma schedule_order_set: "set (schedule_order_of ts) = {0..<length ts}"
  by (simp add: schedule_order_of_def)

lemma find_sorted_first:
  assumes "sorted (map f xs)" "find P xs = Some x" "y \<in> set xs" "P y"
  shows "f x \<le> f y"
  using assms by (induction xs) (auto split: if_splits)

lemma pick_due_spec:
  assumes "engine_inv e" "pick_due e now = Some i"
  shows "i < length (en_tasks e)" "tr_next_due_ms (en_tasks e ! i) \<le> now"
    and "j < length (en_tasks e) \<Longrightarrow> tr_next_due_ms (en_tasks e ! j) \<le> now \<Longrightarrow>
      (255 - unat (tk_priority (sp_tasks (en_plan e) ! i)), tk_name (sp_tasks (en_plan e) ! i))
      \<le> (255 - unat (tk_priority (sp_tasks (en_plan e) ! j)), tk_name (sp_tasks (en_plan e) ! j))"
proof -
  let ?ts = "sp_tasks (en_plan e)"
  have o: "en_schedule_order e = schedule_order_of ?ts" and l: "length (en_tasks e) = length ?ts"
    using assms(1) by (simp_all add: engine_inv_def Let_def)
  have f: "find (\<lambda>i. tr_next_due_ms (en_tasks e ! i) \<le> now) (schedule_order_of ?ts) = Some i"
    using assms(2) by (simp add: pick_due_def o)
  then show "i < length (en_tasks e)" "tr_next_due_ms (en_tasks e ! i) \<le> now"
    using schedule_order_set [of ?ts] l by (auto simp: find_Some_iff in_set_conv_nth) (metis atLeastLessThan_iff nth_mem)
  show "(255 - unat (tk_priority (?ts ! i)), tk_name (?ts ! i)) \<le> (255 - unat (tk_priority (?ts ! j)), tk_name (?ts ! j))"
    if "j < length (en_tasks e)" "tr_next_due_ms (en_tasks e ! j) \<le> now"
    by (rule find_sorted_first [OF _ f, where f = "\<lambda>i. (255 - unat (tk_priority (?ts ! i)), tk_name (?ts ! i))"])
      (use that l schedule_order_set [of ?ts] in \<open>simp_all add: schedule_order_of_def\<close>)
qed

lemma pick_due_none:
  assumes "engine_inv e" "pick_due e now = None" "j < length (en_tasks e)"
  shows "now < tr_next_due_ms (en_tasks e ! j)"
proof -
  have "j \<in> set (en_schedule_order e)"
    using assms(1,3) by (simp add: engine_inv_def Let_def schedule_order_set)
  then show ?thesis using assms(2) by (auto simp: pick_due_def find_None_iff)
qed

text \<open>The work left until time \<open>T\<close>: how far the due times are behind it.\<close>

definition backlog :: "nat \<Rightarrow> 'd engine \<Rightarrow> nat" where
  "backlog T e = sum_list (map (\<lambda>d. T + 1 - unat d) (dues e))"

lemma backlog_mono: "list_all2 (\<le>) (xs :: u64 list) ys \<Longrightarrow>
    sum_list (map (\<lambda>d. T + 1 - unat d) ys) \<le> sum_list (map (\<lambda>d. T + 1 - unat d) xs)"
  by (induction rule: list_all2_induct) (auto simp: word_le_nat_alt intro!: add_mono diff_le_mono2)

lemma backlog_strict:
  "list_all2 (\<le>) (xs :: u64 list) ys \<Longrightarrow> i < length xs \<Longrightarrow> unat (xs ! i) \<le> T \<Longrightarrow> xs ! i < ys ! i \<Longrightarrow>
    sum_list (map (\<lambda>d. T + 1 - unat d) ys) < sum_list (map (\<lambda>d. T + 1 - unat d) xs)"
proof (induction arbitrary: i rule: list_all2_induct)
  case (Cons x xs y ys)
  show ?case
  proof (cases i)
    case 0
    then have "T + 1 - unat y < T + 1 - unat x" using Cons.prems by (auto simp: word_less_nat_alt)
    then show ?thesis using backlog_mono [OF Cons.hyps(2), of T] by simp
  next
    case (Suc k)
    then have "sum_list (map (\<lambda>d. T + 1 - unat d) ys) < sum_list (map (\<lambda>d. T + 1 - unat d) xs)"
      using Cons by simp
    moreover have "T + 1 - unat y \<le> T + 1 - unat x" using Cons.hyps(1) by (auto simp: word_le_nat_alt)
    ultimately show ?thesis by simp
  qed
qed simp

lemma invoke_advances:
  assumes "engine_inv e" "invoke v e task = Some (e', us)" "task < length (en_tasks e)"
    and "unat (dues e ! task) < 2 ^ 64 - 1"
  shows "list_all2 (\<le>) (dues e) (dues e')" "dues e ! task < dues e' ! task"
proof -
  show "list_all2 (\<le>) (dues e) (dues e')" using keeps_invoke [OF assms(2)] by (simp add: keeps_def)
  obtain e2 mode ok t0 where k2: "keeps e e2" and f: "finish_invoke v e2 task mode ok t0 = (e', us)"
    using assms(2) by (metis invoke_cases)
  define e3 where "e3 = apply_outputs (env_ops v) (fst (before_outputs v e2 task mode t0)) ok"
  have "keeps e2 e3" unfolding e3_def by (rule keeps_trans [OF keeps_before_outputs keeps_apply_outputs])
  with k2 have k3: "keeps e e3" by (rule keeps_trans)
  have fe: "e' = after_outputs v e3 task ok t0"
    using f by (simp add: finish_invoke_split e3_def case_prod_unfold Let_def)
  obtain e7 where k37: "keeps e3 e7" and e': "e' = set_in_invocation
       ((update_task e7 task (advance_due (en_plan e7) task))\<lparr>en_last_ran := Some task\<rparr>) False"
    unfolding fe by (rule after_outputs_split [of e3 v task ok t0])
  have k: "keeps e e7" using k3 k37 by (rule keeps_trans)
  then have "length (en_tasks e7) = length (en_tasks e)" and p: "en_plan e7 = en_plan e"
    and a: "list_all2 (\<le>) (dues e) (dues e7)" by (simp_all add: keeps_def)
  then have l: "task < length (en_tasks e7)" using assms(3) by simp
  have le: "dues e ! task \<le> dues e7 ! task" using list_all2_nthD [OF a] assms(3) by (simp add: dues_def)
  define P where "P = tk_period_ms (sp_tasks (en_plan e) ! task)"
  have "P \<noteq> 0" using assms(1,3) by (simp add: engine_inv_def Let_def P_def)
  then have P: "0 < unat P" "unat (ucast P :: u64) = unat P"
    using unat_bound [of P] by (simp_all add: unat_gt_0 unsigned_ucast_eq take_bit_nat_eq_self)
  have "dues e' ! task = sat_add (dues e7 ! task) (ucast P)"
    using l by (simp add: e' dues_def set_in_invocation_def update_task_def advance_due_def p P_def)
  then have "unat (dues e' ! task) = min (unat (dues e7 ! task) + unat P) (2 ^ 64 - 1)"
    by (simp add: unat_sat_add P)
  then show "dues e ! task < dues e' ! task"
    using le assms(4) P(1) by (simp add: word_less_nat_alt word_le_nat_alt)
qed

lemma install_dues: "list_all2 (\<le>) (dues e) (dues (fst (try_epoch_install v e)))"
proof (cases rule: try_epoch_install_cases [of v e])
  case (installed n a0 a)
  have "list_all2 (\<le>) (dues e) (map tr_next_due_ms (map (\<lambda>(i, t). if P i t then advance_due q i t else t)
      (enumerate 0 (en_tasks e))))" for P q
    by (auto simp: dues_def list_all2_conv_all_nth nth_enumerate_eq case_prod_unfold)
  then show ?thesis
    using installed(5)
    by (simp add: commit_install_def now_ms_def now_ns_def Let_def swapping_def dues_def case_prod_unfold)
qed (simp_all add: engine_upd_defs)

text \<open>With clock readings up to \<open>T\<close> milliseconds the catch-up loop ends: each round moves a
  due time forward.\<close>

lemma run_due_loop_ends:
  assumes "\<And>k. unat (env_clock v k div 1000000) \<le> T" "T < 2 ^ 64 - 1"
  shows "engine_inv e \<Longrightarrow> backlog T e < fuel \<Longrightarrow> run_due_loop fuel v e n \<noteq> LoopFuel"
proof (induction fuel arbitrary: e n)
  case (Suc fuel)
  define e1 where "e1 = fst (now_ms v (fst (try_epoch_install v e)))"
  define now where "now = snd (now_ms v (fst (try_epoch_install v e)))"
  have i1: "engine_inv e1" using try_epoch_install_inv [OF Suc.prems(1)] by (simp add: e1_def now_ms_def now_ns_def)
  have "dues e1 = dues (fst (try_epoch_install v e))" by (simp add: e1_def now_ms_def now_ns_def)
  then have b1: "backlog T e1 \<le> backlog T e" using backlog_mono [OF install_dues] by (simp add: backlog_def)
  have now: "unat now \<le> T" using assms(1) by (simp add: now_def now_ms_def now_ns_def)
  have r: "run_due_loop (Suc fuel) v e n = (case pick_due e1 now of None \<Rightarrow> LoopDone e1 n
     | Some task \<Rightarrow> (case invoke v e1 task of None \<Rightarrow> LoopPanic | Some (e2, _) \<Rightarrow> run_due_loop fuel v e2 (sat_add n 1)))"
    by (simp only: run_due_loop.simps e1_def now_def case_prod_unfold Let_def)
  show ?case
  proof (cases "pick_due e1 now")
    case (Some task)
    have t: "task < length (en_tasks e1)" "tr_next_due_ms (en_tasks e1 ! task) \<le> now"
      using pick_due_spec [OF i1 Some] by auto
    then have d: "unat (dues e1 ! task) \<le> T" using now by (auto simp: dues_def word_le_nat_alt)
    show ?thesis
    proof (cases "invoke v e1 task")
      case s: (Some x)
      obtain e2 us where x: "invoke v e1 task = Some (e2, us)" using s by (cases x) auto
      have "unat (dues e1 ! task) < 2 ^ 64 - 1" using d assms(2) by simp
      note a = invoke_advances [OF i1 x t(1) this]
      have "backlog T e2 < backlog T e1"
        unfolding backlog_def by (rule backlog_strict [OF a(1) _ d a(2)]) (simp add: dues_def t(1))
      then show ?thesis using Suc b1 invoke_inv [OF i1 x] r Some x by simp
    qed (simp only: r Some option.case, simp)
  qed (simp only: r option.case, simp)
qed simp

text \<open>When the loop ends no task is due any more.\<close>

lemma run_due_loop_done:
  "engine_inv e \<Longrightarrow> run_due_loop fuel v e n = LoopDone e' k \<Longrightarrow>
   \<forall>i<length (en_tasks e'). env_clock v (en_ticks e' - 1) div 1000000 < tr_next_due_ms (en_tasks e' ! i)"
proof (induction fuel arbitrary: e n)
  case (Suc fuel)
  define e0 where "e0 = fst (try_epoch_install v e)"
  define e1 where "e1 = e0\<lparr>en_ticks := Suc (en_ticks e0)\<rparr>"
  have i1: "engine_inv e1" using try_epoch_install_inv [OF Suc.prems(1)] by (simp add: e1_def e0_def)
  have r: "run_due_loop (Suc fuel) v e n = (case pick_due e1 (env_clock v (en_ticks e0) div 1000000) of None \<Rightarrow> LoopDone e1 n
     | Some task \<Rightarrow> (case invoke v e1 task of None \<Rightarrow> LoopPanic | Some (e2, _) \<Rightarrow> run_due_loop fuel v e2 (sat_add n 1)))"
    by (simp only: run_due_loop.simps e1_def e0_def now_ms_def now_ns_def Let_def prod.case)
  show ?case
  proof (cases "pick_due e1 (env_clock v (en_ticks e0) div 1000000)")
    case None
    then show ?thesis using Suc.prems(2) pick_due_none [OF i1 None] r by (simp add: e1_def)
  next
    case (Some task)
    then obtain e2 us where x: "invoke v e1 task = Some (e2, us)" "run_due_loop fuel v e2 (sat_add n 1) = LoopDone e' k"
      using Suc.prems(2) [unfolded r Some option.case] by (auto split: option.splits)
    show ?thesis using Suc.IH [OF invoke_inv [OF i1 x(1)] x(2)] .
  qed
qed simp

end
