(* ===== verification/Spbc.thy ===== *)
theory Spbc
  imports IrCore
begin

section \<open>The \<open>spbc\<close> container (\<open>plc-ir/src/spbc.rs\<close>)\<close>

text \<open>
  Parsing and writing of the binary module container: a 36-byte header, the entry table
  (length-prefixed UTF-8 name and a 32-bit pc), the constants and the code. \<open>as u32\<close> of a
  length is \<open>word_of_nat\<close> and truncates. The lemmas show that the two functions are inverse
  to each other on the modules the container can represent.
\<close>

subsection \<open>Definitions\<close>

definition u16_at :: "bytes \<Rightarrow> nat \<Rightarrow> u16" where
  "u16_at bs i = of_le_bytes (slice i (i + 2) bs)"

definition is_fb_name :: "string \<Rightarrow> bool" where
  "is_fb_name n \<longleftrightarrow> take 3 n = ''fb.'' \<or> take 3 n = ''FB.''"

text \<open>The \<open>for _ in 0..entry_count\<close> loop; it returns the entries and the offset after them.\<close>

fun parse_entries :: "bytes \<Rightarrow> nat \<Rightarrow> nat \<Rightarrow> ir_error + (entry_point list \<times> nat)" where
  "parse_entries bs 0 off = Inr ([], off)"
| "parse_entries bs (Suc n) off =
     (if length bs \<le> off then Inl (IrSpbc ''truncated entry table'')
      else let name_len = unat (bs ! off); off1 = off + 1
           in if length bs < off1 + name_len + 4 then Inl (IrSpbc ''truncated entry name/pc'')
              else let raw = slice off1 (off1 + name_len) bs
                   in if \<not> utf8_valid raw then Inl (IrSpbc ''entry name not utf-8'')
                      else let name = bytes_str raw; off2 = off1 + name_len
                           in rbind (parse_entries bs n (off2 + 4)) (\<lambda>(es, off').
                                Inr (\<lparr>ep_name = name, ep_pc = u32_at bs off2,
                                      ep_is_user_fb = is_fb_name name\<rparr> # es, off')))"

definition parse_spbc :: "bytes \<Rightarrow> ir_error + ir_module" where
  "parse_spbc bs =
     (if length bs < 36 then Inl (IrSpbc ''buffer too short for header'')
      else if slice 0 4 bs \<noteq> SPBC_MAGIC then Inl (IrSpbc ''bad magic'')
      else let major = u16_at bs 4; minor = u16_at bs 6;
               code_size = u32_at bs 8; csize = u32_at bs 12; dsize = u32_at bs 16;
               rsize = u32_at bs 20; ins = u32_at bs 24; outs = u32_at bs 28;
               entry_count = u32_at bs 32;
               max_entries = (length bs - 36) div 5
           in if max_entries < unat entry_count then Inl (IrSpbc ''truncated entry table'')
              else rbind (parse_entries bs (unat entry_count) 36) (\<lambda>(es, off).
                if length bs < off + unat csize + unat code_size
                then Inl (IrSpbc ''truncated const/code'')
                else let off1 = off + unat csize
                     in Inr \<lparr>ir_major = major, ir_minor = minor, const_size = csize,
                             data_size = dsize, retain_size = rsize, input_slots = ins,
                             output_slots = outs, entries = es,
                             const_data = slice off off1 bs,
                             code = slice off1 (off1 + unat code_size) bs\<rparr>))"

fun write_entries :: "entry_point list \<Rightarrow> ir_error + bytes" where
  "write_entries [] = Inr []"
| "write_entries (e # es) =
     (if 255 < length (ep_name e) then Inl (IrSpbc ''entry name too long'')
      else rbind (write_entries es) (\<lambda>rest.
             Inr (word_of_nat (length (ep_name e)) # str_bytes (ep_name e)
                  @ le_bytes 4 (ep_pc e) @ rest)))"

definition write_header :: "ir_module \<Rightarrow> bytes" where
  "write_header m =
     SPBC_MAGIC @ le_bytes 2 (ir_major m) @ le_bytes 2 (ir_minor m)
     @ le_bytes 4 (word_of_nat (length (code m)) :: u32)
     @ le_bytes 4 (word_of_nat (length (const_data m)) :: u32)
     @ le_bytes 4 (data_size m) @ le_bytes 4 (retain_size m)
     @ le_bytes 4 (input_slots m) @ le_bytes 4 (output_slots m)
     @ le_bytes 4 (word_of_nat (length (entries m)) :: u32)"

definition write_spbc :: "ir_module \<Rightarrow> ir_error + bytes" where
  "write_spbc m =
     rbind (write_entries (entries m)) (\<lambda>es. Inr (write_header m @ es @ const_data m @ code m))"

text \<open>Modules the container can represent: what \<open>parse_spbc\<close> produces (lemma
  \<open>parse_spbc_wf\<close>).\<close>

definition wf_entry :: "entry_point \<Rightarrow> bool" where
  "wf_entry e \<longleftrightarrow> length (ep_name e) \<le> 255 \<and> utf8_valid (str_bytes (ep_name e))
     \<and> ep_is_user_fb e = is_fb_name (ep_name e)"

definition wf_module :: "ir_module \<Rightarrow> bool" where
  "wf_module m \<longleftrightarrow> list_all wf_entry (entries m) \<and> length (entries m) < 2 ^ 32
     \<and> length (code m) < 2 ^ 32 \<and> length (const_data m) < 2 ^ 32
     \<and> unat (const_size m) = length (const_data m)"

subsection \<open>Reading back the header\<close>

lemma unat_u32_of_nat: "n < 2 ^ 32 \<Longrightarrow> unat (word_of_nat n :: u32) = n"
  by (simp add: unat_of_nat)

lemma length_magic [simp]: "length SPBC_MAGIC = 4"
  by (simp add: SPBC_MAGIC_def)

lemma length_write_header [simp]: "length (write_header m) = 36"
  by (simp add: write_header_def)

lemma slice_mid: "slice (length xs) (length xs + length ys) (xs @ ys @ zs) = ys"
  by (simp add: slice_def)

lemma u32_at_mid: "length xs = k \<Longrightarrow> u32_at (xs @ le_bytes 4 (w :: u32) @ zs) k = w"
  using slice_mid [of xs "le_bytes 4 w" zs] by (simp add: u32_at_def)

lemma u16_at_mid: "length xs = k \<Longrightarrow> u16_at (xs @ le_bytes 2 (w :: u16) @ zs) k = w"
  using slice_mid [of xs "le_bytes 2 w" zs] by (simp add: u16_at_def)

lemma header_fields:
  fixes m rest
  defines "bs \<equiv> write_header m @ rest"
  shows "slice 0 4 bs = SPBC_MAGIC" "u16_at bs 4 = ir_major m" "u16_at bs 6 = ir_minor m"
    "u32_at bs 8 = word_of_nat (length (code m))"
    "u32_at bs 12 = word_of_nat (length (const_data m))"
    "u32_at bs 16 = data_size m" "u32_at bs 20 = retain_size m"
    "u32_at bs 24 = input_slots m" "u32_at bs 28 = output_slots m"
    "u32_at bs 32 = word_of_nat (length (entries m))"
proof -
  let ?a = "SPBC_MAGIC" let ?b = "le_bytes 2 (ir_major m)" let ?c = "le_bytes 2 (ir_minor m)"
  let ?d = "le_bytes 4 (word_of_nat (length (code m)) :: u32)"
  let ?e = "le_bytes 4 (word_of_nat (length (const_data m)) :: u32)"
  let ?f = "le_bytes 4 (data_size m)" let ?g = "le_bytes 4 (retain_size m)"
  let ?h = "le_bytes 4 (input_slots m)" let ?i = "le_bytes 4 (output_slots m)"
  have bs: "bs = ?a @ ?b @ ?c @ ?d @ ?e @ ?f @ ?g @ ?h @ ?i
      @ le_bytes 4 (word_of_nat (length (entries m)) :: u32) @ rest"
    by (simp add: bs_def write_header_def)
  show "slice 0 4 bs = SPBC_MAGIC" by (simp add: bs slice_0)
  show "u16_at bs 4 = ir_major m" unfolding bs by (rule u16_at_mid) simp
  show "u16_at bs 6 = ir_minor m" unfolding bs using u16_at_mid [of "?a @ ?b" 6] by simp
  show "u32_at bs 8 = word_of_nat (length (code m))"
    unfolding bs using u32_at_mid [of "?a @ ?b @ ?c" 8] by simp
  show "u32_at bs 12 = word_of_nat (length (const_data m))"
    unfolding bs using u32_at_mid [of "?a @ ?b @ ?c @ ?d" 12] by simp
  show "u32_at bs 16 = data_size m"
    unfolding bs using u32_at_mid [of "?a @ ?b @ ?c @ ?d @ ?e" 16] by simp
  show "u32_at bs 20 = retain_size m"
    unfolding bs using u32_at_mid [of "?a @ ?b @ ?c @ ?d @ ?e @ ?f" 20] by simp
  show "u32_at bs 24 = input_slots m"
    unfolding bs using u32_at_mid [of "?a @ ?b @ ?c @ ?d @ ?e @ ?f @ ?g" 24] by simp
  show "u32_at bs 28 = output_slots m"
    unfolding bs using u32_at_mid [of "?a @ ?b @ ?c @ ?d @ ?e @ ?f @ ?g @ ?h" 28] by simp
  show "u32_at bs 32 = word_of_nat (length (entries m))"
    unfolding bs using u32_at_mid [of "?a @ ?b @ ?c @ ?d @ ?e @ ?f @ ?g @ ?h @ ?i" 32] by simp
qed

subsection \<open>The entry table\<close>

lemma write_entries_ok: "list_all wf_entry es \<Longrightarrow> \<exists>ws. write_entries es = Inr ws"
  by (induction es) (auto simp: wf_entry_def)

lemma write_entries_length: "write_entries es = Inr ws \<Longrightarrow> 5 * length es \<le> length ws"
  by (induction es arbitrary: ws) (auto simp: rbind_eq_Inr split: if_splits)

lemma parse_write_entries:
  assumes "list_all wf_entry es" "write_entries es = Inr ws"
  shows "parse_entries (pre @ ws @ rest) (length es) (length pre) = Inr (es, length pre + length ws)"
  using assms
proof (induction es arbitrary: pre ws)
  case Nil
  then show ?case by simp
next
  case (Cons e es)
  define len where "len = length (ep_name e)"
  obtain ws' where ws': "write_entries es = Inr ws'"
    and ws: "ws = word_of_nat len # str_bytes (ep_name e) @ le_bytes 4 (ep_pc e) @ ws'"
    using Cons.prems by (auto simp: rbind_eq_Inr len_def split: if_splits)
  have e: "len \<le> 255" "utf8_valid (str_bytes (ep_name e))" "ep_is_user_fb e = is_fb_name (ep_name e)"
    using Cons.prems(1) by (auto simp: wf_entry_def len_def)
  let ?bs = "pre @ ws @ rest"
  have bs: "?bs = (pre @ [word_of_nat len]) @ str_bytes (ep_name e) @ le_bytes 4 (ep_pc e) @ ws' @ rest"
    by (simp add: ws)
  have nl: "unat (?bs ! length pre) = len"
    using e(1) by (simp add: ws unat_of_nat)
  have name: "slice (length pre + 1) (length pre + 1 + len) ?bs = str_bytes (ep_name e)"
    using slice_mid [of "pre @ [word_of_nat len]" "str_bytes (ep_name e)" "le_bytes 4 (ep_pc e) @ ws' @ rest"]
    by (simp add: bs len_def)
  have pc: "u32_at ?bs (length pre + 1 + len) = ep_pc e"
    unfolding bs using u32_at_mid [of "pre @ [word_of_nat len] @ str_bytes (ep_name e)"]
    by (simp add: len_def)
  have "parse_entries ?bs (length es) (length pre + 1 + len + 4)
      = Inr (es, length pre + 1 + len + 4 + length ws')"
    using Cons.IH [of ws' "(pre @ [word_of_nat len]) @ str_bytes (ep_name e) @ le_bytes 4 (ep_pc e)"]
      Cons.prems(1) ws' by (simp add: bs len_def ac_simps)
  moreover have "length ?bs = length pre + 1 + len + 4 + length ws' + length rest"
    by (simp add: ws len_def)
  ultimately show ?case
    using e(2,3) nl name pc by (simp add: Let_def ws len_def)
qed

text \<open>Conversely, the table \<open>parse_entries\<close> accepts is the one \<open>write_entries\<close> writes.\<close>

lemma u32_le_bytes_slice: "i + 4 \<le> length bs \<Longrightarrow> le_bytes 4 (u32_at bs i) = slice i (i + 4) bs"
  using le_bytes_of_le_bytes [of "slice i (i + 4) bs", where 'a = 32] by (simp add: u32_at_def)

lemma slice_split: "a \<le> b \<Longrightarrow> b \<le> c \<Longrightarrow> slice a c xs = slice a b xs @ slice b c xs"
proof -
  assume "a \<le> b" "b \<le> c"
  then have "c - a = (b - a) + (c - b)" by simp
  then show ?thesis using \<open>a \<le> b\<close> by (simp only: slice_def take_add drop_drop) simp
qed

lemma slice_Suc: "a < length xs \<Longrightarrow> slice a (Suc a) xs = [xs ! a]"
  by (simp add: slice_def take_Suc_conv_app_nth)

lemma parse_entries_sound:
  assumes "parse_entries bs n off = Inr (es, off')"
  shows "length es = n \<and> list_all wf_entry es \<and> off \<le> off' \<and> (off \<le> length bs \<longrightarrow> off' \<le> length bs)
    \<and> write_entries es = Inr (slice off off' bs)"
  using assms
proof (induction n arbitrary: off es)
  case 0
  then show ?case by (simp add: slice_def)
next
  case (Suc n)
  define len where "len = unat (bs ! off)"
  let ?raw = "slice (off + 1) (off + 1 + len) bs"
  let ?o = "off + 1 + len"
  from Suc.prems obtain es' where b: "off < length bs" "?o + 4 \<le> length bs" "utf8_valid ?raw"
    and p: "parse_entries bs n (?o + 4) = Inr (es', off')"
    and es: "es = \<lparr>ep_name = bytes_str ?raw, ep_pc = u32_at bs ?o,
        ep_is_user_fb = is_fb_name (bytes_str ?raw)\<rparr> # es'"
    by (auto simp: Let_def len_def rbind_eq_Inr split: if_splits)
  note IH = Suc.IH [OF p]
  have len: "length ?raw = len" "len \<le> 255"
    using b unat_bound [of "bs ! off"] by (simp_all add: len_def)
  have "word_of_nat len = bs ! off" by (simp add: len_def)
  moreover have "slice off off' bs
      = slice off (Suc off) bs @ ?raw @ slice ?o (?o + 4) bs @ slice (?o + 4) off' bs"
    using slice_split [of off "Suc off" off' bs] slice_split [of "Suc off" ?o off' bs]
      slice_split [of ?o "?o + 4" off' bs] IH by simp
  ultimately have "write_entries es = Inr (slice off off' bs)"
    using IH len b by (simp add: es slice_Suc u32_le_bytes_slice)
  moreover have "wf_entry (hd es)" using len b by (simp add: es wf_entry_def)
  ultimately show ?case using IH b by (simp add: es)
qed


subsection \<open>The container\<close>

lemma parse_write_spbc:
  assumes "wf_module m" "write_spbc m = Inr bs"
  shows "parse_spbc (bs @ trailing) = Inr m"
proof -
  obtain ws where ws: "write_entries (entries m) = Inr ws"
    and bs: "bs = write_header m @ ws @ const_data m @ code m"
    using assms(2) by (auto simp: write_spbc_def rbind_eq_Inr)
  have wf: "list_all wf_entry (entries m)" "length (entries m) < 2 ^ 32" "length (code m) < 2 ^ 32"
    "length (const_data m) < 2 ^ 32" "unat (const_size m) = length (const_data m)"
    using assms(1) by (simp_all add: wf_module_def)
  define all where "all = write_header m @ ws @ const_data m @ code m @ trailing"
  have all: "bs @ trailing = all" by (simp add: all_def bs)
  have len: "length all = 36 + length ws + length (const_data m) + length (code m) + length trailing"
    by (simp add: all_def)
  have p: "parse_entries all (length (entries m)) 36 = Inr (entries m, 36 + length ws)"
    using parse_write_entries [OF wf(1) ws, of "write_header m" "const_data m @ code m @ trailing"]
    by (simp add: all_def)
  have cs: "slice (36 + length ws) (36 + length ws + length (const_data m)) all = const_data m"
    using slice_mid [of "write_header m @ ws" "const_data m" "code m @ trailing"] by (simp add: all_def)
  have co: "slice (36 + length ws + length (const_data m))
      (36 + length ws + length (const_data m) + length (code m)) all = code m"
    using slice_mid [of "write_header m @ ws @ const_data m" "code m" trailing]
    by (simp add: all_def add.assoc)
  have "const_size m = word_of_nat (length (const_data m))"
    by (simp flip: wf(5))
  moreover have "length (entries m) \<le> (length all - 36) div 5"
    using write_entries_length [OF ws] by (simp add: len)
  moreover note hf = header_fields [of m "ws @ const_data m @ code m @ trailing", folded all_def]
  ultimately show ?thesis
    using p cs co wf(2-4) by (simp add: parse_spbc_def Let_def all len hf unat_u32_of_nat)
qed

lemma write_spbc_ok: "wf_module m \<Longrightarrow> \<exists>bs. write_spbc m = Inr bs"
  using write_entries_ok by (fastforce simp: wf_module_def write_spbc_def)

lemma parse_spbc_cases:
  assumes "parse_spbc bs = Inr m"
  obtains off where "36 \<le> length bs" "slice 0 4 bs = SPBC_MAGIC"
    "parse_entries bs (unat (u32_at bs 32)) 36 = Inr (entries m, off)"
    "off + unat (u32_at bs 12) + unat (u32_at bs 8) \<le> length bs"
    "const_data m = slice off (off + unat (u32_at bs 12)) bs"
    "code m = slice (off + unat (u32_at bs 12)) (off + unat (u32_at bs 12) + unat (u32_at bs 8)) bs"
    "ir_major m = u16_at bs 4" "ir_minor m = u16_at bs 6" "const_size m = u32_at bs 12"
    "data_size m = u32_at bs 16" "retain_size m = u32_at bs 20" "input_slots m = u32_at bs 24"
    "output_slots m = u32_at bs 28"
  using assms that
  by (auto simp: parse_spbc_def Let_def rbind_eq_Inr split: if_splits)

lemma unat_u32_less: "unat (w :: u32) < 2 ^ 32"
  using unat_bound [of w] by simp

lemma parse_spbc_wf:
  assumes "parse_spbc bs = Inr m"
  shows "wf_module m"
  using assms
proof (rule parse_spbc_cases)
  fix off
  assume *: "parse_entries bs (unat (u32_at bs 32)) 36 = Inr (entries m, off)"
    "off + unat (u32_at bs 12) + unat (u32_at bs 8) \<le> length bs"
    "const_data m = slice off (off + unat (u32_at bs 12)) bs"
    "code m = slice (off + unat (u32_at bs 12)) (off + unat (u32_at bs 12) + unat (u32_at bs 8)) bs"
    "const_size m = u32_at bs 12"
  then show ?thesis
    using parse_entries_sound [OF *(1)] unat_u32_less by (simp add: wf_module_def)
qed

lemma u16_le_bytes_slice: "i + 2 \<le> length bs \<Longrightarrow> le_bytes 2 (u16_at bs i) = slice i (i + 2) bs"
  using le_bytes_of_le_bytes [of "slice i (i + 2) bs", where 'a = 16] by (simp add: u16_at_def)

lemma header_slices:
  "take 36 bs = slice 0 4 bs @ slice 4 6 bs @ slice 6 8 bs @ slice 8 12 bs @ slice 12 16 bs
     @ slice 16 20 bs @ slice 20 24 bs @ slice 24 28 bs @ slice 28 32 bs @ slice 32 36 bs"
  using slice_split [of 0 4 36 bs] slice_split [of 4 6 36 bs] slice_split [of 6 8 36 bs]
    slice_split [of 8 12 36 bs] slice_split [of 12 16 36 bs] slice_split [of 16 20 36 bs]
    slice_split [of 20 24 36 bs] slice_split [of 24 28 36 bs] slice_split [of 28 32 36 bs]
  by (simp add: slice_0)

lemma write_parse_spbc:
  assumes "parse_spbc bs = Inr m"
  shows "\<exists>w rest. write_spbc m = Inr w \<and> bs = w @ rest"
  using assms
proof (rule parse_spbc_cases)
  fix off
  let ?c = "unat (u32_at bs 12)" and ?k = "unat (u32_at bs 8)"
  assume l: "36 \<le> length bs" and mg: "slice 0 4 bs = SPBC_MAGIC"
    and p: "parse_entries bs (unat (u32_at bs 32)) 36 = Inr (entries m, off)"
    and b: "off + ?c + ?k \<le> length bs"
    and cd: "const_data m = slice off (off + ?c) bs"
    and co: "code m = slice (off + ?c) (off + ?c + ?k) bs"
    and f: "ir_major m = u16_at bs 4" "ir_minor m = u16_at bs 6" "const_size m = u32_at bs 12"
      "data_size m = u32_at bs 16" "retain_size m = u32_at bs 20" "input_slots m = u32_at bs 24"
      "output_slots m = u32_at bs 28"
  note s = parse_entries_sound [OF p]
  have "length (code m) = ?k" "length (const_data m) = ?c" "length (entries m) = unat (u32_at bs 32)"
    using b s by (simp_all add: cd co)
  then have "write_header m = take 36 bs"
    using l by (simp add: write_header_def header_slices f mg u16_le_bytes_slice u32_le_bytes_slice
        del: of_nat_unat) (simp add: u32_le_bytes_slice)
  moreover have "slice 36 (off + ?c + ?k) bs = slice 36 off bs @ const_data m @ code m"
    using s slice_split [of 36 off "off + ?c + ?k" bs]
      slice_split [of off "off + ?c" "off + ?c + ?k" bs] by (simp add: cd co)
  ultimately have "write_spbc m = Inr (take 36 bs @ slice 36 (off + ?c + ?k) bs)"
    using s by (simp add: write_spbc_def)
  moreover have "take 36 bs @ slice 36 (off + ?c + ?k) bs = take (off + ?c + ?k) bs"
    using s slice_split [of 0 36 "off + ?c + ?k" bs] by (simp add: slice_0)
  ultimately show ?thesis by (metis append_take_drop_id)
qed

end
