(* ===== verification/IrProps.thy ===== *)
theory IrProps
  imports Spbc RetainLayout Verifier
begin

section \<open>Properties of the program format\<close>

text \<open>
  Encoding and decoding of instructions and modules, the retain layout, and what acceptance
  by the verifier means. The lemmas are in theories \<open>IrCore\<close>, \<open>Spbc\<close>, \<open>RetainLayout\<close>
  and \<open>Verifier\<close>; a small module serves as the concrete input.
\<close>

text \<open>A module with one task: push two numbers, add them, store the sum, halt.\<close>

definition demo_code :: bytes where
  "demo_code = concat (map encode_instruction
     [WithImm32 OpPushIDint 0 20, WithImm32 OpPushIDint 0 22, Simple OpAdd 0, Simple OpStData 0, Simple OpHalt 0])"

definition demo_module :: ir_module where
  "demo_module = \<lparr>ir_major = IR_MAJOR, ir_minor = IR_MINOR, const_size = 0, data_size = 8, retain_size = 0,
     input_slots = 0, output_slots = 0, entries = [\<lparr>ep_name = ''main'', ep_pc = 0, ep_is_user_fb = False\<rparr>],
     const_data = [], code = demo_code\<rparr>"

lemma length_demo_code: "length demo_code = 28"
  by code_simp

lemma wf_demo: "wf_module demo_module"
proof -
  have "list_all wf_entry (entries demo_module)" by code_simp
  then show ?thesis by (simp add: wf_module_def demo_module_def length_demo_code)
qed

text \<open>C18: an instruction whose fields fit their widths is decoded back from its encoding, at any
  offset of a code segment and whatever follows it, together with the length of the encoding.\<close>

theorem decode_encode:
  assumes "wf_instr i"
  shows "decode_instruction (pre @ encode_instruction i @ rest) (length pre)
           = Inr (i, length (encode_instruction i))"
  using decode_encode_at [OF assms] .

theorem decode_encode_witness:
  "wf_instr (CallFb 1 7 3)
   \<and> decode_instruction ([0, 0, 0, 0] @ encode_instruction (CallFb 1 7 3) @ [9]) (length [0 :: u8, 0, 0, 0])
       = Inr (CallFb 1 7 3, length (encode_instruction (CallFb 1 7 3)))"
proof -
  have "wf_instr (CallFb 1 7 3)" by simp
  then show ?thesis using decode_encode [of "CallFb 1 7 3" "[0, 0, 0, 0]" "[9]"] by blast
qed

text \<open>C16: writing a well-formed module succeeds and parsing the bytes gives the module back, also
  when other bytes follow.\<close>

theorem spbc_write_parse:
  assumes "wf_module m"
  shows "\<exists>bs. write_spbc m = Inr bs \<and> (\<forall>trailing. parse_spbc (bs @ trailing) = Inr m)"
  using write_spbc_ok [OF assms] parse_write_spbc [OF assms] by blast

theorem spbc_write_parse_witness:
  "wf_module demo_module
   \<and> (\<exists>bs. write_spbc demo_module = Inr bs \<and> (\<forall>trailing. parse_spbc (bs @ trailing) = Inr demo_module))"
  using spbc_write_parse [OF wf_demo] wf_demo by blast

text \<open>C17: the parser accepts only images of well-formed modules: what it accepts is the module's
  canonical encoding followed by bytes it does not look at.\<close>

theorem spbc_parse_write:
  assumes "parse_spbc bs = Inr m"
  shows "wf_module m \<and> (\<exists>w rest. write_spbc m = Inr w \<and> bs = w @ rest)"
  using parse_spbc_wf [OF assms] write_parse_spbc [OF assms] by blast

lemma parse_demo: "\<exists>w. parse_spbc w = Inr demo_module"
  using write_spbc_ok [OF wf_demo] parse_write_spbc [OF wf_demo, of _ "[]"] by auto

theorem spbc_parse_write_witness:
  "\<exists>bs. parse_spbc bs = Inr demo_module
     \<and> wf_module demo_module \<and> (\<exists>w rest. write_spbc demo_module = Inr w \<and> bs = w @ rest)"
proof -
  obtain bs where "parse_spbc bs = Inr demo_module" using parse_demo by blast
  from this spbc_parse_write [OF this] show ?thesis by blast
qed

text \<open>C19: \<open>RetainLayout::new\<close> succeeds exactly on symbol lists with distinct non-empty names whose
  cells lie in the segment and do not overlap; the layout it returns finds every symbol of
  the list under its name and nothing else.\<close>

theorem layout_new_correct:
  "case layout_new rsize syms of
     Inl _ \<Rightarrow> \<not> valid_symbols rsize syms
   | Inr l \<Rightarrow> valid_symbols rsize syms
       \<and> (\<forall>n s. (layout_get l n = Some s) = (s \<in> set syms \<and> rs_name s = n))"
proof (cases "layout_new rsize syms")
  case (Inl e)
  then show ?thesis using layout_new_iff [of rsize syms] by auto
next
  case (Inr l)
  then have "valid_symbols rsize syms" "set (rl_symbols l) = set syms"
    by (simp_all add: layout_new_iff)
  then show ?thesis using Inr layout_get_iff [OF layout_new_inv [OF Inr]] by simp
qed

text \<open>C10: when the verifier accepts a module, every entry point has a certificate: an assignment of
  operand-stack types to program points that starts with the empty stack at the entry, at
  which every instruction checks, and which covers every successor of every instruction.\<close>

theorem verified_entry_certified:
  assumes "verify_module m = Inr ()" "e \<in> set (entries m)"
  shows "\<exists>S. certificate m (ep_is_user_fb e) (unat (ep_pc e)) S"
  using verify_entry_certificate [OF verify_module_entry [OF assms]] .

lemma verify_demo: "verify_module demo_module = Inr ()"
  by code_simp

theorem verified_entry_certified_witness:
  "verify_module demo_module = Inr () \<and> hd (entries demo_module) \<in> set (entries demo_module)
   \<and> (\<exists>S. certificate demo_module (ep_is_user_fb (hd (entries demo_module)))
            (unat (ep_pc (hd (entries demo_module)))) S)"
proof -
  have e: "hd (entries demo_module) \<in> set (entries demo_module)" by (simp add: demo_module_def)
  from verified_entry_certified [OF verify_demo e] verify_demo e show ?thesis by blast
qed

end
