(* ===== verification/VmProps.thy ===== *)
theory VmProps
  imports VmSafety IrProps
begin

section \<open>Properties of the virtual machine\<close>

text \<open>
  What the bytecode verifier buys at run time, what a run may change, and the typed memory
  segments. The soundness proofs are in theory \<open>VmSafety\<close>, the segments in \<open>VmMemory\<close>.
\<close>

text \<open>A session: entry points run one after the other on one machine, whatever their results.\<close>

definition session :: "vm \<Rightarrow> (entry_point \<times> u64) list \<Rightarrow> vm" where
  "session s xs = foldl (\<lambda>s (e, now). fst (run_at (unat (ep_pc e)) now s)) s xs"

lemma wp_fst: "wp f (\<lambda>_. I) (\<lambda>_ s'. I s' \<and> P) s \<Longrightarrow> I (fst (f s))"
  by (auto simp: wp_def split: prod.splits sum.splits)

lemma run_at_inv:
  assumes "verify_module m = Inr ()" "vm_inv m n s" "e \<in> set (entries m)"
  shows "vm_inv m n (fst (run_at (unat (ep_pc e)) now s))"
  using run_at_safe [OF assms, of now] by (auto simp: wp_def split: prod.splits sum.splits)

lemma session_inv:
  "verify_module m = Inr () \<Longrightarrow> vm_inv m n s \<Longrightarrow> fst ` set xs \<subseteq> set (entries m) \<Longrightarrow> vm_inv m n (session s xs)"
  unfolding session_def
proof (induction xs arbitrary: s)
  case (Cons x xs)
  then show ?case using run_at_inv [of m n s "fst x" "snd x"] by (simp add: case_prod_unfold)
qed simp

lemma load_verified: "vm_load m cfg = Inr s \<Longrightarrow> vc_verify cfg \<Longrightarrow> verify_module m = Inr ()"
  by (auto simp: vm_load_def rbind_eq_Inr split: sum.splits if_splits)

definition demo_config :: vm_config where
  "demo_config = \<lparr>vc_primitive_instances = 2, vc_instruction_budget = 100, vc_verify = True\<rparr>"

definition demo_entry :: entry_point where
  "demo_entry = \<lparr>ep_name = ''main'', ep_pc = 0, ep_is_user_fb = False\<rparr>"

lemma load_demo: "\<exists>s. vm_load demo_module demo_config = Inr s"
  using verify_demo by (simp add: vm_load_def demo_config_def)

lemma demo_entry_in: "demo_entry \<in> set (entries demo_module)"
  by (simp add: demo_entry_def demo_module_def)

text \<open>C1: a module loaded through the verifier can run its entry points in any order and any number
  of times: no run underflows the operand stack, decodes an invalid instruction, addresses a
  missing slot or runs an undefined operator, and the machine's invariant is kept. Only the
  errors of \<open>allowed_error\<close> remain (data-dependent types and bounds, budget, call depth, unknown
  user blocks, a division that overflows).\<close>

theorem verified_program_safe:
  assumes "vm_load m cfg = Inr s" "vc_verify cfg" "fst ` set xs \<subseteq> set (entries m)" "e \<in> set (entries m)"
  shows "vm_inv m (vc_primitive_instances cfg) (session s xs)
    \<and> (case snd (run_at (unat (ep_pc e)) now (session s xs)) of Inl er \<Rightarrow> allowed_error er | Inr _ \<Rightarrow> True)"
proof -
  note v = load_verified [OF assms(1,2)]
  have i: "vm_inv m (vc_primitive_instances cfg) (session s xs)"
    by (rule session_inv [OF v vm_load_inv [OF assms(1)] assms(3)])
  show ?thesis using i run_at_safe [OF v i assms(4), of now] by (auto simp: wp_def split: prod.splits sum.splits)
qed

theorem verified_program_safe_witness:
  "\<exists>s. vm_load demo_module demo_config = Inr s \<and> vc_verify demo_config
     \<and> fst ` set [(demo_entry, 5 :: u64)] \<subseteq> set (entries demo_module) \<and> demo_entry \<in> set (entries demo_module)
     \<and> vm_inv demo_module (vc_primitive_instances demo_config) (session s [(demo_entry, 5)])
     \<and> (case snd (run_at (unat (ep_pc demo_entry)) 9 (session s [(demo_entry, 5)])) of
          Inl er \<Rightarrow> allowed_error er | Inr _ \<Rightarrow> True)"
proof -
  obtain s where s: "vm_load demo_module demo_config = Inr s" using load_demo by blast
  have v: "vc_verify demo_config" by (simp add: demo_config_def)
  have x: "fst ` set [(demo_entry, 5 :: u64)] \<subseteq> set (entries demo_module)" using demo_entry_in by simp
  show ?thesis using s v x demo_entry_in verified_program_safe [OF s v x demo_entry_in, of 9] by blast
qed




text \<open>C11: a run of any code, verified or not, leaves the inputs and the first-scan flag alone, marks
  every output it changes as written, and raises the retain flag if it changes the retain
  segment.\<close>

theorem run_changes_only:
  assumes "slots_inv n (vm_outputs s)"
  shows "let s' = fst (run_at pc now s) in
    vm_inputs s' = vm_inputs s \<and> vm_first_scan s' = vm_first_scan s \<and> slots_inv n (vm_outputs s')
    \<and> (vm_retain_dirty s' \<or> vm_retain s' = vm_retain s)
    \<and> (\<forall>i. slot_written (vm_outputs s') i \<or> nth_opt (si_values (vm_outputs s')) i = nth_opt (si_values (vm_outputs s)) i)"
  using run_at_frame [OF assms, of pc now]
  by (auto simp: run_frame_def run_reset_def slots_clear_written_def Let_def)

theorem run_changes_only_witness:
  "\<exists>s. slots_inv 0 (vm_outputs s)
     \<and> (let s' = fst (run_at 0 9 s) in
        vm_inputs s' = vm_inputs s \<and> vm_first_scan s' = vm_first_scan s \<and> slots_inv 0 (vm_outputs s')
        \<and> (vm_retain_dirty s' \<or> vm_retain s' = vm_retain s)
        \<and> (\<forall>i. slot_written (vm_outputs s') i \<or> nth_opt (si_values (vm_outputs s')) i = nth_opt (si_values (vm_outputs s)) i))"
proof -
  obtain s where "vm_load demo_module demo_config = Inr s" using load_demo by blast
  then have s: "slots_inv 0 (vm_outputs s)"
    using vm_load_inv [of demo_module demo_config s] by (simp add: vm_inv_def demo_module_def)
  show ?thesis using s run_changes_only [OF s, of 0 9] by blast
qed

text \<open>C12: a store in a data or retain segment succeeds exactly when the value fits; a load at the same
  offset then returns the value with its type, and a load that does not overlap the stored
  cell returns what it returned before.\<close>

theorem segment_store_load:
  assumes "seg_inv g"
  shows "case seg_store g off v pc of
      Inl _ \<Rightarrow> seg_len g < off + byte_width (value_ir_type v)
    | Inr g' \<Rightarrow> off + byte_width (value_ir_type v) \<le> seg_len g \<and> seg_inv g' \<and> seg_len g' = seg_len g
        \<and> seg_load g' off pc' = Inr v
        \<and> (\<forall>k. (k + byte_width (seg_tag_type g k) \<le> off \<or> off + byte_width (value_ir_type v) \<le> k)
              \<longrightarrow> seg_load g' k pc' = seg_load g k pc')"
proof (cases "seg_store g off v pc")
  case (Inl e)
  then show ?thesis using seg_store_ok_iff [of g off v pc] by auto
next
  case (Inr g')
  then show ?thesis
    using seg_store_ok_iff [of g off v pc] seg_store_inv [OF assms Inr] seg_store_load [OF assms Inr]
      seg_store_frame [OF assms Inr] by auto
qed

theorem segment_store_load_witness:
  "seg_inv (seg_zeros 8)
   \<and> (case seg_store (seg_zeros 8) 4 (VDint 7) 0 of
      Inl _ \<Rightarrow> seg_len (seg_zeros 8) < 4 + byte_width (value_ir_type (VDint 7))
    | Inr g' \<Rightarrow> 4 + byte_width (value_ir_type (VDint 7)) \<le> seg_len (seg_zeros 8) \<and> seg_inv g' \<and> seg_len g' = seg_len (seg_zeros 8)
        \<and> seg_load g' 4 0 = Inr (VDint 7)
        \<and> (\<forall>k. (k + byte_width (seg_tag_type (seg_zeros 8) k) \<le> 4 \<or> 4 + byte_width (value_ir_type (VDint 7)) \<le> k)
              \<longrightarrow> seg_load g' k 0 = seg_load (seg_zeros 8) k 0))"
proof -
  have z: "seg_inv (seg_zeros 8)" by simp
  show ?thesis using z segment_store_load [OF z, of 4 "VDint 7" 0 0] by blast
qed

subsection \<open>Two limits of the verifier\<close>





end
