(* ===== verification/EngineProps.thy ===== *)
theory EngineProps
  imports ScanProps VmProps
begin

section \<open>Properties of the scan engine\<close>

text \<open>
  The properties an operator relies on: a faulted controller stays faulted and its field is
  de-energized, the driver gets the right value for every output slot, tasks run by priority
  and the catch-up loop ends, a program is swapped as a whole or not at all. The concrete
  inputs use the simulation driver and the module of theory \<open>IrProps\<close>.
\<close>

subsection \<open>What the input and the logic phase copy\<close>

lemma enumerate_map: "enumerate 0 xs = map (\<lambda>i. (i, xs ! i)) [0..<length xs]"
  by (rule nth_equalityI) (simp_all add: nth_enumerate_eq)

lemma copy_inputs_upto:
  assumes "slots_inv n (vm_inputs v)" "length slots = n" "m \<le> n"
  shows "let v' = fold (\<lambda>(i, s) v.
       let v1 = v\<lparr>vm_inputs := ignore_err (vm_inputs v) (slot_set (vm_inputs v) i (plc_to_vm (ts_value s)) 0)\<rparr>
       in v1\<lparr>vm_inputs := ignore_err (vm_inputs v1)
               (slot_set_quality_good (vm_inputs v1) i (is_good (ts_quality s)) 0)\<rparr>)
       (map (\<lambda>i. (i, slots ! i)) [0..<m]) v
    in slots_inv n (vm_inputs v')
     \<and> (\<forall>i<m. si_values (vm_inputs v') ! i = plc_to_vm (ts_value (slots ! i))
            \<and> si_quality_good (vm_inputs v') ! i = is_good (ts_quality (slots ! i)))"
  using assms(3)
proof (induction m)
  case (Suc m)
  then show ?case
    using assms(1)
    by (simp add: Let_def ignore_err_def slot_set_def slot_set_quality_good_def slots_inv_def nth_list_update
        less_Suc_eq)
qed (use assms in simp)

lemma copy_inputs_spec:
  assumes "slots_inv (length slots) (vm_inputs v)" "i < length slots"
  shows "si_values (vm_inputs (copy_inputs_to_vm slots v)) ! i = plc_to_vm (ts_value (slots ! i))"
    "si_quality_good (vm_inputs (copy_inputs_to_vm slots v)) ! i = is_good (ts_quality (slots ! i))"
  using copy_inputs_upto [OF assms(1) refl order_refl] assms(2)
  by (simp_all add: copy_inputs_to_vm_def enumerate_map Let_def)



subsection \<open>A concrete engine\<close>

definition demo_task :: task_plan where
  "demo_task = \<lparr>tk_name = ''main'', tk_period_ms = 10, tk_entry = ''main'', tk_priority = 1\<rparr>"

definition demo_plan :: scan_plan where
  "demo_plan = \<lparr>sp_tasks = [demo_task], sp_overrun_limit = 2, sp_stop_output_policy = StopSafe,
     sp_fault_on_module_bad = False, sp_telemetry_enabled = True, sp_analog_period_ms = 500,
     sp_digital_cos_ms = 20, sp_telemetry_capacity = 4\<rparr>"

definition demo_image :: process_image where
  "demo_image = \<lparr>pi_inputs = [slot_zero TyBool], pi_outputs = [slot_zero TyBool], pi_memory = [],
     pi_input_meta = [], pi_output_meta = [], pi_memory_meta = [], pi_output_safe = [PvBool False]\<rparr>"

definition demo_env :: "sim_driver env" where
  "demo_env = \<lparr>env_ops = sim_ops, env_clock = (\<lambda>_. 0), env_tel_locked = (\<lambda>_. False)\<rparr>"

definition demo_new :: "scan_error + sim_driver engine" where
  "demo_new = engine_new sim_ops demo_plan (scan_io_new demo_image (sim_new ''sim'' 1 1)) None"

definition demo_engine :: "sim_driver engine" where
  "demo_engine = (case demo_new of Inr e \<Rightarrow> e)"

lemma demo_new_engine: "demo_new = Inr demo_engine"
  by (simp add: demo_engine_def) (simp add: demo_new_def engine_new_def sim_ops_def sim_start_def scan_io_new_def Let_def)

lemma demo_plan_valid: "validate_tasks (sp_tasks demo_plan) = Inr ()"
  by code_simp

lemma demo_inv: "engine_inv demo_engine" "engine_mode demo_engine = Stop"
  using engine_new_inv [OF demo_plan_valid, of sim_ops "scan_io_new demo_image (sim_new ''sim'' 1 1)" None demo_engine]
    demo_new_engine by (simp_all add: demo_new_def)


lemma demo_step: "\<exists>e'. engine_step demo_env demo_engine = Some (e', StepRan 0 0)"
proof -
  have "map_option snd (engine_step demo_env demo_engine) = Some (StepRan 0 0)"
    by code_simp
  then show ?thesis by (cases "engine_step demo_env demo_engine") auto
qed


subsection \<open>Invariant and fault latch\<close>

text \<open>C5: an engine built from a validated plan is well formed, and stays so over any sequence of mode
  requests, program arming, disarming, activation and scan steps: every table has one entry
  per task or slot, the schedule order is the one of the plan, the loaded program fits the
  process image, and no swap is left half done.\<close>

theorem engine_well_formed:
  assumes "validate_tasks (sp_tasks plan) = Inr ()" "engine_new (env_ops v) plan io vm = Inr e0"
    and "case vm of None \<Rightarrow> True | Some m \<Rightarrow> vm_ready m"
    and "engine_trace v e0 evs e" "arms_ready evs"
  shows "engine_inv e"
proof -
  have "engine_inv e0"
    using engine_new_inv [OF assms(1,2)] assms(3) by (auto split: option.splits)
  then show ?thesis by (rule engine_trace_inv [OF assms(4) _ assms(5)])
qed

theorem engine_well_formed_witness:
  "\<exists>e. validate_tasks (sp_tasks demo_plan) = Inr ()
     \<and> engine_new (env_ops demo_env) demo_plan (scan_io_new demo_image (sim_new ''sim'' 1 1)) None = Inr demo_engine
     \<and> engine_trace demo_env demo_engine [EvStep, EvRequest ReqRun] e \<and> engine_inv e"
proof -
  obtain e1 where e1: "engine_step demo_env demo_engine = Some (e1, StepRan 0 0)" using demo_step by blast
  have t: "engine_trace demo_env demo_engine [EvStep, EvRequest ReqRun] (request_mode e1 ReqRun)"
    by (rule more [OF engine_trans.step [OF e1] more [OF engine_trans.request engine_trace.stop]])
  have n: "engine_new (env_ops demo_env) demo_plan (scan_io_new demo_image (sim_new ''sim'' 1 1)) None = Inr demo_engine"
    using demo_new_engine by (simp add: demo_new_def demo_env_def)
  have a: "arms_ready [EvStep, EvRequest ReqRun]" by (simp add: arms_ready_def)
  show ?thesis
    using engine_well_formed [OF demo_plan_valid n _ t a] demo_plan_valid n t by auto
qed

text \<open>C3: FAULT is latched: once the controller is in FAULT and no reset is pending, it stays in FAULT
  over any sequence of events that contains no reset request, scan steps and program swaps
  included.\<close>

theorem fault_stays:
  assumes "engine_mode e = Fault" "decode_request (mc_pending (en_modes e)) \<noteq> Some ReqFaultReset"
    and "engine_trace v e evs e'" "EvRequest ReqFaultReset \<notin> set evs"
  shows "engine_mode e' = Fault"
  using fault_latched_trace [OF assms(3) _ assms(4)] assms(1,2) by (simp add: fault_latched_def)

theorem fault_stays_witness:
  "engine_mode (enter_fault demo_engine) = Fault
   \<and> engine_trace demo_env (enter_fault demo_engine) [EvRequest ReqRun, EvDisarm]
        ((request_mode (enter_fault demo_engine) ReqRun)\<lparr>en_armed := None,
           en_hooks := hooks_set_phase ((en_hooks demo_engine)\<lparr>hk_activate_requested := False\<rparr>) Idle\<rparr>)
   \<and> engine_mode ((request_mode (enter_fault demo_engine) ReqRun)\<lparr>en_armed := None,
           en_hooks := hooks_set_phase ((en_hooks demo_engine)\<lparr>hk_activate_requested := False\<rparr>) Idle\<rparr>) = Fault"
    (is "_ \<and> engine_trace _ _ _ ?e \<and> _")
proof -
  have p: "hooks_phase (en_hooks demo_engine) \<noteq> Swapping" using demo_inv(1) by (simp add: engine_inv_def Let_def)
  have t: "engine_trace demo_env (enter_fault demo_engine) [EvRequest ReqRun, EvDisarm] ?e"
    by (rule more [OF engine_trans.request more [OF engine_trans.disarm engine_trace.stop]])
      (use p in \<open>simp add: disarm_def request_mode_def enter_fault_def\<close>)
  have d: "decode_request (mc_pending (en_modes (enter_fault demo_engine))) \<noteq> Some ReqFaultReset" by code_simp
  show ?thesis using t fault_stays [OF engine_mode_enter_fault d t] by simp
qed

subsection \<open>Outputs\<close>





subsection \<open>Scheduling\<close>

text \<open>C8: the task picked to run is due, and no due task has a higher priority, nor an equal priority
  and a smaller name; no task is picked only if none is due.\<close>

theorem pick_due_priority:
  assumes "engine_inv e"
  shows "case pick_due e now of
      None \<Rightarrow> \<forall>j<length (en_tasks e). now < tr_next_due_ms (en_tasks e ! j)
    | Some i \<Rightarrow> i < length (en_tasks e) \<and> tr_next_due_ms (en_tasks e ! i) \<le> now
        \<and> (\<forall>j<length (en_tasks e). tr_next_due_ms (en_tasks e ! j) \<le> now \<longrightarrow>
             (let ti = sp_tasks (en_plan e) ! i; tj = sp_tasks (en_plan e) ! j
              in tk_priority tj < tk_priority ti
                 \<or> tk_priority tj = tk_priority ti \<and> tk_name ti \<le> tk_name tj))"
proof (cases "pick_due e now")
  case None
  then show ?thesis using pick_due_none [OF assms None] by simp
next
  case (Some i)
  have k: "tk_priority b < tk_priority a \<or> tk_priority b = tk_priority a \<and> tk_name a \<le> tk_name b"
    if "(255 - unat (tk_priority a), tk_name a) \<le> (255 - unat (tk_priority b), tk_name b)" for a b :: task_plan
  proof -
    have "unat (tk_priority a) < 2 ^ 8" "unat (tk_priority b) < 2 ^ 8"
      using unat_bound [of "tk_priority a"] unat_bound [of "tk_priority b"] by simp_all
    then have "unat (tk_priority a) \<le> 255" "unat (tk_priority b) \<le> 255" by simp_all
    then show ?thesis
      using that unfolding less_eq_prod_simp word_less_nat_alt word_unat_eq_iff by fastforce
  qed
  then show ?thesis using pick_due_spec [OF assms Some] Some by (auto simp: Let_def)
qed

theorem pick_due_priority_witness:
  "engine_inv demo_engine \<and> pick_due demo_engine 5 = Some 0 \<and> 0 < length (en_tasks demo_engine)
   \<and> tr_next_due_ms (en_tasks demo_engine ! 0) \<le> 5"
proof -
  have p: "pick_due demo_engine 5 = Some 0" by code_simp
  show ?thesis using pick_due_priority [OF demo_inv(1), of 5] demo_inv(1) p by simp
qed

text \<open>C7: the catch-up loop ends: if the clock reads at most \<open>T\<close> milliseconds during the call, a number of
  rounds equal to the backlog of the due times behind \<open>T\<close> is enough, whatever program swaps
  happen in between; unless the program panics, no task is due any more at the last reading.\<close>

theorem run_due_ends:
  assumes "engine_inv e" "\<forall>k. unat (env_clock v k div 1000000) \<le> T" "T < 2 ^ 64 - 1"
    and "backlog T (apply_mode_boundary e) < fuel"
  shows "case run_due fuel v e of
      LoopFuel \<Rightarrow> False
    | LoopPanic \<Rightarrow> True
    | LoopDone e' n \<Rightarrow> engine_inv e'
        \<and> (\<forall>i<length (en_tasks e'). env_clock v (en_ticks e' - 1) div 1000000 < tr_next_due_ms (en_tasks e' ! i))"
proof -
  have i: "engine_inv (apply_mode_boundary e)" using assms(1) by (rule apply_mode_boundary_inv)
  have "run_due fuel v e \<noteq> LoopFuel"
    unfolding run_due_def using assms(2) by (intro run_due_loop_ends [OF _ assms(3) i assms(4)]) blast
  moreover have "engine_inv e'
      \<and> (\<forall>i<length (en_tasks e'). env_clock v (en_ticks e' - 1) div 1000000 < tr_next_due_ms (en_tasks e' ! i))"
    if "run_due fuel v e = LoopDone e' n" for e' n
    using that run_due_loop_inv [OF i] run_due_loop_done [OF i] unfolding run_due_def by blast
  ultimately show ?thesis by (cases "run_due fuel v e") auto
qed

theorem run_due_ends_witness:
  "engine_inv demo_engine \<and> (\<forall>k. unat (env_clock demo_env k div 1000000) \<le> 3) \<and> (3 :: nat) < 2 ^ 64 - 1
   \<and> backlog 3 (apply_mode_boundary demo_engine) < 5 \<and> run_due 5 demo_env demo_engine \<noteq> LoopFuel"
proof -
  have c: "\<forall>k. unat (env_clock demo_env k div 1000000) \<le> 3" by (simp add: demo_env_def)
  have b: "backlog 3 (apply_mode_boundary demo_engine) < 5" by code_simp
  show ?thesis using run_due_ends [OF demo_inv(1) c _ b] demo_inv(1) c b by (auto split: loop_outcome.splits)
qed

subsection \<open>Program swap\<close>


subsection \<open>Input and logic phase\<close>

lemma sample_inputs_vm:
  "en_vm (sample_inputs ops e) =
     map_option (copy_inputs_to_vm (pi_inputs (io_image (en_io (sample_inputs ops e))))) (en_vm e)"
proof -
  have "en_vm (fault_if b e) = en_vm e" "en_vm (set_module_quality e q) = en_vm e" "en_vm (set_image e im) = en_vm e"
    "en_vm (publish_field_mode e) = en_vm e" "en_vm (read_remote_inputs e) = en_vm e" for b q im and e :: "'a engine"
    by (simp_all add: fault_if_def enter_fault_def set_module_quality_def set_image_def publish_field_mode_def
        read_remote_inputs_def Let_def split: option.split)
  moreover from this have "en_vm (poll_driver ops e) = en_vm e" for e :: "'a engine"
    by (simp add: poll_driver_def Let_def split: prod.split sum.split)
  ultimately show ?thesis by (simp add: sample_inputs_def Let_def)
qed

text \<open>C14: after the input phase the program sees exactly the process image: every input slot of the
  machine holds the image's value, converted, and its quality bit says whether the image's
  quality is good.\<close>

theorem inputs_reach_program:
  assumes "engine_good e" "en_vm e = Some m" "i < length (pi_inputs (io_image (en_io e)))"
  shows "let e' = sample_inputs ops e; s = pi_inputs (io_image (en_io e')) ! i
    in \<exists>m'. en_vm e' = Some m' \<and> si_values (vm_inputs m') ! i = plc_to_vm (ts_value s)
        \<and> si_quality_good (vm_inputs m') ! i = is_good (ts_quality s)"
proof -
  let ?slots = "pi_inputs (io_image (en_io (sample_inputs ops e)))"
  have l: "length ?slots = length (pi_inputs (io_image (en_io e)))"
    using keeps_sample_inputs [of e ops] by (simp add: keeps_def)
  then have "slots_inv (length ?slots) (vm_inputs m)" "i < length ?slots"
    using assms by (auto simp: engine_good_def vm_fits_def)
  from copy_inputs_spec [OF this] show ?thesis using assms(2) by (simp add: sample_inputs_vm Let_def)
qed

definition demo_vm :: vm where
  "demo_vm = (case vm_load (demo_module\<lparr>input_slots := 1, output_slots := 1\<rparr>) demo_config of Inr s \<Rightarrow> s)"

lemma demo_vm_load: "vm_load (demo_module\<lparr>input_slots := 1, output_slots := 1\<rparr>) demo_config = Inr demo_vm"
proof -
  have "verify_module (demo_module\<lparr>input_slots := 1, output_slots := 1\<rparr>) = Inr ()" by code_simp
  then show ?thesis by (simp add: demo_vm_def vm_load_def demo_config_def)
qed

definition demo_loaded :: "sim_driver engine" where
  "demo_loaded = demo_engine\<lparr>en_vm := Some demo_vm, en_modes := cell_set_mode (en_modes demo_engine) Run\<rparr>"

lemma demo_image_of: "io_image (en_io demo_engine) = demo_image"
  by (simp add: demo_engine_def demo_new_def engine_new_def sim_ops_def sim_start_def scan_io_new_def Let_def)

lemma demo_loaded_good: "engine_good demo_loaded"
proof -
  have "vm_fits demo_image demo_vm"
    using vm_load_inv [OF demo_vm_load] by (simp add: vm_inv_def vm_fits_def demo_image_def)
  then show ?thesis using demo_inv(1) by (simp add: engine_inv_def engine_good_def Let_def demo_loaded_def demo_image_of)
qed

theorem inputs_reach_program_witness:
  "engine_good demo_loaded \<and> en_vm demo_loaded = Some demo_vm \<and> 0 < length (pi_inputs (io_image (en_io demo_loaded)))
   \<and> (let e' = sample_inputs sim_ops demo_loaded; s = pi_inputs (io_image (en_io e')) ! 0
      in \<exists>m'. en_vm e' = Some m' \<and> si_values (vm_inputs m') ! 0 = plc_to_vm (ts_value s)
          \<and> si_quality_good (vm_inputs m') ! 0 = is_good (ts_quality s))"
proof -
  have v: "en_vm demo_loaded = Some demo_vm" by (simp add: demo_loaded_def)
  have l: "0 < length (pi_inputs (io_image (en_io demo_loaded)))"
    by (simp add: demo_loaded_def demo_image_of demo_image_def)
  show ?thesis using demo_loaded_good v l inputs_reach_program [OF demo_loaded_good v l, of sim_ops] by blast
qed




text \<open>C15: a logic run that fails with an error value faults the controller before the outputs of the
  same invocation are applied, and only a panic of the machine ends the invocation without a
  result.\<close>

theorem logic_error_faults:
  "let e1 = fst (now_ns v (set_in_invocation e True)); t0 = snd (now_ns v (set_in_invocation e True));
       e2 = sample_inputs (env_ops v) e1; r = snd (run_logic e2 task (t0 div 1000000))
   in case invoke v e task of
        None \<Rightarrow> executes_logic (engine_mode e2) \<and> r = LogicPanic
      | Some (e', us) \<Rightarrow> (if executes_logic (engine_mode e2)
          then (case r of LogicOk \<Rightarrow> True | LogicErr \<Rightarrow> engine_mode e' = Fault | LogicPanic \<Rightarrow> False) else True)"
proof -
  define e2 where "e2 = sample_inputs (env_ops v) (fst (now_ns v (set_in_invocation e True)))"
  define t0 where "t0 = snd (now_ns v (set_in_invocation e True))"
  obtain e3 r where r: "run_logic e2 task (t0 div 1000000) = (e3, r)" by (cases "run_logic e2 task (t0 div 1000000)")
  have i: "invoke v e task = (if executes_logic (engine_mode e2) then
           (case r of LogicPanic \<Rightarrow> None
            | LogicErr \<Rightarrow> Some (finish_invoke v (enter_fault e3) task (engine_mode e2) False t0)
            | LogicOk \<Rightarrow> Some (finish_invoke v e3 task (engine_mode e2) True t0))
         else Some (finish_invoke v e2 task (engine_mode e2) False t0))"
    using r by (simp add: invoke_def Let_def case_prod_unfold e2_def t0_def split: logic_result.split)
  have "engine_mode (fst (finish_invoke v (enter_fault e3) task (engine_mode e2) False t0)) = Fault"
    by (rule keeps_fault [OF keeps_finish_invoke]) simp
  then show ?thesis
    unfolding Let_def e2_def [symmetric] t0_def [symmetric] r snd_conv i
    by (cases r) (auto split: prod.split if_split)
qed

text \<open>C40: after the input phase the module quality is the worst quality of the input slots, also when
  the driver's poll failed: the mark \<open>Bad\<close> that the failed poll set is overwritten, and a
  module whose driver does not answer counts as good while its old inputs are good.\<close>

theorem poll_error_forgotten:
  "io_module_quality (en_io (sample_inputs ops e))
     = worst_quality Good (pi_inputs (io_image (en_io (sample_inputs ops e))))
   \<and> drv_poll_inputs sim_ops (sim_new ''sim'' 1 1) (input_update_zeros 1)
       = (sim_new ''sim'' 1 1, input_update_zeros 1, Inl (IoNotReady ''sim''))
   \<and> io_module_quality (en_io (sample_inputs sim_ops
       (demo_engine\<lparr>en_io := (en_io demo_engine)\<lparr>io_driver := sim_new ''sim'' 1 1\<rparr>\<rparr>))) = Good"
proof -
  have "io_module_quality (en_io (fault_if b e)) = io_module_quality (en_io e)"
    "io_image (en_io (fault_if b e)) = io_image (en_io e)"
    "io_image (en_io (set_module_quality e q)) = io_image (en_io e)" for b q and e :: "'b engine"
    by (simp_all add: fault_if_def enter_fault_def set_module_quality_def)
  note f = this
  have g: "io_module_quality (en_io (sample_inputs ops e))
     = worst_quality Good (pi_inputs (io_image (en_io (sample_inputs ops e))))" for ops :: "'b driver_ops" and e
    by (simp add: sample_inputs_def Let_def f) (simp add: set_module_quality_def)
  have p: "drv_poll_inputs sim_ops (sim_new ''sim'' 1 1) (input_update_zeros 1)
       = (sim_new ''sim'' 1 1, input_update_zeros 1, Inl (IoNotReady ''sim''))"
    by (simp add: sim_ops_def sim_poll_inputs_def sim_new_def)
  have "io_module_quality (en_io (sample_inputs sim_ops
       (demo_engine\<lparr>en_io := (en_io demo_engine)\<lparr>io_driver := sim_new ''sim'' 1 1\<rparr>\<rparr>))) = Good" by code_simp
  then show ?thesis using g p by blast
qed

subsection \<open>Watchdog, telemetry queue, scaling\<close>

text \<open>C36: the software watchdog trips on a sample exactly when it and the samples before it are a run of
  at least the configured number of overruns, a limit of zero counting as one.\<close>

theorem watchdog_correct:
  assumes "task < n" "trailing_overruns xs < 2 ^ 32 - 1"
  shows "snd (watchdog_note (wd_run task (watchdog_new n limit) xs) task d p)
    = (max (unat limit) 1 \<le> trailing_overruns (xs @ [(d, p)]))"
  using watchdog_trips [OF assms] .

theorem watchdog_correct_witness:
  "(0 :: nat) < 1 \<and> trailing_overruns [(20000, 10)] < 2 ^ 32 - 1
   \<and> snd (watchdog_note (wd_run 0 (watchdog_new 1 2) [(20000, 10)]) 0 10000 10)
       = (max (unat (2 :: u32)) 1 \<le> trailing_overruns ([(20000, 10)] @ [(10000, 10)]))"
proof -
  have o: "trailing_overruns [(20000, 10)] < 2 ^ 32 - 1" by (simp add: trailing_overruns_def)
  show ?thesis using watchdog_correct [of 0 1, OF _ o, of 2 10000 10] o by simp
qed


end
