(* ===== verification/RetainCodec.thy ===== *)
theory RetainCodec
  imports RetainLayout
begin

unbundle bit_operations_syntax

section \<open>Retain records and migration (\<open>plc-retain\<close>: crc, layout, codec, map)\<close>

text \<open>
  The retained variables of a program travel as records of name, type and value bytes: taken
  from a retain image by the layout of the program, encoded into the payload of a slot file,
  decoded again, and applied to the layout of a possibly different program. The lemmas show
  that decoding inverts encoding and what the applied image contains, cell by cell.
\<close>

subsection \<open>Definitions\<close>

datatype retain_error =
    ReIo string
  | ReInvalidProgramId string
  | ReImageSize u32 nat
  | ReIncompatible "string list"
  | ReCodec string

definition CRC_POLY :: u32 where "CRC_POLY = 0xEDB88320"

fun crc_bits :: "nat \<Rightarrow> u32 \<Rightarrow> u32" where
  "crc_bits 0 crc = crc"
| "crc_bits (Suc n) crc =
     crc_bits n (if crc AND 1 = 0 then drop_bit 1 crc else drop_bit 1 crc XOR CRC_POLY)"

definition crc32 :: "bytes \<Rightarrow> u32" where
  "crc32 data = NOT (foldl (\<lambda>crc b. crc_bits 8 (crc XOR ucast b)) 0xFFFFFFFF data)"

definition schema_hash :: "retain_layout \<Rightarrow> u32" where
  "schema_hash layout =
     crc32 (concat (map (\<lambda>sy. str_bytes (rs_name sy) @ [0, ir_type_u8 (rs_ty sy)]
                              @ le_bytes 4 (rs_offset sy) @ le_bytes 4 (rl_size layout)) (rl_symbols layout)))"

record retain_record =
  rr_name :: string
  rr_ty :: ir_type
  rr_value :: bytes

definition cell :: "retain_symbol \<Rightarrow> bytes \<Rightarrow> bytes" where
  "cell sy img = slice (unat (rs_offset sy)) (unat (rs_offset sy) + byte_width (rs_ty sy)) img"

fun encode_symbols :: "retain_symbol list \<Rightarrow> bytes \<Rightarrow> retain_error + bytes" where
  "encode_symbols [] img = Inr []"
| "encode_symbols (sy # sys) img =
     (if 2 ^ 16 \<le> length (rs_name sy) then Inl (ReCodec ''symbol name exceeds u16 length'')
      else rbind (encode_symbols sys img) (\<lambda>rest.
        Inr (le_bytes 2 (word_of_nat (length (rs_name sy)) :: u16) @ str_bytes (rs_name sy)
             @ [ir_type_u8 (rs_ty sy), 0] @ cell sy img @ rest)))"

definition encode_records :: "retain_layout \<Rightarrow> bytes \<Rightarrow> retain_error + bytes" where
  "encode_records layout img =
     (if length img \<noteq> unat (rl_size layout) then Inl (ReImageSize (rl_size layout) (length img))
      else encode_symbols (rl_symbols layout) img)"

function decode_records_from :: "bytes \<Rightarrow> nat \<Rightarrow> retain_error + retain_record list" where
  "decode_records_from p i =
     (if length p \<le> i then Inr []
      else if length p < i + 2 then Inl (ReCodec ''truncated name_len'')
      else let name_len = unat (of_le_bytes (slice i (i + 2) p) :: u16); j = i + 2
           in if length p < j + name_len + 2 then Inl (ReCodec ''truncated name or type'')
              else if \<not> utf8_valid (slice j (j + name_len) p) then Inl (ReCodec ''symbol name is not UTF-8'')
              else let name = bytes_str (slice j (j + name_len) p); k = j + name_len
                   in if p ! (k + 1) \<noteq> 0 then Inl (ReCodec ''nonzero record pad'')
                      else case ir_type_from_u8 (p ! k) of
                        None \<Rightarrow> Inl (ReCodec ''unknown type tag'')
                      | Some ty \<Rightarrow>
                          if length p < k + 2 + byte_width ty then Inl (ReCodec ''truncated value'')
                          else rbind (decode_records_from p (k + 2 + byte_width ty)) (\<lambda>recs.
                            Inr (\<lparr>rr_name = name, rr_ty = ty, rr_value = slice (k + 2) (k + 2 + byte_width ty) p\<rparr> # recs)))"
  by pat_completeness auto
termination
  by (relation "measure (\<lambda>(p, i). length p - i)") auto

declare decode_records_from.simps [simp del]

definition decode_records :: "bytes \<Rightarrow> retain_error + retain_record list" where
  "decode_records p = decode_records_from p 0"

definition record_of :: "bytes \<Rightarrow> retain_symbol \<Rightarrow> retain_record" where
  "record_of img sy = \<lparr>rr_name = rs_name sy, rr_ty = rs_ty sy, rr_value = cell sy img\<rparr>"

definition records_from_image :: "retain_layout \<Rightarrow> bytes \<Rightarrow> retain_error + retain_record list" where
  "records_from_image layout img =
     (if length img \<noteq> unat (rl_size layout) then Inl (ReImageSize (rl_size layout) (length img))
      else Inr (map (record_of img) (rl_symbols layout)))"

record map_report =
  mr_kept :: u32
  mr_cold_defaults :: u32
  mr_dropped :: u32
  mr_zeroed_incompat :: "string list"

record mapped_retain =
  mp_image :: bytes
  mp_report :: map_report

text \<open>The variables of the loop of \<open>apply_records\<close>.\<close>

record apply_state =
  as_image :: bytes
  as_kept :: u32
  as_dropped :: u32
  as_incompat :: "string list"
  as_used :: "bool list"

fun apply_loop :: "retain_layout \<Rightarrow> retain_record list \<Rightarrow> apply_state \<Rightarrow> retain_error + apply_state" where
  "apply_loop layout [] st = Inr st"
| "apply_loop layout (r # rs) st =
     (case layout_get layout (rr_name r) of
        None \<Rightarrow> apply_loop layout rs (st\<lparr>as_dropped := as_dropped st + 1\<rparr>)
      | Some sy \<Rightarrow>
          if rs_ty sy = rr_ty r then
            if length (rr_value r) \<noteq> byte_width (rr_ty r) then Inl (ReCodec ''record value width'')
            else apply_loop layout rs
              (st\<lparr>as_image := blit (as_image st) (unat (rs_offset sy)) (rr_value r),
                  as_kept := as_kept st + 1,
                  as_used := (case binary_search (map rs_name (rl_symbols layout)) (rr_name r) of
                                None \<Rightarrow> as_used st | Some i \<Rightarrow> (as_used st)[i := True])\<rparr>)
          else apply_loop layout rs (st\<lparr>as_incompat := as_incompat st @ [rr_name r]\<rparr>))"

definition apply_records :: "retain_record list \<Rightarrow> retain_layout \<Rightarrow> bool \<Rightarrow> retain_error + mapped_retain" where
  "apply_records recs layout force_incompat =
     rbind (apply_loop layout recs
       \<lparr>as_image = replicate (unat (rl_size layout)) 0, as_kept = 0, as_dropped = 0, as_incompat = [],
        as_used = replicate (length (rl_symbols layout)) False\<rparr>) (\<lambda>st.
     if as_incompat st \<noteq> [] \<and> \<not> force_incompat then Inl (ReIncompatible (as_incompat st))
     else let zeroed = (if force_incompat then as_incompat st else []);
              cold = word_of_nat (length (filter Not (as_used st)))
          in Inr \<lparr>mp_image = as_image st,
                  mp_report = \<lparr>mr_kept = as_kept st, mr_cold_defaults = sat_sub cold (word_of_nat (length zeroed)),
                               mr_dropped = as_dropped st, mr_zeroed_incompat = zeroed\<rparr>\<rparr>)"

definition map_retain :: "retain_layout \<Rightarrow> bytes \<Rightarrow> retain_layout \<Rightarrow> bool \<Rightarrow> retain_error + mapped_retain" where
  "map_retain old old_image new force_incompat =
     rbind (records_from_image old old_image) (\<lambda>recs. apply_records recs new force_incompat)"

subsection \<open>Decoding inverts encoding\<close>

text \<open>Names are Rust strings: their bytes are UTF-8.\<close>

definition names_ok :: "retain_symbol list \<Rightarrow> bool" where
  "names_ok sys \<longleftrightarrow> list_all (\<lambda>sy. utf8_valid (str_bytes (rs_name sy)) \<and> length (rs_name sy) < 2 ^ 16) sys"

lemma encode_symbols_ok: "names_ok sys \<Longrightarrow> \<exists>p. encode_symbols sys img = Inr p"
  by (induction sys) (auto simp: names_ok_def)

lemma slice_at: "slice (length pre) (length pre + length xs) (pre @ xs @ post) = xs"
  by (simp add: slice_def)

lemma decode_record_step:
  assumes "utf8_valid (str_bytes n)" "length n < 2 ^ 16" "length v = byte_width ty"
  shows "decode_records_from (pre @ le_bytes 2 (word_of_nat (length n) :: u16) @ str_bytes n @ [ir_type_u8 ty, 0] @ v @ rest)
      (length pre)
    = rbind (decode_records_from (pre @ le_bytes 2 (word_of_nat (length n) :: u16) @ str_bytes n @ [ir_type_u8 ty, 0] @ v @ rest)
        (length pre + 4 + length n + byte_width ty)) (\<lambda>recs. Inr (\<lparr>rr_name = n, rr_ty = ty, rr_value = v\<rparr> # recs))"
proof -
  define lb where "lb = le_bytes 2 (word_of_nat (length n) :: u16)"
  have lb: "length lb = 2" "of_le_bytes lb = (word_of_nat (length n) :: u16)" by (simp_all add: lb_def)
  define p where "p = pre @ lb @ str_bytes n @ [ir_type_u8 ty, 0] @ v @ rest"
  define i where "i = length pre"
  have len: "length p = i + 4 + length n + byte_width ty + length rest" using assms(3) lb by (simp add: p_def i_def)
  have nl: "unat (of_le_bytes (slice i (i + 2) p) :: u16) = length n"
  proof -
    have "slice i (i + 2) p = lb" using slice_at [of pre lb] lb by (simp add: p_def i_def)
    then show ?thesis using assms(2) lb by (simp add: unat_of_nat)
  qed
  have nm: "slice (i + 2) (i + 2 + length n) p = str_bytes n"
    using slice_at [of "pre @ lb" "str_bytes n"] lb by (simp add: p_def i_def)
  have tg: "p ! (i + 2 + length n) = ir_type_u8 ty" "p ! (i + 2 + length n + 1) = 0"
    using lb by (simp_all add: p_def i_def nth_append)
  have vl: "slice (i + 2 + length n + 2) (i + 2 + length n + 2 + byte_width ty) p = v"
    using slice_at [of "pre @ lb @ str_bytes n @ [ir_type_u8 ty, 0]" v rest] lb assms(3)
    by (simp add: p_def i_def add.assoc)
  have c: "\<not> length p \<le> i" "\<not> length p < i + 2" "\<not> length p < i + 2 + length n + 2"
    "\<not> length p < i + 2 + length n + 2 + byte_width ty" by (simp_all add: len)
  have "decode_records_from p i = rbind (decode_records_from p (i + 2 + length n + 2 + byte_width ty))
      (\<lambda>recs. Inr (\<lparr>rr_name = n, rr_ty = ty, rr_value = v\<rparr> # recs))"
    by (subst decode_records_from.simps)
      (simp only: Let_def nl nm tg vl c assms(1) if_False if_True not_True_eq_False simp_thms ir_type_roundtrip
        option.case bytes_str_str_bytes)
  moreover have "i + 2 + length n + 2 + byte_width ty = length pre + 4 + length n + byte_width ty"
    by (simp add: i_def)
  ultimately show ?thesis unfolding p_def lb_def by (simp only: i_def)
qed

lemma decode_encode_symbols:
  assumes "names_ok sys" "\<forall>sy\<in>set sys. unat (rs_offset sy) + byte_width (rs_ty sy) \<le> length img"
    and "encode_symbols sys img = Inr p"
  shows "decode_records_from (pre @ p) (length pre) = Inr (map (record_of img) sys)"
  using assms
proof (induction sys arbitrary: p pre)
  case Nil
  then show ?case by (simp add: decode_records_from.simps)
next
  case (Cons sy sys)
  obtain rest where r: "encode_symbols sys img = Inr rest"
    and p: "p = le_bytes 2 (word_of_nat (length (rs_name sy)) :: u16) @ str_bytes (rs_name sy)
             @ [ir_type_u8 (rs_ty sy), 0] @ cell sy img @ rest"
    using Cons.prems(3) by (auto simp: rbind_eq_Inr split: if_splits)
  have l: "length (cell sy img) = byte_width (rs_ty sy)" using Cons.prems(2) by (simp add: cell_def)
  let ?pre = "pre @ le_bytes 2 (word_of_nat (length (rs_name sy)) :: u16) @ str_bytes (rs_name sy)
             @ [ir_type_u8 (rs_ty sy), 0] @ cell sy img"
  have "decode_records_from (?pre @ rest) (length ?pre) = Inr (map (record_of img) sys)"
    using Cons.prems(1,2) by (intro Cons.IH [OF _ _ r]) (simp_all add: names_ok_def)
  then have "decode_records_from (pre @ p) (length pre + 4 + length (rs_name sy) + byte_width (rs_ty sy))
      = Inr (map (record_of img) sys)"
    using l by (simp add: p add.assoc numeral_eq_Suc)
  moreover have "decode_records_from (pre @ p) (length pre)
    = rbind (decode_records_from (pre @ p) (length pre + 4 + length (rs_name sy) + byte_width (rs_ty sy)))
        (\<lambda>recs. Inr (\<lparr>rr_name = rs_name sy, rr_ty = rs_ty sy, rr_value = cell sy img\<rparr> # recs))"
    unfolding p by (rule decode_record_step) (use Cons.prems(1) l in \<open>simp_all add: names_ok_def\<close>)
  ultimately show ?case by (simp add: record_of_def)
qed

lemma layout_bounds:
  "layout_inv l \<Longrightarrow> sy \<in> set (rl_symbols l) \<Longrightarrow> unat (rs_offset sy) + byte_width (rs_ty sy) \<le> unat (rl_size l)"
  by (auto simp: layout_inv_def valid_symbols_def)

lemma decode_encode_records:
  assumes "layout_inv l" "names_ok (rl_symbols l)" "length img = unat (rl_size l)"
  obtains p where "encode_records l img = Inr p" "decode_records p = Inr (map (record_of img) (rl_symbols l))"
proof -
  obtain p where p: "encode_symbols (rl_symbols l) img = Inr p" using encode_symbols_ok [OF assms(2)] by blast
  have "decode_records p = Inr (map (record_of img) (rl_symbols l))"
    using decode_encode_symbols [OF assms(2) _ p, of "[]"] layout_bounds [OF assms(1)] assms(3)
    by (simp add: decode_records_def)
  then show thesis using that p assms(3) by (simp add: encode_records_def)
qed


subsection \<open>What the applied image contains\<close>

definition matches :: "retain_layout \<Rightarrow> retain_record \<Rightarrow> bool" where
  "matches l r \<longleftrightarrow> (case layout_get l (rr_name r) of None \<Rightarrow> False | Some sy \<Rightarrow> rs_ty sy = rr_ty r)"

definition clashes :: "retain_layout \<Rightarrow> retain_record \<Rightarrow> bool" where
  "clashes l r \<longleftrightarrow> (case layout_get l (rr_name r) of None \<Rightarrow> False | Some sy \<Rightarrow> rs_ty sy \<noteq> rr_ty r)"

definition apply_one :: "retain_layout \<Rightarrow> apply_state \<Rightarrow> retain_record \<Rightarrow> apply_state" where
  "apply_one l st r =
     (case layout_get l (rr_name r) of
        None \<Rightarrow> st\<lparr>as_dropped := as_dropped st + 1\<rparr>
      | Some sy \<Rightarrow>
          if rs_ty sy = rr_ty r then
            st\<lparr>as_image := blit (as_image st) (unat (rs_offset sy)) (rr_value r),
               as_kept := as_kept st + 1,
               as_used := (case binary_search (map rs_name (rl_symbols l)) (rr_name r) of
                             None \<Rightarrow> as_used st | Some i \<Rightarrow> (as_used st)[i := True])\<rparr>
          else st\<lparr>as_incompat := as_incompat st @ [rr_name r]\<rparr>)"

definition widths_ok :: "retain_record list \<Rightarrow> bool" where
  "widths_ok recs \<longleftrightarrow> list_all (\<lambda>r. length (rr_value r) = byte_width (rr_ty r)) recs"

lemma apply_loop_foldl: "widths_ok recs \<Longrightarrow> apply_loop l recs st = Inr (foldl (apply_one l) st recs)"
  by (induction recs arbitrary: st)
    (auto simp: apply_one_def widths_ok_def split: option.splits)

lemma apply_counts:
  "as_kept (foldl (apply_one l) st recs) = as_kept st + word_of_nat (length (filter (matches l) recs))"
  "as_dropped (foldl (apply_one l) st recs)
     = as_dropped st + word_of_nat (length (filter (\<lambda>r. layout_get l (rr_name r) = None) recs))"
  "as_incompat (foldl (apply_one l) st recs) = as_incompat st @ map rr_name (filter (clashes l) recs)"
  by (induction recs arbitrary: st)
    (auto simp: apply_one_def matches_def clashes_def split: option.splits)

lemma length_used [simp]: "length (as_used (foldl (apply_one l) st recs)) = length (as_used st)"
  by (induction recs arbitrary: st) (auto simp: apply_one_def split: option.splits)

lemma layout_search:
  assumes "layout_inv l"
  shows "binary_search (map rs_name (rl_symbols l)) n = Some i
    \<longleftrightarrow> i < length (rl_symbols l) \<and> rs_name (rl_symbols l ! i) = n"
  using assms binary_search_iff [of "map rs_name (rl_symbols l)" n i]
  by (auto simp: layout_inv_def valid_symbols_def)

lemma apply_used:
  assumes "layout_inv l" "length (as_used st) = length (rl_symbols l)" "i < length (rl_symbols l)"
  shows "as_used (foldl (apply_one l) st recs) ! i
    \<longleftrightarrow> as_used st ! i \<or> (\<exists>r\<in>set recs. matches l r \<and> rr_name r = rs_name (rl_symbols l ! i))"
  using assms(2)
proof (induction recs arbitrary: st)
  case (Cons r recs)
  have "as_used (apply_one l st r) ! i \<longleftrightarrow> as_used st ! i \<or> (matches l r \<and> rr_name r = rs_name (rl_symbols l ! i))"
  proof (cases "binary_search (map rs_name (rl_symbols l)) (rr_name r)")
    case None
    then show ?thesis by (simp add: apply_one_def matches_def layout_get_def)
  next
    case (Some j)
    then have j: "j < length (as_used st)" and e: "rr_name r = rs_name (rl_symbols l ! i) \<longleftrightarrow> j = i"
      using layout_search [OF assms(1), of "rr_name r" j] layout_search [OF assms(1), of "rr_name r" i]
        Cons.prems assms(3) by (simp, metis Some option.inject)
    show ?thesis
      by (cases "rs_ty (rl_symbols l ! j) = rr_ty r")
        (simp_all add: apply_one_def matches_def layout_get_def Some e nth_list_update j)
  qed
  moreover have "length (as_used (apply_one l st r)) = length (rl_symbols l)"
    using length_used [of l st "[r]"] Cons.prems by simp
  ultimately show ?case using Cons.IH [of "apply_one l st r"] by auto
qed simp

lemma layout_cells:
  assumes "layout_inv l" "a \<in> set (rl_symbols l)" "b \<in> set (rl_symbols l)"
  shows "rs_name a = rs_name b \<longleftrightarrow> a = b" "a \<noteq> b \<Longrightarrow> cells_disjoint a b"
  using assms by (auto simp: layout_inv_def valid_symbols_def dest: distinct_map [THEN iffD1] inj_onD)

lemma cell_blit:
  assumes "layout_inv l" "length im = unat (rl_size l)" "a \<in> set (rl_symbols l)" "b \<in> set (rl_symbols l)"
    and "length v = byte_width (rs_ty a)"
  shows "cell b (blit im (unat (rs_offset a)) v) = (if a = b then v else cell b im)"
proof (cases "a = b")
  case True
  then show ?thesis
    using slice_blit_same [of "unat (rs_offset a)" v im] layout_bounds [OF assms(1,3)] assms(2,5) by (simp add: cell_def)
next
  case False
  then have "cells_disjoint a b" using layout_cells(2) [OF assms(1,3,4)] by simp
  then show ?thesis
    using slice_blit_disjoint [of "unat (rs_offset a)" v im] layout_bounds [OF assms(1)] assms False
    by (auto simp: cell_def cells_disjoint_def)
qed

definition stored :: "retain_record list \<Rightarrow> retain_symbol \<Rightarrow> retain_record option" where
  "stored recs sy = find (\<lambda>r. rr_name r = rs_name sy \<and> rr_ty r = rs_ty sy) recs"

lemma apply_one_image:
  assumes "layout_inv l"
  obtains (copied) sy where "sy \<in> set (rl_symbols l)" "rs_name sy = rr_name r" "rs_ty sy = rr_ty r"
      "as_image (apply_one l st r) = blit (as_image st) (unat (rs_offset sy)) (rr_value r)"
  | (kept) "\<forall>sy\<in>set (rl_symbols l). \<not> (rr_name r = rs_name sy \<and> rr_ty r = rs_ty sy)"
      "as_image (apply_one l st r) = as_image st"
proof (cases "layout_get l (rr_name r)")
  case None
  then have "\<forall>sy\<in>set (rl_symbols l). \<not> (rr_name r = rs_name sy \<and> rr_ty r = rs_ty sy)"
    using layout_get_iff [OF assms, of "rr_name r"] by force
  then show ?thesis by (rule kept) (simp add: apply_one_def None)
next
  case (Some sy)
  then have sy: "sy \<in> set (rl_symbols l)" "rs_name sy = rr_name r"
    using layout_get_iff [OF assms] by simp_all
  have u: "s = sy" if "s \<in> set (rl_symbols l)" "rr_name r = rs_name s" for s
    using that Some layout_get_iff [OF assms, of "rr_name r" s] by simp
  show ?thesis
  proof (cases "rs_ty sy = rr_ty r")
    case True
    then show ?thesis using copied [OF sy] Some by (simp add: apply_one_def)
  next
    case False
    then show ?thesis using kept u Some by (force simp: apply_one_def)
  qed
qed

lemma length_apply_image:
  assumes "layout_inv l" "widths_ok recs" "length (as_image st) = unat (rl_size l)"
  shows "length (as_image (foldl (apply_one l) st recs)) = unat (rl_size l)"
  using assms(2,3)
proof (induction recs arbitrary: st)
  case (Cons r recs)
  have "length (as_image (apply_one l st r)) = unat (rl_size l)"
    by (rule apply_one_image [OF assms(1), of r st])
      (use Cons.prems layout_bounds [OF assms(1)] in \<open>force simp: widths_ok_def\<close>)+
  then show ?case using Cons by (simp add: widths_ok_def)
qed simp

lemma apply_cells:
  assumes "layout_inv l" "widths_ok recs" "length (as_image st) = unat (rl_size l)"
    and "distinct (map rr_name recs)" "sy \<in> set (rl_symbols l)"
  shows "cell sy (as_image (foldl (apply_one l) st recs))
    = (case stored recs sy of None \<Rightarrow> cell sy (as_image st) | Some r \<Rightarrow> rr_value r)"
  using assms(2-4)
proof (induction recs arbitrary: st)
  case Nil
  then show ?case by (simp add: stored_def)
next
  case (Cons r recs)
  let ?st = "apply_one l st r"
  have w: "length (rr_value r) = byte_width (rr_ty r)" "widths_ok recs" using Cons.prems(1) by (simp_all add: widths_ok_def)
  have len: "length (as_image ?st) = unat (rl_size l)"
    using length_apply_image [OF assms(1), of "[r]" st] w Cons.prems(2) by (simp add: widths_ok_def)
  have c: "cell sy (as_image ?st) = (if rr_name r = rs_name sy \<and> rr_ty r = rs_ty sy then rr_value r else cell sy (as_image st))"
    using assms(1)
  proof (cases rule: apply_one_image [where r = r and st = st, consumes 1, case_names copied kept])
    case (copied s)
    then show ?thesis
      using cell_blit [OF assms(1) Cons.prems(2) copied(1) assms(5), of "rr_value r"] w(1)
        layout_cells(1) [OF assms(1) copied(1) assms(5)] by auto
  qed (use assms(5) in auto)
  have "stored recs sy = None" if "rr_name r = rs_name sy"
    using that Cons.prems(3) by (force simp: stored_def find_None_iff)
  then show ?case
    using Cons.IH [of ?st, OF w(2) len] Cons.prems(3) c by (auto simp: stored_def cong: option.case_cong)
qed

definition in_cell :: "nat \<Rightarrow> retain_symbol \<Rightarrow> bool" where
  "in_cell i sy \<longleftrightarrow> unat (rs_offset sy) \<le> i \<and> i < unat (rs_offset sy) + byte_width (rs_ty sy)"

lemma apply_gaps:
  assumes "layout_inv l" "widths_ok recs" "length (as_image st) = unat (rl_size l)"
    and "i < unat (rl_size l)" "\<not> list_ex (in_cell i) (rl_symbols l)"
  shows "as_image (foldl (apply_one l) st recs) ! i = as_image st ! i"
  using assms(2,3)
proof (induction recs arbitrary: st)
  case (Cons r recs)
  let ?st = "apply_one l st r"
  have w: "length (rr_value r) = byte_width (rr_ty r)" "widths_ok recs" using Cons.prems(1) by (simp_all add: widths_ok_def)
  have len: "length (as_image ?st) = unat (rl_size l)"
    using length_apply_image [OF assms(1), of "[r]" st] w Cons.prems(2) by (simp add: widths_ok_def)
  have "as_image ?st ! i = as_image st ! i"
    using assms(1)
  proof (cases rule: apply_one_image [where r = r and st = st, consumes 1, case_names copied kept])
    case (copied s)
    then show ?thesis
      using layout_bounds [OF assms(1) copied(1)] assms(4,5) w(1) Cons.prems(2)
      by (auto simp: nth_blit list_ex_iff in_cell_def)
  qed simp
  then show ?case using Cons.IH [of ?st, OF w(2) len] by simp
qed simp

lemma layout_few:
  assumes "layout_inv l"
  shows "length (rl_symbols l) < 2 ^ 32"
proof -
  let ?S = "set (rl_symbols l)" and ?o = "\<lambda>sy. unat (rs_offset sy)"
  have "inj_on ?o ?S"
  proof (rule inj_onI)
    fix a b assume ab: "a \<in> ?S" "b \<in> ?S" "?o a = ?o b"
    show "a = b"
    proof (rule ccontr)
      assume "a \<noteq> b"
      then have "cells_disjoint a b" using layout_cells(2) [OF assms ab(1,2)] by simp
      then show False
        using ab(3) byte_width_pos [of "rs_ty a"] byte_width_pos [of "rs_ty b"] by (auto simp: cells_disjoint_def)
    qed
  qed
  moreover have "?o ` ?S \<subseteq> {..<unat (rl_size l)}"
  proof clarify
    fix sy assume "sy \<in> ?S"
    then show "?o sy < unat (rl_size l)" using layout_bounds [OF assms, of sy] byte_width_pos [of "rs_ty sy"] by linarith
  qed
  ultimately have "card ?S \<le> unat (rl_size l)" by (metis card_inj_on_le card_lessThan finite_lessThan)
  moreover have "card ?S = length (rl_symbols l)"
    using assms by (simp add: layout_inv_def valid_symbols_def distinct_card distinct_map)
  ultimately show ?thesis using unat_bound [of "rl_size l"] by simp
qed

text \<open>A symbol that no record names, or one that only a record of another type names, is not copied.\<close>

definition unnamed :: "retain_record list \<Rightarrow> retain_symbol \<Rightarrow> bool" where
  "unnamed recs sy \<longleftrightarrow> rs_name sy \<notin> rr_name ` set recs"

lemma layout_get_cases:
  assumes "layout_inv l"
  shows "matches l r \<longleftrightarrow> (\<exists>sy\<in>set (rl_symbols l). rs_name sy = rr_name r \<and> rs_ty sy = rr_ty r)"
    and "clashes l r \<longleftrightarrow> (\<exists>sy\<in>set (rl_symbols l). rs_name sy = rr_name r \<and> rs_ty sy \<noteq> rr_ty r)"
proof -
  have g: "s \<in> set (rl_symbols l) \<Longrightarrow> rs_name s = rr_name r \<Longrightarrow> layout_get l (rr_name r) = Some s"
    "layout_get l (rr_name r) = Some s \<Longrightarrow> s \<in> set (rl_symbols l) \<and> rs_name s = rr_name r" for s
    using layout_get_iff [OF assms] by simp_all
  show "matches l r \<longleftrightarrow> (\<exists>sy\<in>set (rl_symbols l). rs_name sy = rr_name r \<and> rs_ty sy = rr_ty r)"
    by (cases "layout_get l (rr_name r)") (auto simp: matches_def dest: g)
  show "clashes l r \<longleftrightarrow> (\<exists>sy\<in>set (rl_symbols l). rs_name sy = rr_name r \<and> rs_ty sy \<noteq> rr_ty r)"
    by (cases "layout_get l (rr_name r)") (auto simp: clashes_def dest: g)
qed

lemma clash_symbols:
  assumes "layout_inv l" "distinct (map rr_name recs)"
  shows "card {sy \<in> set (rl_symbols l). \<exists>r\<in>set recs. rr_name r = rs_name sy \<and> rr_ty r \<noteq> rs_ty sy}
    = length (filter (clashes l) recs)" (is "card ?B = _")
proof -
  have i: "inj_on rs_name ?B" using layout_cells(1) [OF assms(1)] by (auto intro: inj_onI)
  have "rs_name ` ?B = rr_name ` set (filter (clashes l) recs)"
    by (auto simp: layout_get_cases [OF assms(1)] image_iff) metis+
  moreover have "inj_on rr_name (set (filter (clashes l) recs))" "distinct (filter (clashes l) recs)"
    using assms(2) by (auto simp: distinct_map intro: inj_on_subset)
  ultimately show ?thesis using i distinct_card [of "filter (clashes l) recs"] card_image [of rs_name ?B]
      card_image [of rr_name "set (filter (clashes l) recs)"] by simp
qed

lemma unused_count:
  assumes "layout_inv l" "distinct (map rr_name recs)" "length used = length (rl_symbols l)"
    and "\<And>i. i < length (rl_symbols l) \<Longrightarrow>
      used ! i \<longleftrightarrow> (\<exists>r\<in>set recs. matches l r \<and> rr_name r = rs_name (rl_symbols l ! i))"
  shows "length (filter Not used) = length (filter (unnamed recs) (rl_symbols l)) + length (filter (clashes l) recs)"
proof -
  let ?S = "rl_symbols l"
  let ?A = "{sy \<in> set ?S. unnamed recs sy}"
  let ?B = "{sy \<in> set ?S. \<exists>r\<in>set recs. rr_name r = rs_name sy \<and> rr_ty r \<noteq> rs_ty sy}"
  have d: "distinct ?S" using assms(1) by (simp add: layout_inv_def valid_symbols_def distinct_map)
  have i: "inj_on rr_name (set recs)" using assms(2) by (simp add: distinct_map)
  have m: "used ! i \<longleftrightarrow> (\<exists>r\<in>set recs. rr_name r = rs_name (?S ! i) \<and> rr_ty r = rs_ty (?S ! i))"
    if "i < length ?S" for i
    using assms(4) [OF that] layout_cells(1) [OF assms(1) _ nth_mem [OF that]] nth_mem [OF that]
    by (auto simp: layout_get_cases [OF assms(1)]) metis
  have "length (filter Not used) = card {i. i < length ?S \<and> \<not> used ! i}"
    by (simp add: length_filter_conv_card assms(3))
  also have "\<dots> = card ((!) ?S ` {i. i < length ?S \<and> \<not> used ! i})"
    using d by (intro card_image [symmetric] inj_onI) (auto simp: nth_eq_iff_index_eq)
  also have "(!) ?S ` {i. i < length ?S \<and> \<not> used ! i}
      = {sy \<in> set ?S. \<not> (\<exists>r\<in>set recs. rr_name r = rs_name sy \<and> rr_ty r = rs_ty sy)}"
    using m by (auto simp: set_conv_nth)
  also have "\<dots> = ?A \<union> ?B"
  proof -
    have "\<not> (\<exists>r\<in>set recs. rr_name r = rs_name sy \<and> rr_ty r = rs_ty sy)
      \<longleftrightarrow> unnamed recs sy \<or> (\<exists>r\<in>set recs. rr_name r = rs_name sy \<and> rr_ty r \<noteq> rs_ty sy)" for sy
      unfolding unnamed_def image_iff using inj_onD [OF i] by metis
    then show ?thesis by blast
  qed
  also have "card \<dots> = card ?A + card ?B"
    by (rule card_Un_disjoint) (auto simp: unnamed_def image_iff)
  also have "card ?A = length (filter (unnamed recs) ?S)"
    using d by (metis distinct_card distinct_filter set_filter)
  finally show ?thesis using clash_symbols [OF assms(1,2)] by simp
qed

text \<open>The image and the report that \<open>apply_records\<close> has to produce.\<close>

definition applied_spec :: "retain_record list \<Rightarrow> retain_layout \<Rightarrow> bytes \<Rightarrow> bool" where
  "applied_spec recs l im \<longleftrightarrow>
     length im = unat (rl_size l)
     \<and> list_all (\<lambda>sy. cell sy im = (case stored recs sy of
          None \<Rightarrow> replicate (byte_width (rs_ty sy)) 0 | Some r \<Rightarrow> rr_value r)) (rl_symbols l)
     \<and> list_all (\<lambda>i. im ! i = 0 \<or> list_ex (in_cell i) (rl_symbols l)) [0..<length im]"

definition report_spec :: "retain_record list \<Rightarrow> retain_layout \<Rightarrow> map_report \<Rightarrow> bool" where
  "report_spec recs l rep \<longleftrightarrow>
     mr_kept rep = word_of_nat (length (filter (matches l) recs))
     \<and> mr_dropped rep = word_of_nat (length (filter (\<lambda>r. layout_get l (rr_name r) = None) recs))
     \<and> unat (mr_cold_defaults rep) = length (filter (unnamed recs) (rl_symbols l))
     \<and> mr_zeroed_incompat rep = map rr_name (filter (clashes l) recs)"

lemma cell_zeros:
  assumes "layout_inv l" "sy \<in> set (rl_symbols l)"
  shows "cell sy (replicate (unat (rl_size l)) 0) = replicate (byte_width (rs_ty sy)) 0"
  using layout_bounds [OF assms] by (simp add: cell_def slice_def)

lemma clash_count_le:
  assumes "layout_inv l" "distinct (map rr_name recs)"
  shows "length (filter (clashes l) recs) \<le> length (rl_symbols l)"
proof -
  let ?B = "{sy \<in> set (rl_symbols l). \<exists>r\<in>set recs. rr_name r = rs_name sy \<and> rr_ty r \<noteq> rs_ty sy}"
  have "card ?B \<le> card (set (rl_symbols l))" by (rule card_mono) auto
  also have "\<dots> \<le> length (rl_symbols l)" by (rule card_length)
  finally show ?thesis using clash_symbols [OF assms] by simp
qed

lemma apply_records_cases:
  assumes "layout_inv l" "widths_ok recs" "distinct (map rr_name recs)"
  obtains (rejected) "\<not> force" "filter (clashes l) recs \<noteq> []"
      "apply_records recs l force = Inl (ReIncompatible (map rr_name (filter (clashes l) recs)))"
  | (applied) m where "force \<or> filter (clashes l) recs = []" "apply_records recs l force = Inr m"
      "applied_spec recs l (mp_image m)" "report_spec recs l (mp_report m)"
proof -
  define st0 where "st0 = \<lparr>as_image = replicate (unat (rl_size l)) 0, as_kept = 0, as_dropped = 0,
    as_incompat = [], as_used = replicate (length (rl_symbols l)) False\<rparr>"
  define st where "st = foldl (apply_one l) st0 recs"
  let ?cl = "map rr_name (filter (clashes l) recs)" and ?n = "length (filter Not (as_used st))"
  have loop: "apply_loop l recs st0 = Inr st" using apply_loop_foldl [OF assms(2)] by (simp add: st_def)
  have len: "length (as_image st) = unat (rl_size l)" "length (as_used st) = length (rl_symbols l)"
    using length_apply_image [OF assms(1,2)] by (simp_all add: st_def st0_def)
  have c: "as_incompat st = ?cl" "as_kept st = word_of_nat (length (filter (matches l) recs))"
    "as_dropped st = word_of_nat (length (filter (\<lambda>r. layout_get l (rr_name r) = None) recs))"
    by (simp_all add: st_def apply_counts) (simp_all add: st0_def)
  have u: "?n = length (filter (unnamed recs) (rl_symbols l)) + length (filter (clashes l) recs)"
    using apply_used [OF assms(1), of st0 _ recs]
    by (intro unused_count [OF assms(1,3) len(2)]) (simp add: st_def st0_def)
  have "?n \<le> length (rl_symbols l)" using len(2) length_filter_le [of Not "as_used st"] by simp
  then have cold: "unat (sat_sub (word_of_nat ?n :: u32) (word_of_nat (length ?cl)))
      = length (filter (unnamed recs) (rl_symbols l))"
    using layout_few [OF assms(1)] u by (simp add: unat_sat_sub unat_of_nat del: of_nat_add)
  have "applied_spec recs l (as_image st)"
    using len apply_cells [OF assms(1,2) _ assms(3), of st0] cell_zeros [OF assms(1)]
      apply_gaps [OF assms(1,2), of st0]
    by (auto simp: applied_spec_def list_all_iff st_def [symmetric]) (auto simp: st0_def split: option.splits)
  note sp = this
  show thesis
  proof (cases "filter (clashes l) recs \<noteq> [] \<and> \<not> force")
    case True
    then show thesis using rejected loop c(1) by (simp add: apply_records_def st0_def [symmetric])
  next
    case False
    let ?rep = "\<lparr>mr_kept = as_kept st, mr_cold_defaults = sat_sub (word_of_nat ?n) (word_of_nat (length ?cl)),
      mr_dropped = as_dropped st, mr_zeroed_incompat = ?cl\<rparr>"
    have "apply_records recs l force = Inr \<lparr>mp_image = as_image st, mp_report = ?rep\<rparr>"
      using False loop c(1) by (auto simp: apply_records_def st0_def [symmetric] Let_def)
    moreover have "report_spec recs l ?rep" using cold c by (simp add: report_spec_def)
    ultimately show thesis using applied sp False by auto
  qed
qed

end
