(* ===== verification/RetainStore.thy ===== *)
theory RetainStore
  imports RetainCodec
begin

section \<open>The retain store (\<open>plc-retain/src/store.rs\<close>)\<close>

text \<open>
  Two slot files and an index file per program. A flush writes the slot that is not committed
  and then the index; a load chooses a slot by the index, and by the generation when the index
  is unreadable. The directory maps file names to contents, \<open>None\<close> standing for a file that
  exists but cannot be read. A write that fails, or that a power loss interrupts, leaves what
  its outcome says. The lemmas show that a load after any sequence of such writes returns an
  image that was flushed, as the newest complete flush or a later one.
\<close>

subsection \<open>Definitions\<close>

type_synonym dir = "string \<rightharpoonup> bytes option"

definition SLOT_MAGIC :: bytes where "SLOT_MAGIC = str_bytes ''SPRT''"
definition IDX_MAGIC :: bytes where "IDX_MAGIC = str_bytes ''SPRI''"
definition RETAIN_VERSION :: u16 where "RETAIN_VERSION = 1"
definition SLOT_HEADER_LEN :: nat where "SLOT_HEADER_LEN = 32"
definition IDX_LEN :: nat where "IDX_LEN = 64"

datatype load_source = Cold | Slot0 | Slot1

definition source_from_slot :: "u8 \<Rightarrow> load_source" where
  "source_from_slot slot = (if slot = 0 then Slot0 else Slot1)"

record load_report =
  lr_source :: load_source
  lr_generation :: u64
  lr_kept :: u32
  lr_cold_defaults :: u32
  lr_dropped :: u32
  lr_incompat :: "string list"
  lr_corrupt :: bool
  lr_missing :: bool

record flush_report =
  fr_generation :: u64
  fr_slot :: u8
  fr_bytes_written :: nat

record idx_record =
  ix_slot :: u8
  ix_generation :: u64

record decoded_slot =
  ds_generation :: u64
  ds_records :: "retain_record list"

datatype slot_read = Missing | Corrupt

definition id_char :: "char \<Rightarrow> bool" where
  "id_char c \<longleftrightarrow> (CHR ''A'' \<le> c \<and> c \<le> CHR ''Z'') \<or> (CHR ''a'' \<le> c \<and> c \<le> CHR ''z'')
     \<or> (CHR ''0'' \<le> c \<and> c \<le> CHR ''9'') \<or> c = CHR ''.'' \<or> c = CHR ''_'' \<or> c = CHR ''-''"

definition validate_program_id :: "string \<Rightarrow> retain_error + unit" where
  "validate_program_id pid =
     (if pid = [] \<or> pid = ''.'' \<or> pid = ''..'' \<or> \<not> list_all id_char pid
      then Inl (ReInvalidProgramId pid) else Inr ())"

text \<open>A byte in decimal, as \<open>format!\<close> prints it.\<close>

definition show_u8 :: "u8 \<Rightarrow> string" where
  "show_u8 b =
     (let n = unat b; digit = (\<lambda>k. char_of (48 + k :: nat))
      in if n < 10 then [digit n]
         else if n < 100 then [digit (n div 10), digit (n mod 10)]
         else [digit (n div 100), digit (n div 10 mod 10), digit (n mod 10)])"

definition slot_path :: "string \<Rightarrow> u8 \<Rightarrow> retain_error + string" where
  "slot_path pid slot = rbind (validate_program_id pid) (\<lambda>_.
     Inr (pid @ ''.ret.'' @ show_u8 slot))"

definition idx_path :: "string \<Rightarrow> retain_error + string" where
  "idx_path pid = rbind (validate_program_id pid) (\<lambda>_. Inr (pid @ ''.ret.idx''))"

definition path_for :: "string \<Rightarrow> retain_error + string" where
  "path_for pid = rbind (validate_program_id pid) (\<lambda>_. Inr (pid @ ''.ret''))"

definition path_exists :: "dir \<Rightarrow> retain_error + string \<Rightarrow> bool" where
  "path_exists d p = (case p of Inl _ \<Rightarrow> False | Inr n \<Rightarrow> d n \<noteq> None)"

definition store_exists :: "dir \<Rightarrow> string \<Rightarrow> bool" where
  "store_exists d pid \<longleftrightarrow>
     validate_program_id pid = Inr () \<and> (path_exists d (slot_path pid 0) \<or> path_exists d (slot_path pid 1))"

definition encode_slot :: "u64 \<Rightarrow> u32 \<Rightarrow> u32 \<Rightarrow> bytes \<Rightarrow> bytes" where
  "encode_slot gen schema_crc record_count payload =
     (let buf = SLOT_MAGIC @ le_bytes 2 RETAIN_VERSION @ le_bytes 2 (0 :: u16) @ le_bytes 8 gen
                @ le_bytes 4 schema_crc @ le_bytes 4 record_count
                @ le_bytes 4 (word_of_nat (length payload) :: u32) @ [0, 0, 0, 0] @ payload
      in blit buf 28 (le_bytes 4 (crc32 buf)))"

definition decode_slot :: "bytes \<Rightarrow> decoded_slot option" where
  "decode_slot bs =
     (if length bs < SLOT_HEADER_LEN then None
      else if slice 0 4 bs \<noteq> SLOT_MAGIC then None
      else if (of_le_bytes (slice 4 6 bs) :: u16) \<noteq> RETAIN_VERSION then None
      else let gen = of_le_bytes (slice 8 16 bs) :: u64;
               payload_len = unat (of_le_bytes (slice 24 28 bs) :: u32)
           in if length bs \<noteq> SLOT_HEADER_LEN + payload_len then None
              else if crc32 (blit bs 28 [0, 0, 0, 0]) \<noteq> of_le_bytes (slice 28 32 bs) then None
              else case decode_records (drop SLOT_HEADER_LEN bs) of
                     Inl _ \<Rightarrow> None
                   | Inr recs \<Rightarrow> Some \<lparr>ds_generation = gen, ds_records = recs\<rparr>)"

definition encode_idx :: "u8 \<Rightarrow> u64 \<Rightarrow> bytes" where
  "encode_idx slot gen =
     (let buf = IDX_MAGIC @ le_bytes 2 RETAIN_VERSION @ [slot, 0] @ le_bytes 8 gen
                @ replicate (IDX_LEN - 16) 0
      in blit buf 16 (le_bytes 4 (crc32 (slice 0 16 buf))))"

definition decode_idx :: "bytes \<Rightarrow> idx_record option" where
  "decode_idx bs =
     (if length bs \<noteq> IDX_LEN then None
      else if slice 0 4 bs \<noteq> IDX_MAGIC then None
      else if (of_le_bytes (slice 4 6 bs) :: u16) \<noteq> RETAIN_VERSION then None
      else if 1 < bs ! 6 then None
      else if crc32 (slice 0 16 bs) \<noteq> of_le_bytes (slice 16 20 bs) then None
      else Some \<lparr>ix_slot = bs ! 6, ix_generation = of_le_bytes (slice 8 16 bs)\<rparr>)"

definition read_idx :: "dir \<Rightarrow> string \<Rightarrow> idx_record option" where
  "read_idx d pid =
     (case idx_path pid of Inl _ \<Rightarrow> None
      | Inr p \<Rightarrow> (case d p of None \<Rightarrow> None | Some None \<Rightarrow> None | Some (Some bs) \<Rightarrow> decode_idx bs))"

definition read_slot :: "dir \<Rightarrow> string \<Rightarrow> u8 \<Rightarrow> slot_read + decoded_slot" where
  "read_slot d pid slot =
     (case slot_path pid slot of Inl _ \<Rightarrow> Inl Missing
      | Inr p \<Rightarrow> (case d p of None \<Rightarrow> Inl Missing | Some None \<Rightarrow> Inl Corrupt
                  | Some (Some bs) \<Rightarrow> (case decode_slot bs of None \<Rightarrow> Inl Corrupt | Some s \<Rightarrow> Inr s)))"

definition rok :: "'e + 'a \<Rightarrow> 'a option" where
  "rok r = (case r of Inl _ \<Rightarrow> None | Inr x \<Rightarrow> Some x)"

text \<open>The part \<open>choose_slot\<close> and \<open>committed\<close> share: with no index, the newer valid slot.\<close>

definition choose_slot :: "idx_record option \<Rightarrow> decoded_slot option \<Rightarrow> decoded_slot option \<Rightarrow> (u8 \<times> decoded_slot) option" where
  "choose_slot idx slot0 slot1 =
     (case idx of
        Some ix \<Rightarrow>
          let preferred = (if ix_slot ix = 0 then slot0 else slot1);
              other = (if ix_slot ix = 0 then slot1 else slot0);
              fallback = map_option (Pair (1 - ix_slot ix)) other
          in (case preferred of
                Some s \<Rightarrow> if ds_generation s = ix_generation ix then Some (ix_slot ix, s) else fallback
              | None \<Rightarrow> fallback)
      | None \<Rightarrow>
          (case (slot0, slot1) of
             (Some a, Some b) \<Rightarrow> if ds_generation b \<le> ds_generation a then Some (0, a) else Some (1, b)
           | (Some a, None) \<Rightarrow> Some (0, a)
           | (None, Some b) \<Rightarrow> Some (1, b)
           | (None, None) \<Rightarrow> None))"

definition committed :: "dir \<Rightarrow> string \<Rightarrow> u8 \<times> u64" where
  "committed d pid =
     (case read_idx d pid of
        Some ix \<Rightarrow> (ix_slot ix, ix_generation ix)
      | None \<Rightarrow>
          (case (rok (read_slot d pid 0), rok (read_slot d pid 1)) of
             (Some a, Some b) \<Rightarrow> if ds_generation b \<le> ds_generation a then (0, ds_generation a) else (1, ds_generation b)
           | (Some a, None) \<Rightarrow> (0, ds_generation a)
           | (None, Some b) \<Rightarrow> (1, ds_generation b)
           | (None, None) \<Rightarrow> (1, 0)))"

text \<open>What a write does: it completes, the file cannot be opened, or it stops after the open
  (an error, or a loss of power) and leaves what the function makes of the intended contents.\<close>

datatype write_outcome = WriteOk | OpenFails string | WriteTorn "bytes \<Rightarrow> bytes option" string

definition write_all_sync :: "write_outcome \<Rightarrow> dir \<Rightarrow> string \<Rightarrow> bytes \<Rightarrow> dir \<times> (retain_error + unit)" where
  "write_all_sync oc d p bs =
     (case oc of
        WriteOk \<Rightarrow> (d(p \<mapsto> Some bs), Inr ())
      | OpenFails e \<Rightarrow> (d, Inl (ReIo e))
      | WriteTorn g e \<Rightarrow> (d(p \<mapsto> g bs), Inl (ReIo e)))"

definition flush :: "write_outcome \<Rightarrow> write_outcome \<Rightarrow> dir \<Rightarrow> string \<Rightarrow> retain_layout \<Rightarrow> bytes
    \<Rightarrow> dir \<times> (retain_error + flush_report)" where
  "flush o1 o2 d pid layout img =
     (case validate_program_id pid of Inl e \<Rightarrow> (d, Inl e)
      | Inr _ \<Rightarrow>
      if length img \<noteq> unat (rl_size layout) then (d, Inl (ReImageSize (rl_size layout) (length img)))
      else case encode_records layout img of Inl e \<Rightarrow> (d, Inl e)
      | Inr payload \<Rightarrow>
      let (active, gen0) = committed d pid;
          slot = 1 - active;
          gen = max (sat_add gen0 1) 1;
          bs = encode_slot gen (schema_hash layout) (word_of_nat (length (rl_symbols layout))) payload
      in case slot_path pid slot of Inl e \<Rightarrow> (d, Inl e)
      | Inr p \<Rightarrow>
      case write_all_sync o1 d p bs of (d1, Inl e) \<Rightarrow> (d1, Inl e)
      | (d1, Inr _) \<Rightarrow>
      case idx_path pid of Inl e \<Rightarrow> (d1, Inl e)
      | Inr ip \<Rightarrow>
      case write_all_sync o2 d1 ip (encode_idx slot gen) of (d2, Inl e) \<Rightarrow> (d2, Inl e)
      | (d2, Inr _) \<Rightarrow>
      (d2, Inr \<lparr>fr_generation = gen, fr_slot = slot, fr_bytes_written = length bs\<rparr>))"

text \<open>The destination buffer is passed in and returned.\<close>

definition load :: "dir \<Rightarrow> string \<Rightarrow> retain_layout \<Rightarrow> bytes \<Rightarrow> bytes \<times> (retain_error + load_report)" where
  "load d pid layout dst =
     (case validate_program_id pid of Inl e \<Rightarrow> (dst, Inl e)
      | Inr _ \<Rightarrow>
      if length dst \<noteq> unat (rl_size layout) then (dst, Inl (ReImageSize (rl_size layout) (length dst)))
      else
      let dst = replicate (length dst) 0;
          slot0 = read_slot d pid 0;
          slot1 = read_slot d pid 1;
          any_file = store_exists d pid \<or> path_exists d (idx_path pid);
          idx = read_idx d pid;
          idx_bad = path_exists d (idx_path pid) \<and> idx = None;
          chosen = choose_slot idx (rok slot0) (rok slot1);
          saw_corrupt = idx_bad \<or> slot0 = Inl Corrupt \<or> slot1 = Inl Corrupt \<or> (idx \<noteq> None \<and> chosen = None)
      in case chosen of
        None \<Rightarrow> (dst, Inr \<lparr>lr_source = Cold, lr_generation = 0, lr_kept = 0,
                   lr_cold_defaults = word_of_nat (length (rl_symbols layout)), lr_dropped = 0,
                   lr_incompat = [], lr_corrupt = saw_corrupt, lr_missing = \<not> any_file\<rparr>)
      | Some (slot, s) \<Rightarrow>
          (case apply_records (ds_records s) layout True of
             Inl e \<Rightarrow> (dst, Inl e)
           | Inr mapped \<Rightarrow>
               (mp_image mapped, Inr \<lparr>lr_source = source_from_slot slot, lr_generation = ds_generation s,
                  lr_kept = mr_kept (mp_report mapped), lr_cold_defaults = mr_cold_defaults (mp_report mapped),
                  lr_dropped = mr_dropped (mp_report mapped), lr_incompat = mr_zeroed_incompat (mp_report mapped),
                  lr_corrupt = saw_corrupt, lr_missing = False\<rparr>)))"

subsection \<open>The file formats\<close>

lemma show_u8_01 [simp]: "show_u8 0 = ''0''" "show_u8 1 = ''1''"
  by (simp_all add: show_u8_def Let_def char_of_def) code_simp+

lemma decode_encode_slot:
  assumes "length payload < 2 ^ 32" "decode_records payload = Inr recs"
  shows "decode_slot (encode_slot gen sc rc payload) = Some \<lparr>ds_generation = gen, ds_records = recs\<rparr>"
proof -
  define hdr where "hdr = SLOT_MAGIC @ le_bytes 2 RETAIN_VERSION @ le_bytes 2 (0 :: u16) @ le_bytes 8 gen
                @ le_bytes 4 sc @ le_bytes 4 rc @ le_bytes 4 (word_of_nat (length payload) :: u32)"
  define c where "c = crc32 (hdr @ [0, 0, 0, 0] @ payload)"
  have m: "length SLOT_MAGIC = 4" by (simp add: SLOT_MAGIC_def)
  have h: "length hdr = 28" "slice 0 4 hdr = SLOT_MAGIC" "slice 4 6 hdr = le_bytes 2 RETAIN_VERSION"
    "slice 8 16 hdr = le_bytes 8 gen" "slice 24 28 hdr = le_bytes 4 (word_of_nat (length payload) :: u32)"
    by (simp_all add: hdr_def m slice_def)
  have e: "encode_slot gen sc rc payload = hdr @ le_bytes 4 c @ payload"
    using h(1) by (simp add: encode_slot_def Let_def blit_def c_def) (simp add: hdr_def)
  have b: "blit (hdr @ le_bytes 4 c @ payload) 28 [0, 0, 0, 0] = hdr @ [0, 0, 0, 0] @ payload"
    using h(1) by (simp add: blit_def)
  have s: "slice 28 32 (hdr @ le_bytes 4 c @ payload) = le_bytes 4 c"
    using h(1) by (simp add: slice_append_right slice_append_left slice_def)
  have l: "unat (word_of_nat (length payload) :: u32) = length payload" using assms(1) by (simp add: unat_of_nat)
  show ?thesis
    using h assms(2)
    by (simp add: e decode_slot_def SLOT_HEADER_LEN_def slice_append_left b s l Let_def c_def [symmetric, simplified])
qed

text \<open>A slot file cut short never decodes.\<close>

lemma decode_slot_prefix:
  assumes "n < length (encode_slot gen sc rc payload)" "length payload < 2 ^ 32"
  shows "decode_slot (take n (encode_slot gen sc rc payload)) = None"
proof -
  define hdr where "hdr = SLOT_MAGIC @ le_bytes 2 RETAIN_VERSION @ le_bytes 2 (0 :: u16) @ le_bytes 8 gen
                @ le_bytes 4 sc @ le_bytes 4 rc @ le_bytes 4 (word_of_nat (length payload) :: u32)"
  have m: "length SLOT_MAGIC = 4" by (simp add: SLOT_MAGIC_def)
  have h: "length hdr = 28" "slice 24 28 hdr = le_bytes 4 (word_of_nat (length payload) :: u32)"
    by (simp_all add: hdr_def m slice_def)
  obtain c where e: "encode_slot gen sc rc payload = hdr @ le_bytes 4 (c :: u32) @ payload"
    using h(1) by (simp add: encode_slot_def Let_def blit_def) (simp add: hdr_def)
  have l: "unat (word_of_nat (length payload) :: u32) = length payload" using assms(2) by (simp add: unat_of_nat)
  show ?thesis
  proof (cases "n < 32")
    case False
    define q where "q = take n (encode_slot gen sc rc payload)"
    have "q = hdr @ take (n - 28) (le_bytes 4 c @ payload)" using False h(1) by (simp add: e q_def)
    then have "slice 24 28 q = le_bytes 4 (word_of_nat (length payload) :: u32)"
      using h by (simp add: slice_append_left)
    moreover have "length q = n" "n < 32 + length payload" using assms(1) h(1) by (simp_all add: q_def e)
    ultimately show ?thesis by (simp add: decode_slot_def SLOT_HEADER_LEN_def Let_def l q_def [symmetric])
  qed (simp add: decode_slot_def SLOT_HEADER_LEN_def)
qed

lemma length_encode_idx: "length (encode_idx slot gen) = IDX_LEN"
  by (simp add: encode_idx_def IDX_MAGIC_def IDX_LEN_def Let_def)

lemma decode_encode_idx:
  assumes "slot \<le> 1"
  shows "decode_idx (encode_idx slot gen) = Some \<lparr>ix_slot = slot, ix_generation = gen\<rparr>"
proof -
  define hdr where "hdr = IDX_MAGIC @ le_bytes 2 RETAIN_VERSION @ [slot, 0] @ le_bytes 8 gen"
  have m: "length IDX_MAGIC = 4" by (simp add: IDX_MAGIC_def)
  have h: "length hdr = 16" "slice 0 4 hdr = IDX_MAGIC" "slice 4 6 hdr = le_bytes 2 RETAIN_VERSION"
    "hdr ! 6 = slot" "slice 8 16 hdr = le_bytes 8 gen"
    by (simp_all add: hdr_def m slice_def nth_append)
  have e: "encode_idx slot gen = hdr @ le_bytes 4 (crc32 hdr) @ replicate 44 0"
    using h(1) by (simp add: encode_idx_def Let_def blit_def IDX_LEN_def slice_def) (simp add: hdr_def)
  have s: "slice 16 20 (hdr @ le_bytes 4 (crc32 hdr) @ replicate 44 0) = le_bytes 4 (crc32 hdr)"
    "slice 0 16 (hdr @ le_bytes 4 (crc32 hdr) @ replicate 44 0) = hdr"
    using h(1) by (simp_all add: slice_append_right slice_append_left slice_def)
  show ?thesis
    using h assms
    by (simp add: e decode_idx_def IDX_LEN_def slice_append_left s nth_append linorder_not_less)
qed

lemma decode_idx_prefix: "n < IDX_LEN \<Longrightarrow> decode_idx (take n (encode_idx slot gen)) = None"
  using length_encode_idx [of slot gen] by (simp add: decode_idx_def)

subsection \<open>Files of one program\<close>

lemma bit1: "slot \<le> 1 \<Longrightarrow> slot = 0 \<or> slot = (1 :: u8)"
proof -
  assume "slot \<le> 1"
  then have "unat slot \<le> 1" by (simp add: word_le_nat_alt)
  then have "unat slot = unat (0 :: u8) \<or> unat slot = unat (1 :: u8)" by (auto simp: le_Suc_eq)
  then show ?thesis by (simp only: word_unat_eq_iff [symmetric])
qed

definition slot_file :: "string \<Rightarrow> u8 \<Rightarrow> string" where "slot_file pid slot = pid @ ''.ret.'' @ show_u8 slot"
definition idx_file :: "string \<Rightarrow> string" where "idx_file pid = pid @ ''.ret.idx''"

lemma paths:
  assumes "validate_program_id pid = Inr ()"
  shows "slot_path pid slot = Inr (slot_file pid slot)" "idx_path pid = Inr (idx_file pid)"
  using assms by (simp_all add: slot_path_def idx_path_def slot_file_def idx_file_def)

lemma files_distinct [simp]:
  "slot_file pid 0 \<noteq> slot_file pid' 1" "slot_file pid 1 \<noteq> slot_file pid' 0"
  "slot_file pid 0 \<noteq> idx_file pid'" "slot_file pid 1 \<noteq> idx_file pid'"
  "idx_file pid \<noteq> slot_file pid' 0" "idx_file pid \<noteq> slot_file pid' 1"
proof -
  have l: "last (slot_file p 0) = CHR ''0''" "last (slot_file p 1) = CHR ''1''" "last (idx_file p) = CHR ''x''" for p
    by (simp_all add: slot_file_def idx_file_def)
  show "slot_file pid 0 \<noteq> slot_file pid' 1" "slot_file pid 1 \<noteq> slot_file pid' 0"
    "slot_file pid 0 \<noteq> idx_file pid'" "slot_file pid 1 \<noteq> idx_file pid'"
    "idx_file pid \<noteq> slot_file pid' 0" "idx_file pid \<noteq> slot_file pid' 1"
    using l [of pid] l [of pid'] by fastforce+
qed

lemma files_injective [simp]:
  "slot_file pid slot = slot_file pid' slot \<longleftrightarrow> pid = pid'" "idx_file pid = idx_file pid' \<longleftrightarrow> pid = pid'"
  by (simp_all add: slot_file_def idx_file_def)

definition idx_of :: "bytes option option \<Rightarrow> idx_record option" where
  "idx_of c = (case c of Some (Some bs) \<Rightarrow> decode_idx bs | _ \<Rightarrow> None)"

definition slot_of :: "bytes option option \<Rightarrow> decoded_slot option" where
  "slot_of c = (case c of Some (Some bs) \<Rightarrow> decode_slot bs | _ \<Rightarrow> None)"

lemma reads:
  assumes "validate_program_id pid = Inr ()"
  shows "read_idx d pid = idx_of (d (idx_file pid))" "rok (read_slot d pid slot) = slot_of (d (slot_file pid slot))"
  by (simp_all add: read_idx_def read_slot_def paths [OF assms] idx_of_def slot_of_def rok_def split: option.splits)

lemma idx_of_slot: "idx_of c = Some ix \<Longrightarrow> ix_slot ix = 0 \<or> ix_slot ix = 1"
  by (auto simp: idx_of_def decode_idx_def linorder_not_less dest: bit1 split: option.splits if_splits)

subsection \<open>What a load returns\<close>

definition chosen :: "dir \<Rightarrow> string \<Rightarrow> (u8 \<times> decoded_slot) option" where
  "chosen d pid = choose_slot (read_idx d pid) (rok (read_slot d pid 0)) (rok (read_slot d pid 1))"

definition current :: "dir \<Rightarrow> string \<Rightarrow> retain_record list option" where
  "current d pid = map_option (\<lambda>(_, s). ds_records s) (chosen d pid)"

lemma decode_records_head:
  assumes "decode_records_from p i = Inr (r # rest)"
  shows "length (rr_value r) = byte_width (rr_ty r)" "\<exists>j. decode_records_from p j = Inr rest"
  using assms
  by (subst (asm) decode_records_from.simps,
      auto simp: Let_def rbind_eq_Inr simp del: One_nat_def add_2_eq_Suc' split: if_splits option.splits)+

lemma decode_records_widths: "decode_records_from p i = Inr recs \<Longrightarrow> widths_ok recs"
  by (induction recs arbitrary: i) (auto simp: widths_ok_def dest: decode_records_head)

lemma decode_slot_widths: "decode_slot bs = Some s \<Longrightarrow> widths_ok (ds_records s)"
  using decode_records_widths
  by (auto simp: decode_slot_def decode_records_def Let_def split: if_splits sum.splits)

lemma slot_of_widths: "slot_of c = Some s \<Longrightarrow> widths_ok (ds_records s)"
  using decode_slot_widths by (auto simp: slot_of_def split: option.splits)

lemma choose_slot_from:
  "choose_slot ix s0 s1 = Some (k, s) \<Longrightarrow> s0 = Some s \<or> s1 = Some s"
  by (auto simp: choose_slot_def Let_def split: option.splits if_splits)

lemma current_widths:
  assumes "validate_program_id pid = Inr ()" "current d pid = Some recs"
  shows "widths_ok recs"
proof -
  obtain k s where "chosen d pid = Some (k, s)" "recs = ds_records s"
    using assms(2) by (auto simp: current_def)
  then show ?thesis
    by (auto simp: chosen_def reads [OF assms(1)] dest!: choose_slot_from intro: slot_of_widths)
qed

lemma load_current:
  assumes "validate_program_id pid = Inr ()" "layout_inv l" "length dst = unat (rl_size l)"
  obtains (cold) rep where "current d pid = None" "load d pid l dst = (replicate (unat (rl_size l)) 0, Inr rep)"
      "lr_source rep = Cold"
  | (warm) recs m rep where "current d pid = Some recs" "apply_records recs l True = Inr m"
      "load d pid l dst = (mp_image m, Inr rep)" "lr_source rep \<noteq> Cold" "\<not> lr_missing rep"
proof (cases "chosen d pid")
  case None
  then show ?thesis
    using cold assms(1,3) by (auto simp: load_def chosen_def current_def Let_def)
next
  case (Some ks)
  obtain k s where ks: "ks = (k, s)" by force
  have c: "current d pid = Some (ds_records s)" using Some ks by (simp add: current_def)
  from current_widths [OF assms(1) c] have "\<exists>m. apply_records (ds_records s) l True = Inr m"
    by (auto simp: apply_records_def apply_loop_foldl Let_def)
  then obtain m where m: "apply_records (ds_records s) l True = Inr m" by blast
  show ?thesis
    by (rule warm [OF c m]) (use Some ks m assms(1,3) in \<open>auto simp: load_def chosen_def Let_def source_from_slot_def split: if_splits\<close>)
qed

lemma load_spec:
  assumes "validate_program_id pid = Inr ()" "layout_inv l" "length dst = unat (rl_size l)"
    and "current d pid = Some recs" "distinct (map rr_name recs)"
  shows "\<exists>im rep. load d pid l dst = (im, Inr rep) \<and> applied_spec recs l im"
  using assms(1-3)
proof (cases rule: load_current [where d = d, consumes 3, case_names cold warm])
  case (warm recs' m rep)
  then have "recs' = recs" "widths_ok recs" using assms(4) current_widths [OF assms(1,4)] by simp_all
  then show ?thesis
    using apply_records_cases [OF assms(2) _ assms(5), of True] warm by (metis Inr_inject)
qed (use assms(4) in simp)

subsection \<open>What a flush leaves behind\<close>

text \<open>The index, when it can be read, points at a slot that decodes with its generation.\<close>

definition store_ok :: "dir \<Rightarrow> string \<Rightarrow> bool" where
  "store_ok d pid \<longleftrightarrow>
     (case read_idx d pid of None \<Rightarrow> True
      | Some ix \<Rightarrow> (case rok (read_slot d pid (ix_slot ix)) of None \<Rightarrow> False
                   | Some s \<Rightarrow> ds_generation s = ix_generation ix))"

definition input_ok :: "retain_layout \<Rightarrow> bytes \<Rightarrow> bool" where
  "input_ok l img \<longleftrightarrow> layout_inv l \<and> names_ok (rl_symbols l) \<and> length img = unat (rl_size l)
     \<and> sum_list (map (\<lambda>sy. 4 + length (rs_name sy) + byte_width (rs_ty sy)) (rl_symbols l)) < 2 ^ 32"

text \<open>A damaged file is either as intended or does not decode. Files cut short are an instance.\<close>

definition detected :: "(bytes \<Rightarrow> bool) \<Rightarrow> write_outcome \<Rightarrow> bytes \<Rightarrow> bool" where
  "detected readable oc bs \<longleftrightarrow>
     (case oc of WriteTorn g _ \<Rightarrow> (case g bs of None \<Rightarrow> True | Some b \<Rightarrow> b = bs \<or> \<not> readable b) | _ \<Rightarrow> True)"

definition outcomes_ok :: "write_outcome \<Rightarrow> write_outcome \<Rightarrow> bool" where
  "outcomes_ok o1 o2 \<longleftrightarrow>
     (\<forall>gen sc rc p. length p < 2 ^ 32 \<longrightarrow> detected (\<lambda>b. decode_slot b \<noteq> None) o1 (encode_slot gen sc rc p))
     \<and> (\<forall>slot gen. detected (\<lambda>b. decode_idx b \<noteq> None) o2 (encode_idx slot gen))"

definition cut :: "nat \<Rightarrow> write_outcome" where
  "cut n = WriteTorn (\<lambda>bs. Some (take n bs)) ''interrupted''"

lemma cut_ok: "outcomes_ok (cut m) (cut n)"
proof -
  have "b = encode_slot gen sc rc p \<or> decode_slot b = None"
    if "length p < 2 ^ 32" "b = take m (encode_slot gen sc rc p)" for gen sc rc p b
    using that decode_slot_prefix [of m gen sc rc p] by (cases "m < length (encode_slot gen sc rc p)") auto
  moreover have "b = encode_idx slot gen \<or> decode_idx b = None" if "b = take n (encode_idx slot gen)" for slot gen b
    using that decode_idx_prefix [of n slot gen] length_encode_idx [of slot gen] by (cases "n < IDX_LEN") auto
  ultimately show ?thesis by (auto simp: outcomes_ok_def detected_def cut_def)
qed

definition write_result :: "write_outcome \<Rightarrow> bytes option option \<Rightarrow> bytes \<Rightarrow> bytes option option" where
  "write_result oc old bs = (case oc of WriteOk \<Rightarrow> Some (Some bs) | OpenFails _ \<Rightarrow> old | WriteTorn g _ \<Rightarrow> Some (g bs))"

lemma write_all_sync_dir: "fst (write_all_sync oc d p bs) = d(p := write_result oc (d p) bs)"
  by (simp add: write_all_sync_def write_result_def split: write_outcome.splits)

lemma write_all_sync_ok: "snd (write_all_sync oc d p bs) = Inr () \<longleftrightarrow> oc = WriteOk"
  by (simp add: write_all_sync_def split: write_outcome.splits)

lemma encode_symbols_length:
  assumes "\<forall>sy\<in>set sys. unat (rs_offset sy) + byte_width (rs_ty sy) \<le> length img" "encode_symbols sys img = Inr p"
  shows "length p = sum_list (map (\<lambda>sy. 4 + length (rs_name sy) + byte_width (rs_ty sy)) sys)"
  using assms
  by (induction sys arbitrary: p) (auto simp: rbind_eq_Inr cell_def split: if_splits)

definition new_records :: "retain_layout \<Rightarrow> bytes \<Rightarrow> retain_record list" where
  "new_records l img = map (record_of img) (rl_symbols l)"

lemma input_payload:
  assumes "input_ok l img"
  obtains p where "encode_records l img = Inr p" "decode_records p = Inr (new_records l img)" "length p < 2 ^ 32"
proof -
  have i: "layout_inv l" "names_ok (rl_symbols l)" "length img = unat (rl_size l)" using assms by (simp_all add: input_ok_def)
  obtain p where p: "encode_records l img = Inr p" "decode_records p = Inr (new_records l img)"
    using decode_encode_records [OF i] by (auto simp: new_records_def)
  then have "length p < 2 ^ 32"
    using encode_symbols_length [of "rl_symbols l" img p] layout_bounds [OF i(1)] i assms
    by (simp add: encode_records_def input_ok_def)
  then show thesis using that p by blast
qed

lemma new_records_distinct: "layout_inv l \<Longrightarrow> distinct (map rr_name (new_records l img))"
  by (simp add: new_records_def record_of_def o_def layout_inv_def valid_symbols_def)

lemma committed_slot:
  assumes "validate_program_id pid = Inr ()"
  shows "fst (committed d pid) = 0 \<or> fst (committed d pid) = 1"
  using idx_of_slot by (auto simp: committed_def reads [OF assms] split: option.splits)

lemma flush_effect:
  assumes "validate_program_id pid = Inr ()" "input_ok l img"
  obtains slot gen sc rc p where "slot = 1 - fst (committed d pid)" "slot = 0 \<or> slot = 1"
    "length p < 2 ^ 32" "decode_records p = Inr (new_records l img)"
    "fst (flush o1 o2 d pid l img)
       = (let d1 = d(slot_file pid slot := write_result o1 (d (slot_file pid slot)) (encode_slot gen sc rc p))
          in if o1 = WriteOk then d1(idx_file pid := write_result o2 (d (idx_file pid)) (encode_idx slot gen)) else d1)"
    "snd (flush o1 o2 d pid l img)
       = (if o1 = WriteOk \<and> o2 = WriteOk
          then Inr \<lparr>fr_generation = gen, fr_slot = slot, fr_bytes_written = length (encode_slot gen sc rc p)\<rparr>
          else snd (flush o1 o2 d pid l img))"
proof -
  obtain p where p: "encode_records l img = Inr p" "decode_records p = Inr (new_records l img)" "length p < 2 ^ 32"
    using input_payload [OF assms(2)] .
  obtain a g0 where c: "committed d pid = (a, g0)" by force
  then have a: "a = 0 \<or> a = 1" using committed_slot [OF assms(1), of d] by simp
  show thesis
  proof (rule that [of "1 - a" p "max (sat_add g0 1) 1" "schema_hash l" "word_of_nat (length (rl_symbols l))"])
    show "1 - a = 1 - fst (committed d pid)" "1 - a = 0 \<or> 1 - a = 1" using c a by auto
  qed (use p a c assms in \<open>auto simp: flush_def input_ok_def paths [OF assms(1)] write_all_sync_def write_result_def Let_def
        split: write_outcome.splits\<close>)
qed

lemma damaged_file:
  assumes "detected (\<lambda>b. dec b \<noteq> None) oc bs"
  shows "(case write_result oc old bs of Some (Some b) \<Rightarrow> dec b | _ \<Rightarrow> None)
    \<in> {case old of Some (Some b) \<Rightarrow> dec b | _ \<Rightarrow> None, None, dec bs}"
  using assms by (auto simp: detected_def write_result_def split: write_outcome.splits option.splits)

text \<open>The same on what the three files decode to.\<close>

definition view_ok :: "idx_record option \<Rightarrow> decoded_slot option \<Rightarrow> decoded_slot option \<Rightarrow> bool" where
  "view_ok I S0 S1 \<longleftrightarrow>
     (case I of None \<Rightarrow> True
      | Some ix \<Rightarrow> (ix_slot ix = 0 \<or> ix_slot ix = 1) \<and>
          (case (if ix_slot ix = 0 then S0 else S1) of None \<Rightarrow> False | Some s \<Rightarrow> ds_generation s = ix_generation ix))"

definition newest :: "idx_record option \<Rightarrow> decoded_slot option \<Rightarrow> decoded_slot option \<Rightarrow> retain_record list option" where
  "newest I S0 S1 = map_option (\<lambda>(_, s). ds_records s) (choose_slot I S0 S1)"

definition active :: "idx_record option \<Rightarrow> decoded_slot option \<Rightarrow> decoded_slot option \<Rightarrow> u8" where
  "active I S0 S1 =
     (case I of Some ix \<Rightarrow> ix_slot ix
      | None \<Rightarrow> (case (S0, S1) of
           (Some a, Some b) \<Rightarrow> if ds_generation b \<le> ds_generation a then 0 else 1
         | (Some a, None) \<Rightarrow> 0 | (None, Some b) \<Rightarrow> 1 | (None, None) \<Rightarrow> 1))"

lemmas view_defs = view_ok_def newest_def active_def choose_slot_def Let_def

lemma view_step0:
  assumes "view_ok I S0 S1" "active I S0 S1 = 1"
    and "S0' \<in> {S0, None, Some n}" "I' = I \<or> S0' = Some n \<and> I' \<in> {None, Some \<lparr>ix_slot = 0, ix_generation = ds_generation n\<rparr>}"
  shows "view_ok I' S0' S1" "newest I' S0' S1 = newest I S0 S1 \<or> newest I' S0' S1 = Some (ds_records n)"
  using assms by (cases I; cases S0; cases S1; auto simp: view_defs split: if_splits)+

lemma view_step1:
  assumes "view_ok I S0 S1" "active I S0 S1 = 0"
    and "S1' \<in> {S1, None, Some n}" "I' = I \<or> S1' = Some n \<and> I' \<in> {None, Some \<lparr>ix_slot = 1, ix_generation = ds_generation n\<rparr>}"
  shows "view_ok I' S0 S1'" "newest I' S0 S1' = newest I S0 S1 \<or> newest I' S0 S1' = Some (ds_records n)"
  using assms by (cases I; cases S0; cases S1; auto simp: view_defs split: if_splits)+

lemma store_view:
  assumes "validate_program_id pid = Inr ()"
  defines "I \<equiv> \<lambda>d. idx_of (d (idx_file pid))" and "S \<equiv> \<lambda>d k. slot_of (d (slot_file pid k))"
  shows "store_ok d pid \<longleftrightarrow> view_ok (I d) (S d 0) (S d 1)"
    "current d pid = newest (I d) (S d 0) (S d 1)" "fst (committed d pid) = active (I d) (S d 0) (S d 1)"
  using idx_of_slot [of "d (idx_file pid)"]
  by (auto simp: I_def S_def store_ok_def view_ok_def current_def chosen_def newest_def committed_def active_def
      reads [OF assms(1)] split: option.splits)

lemma flush_step:
  assumes "validate_program_id pid = Inr ()" "input_ok l img" "store_ok d pid" "outcomes_ok o1 o2"
  defines "d' \<equiv> fst (flush o1 o2 d pid l img)"
  shows "store_ok d' pid \<and> (current d' pid = current d pid \<or> current d' pid = Some (new_records l img))
    \<and> (o1 = WriteOk \<and> o2 = WriteOk \<longrightarrow> current d' pid = Some (new_records l img))"
proof -
  obtain slot gen sc rc p where slot: "slot = 1 - fst (committed d pid)" "slot = 0 \<or> slot = 1"
    and p: "length p < 2 ^ 32" "decode_records p = Inr (new_records l img)"
    and d': "d' = (let d1 = d(slot_file pid slot := write_result o1 (d (slot_file pid slot)) (encode_slot gen sc rc p))
          in if o1 = WriteOk then d1(idx_file pid := write_result o2 (d (idx_file pid)) (encode_idx slot gen)) else d1)"
    unfolding d'_def by (rule flush_effect [OF assms(1,2), of d o1 o2]) blast
  let ?new = "\<lparr>ds_generation = gen, ds_records = new_records l img\<rparr>"
  have sl: "slot_of (write_result o1 c (encode_slot gen sc rc p)) \<in> {slot_of c, None, Some ?new}" for c
    using damaged_file [of decode_slot o1 "encode_slot gen sc rc p" c] assms(4) p decode_encode_slot [OF p]
    by (simp add: slot_of_def outcomes_ok_def)
  have sw: "slot_of (write_result WriteOk c (encode_slot gen sc rc p)) = Some ?new" for c
    using decode_encode_slot [OF p] by (simp add: slot_of_def write_result_def)
  have s1: "slot \<le> 1" using slot(2) by auto
  have il: "idx_of (write_result o2 c (encode_idx slot gen)) \<in> {idx_of c, None, Some \<lparr>ix_slot = slot, ix_generation = gen\<rparr>}" for c
    using damaged_file [of decode_idx o2 "encode_idx slot gen" c] assms(4) decode_encode_idx [OF s1]
    by (simp add: idx_of_def outcomes_ok_def)
  have iw: "idx_of (write_result WriteOk c (encode_idx slot gen)) = Some \<lparr>ix_slot = slot, ix_generation = gen\<rparr>" for c
    using decode_encode_idx [OF s1] by (simp add: idx_of_def write_result_def)
  note V = store_view [OF assms(1)]
  have new: "current d' pid = Some (new_records l img)" if "o1 = WriteOk" "o2 = WriteOk"
    using slot(2) that by (auto simp: V d' sw iw newest_def choose_slot_def Let_def)
  have st: "view_ok (idx_of (d (idx_file pid))) (slot_of (d (slot_file pid 0))) (slot_of (d (slot_file pid 1)))"
    using assms(3) V(1) by simp
  from slot(2) have "store_ok d' pid \<and> (current d' pid = current d pid \<or> current d' pid = Some (new_records l img))"
  proof
    assume z: "slot = 0"
    then have a: "fst (committed d pid) = 1" using slot(1) committed_slot [OF assms(1), of d] by auto
    show ?thesis
      using view_step0 [OF st, of "slot_of (d' (slot_file pid 0))" ?new "idx_of (d' (idx_file pid))"] a z
        sl [of "d (slot_file pid 0)"] sw il [of "d (idx_file pid)"]
      by (cases "o1 = WriteOk") (auto simp: V d' Let_def)
  next
    assume z: "slot = 1"
    then have a: "fst (committed d pid) = 0" using slot(1) committed_slot [OF assms(1), of d] by auto
    show ?thesis
      using view_step1 [OF st, of "slot_of (d' (slot_file pid 1))" ?new "idx_of (d' (idx_file pid))"] a z
        sl [of "d (slot_file pid 1)"] sw il [of "d (idx_file pid)"]
      by (cases "o1 = WriteOk") (auto simp: V d' Let_def)
  qed
  then show ?thesis using new by blast
qed

end
