(* ===== verification/RetainProps.thy ===== *)
theory RetainProps
  imports RetainStore
begin

section \<open>Properties of the retain store\<close>

text \<open>
  The claims on retained variables: migration between layouts, round trip through the store,
  behaviour under interrupted writes, independence of programs, and that a load always
  returns. The example layouts at the end of each claim serve as its witness.
\<close>

subsection \<open>Stores whose updates are atomic\<close>

text \<open>What the scan and the boot code rely on: an update, however it ends, leaves the old content or
  the new one, and the new one when it completes.\<close>

locale atomic_store =
  fixes update :: "'op \<Rightarrow> 'd \<Rightarrow> 'd"
    and good :: "'d \<Rightarrow> bool"
    and allowed :: "'op \<Rightarrow> bool"
    and content :: "'d \<Rightarrow> 'v option"
    and written :: "'op \<Rightarrow> 'v"
    and completes :: "'op \<Rightarrow> bool"
  assumes keeps_good: "good d \<Longrightarrow> allowed x \<Longrightarrow> good (update x d)"
    and old_or_new: "good d \<Longrightarrow> allowed x \<Longrightarrow> content (update x d) \<in> {content d, Some (written x)}"
    and new_when_complete: "good d \<Longrightarrow> allowed x \<Longrightarrow> completes x \<Longrightarrow> content (update x d) = Some (written x)"
begin

lemma run_good: "good d \<Longrightarrow> list_all allowed xs \<Longrightarrow> good (fold update xs d)"
  by (induction xs arbitrary: d) (simp_all add: keeps_good)

lemma run_content:
  "good d \<Longrightarrow> list_all allowed xs \<Longrightarrow> content (fold update xs d) \<in> insert (content d) (Some ` written ` set xs)"
proof (induction xs arbitrary: d)
  case (Cons x xs)
  then have "content (fold update xs (update x d)) \<in> insert (content (update x d)) (Some ` written ` set xs)"
    by (intro Cons.IH) (simp_all add: keeps_good)
  then show ?case using old_or_new [OF Cons.prems(1), of x] Cons.prems(2) by auto
qed simp

lemma run_newest:
  assumes "good d" "list_all allowed (pre @ x # post)" "completes x"
  shows "content (fold update (pre @ x # post) d) \<in> Some ` written ` set (x # post)"
proof -
  have g: "good (fold update pre d)" using run_good assms(1,2) by simp
  then have "content (update x (fold update pre d)) = Some (written x)"
    using new_when_complete assms(2,3) by simp
  moreover have "good (update x (fold update pre d))" using keeps_good [OF g] assms(2) by simp
  ultimately show ?thesis using run_content [of "update x (fold update pre d)" post] assms(2) by auto
qed

end

subsection \<open>Sequences of flushes\<close>

type_synonym flush_event = "retain_layout \<times> bytes \<times> write_outcome \<times> write_outcome"

definition flush_event :: "string \<Rightarrow> flush_event \<Rightarrow> dir \<Rightarrow> dir" where
  "flush_event pid ev d = (case ev of (l, img, o1, o2) \<Rightarrow> fst (flush o1 o2 d pid l img))"

definition flush_all :: "dir \<Rightarrow> string \<Rightarrow> flush_event list \<Rightarrow> dir" where
  "flush_all d pid evs = fold (flush_event pid) evs d"

definition event_ok :: "flush_event \<Rightarrow> bool" where
  "event_ok ev = (case ev of (l, img, o1, o2) \<Rightarrow> input_ok l img \<and> outcomes_ok o1 o2)"

interpretation retain: atomic_store "flush_event pid" "\<lambda>d. validate_program_id pid = Inr () \<and> store_ok d pid"
    event_ok "\<lambda>d. current d pid" "\<lambda>(l, img, _, _). new_records l img" "\<lambda>(_, _, o1, o2). o1 = WriteOk \<and> o2 = WriteOk"
    for pid :: string
proof unfold_locales
  fix d x assume "validate_program_id pid = Inr () \<and> store_ok d pid" "event_ok x"
  then show "validate_program_id pid = Inr () \<and> store_ok (flush_event pid x d) pid"
    and "current (flush_event pid x d) pid \<in> {current d pid, Some (case x of (l, img, _, _) \<Rightarrow> new_records l img)}"
    using flush_step [of pid _ _ d] by (auto simp: flush_event_def event_ok_def split: prod.splits)
next
  fix d x assume "validate_program_id pid = Inr () \<and> store_ok d pid" "event_ok x"
    "case x of (_, _, o1, o2) \<Rightarrow> o1 = WriteOk \<and> o2 = WriteOk"
  then show "current (flush_event pid x d) pid = Some (case x of (l, img, _, _) \<Rightarrow> new_records l img)"
    using flush_step [of pid _ _ d] by (auto simp: flush_event_def event_ok_def split: prod.splits)
qed

lemma complete_ok: "outcomes_ok WriteOk WriteOk"
  by (simp add: outcomes_ok_def detected_def)

lemma flush_all_newest:
  assumes "validate_program_id pid = Inr ()" "store_ok d pid"
    and "list_all event_ok (pre @ (l, img, WriteOk, WriteOk) # post)"
  shows "\<exists>(k, im, o1, o2)\<in>set ((l, img, WriteOk, WriteOk) # post).
    current (flush_all d pid (pre @ (l, img, WriteOk, WriteOk) # post)) pid = Some (new_records k im)"
  using retain.run_newest [OF _ assms(3)] assms(1,2) unfolding flush_all_def by fastforce

subsection \<open>Retained values\<close>

lemma find_unique:
  "x \<in> set xs \<Longrightarrow> P x \<Longrightarrow> (\<And>y. y \<in> set xs \<Longrightarrow> P y \<Longrightarrow> y = x) \<Longrightarrow> find P xs = Some x"
proof (induction xs)
  case (Cons a xs)
  show ?case
  proof (cases "P a")
    case True
    then have "a = x" using Cons.prems(3) [of a] by simp
    then show ?thesis using True by simp
  next
    case False
    have "x \<in> set xs" using Cons.prems(1,2) False by auto
    then have "find P xs = Some x" by (rule Cons.IH [OF _ Cons.prems(2)]) (use Cons.prems(3) in simp)
    then show ?thesis using False by simp
  qed
qed simp

lemma stored_new_records:
  assumes "layout_inv old"
  shows "stored (new_records old img) sy = (case layout_get old (rs_name sy) of None \<Rightarrow> None
      | Some s \<Rightarrow> if rs_ty s = rs_ty sy then Some (record_of img s) else None)"
proof (cases "layout_get old (rs_name sy)")
  case None
  then have "s \<in> set (rl_symbols old) \<Longrightarrow> rs_name s \<noteq> rs_name sy" for s
    using layout_get_iff [OF assms, of "rs_name sy" s] by auto
  then show ?thesis using None by (auto simp: stored_def find_None_iff new_records_def record_of_def)
next
  case (Some s)
  then have s: "s \<in> set (rl_symbols old)" "rs_name s = rs_name sy"
    using layout_get_iff [OF assms] by simp_all
  have u: "t = s" if "t \<in> set (rl_symbols old)" "rs_name t = rs_name sy" for t
    using layout_cells(1) [OF assms that(1) s(1)] that(2) s(2) by simp
  show ?thesis
  proof (cases "rs_ty s = rs_ty sy")
    case True
    have "stored (new_records old img) sy = Some (record_of img s)"
      unfolding stored_def
    proof (rule find_unique)
      fix r assume "r \<in> set (new_records old img)" "rr_name r = rs_name sy \<and> rr_ty r = rs_ty sy"
      then show "r = record_of img s" using u by (fastforce simp: new_records_def record_of_def)
    next
      show "record_of img s \<in> set (new_records old img)" using s(1) by (simp add: new_records_def)
    qed (use s True in \<open>simp add: record_of_def\<close>)
    then show ?thesis using Some True by simp
  next
    case False
    have "\<not> (rr_name r = rs_name sy \<and> rr_ty r = rs_ty sy)" if "r \<in> set (new_records old img)" for r
      using that u False by (fastforce simp: new_records_def record_of_def)
    then have "stored (new_records old img) sy = None" unfolding stored_def find_None_iff by blast
    then show ?thesis using Some False by simp
  qed
qed

subsection \<open>Claims\<close>

text \<open>C6: retained data survives interrupted writes. Start from a directory whose index, if readable,
  points at a valid slot (an empty directory, in particular), and flush any number of images,
  each write of slot or index completing, failing to open, or leaving a damaged file that is
  detected (files cut short always are). If one of the flushes completed, a later load
  succeeds, under any layout, and delivers the variables of that flush or of one after it:
  never a mixture, and never anything older.\<close>

theorem retain_crash_safe:
  assumes "validate_program_id pid = Inr ()" "store_ok d pid"
    and "list_all event_ok (pre @ (l, img, WriteOk, WriteOk) # post)"
    and "layout_inv l'" "length dst = unat (rl_size l')"
  shows "\<exists>(k, im, o1, o2)\<in>set ((l, img, WriteOk, WriteOk) # post). \<exists>out rep.
    load (flush_all d pid (pre @ (l, img, WriteOk, WriteOk) # post)) pid l' dst = (out, Inr rep)
    \<and> applied_spec (new_records k im) l' out"
proof -
  obtain k im o1 o2 where ev: "(k, im, o1, o2) \<in> set ((l, img, WriteOk, WriteOk) # post)"
    and c: "current (flush_all d pid (pre @ (l, img, WriteOk, WriteOk) # post)) pid = Some (new_records k im)"
    using flush_all_newest [OF assms(1-3)] by auto
  have "event_ok (k, im, o1, o2)" using ev assms(3) by (auto simp: list_all_iff)
  then have "distinct (map rr_name (new_records k im))"
    by (simp add: event_ok_def input_ok_def new_records_distinct)
  from load_spec [OF assms(1,4,5) c this] ev show ?thesis by fastforce
qed

definition demo_old :: retain_layout where
  "demo_old = \<lparr>rl_size = 8, rl_symbols =
     [\<lparr>rs_name = ''gone'', rs_ty = TBool, rs_offset = 4\<rparr>, \<lparr>rs_name = ''keep'', rs_ty = TDint, rs_offset = 0\<rparr>]\<rparr>"

definition demo_new :: retain_layout where
  "demo_new = \<lparr>rl_size = 8, rl_symbols =
     [\<lparr>rs_name = ''fresh'', rs_ty = TInt, rs_offset = 0\<rparr>, \<lparr>rs_name = ''keep'', rs_ty = TDint, rs_offset = 4\<rparr>]\<rparr>"

lemma demo_layouts: "layout_inv demo_old" "layout_inv demo_new"
  by (rule layout_new_inv [of 8 "rl_symbols demo_old"], code_simp)
    (rule layout_new_inv [of 8 "rl_symbols demo_new"], code_simp)

lemma demo_input: "input_ok demo_old [42, 0, 0, 0, 1, 0, 0, 0]"
proof -
  have u: "utf8_valid (str_bytes ''gone'')" "utf8_valid (str_bytes ''keep'')" by code_simp+
  have "names_ok (rl_symbols demo_old)" by (simp add: names_ok_def demo_old_def u)
  then show ?thesis using demo_layouts(1) by (simp add: input_ok_def) (simp add: demo_old_def)
qed

lemma empty_store_ok: "store_ok Map.empty pid"
  by (simp add: store_ok_def read_idx_def split: sum.splits)

lemma demo_pid: "validate_program_id ''pump-1'' = Inr ()"
  by code_simp

theorem retain_crash_safe_witness:
  "\<exists>(k, im, o1, o2)\<in>set [(demo_old, [42, 0, 0, 0, 1, 0, 0, 0], WriteOk, WriteOk),
       (demo_old, [42, 0, 0, 0, 1, 0, 0, 0], cut 7, cut 0)]. \<exists>out rep.
    load (flush_all Map.empty ''pump-1'' [(demo_old, [42, 0, 0, 0, 1, 0, 0, 0], WriteOk, WriteOk),
       (demo_old, [42, 0, 0, 0, 1, 0, 0, 0], cut 7, cut 0)]) ''pump-1'' demo_new (replicate 8 0) = (out, Inr rep)
    \<and> applied_spec (new_records k im) demo_new out"
proof -
  have e: "list_all event_ok ([] @ (demo_old, [42, 0, 0, 0, 1, 0, 0, 0], WriteOk, WriteOk)
      # [(demo_old, [42, 0, 0, 0, 1, 0, 0, 0], cut 7, cut 0)])"
    using demo_input complete_ok cut_ok by (simp add: event_ok_def)
  have "length (replicate 8 (0 :: u8)) = unat (rl_size demo_new)" by (simp add: demo_new_def)
  from retain_crash_safe [OF demo_pid empty_store_ok e demo_layouts(2) this] show ?thesis
    by (simp only: append_Nil)
qed

text \<open>C20: what a complete flush wrote, a load with the same layout reads back, whatever the directory
  held before: every variable has its flushed value, and the report names the slot and the
  generation of the flush.\<close>

theorem retain_flush_load:
  assumes "validate_program_id pid = Inr ()" "input_ok l img" "length dst = length img"
  shows "case flush WriteOk WriteOk d pid l img of
      (_, Inl _) \<Rightarrow> False
    | (d', Inr fr) \<Rightarrow>
        (case load d' pid l dst of
           (_, Inl _) \<Rightarrow> False
         | (out, Inr lr) \<Rightarrow> length out = length img \<and> list_all (\<lambda>sy. cell sy out = cell sy img) (rl_symbols l)
             \<and> lr_generation lr = fr_generation fr \<and> lr_source lr = source_from_slot (fr_slot fr))"
proof -
  obtain slot gen sc rc p where slot: "slot = 0 \<or> slot = 1"
    and p: "length p < 2 ^ 32" "decode_records p = Inr (new_records l img)"
    and d': "fst (flush WriteOk WriteOk d pid l img)
      = d(slot_file pid slot \<mapsto> Some (encode_slot gen sc rc p), idx_file pid \<mapsto> Some (encode_idx slot gen))"
    and fr: "snd (flush WriteOk WriteOk d pid l img)
      = Inr \<lparr>fr_generation = gen, fr_slot = slot, fr_bytes_written = length (encode_slot gen sc rc p)\<rparr>"
    by (rule flush_effect [OF assms(1,2), of d WriteOk WriteOk]) (simp add: write_result_def)
  let ?d = "fst (flush WriteOk WriteOk d pid l img)"
  let ?s = "\<lparr>ds_generation = gen, ds_records = new_records l img\<rparr>"
  have i: "layout_inv l" "length img = unat (rl_size l)" using assms(2) by (simp_all add: input_ok_def)
  have ch: "chosen ?d pid = Some (slot, ?s)"
    using slot decode_encode_slot [OF p] decode_encode_idx [of slot gen]
    by (auto simp: chosen_def reads [OF assms(1)] d' slot_of_def idx_of_def choose_slot_def Let_def)
  then have cur: "current ?d pid = Some (new_records l img)" by (simp add: current_def)
  obtain m where m: "apply_records (new_records l img) l True = Inr m" "applied_spec (new_records l img) l (mp_image m)"
    using apply_records_cases [OF i(1) current_widths [OF assms(1) cur] new_records_distinct [OF i(1)], of True] by blast
  have st: "stored (new_records l img) sy = Some (record_of img sy)" if "sy \<in> set (rl_symbols l)" for sy
    using that layout_get_iff [OF i(1), of "rs_name sy" sy] by (simp add: stored_new_records [OF i(1)])
  have cells: "cell sy (mp_image m) = cell sy img" if "sy \<in> set (rl_symbols l)" for sy
    using m(2) st [OF that] that by (simp add: applied_spec_def list_all_iff record_of_def)
  show ?thesis
    using fr ch m cells i assms(1,3)
    by (cases "flush WriteOk WriteOk d pid l img")
      (auto simp: load_def chosen_def Let_def list_all_iff applied_spec_def split: sum.splits)
qed

theorem retain_flush_load_witness:
  "case flush WriteOk WriteOk Map.empty ''pump-1'' demo_old [42, 0, 0, 0, 1, 0, 0, 0] of
      (_, Inl _) \<Rightarrow> False
    | (d', Inr fr) \<Rightarrow>
        (case load d' ''pump-1'' demo_old (replicate 8 0) of
           (_, Inl _) \<Rightarrow> False
         | (out, Inr lr) \<Rightarrow> length out = length [42, 0, 0, 0, 1, 0, 0, 0 :: u8]
             \<and> list_all (\<lambda>sy. cell sy out = cell sy [42, 0, 0, 0, 1, 0, 0, 0]) (rl_symbols demo_old)
             \<and> lr_generation lr = fr_generation fr \<and> lr_source lr = source_from_slot (fr_slot fr))"
  by (rule retain_flush_load [OF demo_pid demo_input]) simp

text \<open>C22: a load returns, whatever the directory holds: unreadable, truncated or forged files of any
  kind lead to an image of the right length, never to an error. The only errors are an
  invalid program id and a buffer of the wrong length, and those leave the buffer alone. A
  cold start means zeros.\<close>

theorem retain_load_total:
  assumes "layout_inv l"
  shows "case load d pid l dst of
      (out, Inl e) \<Rightarrow> out = dst \<and> (e = ReInvalidProgramId pid \<or> e = ReImageSize (rl_size l) (length dst))
    | (out, Inr rep) \<Rightarrow> validate_program_id pid = Inr () \<and> length out = unat (rl_size l)
        \<and> (if lr_source rep = Cold then out = replicate (length out) 0 else lr_missing rep = False)"
proof (cases "validate_program_id pid = Inr () \<and> length dst = unat (rl_size l)")
  case True
  then have t: "validate_program_id pid = Inr ()" "length dst = unat (rl_size l)" by simp_all
  from t(1) assms t(2) show ?thesis
  proof (cases rule: load_current [where d = d, consumes 3, case_names cold warm])
    case (warm recs m rep)
    have w: "widths_ok recs" using current_widths [OF t(1) warm(1)] .
    have "length (mp_image m) = unat (rl_size l)"
      using warm(2) length_apply_image [OF assms w]
      by (auto simp: apply_records_def apply_loop_foldl [OF w] Let_def)
    then show ?thesis using warm t by simp
  qed (use t in simp)
next
  case False
  then show ?thesis
    by (auto simp: load_def validate_program_id_def)
qed

theorem retain_load_total_witness:
  "case load [''pump-1.ret.0'' \<mapsto> None] ''pump-1'' demo_new [1, 2, 3, 4, 5, 6, 7, 8] of
      (out, Inl e) \<Rightarrow> out = [1, 2, 3, 4, 5, 6, 7, 8]
        \<and> (e = ReInvalidProgramId ''pump-1'' \<or> e = ReImageSize (rl_size demo_new) (length [1, 2, 3, 4, 5, 6, 7, 8 :: u8]))
    | (out, Inr rep) \<Rightarrow> validate_program_id ''pump-1'' = Inr () \<and> length out = unat (rl_size demo_new)
        \<and> (if lr_source rep = Cold then out = replicate (length out) 0 else lr_missing rep = False)"
  by (rule retain_load_total [OF demo_layouts(2)])

text \<open>C23: programs do not disturb each other: a flush for one program, however its writes end, leaves
  every load for another program unchanged.\<close>

theorem retain_programs_apart:
  assumes "pid \<noteq> pid'"
  shows "load (fst (flush o1 o2 d pid l img)) pid' l' dst = load d pid' l' dst"
proof -
  let ?d = "fst (flush o1 o2 d pid l img)"
  have c: "fst (committed d pid) = 0 \<or> fst (committed d pid) = 1" if "validate_program_id pid = Inr ()"
    using committed_slot [OF that] .
  have "?d f = d f" if "f \<noteq> slot_file pid 0" "f \<noteq> slot_file pid 1" "f \<noteq> idx_file pid" for f
    using that c paths [of pid]
    by (auto simp: flush_def write_all_sync_def Let_def split: sum.splits write_outcome.splits prod.splits)
  then have f: "?d (slot_file pid' 0) = d (slot_file pid' 0)" "?d (slot_file pid' 1) = d (slot_file pid' 1)"
    "?d (idx_file pid') = d (idx_file pid')"
    using assms by auto
  show ?thesis
  proof (cases "validate_program_id pid' = Inr ()")
    case True
    then show ?thesis
      using f by (simp add: load_def read_idx_def read_slot_def store_exists_def path_exists_def paths [OF True])
  next
    case False
    then show ?thesis by (auto simp: load_def split: sum.splits)
  qed
qed

theorem retain_programs_apart_witness:
  "''pump-1'' \<noteq> ''pump-2'' \<and>
   load (fst (flush WriteOk (cut 3) Map.empty ''pump-1'' demo_old [42, 0, 0, 0, 1, 0, 0, 0])) ''pump-2'' demo_new (replicate 8 0)
   = load Map.empty ''pump-2'' demo_new (replicate 8 0)"
  using retain_programs_apart [of "''pump-1''" "''pump-2''"] by simp

text \<open>C21: migration of retained variables when a program is armed (\<open>map_retain\<close>). A variable of the new
  layout takes its value from the old image when the old layout has the name with the same
  type, and is zero otherwise; no other byte is set; the report counts kept, new, dropped and
  zeroed variables. A type conflict rejects the migration, naming exactly the conflicting
  variables, unless it is forced.\<close>

theorem map_retain_correct:
  assumes "layout_inv old" "layout_inv new" "length img = unat (rl_size old)"
  shows "case map_retain old img new force of
      Inl e \<Rightarrow> force = False \<and> filter (clashes new) (new_records old img) \<noteq> []
        \<and> e = ReIncompatible (map rr_name (filter (clashes new) (new_records old img)))
    | Inr m \<Rightarrow> (force \<or> filter (clashes new) (new_records old img) = [])
        \<and> list_all (\<lambda>sy. cell sy (mp_image m)
             = (case layout_get old (rs_name sy) of
                  None \<Rightarrow> replicate (byte_width (rs_ty sy)) 0
                | Some s \<Rightarrow> if rs_ty s = rs_ty sy then cell s img else replicate (byte_width (rs_ty sy)) 0)) (rl_symbols new)
        \<and> applied_spec (new_records old img) new (mp_image m)
        \<and> report_spec (new_records old img) new (mp_report m)"
proof -
  have w: "widths_ok (new_records old img)"
    using layout_bounds [OF assms(1)] assms(3)
    by (auto simp: widths_ok_def new_records_def record_of_def cell_def list_all_iff)
  have mr: "map_retain old img new force = apply_records (new_records old img) new force"
    using assms(3) by (simp add: map_retain_def records_from_image_def new_records_def)
  have ce: "(case stored (new_records old img) sy of None \<Rightarrow> replicate (byte_width (rs_ty sy)) 0 | Some r \<Rightarrow> rr_value r)
      = (case layout_get old (rs_name sy) of None \<Rightarrow> replicate (byte_width (rs_ty sy)) 0
         | Some s \<Rightarrow> if rs_ty s = rs_ty sy then cell s img else replicate (byte_width (rs_ty sy)) 0)" for sy
    by (simp add: stored_new_records [OF assms(1)] record_of_def split: option.splits)
  show ?thesis
  proof (rule apply_records_cases [OF assms(2) w new_records_distinct [OF assms(1)], of force])
    fix m assume m: "force \<or> filter (clashes new) (new_records old img) = []"
      "apply_records (new_records old img) new force = Inr m"
      "applied_spec (new_records old img) new (mp_image m)" "report_spec (new_records old img) new (mp_report m)"
    note cells = m(3) [unfolded applied_spec_def ce, THEN conjunct2, THEN conjunct1]
    show ?thesis unfolding mr m(2) sum.case using m(1,3,4) cells by blast
  next
    assume r: "\<not> force" "filter (clashes new) (new_records old img) \<noteq> []"
      "apply_records (new_records old img) new force
        = Inl (ReIncompatible (map rr_name (filter (clashes new) (new_records old img))))"
    show ?thesis unfolding mr r(3) sum.case using r(1,2) by simp
  qed
qed

theorem map_retain_correct_witness:
  "case map_retain demo_old [42, 0, 0, 0, 1, 0, 0, 0] demo_new False of
      Inl e \<Rightarrow> False
    | Inr m \<Rightarrow> applied_spec (new_records demo_old [42, 0, 0, 0, 1, 0, 0, 0]) demo_new (mp_image m)
        \<and> mp_image m = [0, 0, 0, 0, 42, 0, 0, 0]"
proof -
  have i: "map_retain demo_old [42, 0, 0, 0, 1, 0, 0, 0] demo_new False
      = Inr \<lparr>mp_image = [0, 0, 0, 0, 42, 0, 0, 0], mp_report = \<lparr>mr_kept = 1, mr_cold_defaults = 1, mr_dropped = 1,
          mr_zeroed_incompat = []\<rparr>\<rparr>"
    by code_simp
  have "length [42, 0, 0, 0, 1, 0, 0, 0 :: u8] = unat (rl_size demo_old)" by (simp add: demo_old_def)
  from map_retain_correct [OF demo_layouts this, of False] i show ?thesis by simp
qed

end
