(* ===== verification/TextOps.thy ===== *)
theory TextOps
  imports Prelude
begin

section \<open>Text operations of the standard library\<close>

text \<open>
  \<open>str::trim\<close> on UTF-8 text, ASCII case, hexadecimal and decimal digits, and the parser of socket
  addresses (\<open>core::net::parser\<close>), as the configuration, the authentication and the Modbus map use
  them. A string is its bytes; a suffix of a well-formed text that spells a white-space
  character is that character, so trimming at either end works on bytes.
\<close>

subsection \<open>Trimming\<close>

definition WHITE_SPACE :: "bytes list" where
  "WHITE_SPACE =
     [[0x09], [0x0A], [0x0B], [0x0C], [0x0D], [0x20], [0xC2, 0x85], [0xC2, 0xA0], [0xE1, 0x9A, 0x80],
      [0xE2, 0x80, 0x80], [0xE2, 0x80, 0x81], [0xE2, 0x80, 0x82], [0xE2, 0x80, 0x83], [0xE2, 0x80, 0x84],
      [0xE2, 0x80, 0x85], [0xE2, 0x80, 0x86], [0xE2, 0x80, 0x87], [0xE2, 0x80, 0x88], [0xE2, 0x80, 0x89],
      [0xE2, 0x80, 0x8A], [0xE2, 0x80, 0xA8], [0xE2, 0x80, 0xA9], [0xE2, 0x80, 0xAF], [0xE2, 0x81, 0x9F],
      [0xE3, 0x80, 0x80]]"

definition starts_with :: "'a list \<Rightarrow> 'a list \<Rightarrow> bool" where
  "starts_with p s \<longleftrightarrow> take (length p) s = p"

text \<open>Strip any of the given non-empty words from the front, as long as one is there.\<close>

function strip_front :: "'a list list \<Rightarrow> 'a list \<Rightarrow> 'a list" where
  "strip_front ws s =
     (case find (\<lambda>w. w \<noteq> [] \<and> starts_with w s) ws of None \<Rightarrow> s | Some w \<Rightarrow> strip_front ws (drop (length w) s))"
  by pat_completeness auto
termination
proof (relation "measure (\<lambda>(ws, s). length s)")
  fix ws :: "'a list list" and s w
  assume "find (\<lambda>w. w \<noteq> [] \<and> starts_with w s) ws = Some w"
  then have w: "w \<noteq> []" "take (length w) s = w" by (auto simp: find_Some_iff starts_with_def)
  then have "length w \<le> length s" by (metis length_take min.cobounded1)
  then show "((ws, drop (length w) s), (ws, s)) \<in> measure (\<lambda>(ws, s). length s)"
    using w(1) by (cases w) auto
qed simp

declare strip_front.simps [simp del]

definition trim_start_bytes :: "bytes \<Rightarrow> bytes" where
  "trim_start_bytes s = strip_front WHITE_SPACE s"

definition trim_end_bytes :: "bytes \<Rightarrow> bytes" where
  "trim_end_bytes s = rev (strip_front (map rev WHITE_SPACE) (rev s))"

definition trim :: "string \<Rightarrow> string" where
  "trim s = bytes_str (trim_end_bytes (trim_start_bytes (str_bytes s)))"

lemma strip_front_id: "(\<And>w. w \<in> set ws \<Longrightarrow> w \<noteq> [] \<Longrightarrow> s \<noteq> [] \<Longrightarrow> hd w \<noteq> hd s) \<Longrightarrow> strip_front ws s = s"
proof -
  assume h: "\<And>w. w \<in> set ws \<Longrightarrow> w \<noteq> [] \<Longrightarrow> s \<noteq> [] \<Longrightarrow> hd w \<noteq> hd s"
  have "\<not> (w \<noteq> [] \<and> starts_with w s)" if "w \<in> set ws" for w
  proof
    assume w: "w \<noteq> [] \<and> starts_with w s"
    then have "s \<noteq> []" "hd w = hd s" by (auto simp: starts_with_def) (metis hd_take length_greater_0_conv)
    then show False using h [OF that] w by simp
  qed
  then have "find (\<lambda>w. w \<noteq> [] \<and> starts_with w s) ws = None" by (simp add: find_None_iff)
  then show ?thesis by (simp add: strip_front.simps)
qed

lemma white_space_ends:
  "w \<in> set WHITE_SPACE \<Longrightarrow> (hd w < 48 \<or> 127 < hd w) \<and> (last w < 48 \<or> 127 < last w)"
proof -
  have "list_all (\<lambda>w. (hd w < 48 \<or> 127 < hd w) \<and> (last w < 48 \<or> 127 < last w)) WHITE_SPACE" by code_simp
  then show "w \<in> set WHITE_SPACE \<Longrightarrow> ?thesis" by (simp add: list_all_iff)
qed

text \<open>A text of printable characters from the digits on has nothing to trim.\<close>

lemma trim_word:
  assumes "list_all (\<lambda>c. 48 \<le> (word_of_nat (of_char c) :: u8) \<and> (word_of_nat (of_char c) :: u8) \<le> 127) s"
  shows "trim s = s"
proof -
  have d: "48 \<le> b \<and> b \<le> 127" if "b \<in> set (str_bytes s)" for b
    using that assms by (auto simp: str_bytes_def list_all_iff)
  have "strip_front WHITE_SPACE (str_bytes s) = str_bytes s"
  proof (rule strip_front_id)
    fix w assume w: "w \<in> set WHITE_SPACE" "str_bytes s \<noteq> []"
    then show "hd w \<noteq> hd (str_bytes s)" using white_space_ends [OF w(1)] d [OF hd_in_set [OF w(2)]] by (metis leD)
  qed
  moreover have "strip_front (map rev WHITE_SPACE) (rev (str_bytes s)) = rev (str_bytes s)"
  proof (rule strip_front_id)
    fix w assume w: "w \<in> set (map rev WHITE_SPACE)" "w \<noteq> []" "rev (str_bytes s) \<noteq> []"
    then obtain v where v: "v \<in> set WHITE_SPACE" "w = rev v" by auto
    have "hd (rev (str_bytes s)) \<in> set (str_bytes s)" using w(3) hd_in_set [of "rev (str_bytes s)"] by simp
    then show "hd w \<noteq> hd (rev (str_bytes s))"
      using white_space_ends [OF v(1)] d v(2) by (metis hd_rev leD)
  qed
  ultimately show ?thesis by (simp add: trim_def trim_start_bytes_def trim_end_bytes_def)
qed

subsection \<open>Characters\<close>

definition ascii_lower :: "char \<Rightarrow> char" where
  "ascii_lower c = (let n = of_char c :: nat in if 65 \<le> n \<and> n \<le> 90 then char_of (n + 32) else c)"

definition to_ascii_lowercase :: "string \<Rightarrow> string" where
  "to_ascii_lowercase s = map ascii_lower s"

text \<open>A natural number in decimal, as \<open>format!\<close> prints it.\<close>

fun show_nat :: "nat \<Rightarrow> string" where
  "show_nat n = (if n < 10 then [char_of (48 + n)] else show_nat (n div 10) @ [char_of (48 + n mod 10)])"

declare show_nat.simps [simp del]

text \<open>\<open>char::to_digit\<close> for the radixes 10 and 16.\<close>

definition digit_of :: "nat \<Rightarrow> char \<Rightarrow> nat option" where
  "digit_of radix c =
     (let n = of_char c :: nat;
          d = (if 48 \<le> n \<and> n \<le> 57 then n - 48
               else if 97 \<le> n \<and> n \<le> 102 then n - 87
               else if 65 \<le> n \<and> n \<le> 70 then n - 55 else 99)
      in if d < radix then Some d else None)"

fun read_digits :: "nat \<Rightarrow> string \<Rightarrow> nat list \<times> string" where
  "read_digits radix [] = ([], [])"
| "read_digits radix (c # s) =
     (case digit_of radix c of
        None \<Rightarrow> ([], c # s)
      | Some d \<Rightarrow> (let (ds, r) = read_digits radix s in (d # ds, r)))"

definition digits_value :: "nat \<Rightarrow> nat list \<Rightarrow> int" where
  "digits_value radix ds = foldl (\<lambda>n d. n * int radix + int d) 0 ds"

subsection \<open>Socket addresses\<close>

text \<open>\<open>Parser::read_number\<close>: the digits at the front; at most \<open>max_digits\<close> of them, a value up to
  \<open>limit\<close>, and no leading zero unless allowed. The result is what is left to read.\<close>

definition read_number :: "nat \<Rightarrow> nat option \<Rightarrow> int \<Rightarrow> bool \<Rightarrow> string \<Rightarrow> string option" where
  "read_number radix max_digits limit zeros s =
     (let (ds, r) = read_digits radix s
      in if ds = [] then None
         else if (case max_digits of None \<Rightarrow> False | Some k \<Rightarrow> k < length ds) then None
         else if limit < digits_value radix ds then None
         else if \<not> zeros \<and> hd ds = 0 \<and> 1 < length ds then None
         else Some r)"

fun read_char_exact :: "char \<Rightarrow> string \<Rightarrow> string option" where
  "read_char_exact c [] = None"
| "read_char_exact c (d # s) = (if d = c then Some s else None)"

definition read_octet :: "string \<Rightarrow> string option" where
  "read_octet s = read_number 10 (Some 3) 255 False s"

definition read_ipv4 :: "string \<Rightarrow> string option" where
  "read_ipv4 s =
     Option.bind (read_octet s) (\<lambda>s. Option.bind (read_char_exact CHR ''.'' s) (\<lambda>s.
     Option.bind (read_octet s) (\<lambda>s. Option.bind (read_char_exact CHR ''.'' s) (\<lambda>s.
     Option.bind (read_octet s) (\<lambda>s. Option.bind (read_char_exact CHR ''.'' s) (\<lambda>s.
     read_octet s))))))"

text \<open>The groups of an IPv6 address from the \<open>i\<close>-th of \<open>limit\<close> on: how many were read, whether they
  end with an embedded IPv4 address, and what is left.\<close>

function read_groups :: "nat \<Rightarrow> nat \<Rightarrow> string \<Rightarrow> nat \<times> bool \<times> string" where
  "read_groups limit i s =
     (if limit \<le> i then (limit, False, s)
      else let sep = (if i = 0 then Some s else read_char_exact CHR '':'' s);
               v4 = (if i + 1 < limit then Option.bind sep read_ipv4 else None)
           in case v4 of
                Some r \<Rightarrow> (i + 2, True, r)
              | None \<Rightarrow>
                  (case Option.bind sep (read_number 16 (Some 4) 0xFFFF True) of
                     Some r \<Rightarrow> read_groups limit (i + 1) r
                   | None \<Rightarrow> (i, False, s)))"
  by pat_completeness auto
termination
  by (relation "measure (\<lambda>(limit, i, s). limit - i)") auto

declare read_groups.simps [simp del]

definition read_ipv6 :: "string \<Rightarrow> string option" where
  "read_ipv6 s =
     (let (n, v4, r) = read_groups 8 0 s
      in if n = 8 then Some r
         else if v4 then None
         else Option.bind (read_char_exact CHR '':'' r) (\<lambda>r. Option.bind (read_char_exact CHR '':'' r) (\<lambda>r.
           let (_, _, r') = read_groups (8 - (n + 1)) 0 r in Some r')))"

definition read_port :: "string \<Rightarrow> string option" where
  "read_port s = Option.bind (read_char_exact CHR '':'' s) (read_number 10 None 0xFFFF True)"

definition read_scope :: "string \<Rightarrow> string" where
  "read_scope s =
     (case Option.bind (read_char_exact CHR ''%'' s) (read_number 10 None 0xFFFFFFFF True) of
        Some r \<Rightarrow> r | None \<Rightarrow> s)"

definition read_socket_v6 :: "string \<Rightarrow> string option" where
  "read_socket_v6 s =
     Option.bind (read_char_exact CHR ''['' s) (\<lambda>s. Option.bind (read_ipv6 s) (\<lambda>s.
     Option.bind (read_char_exact CHR '']'' (read_scope s)) read_port))"

definition parses_socket_addr :: "string \<Rightarrow> bool" where
  "parses_socket_addr s \<longleftrightarrow>
     (case Option.bind (read_ipv4 s) read_port of
        Some r \<Rightarrow> r = [] | None \<Rightarrow> read_socket_v6 s = Some [])"

subsection \<open>Facts\<close>

lemma strip_front_fixed: "strip_front ws (strip_front ws s) = strip_front ws s"
proof (induction ws s rule: strip_front.induct)
  case (1 ws s)
  show ?case
  proof (cases "find (\<lambda>w. w \<noteq> [] \<and> starts_with w s) ws")
    case None
    then have "strip_front ws s = s" by (simp add: strip_front.simps)
    then show ?thesis by simp
  next
    case (Some w)
    then have "strip_front ws s = strip_front ws (drop (length w) s)" by (simp add: strip_front.simps [of ws s])
    then show ?thesis using 1 [OF Some] by simp
  qed
qed

lemma digits_value_bound:
  "list_all (\<lambda>d. d < radix) ds \<Longrightarrow> 0 \<le> digits_value radix ds \<and> digits_value radix ds < int radix ^ length ds"
proof (induction ds rule: rev_induct)
  case (snoc d ds)
  then have "digits_value radix ds + 1 \<le> int radix ^ length ds" "d < radix" "0 \<le> digits_value radix ds" by simp_all
  then have "(digits_value radix ds + 1) * int radix \<le> int radix ^ length ds * int radix"
    by (intro mult_right_mono) simp_all
  moreover have "0 \<le> digits_value radix ds * int radix" using \<open>0 \<le> digits_value radix ds\<close> by simp
  ultimately show ?case using \<open>d < radix\<close> by (simp add: digits_value_def algebra_simps)
qed (simp add: digits_value_def)

end
