(* ===== verification/DeviceConfig.thy ===== *)
theory DeviceConfig
  imports TextOps ScanEngine
begin

section \<open>Device configuration (\<open>plc-config\<close>)\<close>

text \<open>
  The configuration document with its defaults, its validation, and loading. The YAML and JSON
  parsers are third-party code and a parameter of \<open>load_from_str\<close>; reading a file is a parameter of
  \<open>load_from_path\<close>. The error messages keep the fixed part of the text. The lemmas characterise
  what a validated configuration has.
\<close>

subsection \<open>Schema\<close>

definition CONFIG_SCHEMA_VERSION :: u32 where "CONFIG_SCHEMA_VERSION = 1"

datatype profile_kind = Dev | Prod

record device_identity =
  di_id :: string
  di_name :: string
  di_site :: string

record task_config =
  tc_name :: string
  tc_period_ms :: u32
  tc_entry :: string
  tc_priority :: u8

record scan_config =
  sc_tasks :: "task_config list"
  sc_overrun_limit :: u32
  sc_cpu_affinity :: "nat option"

record telemetry_config =
  tl_enabled :: bool
  tl_group_id :: string
  tl_device_id :: string
  tl_broker_url :: string
  tl_analog_period_ms :: u32
  tl_digital_cos_ms :: u32

definition telemetry_default :: telemetry_config where
  "telemetry_default = \<lparr>tl_enabled = True, tl_group_id = ''plantA'', tl_device_id = ''line'', tl_broker_url = [],
     tl_analog_period_ms = 500, tl_digital_cos_ms = 20\<rparr>"

record rest_config =
  rc_bind :: string

definition rest_default :: rest_config where
  "rest_default = \<lparr>rc_bind = ''127.0.0.1:8443''\<rparr>"

record paths_config =
  pc_programs :: string
  pc_retain :: string
  pc_audit :: string
  pc_io_map :: string

definition paths_default :: paths_config where
  "paths_default = \<lparr>pc_programs = ''/var/lib/soft-plc/programs'', pc_retain = ''/var/lib/soft-plc/retain'',
     pc_audit = ''/var/lib/soft-plc/audit'', pc_io_map = ''/var/lib/soft-plc/io-map.yaml''\<rparr>"

record limits_config =
  lc_max_package_bytes :: u64
  lc_rest_rate_per_s :: u32
  lc_rest_burst :: u32
  lc_auth_fail_per_min :: u32
  lc_max_instances :: u32

definition limits_default :: limits_config where
  "limits_default = \<lparr>lc_max_package_bytes = 8 * 1024 * 1024, lc_rest_rate_per_s = 30, lc_rest_burst = 60,
     lc_auth_fail_per_min = 5, lc_max_instances = 4096\<rparr>"

record program_config =
  gc_require_signature :: bool

definition program_default :: program_config where
  "program_default = \<lparr>gc_require_signature = False\<rparr>"

definition AUTH_ROLES :: "string list" where
  "AUTH_ROLES = [''viewer'', ''operator'', ''engineer'', ''admin'']"

record principal_config =
  pp_id :: string
  pp_role :: string
  pp_token_sha256 :: "string option"
  pp_cert_sha256 :: "string option"

record auth_config =
  ac_required :: bool
  ac_tls_cert_path :: string
  ac_tls_key_path :: string
  ac_client_ca_path :: string
  ac_dual_control :: bool
  ac_lockout_secs :: u32
  ac_principals :: "principal_config list"

definition auth_default :: auth_config where
  "auth_default = \<lparr>ac_required = False, ac_tls_cert_path = [], ac_tls_key_path = [], ac_client_ca_path = [],
     ac_dual_control = False, ac_lockout_secs = 60, ac_principals = []\<rparr>"

record io_config =
  ic_fault_on_module_bad :: bool
  ic_drivers :: "string list"

definition io_default :: io_config where
  "io_default = \<lparr>ic_fault_on_module_bad = False, ic_drivers = [''sim'']\<rparr>"

record watchdog_config =
  wc_hardware_enabled :: bool
  wc_hardware_path :: string

definition watchdog_default :: watchdog_config where
  "watchdog_default = \<lparr>wc_hardware_enabled = False, wc_hardware_path = ''/dev/watchdog''\<rparr>"

record device_config =
  dc_version :: u32
  dc_profile :: profile_kind
  dc_device :: device_identity
  dc_scan :: scan_config
  dc_telemetry :: telemetry_config
  dc_paths :: paths_config
  dc_limits :: limits_config
  dc_program :: program_config
  dc_auth :: auth_config
  dc_io :: io_config
  dc_watchdog :: watchdog_config
  dc_stop_output_policy :: stop_output_policy
  dc_rest :: rest_config

datatype config_error =
    CfgIo string
  | CfgYaml string
  | CfgJson string
  | CfgUnsupportedVersion u32 u32
  | CfgValidation string

subsection \<open>Validation\<close>

definition ALLOWED_DRIVERS :: "string list" where
  "ALLOWED_DRIVERS = [''sim'', ''gpio'', ''modbus_tcp'']"

definition nonempty_hash :: "string option \<Rightarrow> string option" where
  "nonempty_hash s = (case s of None \<Rightarrow> None | Some h \<Rightarrow> if trim h = [] then None else Some (trim h))"

definition is_hexdigit :: "char \<Rightarrow> bool" where
  "is_hexdigit c \<longleftrightarrow> digit_of 16 c \<noteq> None"

definition check_sha256_hex :: "string \<Rightarrow> config_error + unit" where
  "check_sha256_hex h =
     (if length h \<noteq> 64 \<or> \<not> list_all is_hexdigit h then Inl (CfgValidation ''must be 64 hex characters'') else Inr ())"

text \<open>Check a hash that is present and insert its lower case form into the set; an absent one leaves the set.\<close>

definition note_hash :: "string option \<Rightarrow> string set \<Rightarrow> config_error + string set" where
  "note_hash h seen =
     (case h of
        None \<Rightarrow> Inr seen
      | Some x \<Rightarrow> rbind (check_sha256_hex x) (\<lambda>_.
          if to_ascii_lowercase x \<in> seen then Inl (CfgValidation ''duplicate hash'')
          else Inr (insert (to_ascii_lowercase x) seen)))"

fun validate_principals :: "string set \<Rightarrow> string set \<Rightarrow> string set \<Rightarrow> principal_config list \<Rightarrow> config_error + unit" where
  "validate_principals ids tokens certs [] = Inr ()"
| "validate_principals ids tokens certs (p # ps) =
     (let pid = trim (pp_id p);
          token = nonempty_hash (pp_token_sha256 p);
          cert = nonempty_hash (pp_cert_sha256 p)
      in if pid = [] then Inl (CfgValidation ''id must be non-empty'')
         else if pid \<in> ids then Inl (CfgValidation ''duplicate id'')
         else if to_ascii_lowercase (trim (pp_role p)) \<notin> set AUTH_ROLES then Inl (CfgValidation ''unknown role'')
         else if token = None \<and> cert = None
         then Inl (CfgValidation ''at least one of token_sha256 or cert_sha256 is required'')
         else rbind (note_hash token tokens) (\<lambda>tokens'.
              rbind (note_hash cert certs) (\<lambda>certs'.
              validate_principals (insert pid ids) tokens' certs' ps)))"

definition validate_auth :: "device_config \<Rightarrow> config_error + unit" where
  "validate_auth cfg =
     (if ac_lockout_secs (dc_auth cfg) = 0 then Inl (CfgValidation ''auth.lockout_secs must be >= 1'')
      else if ac_required (dc_auth cfg) \<and> ac_principals (dc_auth cfg) = []
      then Inl (CfgValidation ''auth.required=true requires at least one principal'')
      else validate_principals {} {} {} (ac_principals (dc_auth cfg)))"

fun validate_task_configs :: "string set \<Rightarrow> task_config list \<Rightarrow> config_error + unit" where
  "validate_task_configs names [] = Inr ()"
| "validate_task_configs names (t # ts) =
     (if str_blank (tc_name t) then Inl (CfgValidation ''task.name must be non-empty'')
      else if tc_name t \<in> names then Inl (CfgValidation ''duplicate task.name'')
      else if tc_period_ms t = 0 then Inl (CfgValidation ''period_ms must be > 0'')
      else if 60000 < tc_period_ms t then Inl (CfgValidation ''period_ms must be <= 60000'')
      else if str_blank (tc_entry t) then Inl (CfgValidation ''entry must be non-empty'')
      else validate_task_configs (insert (tc_name t) names) ts)"

text \<open>The checks after the task table, in the order of the code.\<close>

definition validate_rest :: "device_config \<Rightarrow> config_error + device_config" where
  "validate_rest cfg =
     (if sc_overrun_limit (dc_scan cfg) = 0 then Inl (CfgValidation ''scan.overrun_limit must be >= 1'')
      else if lc_max_package_bytes (dc_limits cfg) = 0 then Inl (CfgValidation ''limits.max_package_bytes must be > 0'')
      else if 64 * 1024 * 1024 < lc_max_package_bytes (dc_limits cfg)
      then Inl (CfgValidation ''limits.max_package_bytes must be <= 64 MiB'')
      else if tl_enabled (dc_telemetry cfg) \<and> str_blank (tl_group_id (dc_telemetry cfg))
      then Inl (CfgValidation ''telemetry.group_id must be non-empty when telemetry.enabled'')
      else if tl_enabled (dc_telemetry cfg) \<and> tl_analog_period_ms (dc_telemetry cfg) = 0
      then Inl (CfgValidation ''telemetry.analog_period_ms must be > 0'')
      else if \<not> list_all (\<lambda>d. d \<in> set ALLOWED_DRIVERS) (ic_drivers (dc_io cfg))
      then Inl (CfgValidation ''io.drivers: unknown driver'')
      else if ic_drivers (dc_io cfg) = [] then Inl (CfgValidation ''io.drivers must list at least one driver'')
      else if str_blank (pc_programs (dc_paths cfg)) then Inl (CfgValidation ''paths.programs must be non-empty'')
      else if \<not> parses_socket_addr (rc_bind (dc_rest cfg))
      then Inl (CfgValidation ''rest.bind is not a host:port socket address'')
      else if lc_auth_fail_per_min (dc_limits cfg) = 0 then Inl (CfgValidation ''limits.auth_fail_per_min must be >= 1'')
      else rbind (validate_auth cfg) (\<lambda>_.
        if dc_profile cfg = Prod \<and> \<not> gc_require_signature (dc_program cfg)
        then Inl (CfgValidation ''profile=prod requires program.require_signature=true'')
        else if dc_profile cfg = Prod \<and> \<not> ac_required (dc_auth cfg)
        then Inl (CfgValidation ''profile=prod requires auth.required=true'')
        else Inr cfg))"

definition validate :: "device_config \<Rightarrow> config_error + device_config" where
  "validate cfg =
     (if dc_version cfg \<noteq> CONFIG_SCHEMA_VERSION
      then Inl (CfgUnsupportedVersion (dc_version cfg) CONFIG_SCHEMA_VERSION)
      else if str_blank (di_id (dc_device cfg)) then Inl (CfgValidation ''device.id must be non-empty'')
      else if sc_tasks (dc_scan cfg) = [] then Inl (CfgValidation ''scan.tasks must not be empty'')
      else rbind (validate_task_configs {} (sc_tasks (dc_scan cfg))) (\<lambda>_. validate_rest cfg))"

subsection \<open>Loading\<close>

datatype config_format = Yaml | Json

text \<open>\<open>Path::extension\<close>: what follows the last dot of the last component, unless the dot is its
  first character or the component is \<open>..\<close>.\<close>

definition file_name :: "string \<Rightarrow> string" where
  "file_name path = rev (takeWhile (\<lambda>c. c \<noteq> CHR ''/'') (dropWhile (\<lambda>c. c = CHR ''/'') (rev path)))"

definition path_extension :: "string \<Rightarrow> string option" where
  "path_extension path =
     (let r = rev (file_name path);
          ext = takeWhile (\<lambda>c. c \<noteq> CHR ''.'') r;
          stem = drop (length ext + 1) r
      in if file_name path = ''..'' \<or> length ext = length r \<or> stem = [] then None else Some (rev ext))"

definition format_from_path :: "string \<Rightarrow> config_format option" where
  "format_from_path path =
     (case path_extension path of
        None \<Rightarrow> None
      | Some e \<Rightarrow> if e = ''yaml'' \<or> e = ''yml'' then Some Yaml else if e = ''json'' then Some Json else None)"

definition load_from_str ::
  "(config_format \<Rightarrow> string \<Rightarrow> config_error + device_config) \<Rightarrow> string \<Rightarrow> config_format \<Rightarrow> config_error + device_config" where
  "load_from_str parse txt fmt = rbind (parse fmt txt) validate"

definition load_from_path ::
  "(config_format \<Rightarrow> string \<Rightarrow> config_error + device_config) \<Rightarrow> (string \<Rightarrow> config_error + string) \<Rightarrow> string
    \<Rightarrow> config_error + device_config" where
  "load_from_path parse read_to_string path =
     (case format_from_path path of
        None \<Rightarrow> Inl (CfgValidation ''unsupported config extension'')
      | Some fmt \<Rightarrow> rbind (read_to_string path) (\<lambda>txt. load_from_str parse txt fmt))"

subsection \<open>The scan plan of a configuration\<close>

text \<open>\<open>ScanPlan::from_config\<close> of \<open>plc-scan\<close>.\<close>

definition task_plan_of :: "task_config \<Rightarrow> task_plan" where
  "task_plan_of t = \<lparr>tk_name = tc_name t, tk_period_ms = tc_period_ms t, tk_entry = tc_entry t, tk_priority = tc_priority t\<rparr>"

definition plan_from_config :: "device_config \<Rightarrow> scan_error + scan_plan" where
  "plan_from_config cfg =
     (let tasks = map task_plan_of (sc_tasks (dc_scan cfg))
      in rbind (validate_tasks tasks) (\<lambda>_. Inr
        \<lparr>sp_tasks = tasks, sp_overrun_limit = sc_overrun_limit (dc_scan cfg),
         sp_stop_output_policy = dc_stop_output_policy cfg,
         sp_fault_on_module_bad = ic_fault_on_module_bad (dc_io cfg),
         sp_telemetry_enabled = tl_enabled (dc_telemetry cfg),
         sp_analog_period_ms = tl_analog_period_ms (dc_telemetry cfg),
         sp_digital_cos_ms = tl_digital_cos_ms (dc_telemetry cfg),
         sp_telemetry_capacity = 1024\<rparr>))"

subsection \<open>What validation guarantees\<close>

lemma validate_same: "validate cfg = Inr cfg' \<Longrightarrow> cfg' = cfg"
  by (auto simp: validate_def validate_rest_def rbind_eq_Inr split: if_splits)

lemma validate_parts:
  assumes "validate cfg = Inr cfg'"
  shows "sc_tasks (dc_scan cfg) \<noteq> []" "validate_task_configs {} (sc_tasks (dc_scan cfg)) = Inr ()"
    "validate_auth cfg = Inr ()" "sc_overrun_limit (dc_scan cfg) \<noteq> 0" "lc_auth_fail_per_min (dc_limits cfg) \<noteq> 0"
    "dc_profile cfg = Prod \<Longrightarrow> ac_required (dc_auth cfg) \<and> gc_require_signature (dc_program cfg)"
  using assms by (auto simp: validate_def validate_rest_def rbind_eq_Inr split: if_splits)

lemma validate_task_configs_plan:
  "validate_task_configs names ts = Inr () \<Longrightarrow> validate_tasks_from names (map task_plan_of ts) = Inr ()"
  by (induction names ts rule: validate_task_configs.induct) (auto simp: task_plan_of_def split: if_splits)

lemma plan_from_validated:
  assumes "validate cfg = Inr cfg'"
  shows "\<exists>plan. plan_from_config cfg = Inr plan"
  using validate_parts(1,2) [OF assms] validate_task_configs_plan [of "{}" "sc_tasks (dc_scan cfg)"]
  by (simp add: plan_from_config_def validate_tasks_def Let_def)

end
