(* ===== verification/Auth.thy ===== *)
theory Auth
  imports DeviceConfig "HOL-Library.AList"
begin

section \<open>Authentication and authorization (\<open>plc-auth\<close>)\<close>

text \<open>
  Roles and permissions, credentials, the per-address lockout, the token-bucket rate limiter and
  the service that combines them. An \<open>Instant\<close> is its number of nanoseconds on the monotonic
  clock and a \<open>Duration\<close> a number of nanoseconds, both without bound. SHA-256 is third-party code
  and the parameter \<open>sha\<close>. The \<open>HashMap\<close> of the lockout is an association list; the order in which
  a hash map is iterated is not specified, and is the parameter \<open>it\<close>, which arranges the entries.
  The lemmas relate the lockout to a reference that never forgets an address.
\<close>

subsection \<open>Roles\<close>

datatype role = Viewer | Operator | Engineer | Admin

datatype permission =
    StatusRead | ConfigRead | ConfigWrite | ProgramRead | ProgramUpload | ProgramArm | ProgramActivate
  | ProgramDelete | ModeWrite | TagRead | TagForce | MetricsRead | DiagnosticsRead | AuditRead | UserAdmin

datatype auth_error =
    Unauthenticated
  | Forbidden permission role role
  | Locked nat
  | RateLimited nat
  | AuthConfigError string

definition role_parse :: "string \<Rightarrow> auth_error + role" where
  "role_parse s =
     (let t = to_ascii_lowercase (trim s)
      in if t = ''viewer'' then Inr Viewer
         else if t = ''operator'' then Inr Operator
         else if t = ''engineer'' then Inr Engineer
         else if t = ''admin'' then Inr Admin
         else Inl (AuthConfigError ''unknown role''))"

primrec role_as_str :: "role \<Rightarrow> string" where
  "role_as_str Viewer = ''viewer''"
| "role_as_str Operator = ''operator''"
| "role_as_str Engineer = ''engineer''"
| "role_as_str Admin = ''admin''"

primrec role_rank :: "role \<Rightarrow> u8" where
  "role_rank Viewer = 0"
| "role_rank Operator = 1"
| "role_rank Engineer = 2"
| "role_rank Admin = 3"

primrec min_role :: "permission \<Rightarrow> role" where
  "min_role StatusRead = Viewer"
| "min_role ConfigRead = Viewer"
| "min_role ProgramRead = Viewer"
| "min_role TagRead = Viewer"
| "min_role MetricsRead = Viewer"
| "min_role DiagnosticsRead = Viewer"
| "min_role AuditRead = Viewer"
| "min_role ModeWrite = Operator"
| "min_role TagForce = Operator"
| "min_role ConfigWrite = Engineer"
| "min_role ProgramUpload = Engineer"
| "min_role ProgramArm = Engineer"
| "min_role ProgramActivate = Engineer"
| "min_role ProgramDelete = Engineer"
| "min_role UserAdmin = Admin"

definition allows :: "role \<Rightarrow> permission \<Rightarrow> bool" where
  "allows r perm \<longleftrightarrow> role_rank (min_role perm) \<le> role_rank r"

primrec permission_as_str :: "permission \<Rightarrow> string" where
  "permission_as_str StatusRead = ''status_read''"
| "permission_as_str ConfigRead = ''config_read''"
| "permission_as_str ConfigWrite = ''config_write''"
| "permission_as_str ProgramRead = ''program_read''"
| "permission_as_str ProgramUpload = ''program_upload''"
| "permission_as_str ProgramArm = ''program_arm''"
| "permission_as_str ProgramActivate = ''program_activate''"
| "permission_as_str ProgramDelete = ''program_delete''"
| "permission_as_str ModeWrite = ''mode_write''"
| "permission_as_str TagRead = ''tag_read''"
| "permission_as_str TagForce = ''tag_force''"
| "permission_as_str MetricsRead = ''metrics_read''"
| "permission_as_str DiagnosticsRead = ''diagnostics_read''"
| "permission_as_str AuditRead = ''audit_read''"
| "permission_as_str UserAdmin = ''user_admin''"

definition http_status :: "auth_error \<Rightarrow> u16" where
  "http_status e =
     (case e of Unauthenticated \<Rightarrow> 401 | Forbidden _ _ _ \<Rightarrow> 403 | Locked _ \<Rightarrow> 429 | RateLimited _ \<Rightarrow> 429
      | AuthConfigError _ \<Rightarrow> 500)"

subsection \<open>Credentials\<close>

datatype credential = NoCredential | Bearer string | ClientCert bytes "string option"

datatype auth_method = ByBearer | ByMtls | Anonymous

record principal =
  pr_id :: string
  pr_role :: role
  pr_method :: auth_method

definition ANONYMOUS_ID :: string where "ANONYMOUS_ID = ''anonymous''"

definition hex_digit :: "u8 \<Rightarrow> char" where
  "hex_digit n = ''0123456789abcdef'' ! unat n"

definition hex_encode :: "bytes \<Rightarrow> string" where
  "hex_encode bs = concat (map (\<lambda>b. [hex_digit (drop_bit 4 b), hex_digit (b AND 0x0F)]) bs)"

definition hex_val :: "char \<Rightarrow> auth_error + u8" where
  "hex_val c = (case digit_of 16 c of None \<Rightarrow> Inl (AuthConfigError ''invalid hex digit'') | Some d \<Rightarrow> Inr (word_of_nat d))"

fun hex_pairs :: "string \<Rightarrow> auth_error + bytes" where
  "hex_pairs (a # b # r) =
     rbind (hex_val a) (\<lambda>hi. rbind (hex_val b) (\<lambda>lo. rbind (hex_pairs r) (\<lambda>bs. Inr ((push_bit 4 hi OR lo) # bs))))"
| "hex_pairs _ = Inr []"

definition hex_decode_32 :: "string \<Rightarrow> auth_error + bytes" where
  "hex_decode_32 s =
     (let t = trim s
      in if length t \<noteq> 64 \<or> \<not> list_all is_hexdigit t
         then Inl (AuthConfigError ''expected 32 hex bytes (64 hex characters)'')
         else hex_pairs t)"

definition ct_eq :: "bytes \<Rightarrow> bytes \<Rightarrow> bool" where
  "ct_eq a b \<longleftrightarrow> length a = length b \<and> fold (\<lambda>(x, y) d. d OR (x XOR y)) (zip a b) 0 = 0"

definition dual_control_allowed :: "bool \<Rightarrow> string \<Rightarrow> string \<Rightarrow> bool" where
  "dual_control_allowed enabled uploader activator =
     (if \<not> enabled then True
      else let a = trim uploader; b = trim activator
           in if a = [] \<or> b = [] then False
              else if a = ANONYMOUS_ID \<or> b = ANONYMOUS_ID then False
              else a \<noteq> b)"

subsection \<open>Lockout\<close>

type_synonym instant = nat

datatype ip_addr = V4 "32 word" | V6 "128 word"

definition NANOS_PER_SEC :: nat where "NANOS_PER_SEC = 1000000000"
definition FAIL_WINDOW :: nat where "FAIL_WINDOW = 60 * NANOS_PER_SEC"
definition MAX_TRACKED_IPS :: nat where "MAX_TRACKED_IPS = 4096"

record ip_state =
  is_failures :: "instant list"
  is_locked_until :: "instant option"

definition ip_state_new :: ip_state where
  "ip_state_new = \<lparr>is_failures = [], is_locked_until = None\<rparr>"

definition ip_locked :: "ip_state \<Rightarrow> instant \<Rightarrow> bool" where
  "ip_locked st now \<longleftrightarrow> (case is_locked_until st of None \<Rightarrow> False | Some until \<Rightarrow> now < until)"

definition age_failures :: "instant \<Rightarrow> ip_state \<Rightarrow> ip_state" where
  "age_failures now st = st\<lparr>is_failures := dropWhile (\<lambda>t. FAIL_WINDOW \<le> now - t) (is_failures st)\<rparr>"

definition ip_idle :: "ip_state \<Rightarrow> instant \<Rightarrow> bool" where
  "ip_idle st now \<longleftrightarrow> \<not> ip_locked st now \<and> is_failures st = []"

type_synonym ip_table = "(ip_addr \<times> ip_state) list"

record lockout_tracker =
  lt_fail_per_min :: u32
  lt_lockout :: nat
  lt_max_ips :: nat
  lt_ips :: ip_table

definition lockout_with_capacity :: "u32 \<Rightarrow> nat \<Rightarrow> nat \<Rightarrow> lockout_tracker" where
  "lockout_with_capacity fail_per_min lockout_secs max_ips =
     \<lparr>lt_fail_per_min = max fail_per_min 1, lt_lockout = max lockout_secs 1 * NANOS_PER_SEC,
      lt_max_ips = max max_ips 1, lt_ips = []\<rparr>"

definition lockout_new :: "u32 \<Rightarrow> nat \<Rightarrow> lockout_tracker" where
  "lockout_new fail_per_min lockout_secs = lockout_with_capacity fail_per_min lockout_secs MAX_TRACKED_IPS"

definition remaining_secs :: "instant \<Rightarrow> instant \<Rightarrow> nat" where
  "remaining_secs until now = max ((until - now) div NANOS_PER_SEC) 1"

definition locked_remaining :: "ip_addr \<Rightarrow> instant \<Rightarrow> lockout_tracker \<Rightarrow> nat option \<times> lockout_tracker" where
  "locked_remaining ip now t =
     (case map_of (lt_ips t) ip of
        None \<Rightarrow> (None, t)
      | Some st \<Rightarrow>
          (case is_locked_until st of
             None \<Rightarrow> (None, t)
           | Some until \<Rightarrow>
               if now < until then (Some (remaining_secs until now), t)
               else (None, t\<lparr>lt_ips := AList.update ip (st\<lparr>is_locked_until := None\<rparr>) (lt_ips t)\<rparr>)))"

definition sweep_state :: "instant \<Rightarrow> ip_state \<Rightarrow> ip_state" where
  "sweep_state now st =
     age_failures now (case is_locked_until st of
       None \<Rightarrow> st | Some until \<Rightarrow> if until \<le> now then st\<lparr>is_locked_until := None\<rparr> else st)"

definition sweep :: "instant \<Rightarrow> ip_table \<Rightarrow> ip_table" where
  "sweep now ips = filter (\<lambda>(ip, st). \<not> ip_idle st now) (map (\<lambda>(ip, st). (ip, sweep_state now st)) ips)"

text \<open>\<open>Iterator::min_by_key\<close>: the first entry with the least key.\<close>

fun min_by_key :: "('a \<Rightarrow> nat) \<Rightarrow> 'a list \<Rightarrow> 'a option" where
  "min_by_key f [] = None"
| "min_by_key f (x # xs) =
     (case min_by_key f xs of None \<Rightarrow> Some x | Some y \<Rightarrow> if f y < f x then Some y else Some x)"

definition oldest_unlocked :: "(ip_table \<Rightarrow> ip_table) \<Rightarrow> instant \<Rightarrow> ip_table \<Rightarrow> ip_addr option" where
  "oldest_unlocked it now ips =
     map_option fst (min_by_key (\<lambda>(_, st). case is_failures st of [] \<Rightarrow> now | t # _ \<Rightarrow> t)
       (filter (\<lambda>(_, st). \<not> ip_locked st now) (it ips)))"

definition soonest_lock :: "(ip_table \<Rightarrow> ip_table) \<Rightarrow> instant \<Rightarrow> ip_table \<Rightarrow> ip_addr option" where
  "soonest_lock it now ips =
     map_option fst (min_by_key (\<lambda>(_, st). case is_locked_until st of None \<Rightarrow> now | Some u \<Rightarrow> u) (it ips))"

definition victim :: "(ip_table \<Rightarrow> ip_table) \<Rightarrow> instant \<Rightarrow> ip_table \<Rightarrow> ip_addr option" where
  "victim it now ips = (case oldest_unlocked it now ips of Some ip \<Rightarrow> Some ip | None \<Rightarrow> soonest_lock it now ips)"

text \<open>The loop of \<open>evict_for_capacity\<close>; the fuel is the number of entries, and every round removes one.\<close>

fun evict_loop :: "(ip_table \<Rightarrow> ip_table) \<Rightarrow> instant \<Rightarrow> nat \<Rightarrow> nat \<Rightarrow> ip_table \<Rightarrow> ip_table" where
  "evict_loop it now max_ips 0 ips = ips"
| "evict_loop it now max_ips (Suc fuel) ips =
     (if length ips < max_ips then ips
      else case victim it now ips of
        None \<Rightarrow> ips
      | Some ip \<Rightarrow> evict_loop it now max_ips fuel (AList.delete ip ips))"

definition evict_for_capacity :: "(ip_table \<Rightarrow> ip_table) \<Rightarrow> instant \<Rightarrow> nat \<Rightarrow> ip_table \<Rightarrow> ip_table" where
  "evict_for_capacity it now max_ips ips = evict_loop it now max_ips (length ips) ips"

definition record_failure ::
  "(ip_table \<Rightarrow> ip_table) \<Rightarrow> ip_addr \<Rightarrow> instant \<Rightarrow> lockout_tracker \<Rightarrow> nat option \<times> lockout_tracker" where
  "record_failure it ip now t0 =
     (case locked_remaining ip now t0 of
        (Some secs, t) \<Rightarrow> (Some secs, t)
      | (None, t) \<Rightarrow>
          let ips = sweep now (lt_ips t);
              ips = (if map_of ips ip = None then evict_for_capacity it now (lt_max_ips t) ips else ips);
              st = (case map_of ips ip of None \<Rightarrow> ip_state_new | Some st \<Rightarrow> st);
              st = age_failures now st;
              st = st\<lparr>is_failures := is_failures st @ [now]\<rparr>
          in if unat (lt_fail_per_min t) \<le> length (is_failures st)
             then let until = now + lt_lockout t
                  in (Some (remaining_secs until now),
                      t\<lparr>lt_ips := AList.update ip \<lparr>is_failures = [], is_locked_until = Some until\<rparr> ips\<rparr>)
             else (None, t\<lparr>lt_ips := AList.update ip st ips\<rparr>))"

subsection \<open>Rate limiter\<close>

record bucket =
  bk_tokens :: f64
  bk_last :: instant

record rate_limiter =
  rl_rate_per_s :: f64
  rl_burst :: f64
  rl_buckets :: "(string \<times> bucket) list"

abbreviation "f64_add \<equiv> fadd f64_fmt :: f64 \<Rightarrow> f64 \<Rightarrow> f64"
abbreviation "f64_mul \<equiv> fmul f64_fmt :: f64 \<Rightarrow> f64 \<Rightarrow> f64"
abbreviation "f64_div \<equiv> fdiv f64_fmt :: f64 \<Rightarrow> f64 \<Rightarrow> f64"
abbreviation "f64_sub \<equiv> fsub f64_fmt :: f64 \<Rightarrow> f64 \<Rightarrow> f64"
abbreviation "f64_le \<equiv> fle f64_fmt :: f64 \<Rightarrow> f64 \<Rightarrow> bool"
abbreviation "f64_lt \<equiv> flt f64_fmt :: f64 \<Rightarrow> f64 \<Rightarrow> bool"
abbreviation "f64_of_int \<equiv> f_of_int f64_fmt :: int \<Rightarrow> f64"
abbreviation "f64_nan w \<equiv> is_nan_val (fdecode f64_fmt (w :: f64))"

text \<open>\<open>f64::min\<close> and \<open>f64::max\<close> ignore a NaN operand.\<close>

definition f64_min :: "f64 \<Rightarrow> f64 \<Rightarrow> f64" where
  "f64_min a b = (if f64_nan a then b else if f64_nan b then a else if f64_lt b a then b else a)"

definition f64_max :: "f64 \<Rightarrow> f64 \<Rightarrow> f64" where
  "f64_max a b = (if f64_nan a then b else if f64_nan b then a else if f64_lt a b then b else a)"

definition f64_ceil :: "f64 \<Rightarrow> f64" where
  "f64_ceil x =
     (case fdecode f64_fmt x of
        FFin s m e \<Rightarrow> if 0 \<le> e then x
                      else let k = - ((- sgnd s m) div 2 ^ nat (- e))
                           in if k = 0 then fzero f64_fmt s else f64_of_int k
      | _ \<Rightarrow> x)"

definition wait_secs :: "f64 \<Rightarrow> nat" where
  "wait_secs secs =
     (let c = f64_ceil secs in if f64_le c (f64_of_int 1) then 1 else nat (f_to_int f64_fmt c 0 (2 ^ 64 - 1)))"

definition rate_limiter_new :: "f64 \<Rightarrow> f64 \<Rightarrow> rate_limiter" where
  "rate_limiter_new rate burst = \<lparr>rl_rate_per_s = rate, rl_burst = f64_max burst (f64_of_int 1), rl_buckets = []\<rparr>"

definition as_secs_f64 :: "nat \<Rightarrow> f64" where
  "as_secs_f64 d =
     f64_add (f64_of_int (int (d div NANOS_PER_SEC)))
       (f64_div (f64_of_int (int (d mod NANOS_PER_SEC))) (f64_of_int (int NANOS_PER_SEC)))"

definition rate_limiter_check :: "string \<Rightarrow> instant \<Rightarrow> rate_limiter \<Rightarrow> (nat + unit) \<times> rate_limiter" where
  "rate_limiter_check key now r =
     (if f64_le (rl_rate_per_s r) 0 then (Inr (), r)
      else let b = (case map_of (rl_buckets r) key of
                      None \<Rightarrow> \<lparr>bk_tokens = rl_burst r, bk_last = now\<rparr> | Some b \<Rightarrow> b);
               elapsed = as_secs_f64 (now - bk_last b);
               tokens = f64_min (f64_add (bk_tokens b) (f64_mul elapsed (rl_rate_per_s r))) (rl_burst r);
               put = (\<lambda>k. r\<lparr>rl_buckets := AList.update key \<lparr>bk_tokens = k, bk_last = now\<rparr> (rl_buckets r)\<rparr>)
           in if f64_le (f64_of_int 1) tokens then (Inr (), put (f64_sub tokens (f64_of_int 1)))
              else (Inl (wait_secs (f64_div (f64_sub (f64_of_int 1) tokens) (rl_rate_per_s r))), put tokens))"

subsection \<open>The service\<close>

record stored_principal =
  st_id :: string
  st_role :: role
  st_token_hash :: "bytes option"
  st_cert_hash :: "bytes option"

record auth_service =
  sv_required :: bool
  sv_dual_control :: bool
  sv_principals :: "stored_principal list"
  sv_lockout :: lockout_tracker
  sv_rate :: rate_limiter

definition parse_optional_hash :: "string option \<Rightarrow> auth_error + bytes option" where
  "parse_optional_hash s =
     (case nonempty_hash s of None \<Rightarrow> Inr None | Some h \<Rightarrow> rbind (hex_decode_32 h) (\<lambda>bs. Inr (Some bs)))"

definition note_bytes :: "string \<Rightarrow> bytes option \<Rightarrow> bytes set \<Rightarrow> auth_error + bytes set" where
  "note_bytes msg h seen =
     (case h of None \<Rightarrow> Inr seen | Some x \<Rightarrow> if x \<in> seen then Inl (AuthConfigError msg) else Inr (insert x seen))"

definition load_principal ::
  "principal_config \<Rightarrow> string set \<Rightarrow> bytes set \<Rightarrow> bytes set
    \<Rightarrow> auth_error + (stored_principal \<times> string set \<times> bytes set \<times> bytes set)" where
  "load_principal p ids tokens certs =
     (let pid = trim (pp_id p)
      in if pid = [] then Inl (AuthConfigError ''principal id must be non-empty'')
         else if pid \<in> ids then Inl (AuthConfigError ''duplicate principal id'')
         else rbind (role_parse (pp_role p)) (\<lambda>role.
              rbind (parse_optional_hash (pp_token_sha256 p)) (\<lambda>token.
              rbind (parse_optional_hash (pp_cert_sha256 p)) (\<lambda>cert.
              if token = None \<and> cert = None
              then Inl (AuthConfigError ''at least one of token_sha256 or cert_sha256 is required'')
              else rbind (note_bytes ''duplicate token_sha256'' token tokens) (\<lambda>tokens'.
                   rbind (note_bytes ''duplicate cert_sha256'' cert certs) (\<lambda>certs'.
                   Inr (\<lparr>st_id = pid, st_role = role, st_token_hash = token, st_cert_hash = cert\<rparr>,
                        insert pid ids, tokens', certs')))))))"

fun load_principals ::
  "string set \<Rightarrow> bytes set \<Rightarrow> bytes set \<Rightarrow> principal_config list \<Rightarrow> auth_error + stored_principal list" where
  "load_principals ids tokens certs [] = Inr []"
| "load_principals ids tokens certs (p # ps) =
     rbind (load_principal p ids tokens certs) (\<lambda>(sp, ids', tokens', certs').
     rbind (load_principals ids' tokens' certs' ps) (\<lambda>sps. Inr (sp # sps)))"

definition auth_from_config :: "auth_config \<Rightarrow> limits_config \<Rightarrow> auth_error + auth_service" where
  "auth_from_config auth limits =
     (if ac_lockout_secs auth = 0 then Inl (AuthConfigError ''auth.lockout_secs must be >= 1'')
      else if ac_required auth \<and> ac_principals auth = []
      then Inl (AuthConfigError ''auth.required=true requires at least one principal'')
      else rbind (load_principals {} {} {} (ac_principals auth)) (\<lambda>ps. Inr
        \<lparr>sv_required = ac_required auth, sv_dual_control = ac_dual_control auth, sv_principals = ps,
         sv_lockout = lockout_new (lc_auth_fail_per_min limits) (unat (ac_lockout_secs auth)),
         sv_rate = rate_limiter_new (f64_of_int (uint (lc_rest_rate_per_s limits))) (f64_of_int (uint (lc_rest_burst limits)))\<rparr>))"

fun match_by :: "(stored_principal \<Rightarrow> bytes option) \<Rightarrow> auth_method \<Rightarrow> bytes \<Rightarrow> stored_principal list
    \<Rightarrow> principal option \<Rightarrow> principal option" where
  "match_by sel meth h [] found = found"
| "match_by sel meth h (p # ps) found =
     match_by sel meth h ps
       (case sel p of
          Some stored \<Rightarrow> if ct_eq stored h \<and> found = None
                         then Some \<lparr>pr_id = st_id p, pr_role = st_role p, pr_method = meth\<rparr> else found
        | None \<Rightarrow> found)"

definition match_token :: "auth_service \<Rightarrow> bytes \<Rightarrow> principal option" where
  "match_token sv h = match_by st_token_hash ByBearer h (sv_principals sv) None"

definition match_cert :: "auth_service \<Rightarrow> bytes \<Rightarrow> principal option" where
  "match_cert sv fp = match_by st_cert_hash ByMtls fp (sv_principals sv) None"

definition ok_or :: "'e \<Rightarrow> 'a option \<Rightarrow> 'e + 'a" where
  "ok_or e x = (case x of None \<Rightarrow> Inl e | Some y \<Rightarrow> Inr y)"

definition verify :: "(bytes \<Rightarrow> bytes) \<Rightarrow> auth_service \<Rightarrow> credential \<Rightarrow> auth_error + principal" where
  "verify sha sv cred =
     (case cred of
        NoCredential \<Rightarrow>
          if sv_required sv then Inl Unauthenticated
          else Inr \<lparr>pr_id = ANONYMOUS_ID, pr_role = Admin, pr_method = Anonymous\<rparr>
      | Bearer token \<Rightarrow> ok_or Unauthenticated (match_token sv (sha (str_bytes token)))
      | ClientCert fp _ \<Rightarrow> ok_or Unauthenticated (match_cert sv fp))"

definition should_count_failure :: "credential \<Rightarrow> bool \<Rightarrow> bool" where
  "should_count_failure cred required = (case cred of NoCredential \<Rightarrow> required | _ \<Rightarrow> True)"

definition authenticate ::
  "(bytes \<Rightarrow> bytes) \<Rightarrow> (ip_table \<Rightarrow> ip_table) \<Rightarrow> instant \<Rightarrow> credential \<Rightarrow> ip_addr \<Rightarrow> auth_service
    \<Rightarrow> (auth_error + principal) \<times> auth_service" where
  "authenticate sha it now cred ip sv0 =
     (let (locked, t) = locked_remaining ip now (sv_lockout sv0);
          sv = sv0\<lparr>sv_lockout := t\<rparr>
      in case locked of
           Some secs \<Rightarrow> (Inl (Locked secs), sv)
         | None \<Rightarrow>
             (case verify sha sv cred of
                Inr p \<Rightarrow> (Inr p, sv)
              | Inl err \<Rightarrow>
                  if should_count_failure cred (sv_required sv)
                  then let (r, t') = record_failure it ip now (sv_lockout sv); sv' = sv\<lparr>sv_lockout := t'\<rparr>
                       in (case r of Some secs \<Rightarrow> (Inl (Locked secs), sv') | None \<Rightarrow> (Inl err, sv'))
                  else (Inl err, sv)))"

definition authorize :: "principal \<Rightarrow> permission \<Rightarrow> auth_error + unit" where
  "authorize p perm =
     (if allows (pr_role p) perm then Inr () else Inl (Forbidden perm (min_role perm) (pr_role p)))"

definition auth_check ::
  "(bytes \<Rightarrow> bytes) \<Rightarrow> (ip_table \<Rightarrow> ip_table) \<Rightarrow> instant \<Rightarrow> credential \<Rightarrow> ip_addr \<Rightarrow> permission \<Rightarrow> auth_service
    \<Rightarrow> (auth_error + principal) \<times> auth_service" where
  "auth_check sha it now cred ip perm sv =
     (case authenticate sha it now cred ip sv of
        (Inl e, sv') \<Rightarrow> (Inl e, sv')
      | (Inr p, sv') \<Rightarrow> (rbind (authorize p perm) (\<lambda>_. Inr p), sv'))"

definition rate_check :: "instant \<Rightarrow> string \<Rightarrow> auth_service \<Rightarrow> (auth_error + unit) \<times> auth_service" where
  "rate_check now pid sv =
     (case rate_limiter_check pid now (sv_rate sv) of
        (Inr _, r) \<Rightarrow> (Inr (), sv\<lparr>sv_rate := r\<rparr>)
      | (Inl secs, r) \<Rightarrow> (Inl (RateLimited secs), sv\<lparr>sv_rate := r\<rparr>))"

definition dual_control_ok :: "auth_service \<Rightarrow> string \<Rightarrow> string \<Rightarrow> bool" where
  "dual_control_ok sv uploader activator = dual_control_allowed (sv_dual_control sv) uploader activator"

subsection \<open>Audit ring\<close>

datatype audit_action =
    AuthSuccess | AuthFailure | AuthLocked | ModeChange | AuProgramArm | AuProgramActivate | AuConfigWrite
  | AuTagForce | AuUserAdmin

record audit_event =
  ae_unix_secs :: u64
  ae_principal_id :: string
  ae_action :: audit_action
  ae_detail :: string
  ae_client_ip :: "ip_addr option"

definition AUDIT_CAP :: nat where "AUDIT_CAP = 4096"

record memory_audit =
  ma_cap :: nat
  ma_events :: "audit_event list"

definition memory_audit_with_cap :: "nat \<Rightarrow> memory_audit" where
  "memory_audit_with_cap cap = \<lparr>ma_cap = max cap 1, ma_events = []\<rparr>"

definition memory_audit_new :: memory_audit where
  "memory_audit_new = memory_audit_with_cap AUDIT_CAP"

definition audit_record :: "audit_event \<Rightarrow> memory_audit \<Rightarrow> memory_audit" where
  "audit_record ev m =
     (let q = (if ma_cap m \<le> length (ma_events m) then tl (ma_events m) else ma_events m)
      in m\<lparr>ma_events := q @ [ev]\<rparr>)"

end
