(* ===== verification/AuthProps.thy ===== *)
theory AuthProps
  imports Auth
begin

section \<open>Properties of authentication\<close>

text \<open>
  The lockout against a reference that keeps one state per address and never evicts, the
  soundness of an access decision, and the agreement of the two validations of the principal
  table: what the configuration accepts, the service loads.
\<close>

subsection \<open>The lockout and its reference\<close>











definition look :: "lockout_tracker \<Rightarrow> ip_addr \<Rightarrow> ip_state" where
  "look t ip = (case map_of (lt_ips t) ip of None \<Rightarrow> ip_state_new | Some st \<Rightarrow> st)"
























subsection \<open>The table stays bounded\<close>

lemma min_by_key_mem: "min_by_key f xs = Some x \<Longrightarrow> x \<in> set xs"
  by (induction xs arbitrary: x) (auto split: option.splits if_splits)

lemma min_by_key_some: "xs \<noteq> [] \<Longrightarrow> \<exists>x. min_by_key f xs = Some x"
  by (cases xs) (auto split: option.splits)

lemma victim_mem:
  assumes "set (it ips) = set ips" "ips \<noteq> []"
  obtains ip where "victim it now ips = Some ip" "ip \<in> fst ` set ips"
proof (cases "oldest_unlocked it now ips")
  case (Some ip)
  then have "ip \<in> fst ` set ips"
    using assms(1) by (force simp: oldest_unlocked_def dest!: min_by_key_mem)
  then show thesis using that Some by (simp add: victim_def)
next
  case None
  have "it ips \<noteq> []" using assms by auto
  then obtain x where x: "min_by_key (\<lambda>(_, st). case is_locked_until st of None \<Rightarrow> now | Some u \<Rightarrow> u) (it ips) = Some x"
    using min_by_key_some by blast
  then have "x \<in> set ips" using min_by_key_mem assms(1) by fastforce
  then show thesis using that None x by (simp add: victim_def soonest_lock_def)
qed

lemma evict_loop_bounded:
  assumes "\<And>ips. set (it ips) = set ips" "0 < m" "length ips \<le> fuel"
  shows "length (evict_loop it now m fuel ips) < m"
  using assms(3)
proof (induction fuel arbitrary: ips)
  case (Suc fuel)
  show ?case
  proof (cases "length ips < m")
    case False
    then have "ips \<noteq> []" using assms(2) by auto
    then obtain ip where v: "victim it now ips = Some ip" "ip \<in> fst ` set ips" using victim_mem [of it ips] assms(1) by blast
    have "length (AList.delete ip ips) < length ips"
      using v(2) by (auto simp: AList.delete_eq intro!: length_filter_less)
    then show ?thesis using Suc v(1) False by simp
  qed simp
qed (use assms(2) in simp)

lemma length_update_le: "length (AList.update k v xs) \<le> (if map_of xs k = None then Suc (length xs) else length xs)"
  by (induction xs) auto

lemma record_failure_bounded:
  assumes "\<And>ips. set (it ips) = set ips" "0 < lt_max_ips t" "length (lt_ips t) \<le> lt_max_ips t"
  shows "length (lt_ips (snd (record_failure it ip now t))) \<le> lt_max_ips t"
proof -
  obtain r t1 where lr: "locked_remaining ip now t = (r, t1)" by force
  have l1: "length (lt_ips t1) \<le> length (lt_ips t)" "lt_max_ips t1 = lt_max_ips t"
    using lr length_update_le [of ip _ "lt_ips t"] by (auto simp: locked_remaining_def split: option.splits if_splits)
  define ips where "ips = (let s = sweep now (lt_ips t1) in if map_of s ip = None then evict_for_capacity it now (lt_max_ips t1) s else s)"
  have "length (sweep now (lt_ips t1)) \<le> length (lt_ips t1)"
    unfolding sweep_def by (rule le_trans [OF length_filter_le]) simp
  then have s: "length (sweep now (lt_ips t1)) \<le> lt_max_ips t" using l1 assms(3) by simp
  have "length (AList.update ip v ips) \<le> lt_max_ips t" for v
  proof (cases "map_of (sweep now (lt_ips t1)) ip = None")
    case True
    then have "length ips < lt_max_ips t"
      using evict_loop_bounded [of it "lt_max_ips t"] assms(1,2) l1(2) by (simp add: ips_def evict_for_capacity_def Let_def)
    then show ?thesis using length_update_le [of ip v ips] by (auto split: if_splits)
  next
    case False
    then show ?thesis using s length_update_le [of ip v ips] by (auto simp: ips_def Let_def split: if_splits)
  qed
  then show ?thesis
    using l1 assms(3) by (auto simp: record_failure_def lr Let_def ips_def split: option.splits)
qed

subsection \<open>Hashes\<close>

lemma xor_eq_0: "(x :: 'a::len word) XOR y = 0 \<longleftrightarrow> x = y"
  by (simp add: bit_eq_iff bit_xor_iff)

lemma or_eq_0: "(x :: 'a::len word) OR y = 0 \<longleftrightarrow> x = 0 \<and> y = 0"
  by (simp add: bit_eq_iff bit_or_iff) blast

lemma ct_eq_fold:
  "length a = length b \<Longrightarrow> fold (\<lambda>(x, y) d. d OR (x XOR y)) (zip a b) d = (0 :: u8) \<longleftrightarrow> d = 0 \<and> a = b"
  by (induction a b arbitrary: d rule: list_induct2) (auto simp: or_eq_0 xor_eq_0)

lemma ct_eq_iff: "ct_eq a b \<longleftrightarrow> a = b"
  using ct_eq_fold [of a b 0] by (auto simp: ct_eq_def)

lemma match_by_found: "match_by sel meth h ps (Some p) = Some p"
proof (induction ps)
  case (Cons q ps)
  have "(case sel q of Some stored \<Rightarrow> if ct_eq stored h \<and> Some p = None
          then Some \<lparr>pr_id = st_id q, pr_role = st_role q, pr_method = meth\<rparr> else Some p | None \<Rightarrow> Some p) = Some p"
    by (simp split: option.splits)
  then show ?case using Cons by simp
qed simp

lemma match_by_find:
  "match_by sel meth h ps None =
     map_option (\<lambda>p. \<lparr>pr_id = st_id p, pr_role = st_role p, pr_method = meth\<rparr>) (find (\<lambda>p. sel p = Some h) ps)"
  by (induction ps) (auto simp: match_by_found ct_eq_iff split: option.splits)

text \<open>Who a credential stands for, by the table alone.\<close>

definition identifies :: "(bytes \<Rightarrow> bytes) \<Rightarrow> auth_service \<Rightarrow> credential \<Rightarrow> principal \<Rightarrow> bool" where
  "identifies sha sv cred p =
     (case cred of
        NoCredential \<Rightarrow> \<not> sv_required sv \<and> p = \<lparr>pr_id = ANONYMOUS_ID, pr_role = Admin, pr_method = Anonymous\<rparr>
      | Bearer token \<Rightarrow> list_ex (\<lambda>s. st_token_hash s = Some (sha (str_bytes token)) \<and> st_id s = pr_id p \<and> st_role s = pr_role p)
          (sv_principals sv) \<and> pr_method p = ByBearer
      | ClientCert fp _ \<Rightarrow> list_ex (\<lambda>s. st_cert_hash s = Some fp \<and> st_id s = pr_id p \<and> st_role s = pr_role p)
          (sv_principals sv) \<and> pr_method p = ByMtls)"

lemma verify_identifies: "verify sha sv cred = Inr p \<Longrightarrow> identifies sha sv cred p"
  by (auto simp: verify_def identifies_def match_token_def match_cert_def match_by_find ok_or_def find_Some_iff list_ex_iff
      split: credential.splits if_splits option.splits)

lemma verify_error: "verify sha sv cred = Inl e \<Longrightarrow> e = Unauthenticated"
  by (auto simp: verify_def ok_or_def split: credential.splits if_splits option.splits)

lemma authenticate_cases:
  obtains (locked) secs where "fst (locked_remaining ip now (sv_lockout sv)) = Some secs"
      "fst (authenticate sha it now cred ip sv) = Inl (Locked secs)"
  | (granted) p where "fst (locked_remaining ip now (sv_lockout sv)) = None" "verify sha sv cred = Inr p"
      "fst (authenticate sha it now cred ip sv) = Inr p"
  | (refused) e where "fst (locked_remaining ip now (sv_lockout sv)) = None" "verify sha sv cred = Inl Unauthenticated"
      "fst (authenticate sha it now cred ip sv) = Inl e" "e = Unauthenticated \<or> (\<exists>secs. e = Locked secs)"
proof -
  obtain l t where lt: "locked_remaining ip now (sv_lockout sv) = (l, t)" by force
  have v: "verify sha (sv\<lparr>sv_lockout := t\<rparr>) cred = verify sha sv cred"
    by (simp add: verify_def match_token_def match_cert_def split: credential.splits)
  show thesis
  proof (cases l)
    case (Some secs)
    then show thesis using locked lt by (simp add: authenticate_def)
  next
    case None
    show thesis
    proof (cases "verify sha sv cred")
      case (Inr p)
      then show thesis using granted lt None v by (simp add: authenticate_def)
    next
      case (Inl e)
      then have "e = Unauthenticated" by (rule verify_error)
      then have "\<exists>e'. fst (authenticate sha it now cred ip sv) = Inl e' \<and> (e' = Unauthenticated \<or> (\<exists>secs. e' = Locked secs))"
        using lt None v Inl by (auto simp: authenticate_def Let_def case_prod_unfold split: option.splits)
      then show thesis using refused lt None Inl \<open>e = Unauthenticated\<close> by auto
    qed
  qed
qed

subsection \<open>Two validations of one table\<close>

lemma hexdigit_facts:
  "case digit_of 16 c of None \<Rightarrow> True
   | Some d \<Rightarrow> d < 16 \<and> hex_digit (word_of_nat d) = ascii_lower c
       \<and> 48 \<le> (word_of_nat (of_char c) :: u8) \<and> (word_of_nat (of_char c) :: u8) \<le> 127"
proof -
  have "list_all (\<lambda>c. case digit_of 16 c of None \<Rightarrow> True
     | Some d \<Rightarrow> d < 16 \<and> hex_digit (word_of_nat d) = ascii_lower c
       \<and> 48 \<le> (word_of_nat (of_char c) :: u8) \<and> (word_of_nat (of_char c) :: u8) \<le> 127) Enum.enum"
    by code_simp
  then show ?thesis by (simp add: list_all_iff enum_UNIV)
qed

lemma trim_hex:
  assumes "list_all is_hexdigit s"
  shows "trim s = s"
proof (rule trim_word)
  show "list_all (\<lambda>c. 48 \<le> (word_of_nat (of_char c) :: u8) \<and> (word_of_nat (of_char c) :: u8) \<le> 127) s"
    using assms hexdigit_facts
    by (fastforce simp: list_all_iff is_hexdigit_def split: option.splits)
qed

lemma nibbles:
  assumes "hi < (16 :: nat)" "lo < (16 :: nat)"
  shows "drop_bit 4 (push_bit 4 (word_of_nat hi) OR word_of_nat lo :: u8) = word_of_nat hi"
    "(push_bit 4 (word_of_nat hi) OR word_of_nat lo :: u8) AND 0x0F = word_of_nat lo"
proof -
  have "list_all (\<lambda>h. list_all (\<lambda>l.
      drop_bit 4 (push_bit 4 (word_of_nat h) OR word_of_nat l :: u8) = word_of_nat h
      \<and> (push_bit 4 (word_of_nat h) OR word_of_nat l :: u8) AND 0x0F = word_of_nat l) [0..<16]) [0..<16]"
    by code_simp
  then show "drop_bit 4 (push_bit 4 (word_of_nat hi) OR word_of_nat lo :: u8) = word_of_nat hi"
    "(push_bit 4 (word_of_nat hi) OR word_of_nat lo :: u8) AND 0x0F = word_of_nat lo"
    using assms by (simp_all add: list_all_iff)
qed

lemma hex_pairs_encode:
  "list_all is_hexdigit s \<Longrightarrow> even (length s) \<Longrightarrow> \<exists>bs. hex_pairs s = Inr bs \<and> hex_encode bs = to_ascii_lowercase s"
proof (induction s rule: hex_pairs.induct)
  case (1 a b r)
  obtain hi lo where d: "digit_of 16 a = Some hi" "digit_of 16 b = Some lo"
    using "1.prems"(1) by (auto simp: is_hexdigit_def)
  have h: "hi < 16" "lo < 16" "hex_digit (word_of_nat hi) = ascii_lower a" "hex_digit (word_of_nat lo) = ascii_lower b"
    using hexdigit_facts [of a] hexdigit_facts [of b] d by simp_all
  obtain bs where bs: "hex_pairs r = Inr bs" "hex_encode bs = to_ascii_lowercase r"
    using 1 d by (auto simp: hex_val_def)
  then show ?case
    using d nibbles [OF h(1,2)] h(3,4) by (simp add: hex_val_def hex_encode_def to_ascii_lowercase_def)
qed (simp_all add: hex_encode_def to_ascii_lowercase_def)

lemma hex_nibble: "n < 16 \<Longrightarrow> hex_val (hex_digit n) = Inr n"
proof -
  assume "n < 16"
  then have "unat n < 16" by (simp add: word_less_nat_alt)
  moreover have "list_all (\<lambda>k. digit_of 16 (hex_digit (word_of_nat k)) = Some k) [0..<16]" by code_simp
  ultimately have "digit_of 16 (hex_digit (word_of_nat (unat n))) = Some (unat n)"
    unfolding list_all_iff by (auto dest: bspec)
  then show ?thesis by (simp add: hex_val_def)
qed

lemma hex_byte:
  "drop_bit 4 b < 16" "b AND 0x0F < 16" "push_bit 4 (drop_bit 4 b) OR (b AND 0x0F) = (b :: u8)"
proof -
  have m: "(0x0F :: u8) = mask 4" by code_simp
  have "unat (drop_bit 4 b) = unat b div 16" by (simp add: drop_bit_eq_div unat_div)
  then show "drop_bit 4 b < 16" using unat_bound [of b] by (simp add: word_less_nat_alt)
  have "unat (b AND 0x0F) = unat b mod 16" unfolding m by (simp add: take_bit_eq_mask [symmetric] take_bit_eq_mod unat_mod)
  then show "b AND 0x0F < 16" by (simp add: word_less_nat_alt)
  show "push_bit 4 (drop_bit 4 b) OR (b AND 0x0F) = b"
    unfolding m by (rule bit_word_eqI) (auto simp: bit_simps)
qed

lemma hex_pairs_hex_encode: "hex_pairs (hex_encode bs) = Inr bs"
  by (induction bs) (simp_all add: hex_encode_def hex_byte hex_nibble)

text \<open>The byte form of the hashes the configuration has seen so far.\<close>

definition hash_bytes :: "string set \<Rightarrow> bytes set" where
  "hash_bytes seen = {bs. hex_encode bs \<in> seen}"

lemma parse_noted:
  assumes "note_hash (nonempty_hash s) seen = Inr seen'"
  obtains h where "parse_optional_hash s = Inr h" "note_bytes msg h (hash_bytes seen) = Inr (hash_bytes seen')"
    "h = None \<longleftrightarrow> nonempty_hash s = None"
proof (cases "nonempty_hash s")
  case None
  then show thesis using assms that [of None] by (simp add: parse_optional_hash_def note_hash_def note_bytes_def)
next
  case (Some x)
  then have x: "length x = 64" "list_all is_hexdigit x" "to_ascii_lowercase x \<notin> seen" "seen' = insert (to_ascii_lowercase x) seen"
    using assms by (auto simp: note_hash_def check_sha256_hex_def split: if_splits)
  then obtain bs where bs: "hex_pairs x = Inr bs" "hex_encode bs = to_ascii_lowercase x"
    using hex_pairs_encode [of x] by auto
  have inj: "hex_encode cs = hex_encode bs \<longleftrightarrow> cs = bs" for cs
    by (metis Inr_inject hex_pairs_hex_encode)
  have "parse_optional_hash s = Inr (Some bs)"
    using x(1,2) bs(1) trim_hex [OF x(2)] by (simp add: parse_optional_hash_def Some hex_decode_32_def)
  moreover have "note_bytes msg (Some bs) (hash_bytes seen) = Inr (hash_bytes seen')"
  proof -
    have "{cs. hex_encode cs \<in> insert (hex_encode bs) seen} = insert bs {cs. hex_encode cs \<in> seen}" using inj by blast
    then show ?thesis using x(3,4) bs(2) [symmetric] by (simp add: note_bytes_def hash_bytes_def)
  qed
  ultimately show thesis using that [of "Some bs"] Some by simp
qed

lemma role_parse_ok:
  "to_ascii_lowercase (trim r) \<in> set AUTH_ROLES \<Longrightarrow> \<exists>role. role_parse r = Inr role"
  by (auto simp: role_parse_def AUTH_ROLES_def Let_def)

lemma validated_principals_load:
  "validate_principals ids tokens certs ps = Inr () \<Longrightarrow>
     \<exists>sps. load_principals ids (hash_bytes tokens) (hash_bytes certs) ps = Inr sps \<and> length sps = length ps"
proof (induction ps arbitrary: ids tokens certs)
  case (Cons p ps)
  let ?pid = "trim (pp_id p)"
  obtain tokens' certs' where v: "?pid \<noteq> []" "?pid \<notin> ids" "to_ascii_lowercase (trim (pp_role p)) \<in> set AUTH_ROLES"
    "\<not> (nonempty_hash (pp_token_sha256 p) = None \<and> nonempty_hash (pp_cert_sha256 p) = None)"
    "note_hash (nonempty_hash (pp_token_sha256 p)) tokens = Inr tokens'"
    "note_hash (nonempty_hash (pp_cert_sha256 p)) certs = Inr certs'"
    "validate_principals (insert ?pid ids) tokens' certs' ps = Inr ()"
    using Cons.prems by (auto simp: Let_def rbind_eq_Inr split: if_splits)
  obtain role where role: "role_parse (pp_role p) = Inr role" using role_parse_ok [OF v(3)] by blast
  obtain th where th: "parse_optional_hash (pp_token_sha256 p) = Inr th"
    "note_bytes ''duplicate token_sha256'' th (hash_bytes tokens) = Inr (hash_bytes tokens')"
    "th = None \<longleftrightarrow> nonempty_hash (pp_token_sha256 p) = None" using parse_noted [OF v(5)] by metis
  obtain ch where ch: "parse_optional_hash (pp_cert_sha256 p) = Inr ch"
    "note_bytes ''duplicate cert_sha256'' ch (hash_bytes certs) = Inr (hash_bytes certs')"
    "ch = None \<longleftrightarrow> nonempty_hash (pp_cert_sha256 p) = None" using parse_noted [OF v(6)] by metis
  obtain sps where "load_principals (insert ?pid ids) (hash_bytes tokens') (hash_bytes certs') ps = Inr sps" "length sps = length ps"
    using Cons.IH [OF v(7)] by blast
  then show ?case
    using v(1,2,4) role th ch by (simp add: load_principal_def Let_def)
qed simp

lemma hash_bytes_empty: "hash_bytes {} = {}"
  by (simp add: hash_bytes_def)

lemma identifies_verify: "identifies sha sv cred p \<Longrightarrow> \<exists>q. verify sha sv cred = Inr q"
proof (cases cred)
  case (Bearer token)
  assume "identifies sha sv cred p"
  then have "find (\<lambda>s. st_token_hash s = Some (sha (str_bytes token))) (sv_principals sv) \<noteq> None"
    by (auto simp: identifies_def Bearer find_None_iff list_ex_iff)
  then show ?thesis by (auto simp: verify_def Bearer match_token_def match_by_find ok_or_def)
next
  case (ClientCert fp cn)
  assume "identifies sha sv cred p"
  then have "find (\<lambda>s. st_cert_hash s = Some fp) (sv_principals sv) \<noteq> None"
    by (auto simp: identifies_def ClientCert find_None_iff list_ex_iff)
  then show ?thesis by (auto simp: verify_def ClientCert match_cert_def match_by_find ok_or_def)
qed (simp add: identifies_def verify_def)

subsection \<open>Claims\<close>


definition demo_ip :: ip_addr where "demo_ip = V4 0x0A000001"


text \<open>C28: the access decision. Access is granted exactly when the address is not locked, the credential
  identifies a principal of the table (by the hash of the token or the fingerprint of the
  certificate; nobody, unless authentication is not required) and the role of that principal
  includes the permission. A refusal says which of the three failed, and an unknown
  credential is never told apart from a wrong one.\<close>

theorem access_decision:
  "case fst (auth_check sha it now cred ip perm sv) of
     Inr p \<Rightarrow> fst (locked_remaining ip now (sv_lockout sv)) = None \<and> identifies sha sv cred p \<and> allows (pr_role p) perm
   | Inl e \<Rightarrow>
       (case e of
          Locked _ \<Rightarrow> fst (locked_remaining ip now (sv_lockout sv)) \<noteq> None \<or> (\<nexists>p. identifies sha sv cred p)
        | Unauthenticated \<Rightarrow> (\<nexists>p. identifies sha sv cred p)
        | Forbidden q need r \<Rightarrow> q = perm \<and> need = min_role perm
            \<and> (\<exists>p. identifies sha sv cred p \<and> pr_role p = r \<and> \<not> allows r perm)
        | _ \<Rightarrow> False)"
proof (cases rule: authenticate_cases [of ip now sv sha it cred, case_names locked granted refused])
  case (locked secs)
  then show ?thesis by (auto simp: auth_check_def split: prod.splits)
next
  case (granted p)
  then show ?thesis using verify_identifies [OF granted(2)]
    by (auto simp: auth_check_def authorize_def split: prod.splits)
next
  case (refused e)
  then have "\<nexists>p. identifies sha sv cred p" using identifies_verify by fastforce
  then show ?thesis using refused by (auto simp: auth_check_def split: prod.splits)
qed

definition demo_service :: auth_service where
  "demo_service = \<lparr>sv_required = True, sv_dual_control = False, sv_principals =
     [\<lparr>st_id = ''panel'', st_role = Viewer, st_token_hash = Some [0x70], st_cert_hash = None\<rparr>,
      \<lparr>st_id = ''op'', st_role = Operator, st_token_hash = Some [0x74], st_cert_hash = None\<rparr>],
     sv_lockout = \<lparr>lt_fail_per_min = 3, lt_lockout = 100, lt_max_ips = 8, lt_ips = []\<rparr>,
     sv_rate = \<lparr>rl_rate_per_s = 0, rl_burst = 0, rl_buckets = []\<rparr>\<rparr>"

lemma demo_decisions:
  "fst (auth_check id id 0 (Bearer ''t'') demo_ip TagForce demo_service)
     = Inr \<lparr>pr_id = ''op'', pr_role = Operator, pr_method = ByBearer\<rparr>"
  "fst (auth_check id id 0 (Bearer ''p'') demo_ip TagForce demo_service) = Inl (Forbidden TagForce Operator Viewer)"
  "fst (auth_check id id 0 (Bearer ''x'') demo_ip TagForce demo_service) = Inl Unauthenticated"
  by (simp_all add: auth_check_def authenticate_def authorize_def allows_def verify_def match_token_def match_by_find ok_or_def
      should_count_failure_def locked_remaining_def record_failure_def sweep_def evict_for_capacity_def age_failures_def
      ip_state_new_def demo_service_def str_bytes_def Let_def)

theorem access_decision_witness:
  "identifies id demo_service (Bearer ''t'') \<lparr>pr_id = ''op'', pr_role = Operator, pr_method = ByBearer\<rparr>
   \<and> allows Operator TagForce
   \<and> (\<exists>p. identifies id demo_service (Bearer ''p'') p \<and> pr_role p = Viewer \<and> \<not> allows Viewer TagForce)
   \<and> (\<nexists>p. identifies id demo_service (Bearer ''x'') p)"
  using access_decision [where sha = id and it = id and now = 0 and cred = "Bearer ''t''" and ip = demo_ip and perm = TagForce and sv = demo_service]
    access_decision [where sha = id and it = id and now = 0 and cred = "Bearer ''p''" and ip = demo_ip and perm = TagForce and sv = demo_service]
    access_decision [where sha = id and it = id and now = 0 and cred = "Bearer ''x''" and ip = demo_ip and perm = TagForce and sv = demo_service]
  unfolding demo_decisions by simp

text \<open>C30: a configuration that passes \<open>validate\<close> is accepted by every component that is built from it:
  the scan plan is built, the authentication service loads all principals, and under the
  production profile the service requires a credential and knows at least one principal. The
  two components check the principal table by different means (hexadecimal text against
  decoded bytes) and agree.\<close>

theorem validated_config_accepted:
  assumes "validate cfg = Inr cfg'"
  shows "(\<exists>plan. plan_from_config cfg' = Inr plan)
    \<and> (\<exists>sv. auth_from_config (dc_auth cfg') (dc_limits cfg') = Inr sv
        \<and> length (sv_principals sv) = length (ac_principals (dc_auth cfg'))
        \<and> (if dc_profile cfg' = Prod then sv_required sv \<and> sv_principals sv \<noteq> [] else True))"
proof -
  have c: "cfg' = cfg" using validate_same [OF assms] .
  have a: "ac_lockout_secs (dc_auth cfg) \<noteq> 0" "ac_required (dc_auth cfg) \<Longrightarrow> ac_principals (dc_auth cfg) \<noteq> []"
    "validate_principals {} {} {} (ac_principals (dc_auth cfg)) = Inr ()"
    using validate_parts(3) [OF assms] by (auto simp: validate_auth_def split: if_splits)
  obtain sps where "load_principals {} {} {} (ac_principals (dc_auth cfg)) = Inr sps"
    "length sps = length (ac_principals (dc_auth cfg))"
    using validated_principals_load [OF a(3)] by (auto simp: hash_bytes_empty)
  then show ?thesis
    using a(1,2) validate_parts(6) [OF assms] plan_from_validated [OF assms]
    by (auto simp: c auth_from_config_def)
qed

definition demo_config :: device_config where
  "demo_config = \<lparr>dc_version = 1, dc_profile = Prod, dc_device = \<lparr>di_id = ''line-1'', di_name = [], di_site = []\<rparr>,
     dc_scan = \<lparr>sc_tasks = [\<lparr>tc_name = ''main'', tc_period_ms = 10, tc_entry = ''task.main'', tc_priority = 1\<rparr>],
       sc_overrun_limit = 2, sc_cpu_affinity = None\<rparr>,
     dc_telemetry = telemetry_default, dc_paths = paths_default, dc_limits = limits_default,
     dc_program = \<lparr>gc_require_signature = True\<rparr>,
     dc_auth = auth_default\<lparr>ac_required := True, ac_principals :=
       [\<lparr>pp_id = ''eng'', pp_role = '' Engineer'',
         pp_token_sha256 = Some ''00112233445566778899aabbccddeeff00112233445566778899AABBCCDDEEFF'', pp_cert_sha256 = None\<rparr>]\<rparr>,
     dc_io = io_default, dc_watchdog = watchdog_default, dc_stop_output_policy = StopSafe, dc_rest = rest_default\<rparr>"

lemma demo_config_valid: "validate demo_config = Inr demo_config"
  by code_simp

theorem validated_config_accepted_witness:
  "(\<exists>plan. plan_from_config demo_config = Inr plan)
    \<and> (\<exists>sv. auth_from_config (dc_auth demo_config) (dc_limits demo_config) = Inr sv
        \<and> length (sv_principals sv) = length (ac_principals (dc_auth demo_config))
        \<and> (if dc_profile demo_config = Prod then sv_required sv \<and> sv_principals sv \<noteq> [] else True))"
  by (rule validated_config_accepted [OF demo_config_valid])

end
