(* ===== verification/IoMap.thy ===== *)
theory IoMap
  imports TextOps IoImage
begin

section \<open>The tag map (\<open>plc-io/src/map.rs\<close>)\<close>

text \<open>
  The configured modules and bindings, and their resolution to slots of the process image. A
  binding either names its slot or takes the next free number of its plane; two bindings of a
  plane never share a slot. The YAML parser is a parameter of \<open>from_yaml_str\<close>; the driver
  configuration of a module is opaque here and has the type \<open>'c\<close>. Of a JSON value the code reads
  a boolean, or a number as \<open>i64\<close> or \<open>f64\<close> where it has that form.
\<close>

subsection \<open>Schema\<close>

datatype image_plane = PlaneI | PlaneQ | PlaneM

datatype binding_direction = DirInput | DirOutput | DirMemory

primrec plane_direction :: "image_plane \<Rightarrow> binding_direction" where
  "plane_direction PlaneI = DirInput"
| "plane_direction PlaneQ = DirOutput"
| "plane_direction PlaneM = DirMemory"

datatype register_type = Holding | InputReg | Coil | Discrete

datatype raw_type = RawBool | RawInt | RawDint | RawUint | RawReal

datatype json_value = JvBool bool | JvNumber "i64 option" "f64 option" | JvOther

record io_binding =
  ib_tag :: string
  ib_image :: image_plane
  ib_value_type :: value_type
  ib_bit :: "u32 option"
  ib_slot :: "u32 option"
  ib_scale :: f64
  ib_offset :: f64
  ib_clamp :: "(f64 \<times> f64) option"
  ib_unit :: string
  ib_safe_state :: "json_value option"
  ib_register :: "u32 option"
  ib_register_type :: "register_type option"
  ib_raw_type :: "raw_type option"

record 'c io_module =
  im_id :: string
  im_driver :: string
  im_config :: 'c
  im_on_bad_quality :: bad_quality_policy
  im_bindings :: "io_binding list"

record 'c io_map =
  mp_version :: u32
  mp_modules :: "'c io_module list"

definition from_yaml_str :: "(string \<Rightarrow> string + 'c io_map) \<Rightarrow> string \<Rightarrow> io_error + 'c io_map" where
  "from_yaml_str parse txt =
     (case parse txt of
        Inl e \<Rightarrow> Inl (IoMap (''yaml parse: '' @ e))
      | Inr m \<Rightarrow>
          if mp_version m \<noteq> 1 then Inl (IoMap ''unsupported io-map version'')
          else if mp_modules m = [] then Inl (IoMap ''io-map must contain at least one module'')
          else Inr m)"

definition io_map_load ::
  "(string \<Rightarrow> string + string) \<Rightarrow> (string \<Rightarrow> string + 'c io_map) \<Rightarrow> string \<Rightarrow> io_error + 'c io_map" where
  "io_map_load read_to_string parse path =
     (case read_to_string path of Inl e \<Rightarrow> Inl (IoMap (''read '' @ e)) | Inr txt \<Rightarrow> from_yaml_str parse txt)"

subsection \<open>Safe states\<close>

definition json_i64 :: "json_value \<Rightarrow> io_error + i64" where
  "json_i64 raw =
     (case raw of
        JvNumber i _ \<Rightarrow> (case i of None \<Rightarrow> Inl (IoMap ''safe_state integer overflow'') | Some n \<Rightarrow> Inr n)
      | JvBool b \<Rightarrow> Inr (if b then 1 else 0)
      | JvOther \<Rightarrow> Inl (IoMap ''safe_state is not an integer''))"

definition parse_safe_state :: "value_type \<Rightarrow> json_value option \<Rightarrow> io_error + plc_value" where
  "parse_safe_state ty raw =
     (case raw of
        None \<Rightarrow> Inr (plc_default_of ty)
      | Some r \<Rightarrow>
          (case ty of
             TyBool \<Rightarrow> (case r of JvBool b \<Rightarrow> Inr (PvBool b) | _ \<Rightarrow> Inl (IoMap ''safe_state is not a BOOL''))
           | TyInt \<Rightarrow> rbind (json_i64 r) (\<lambda>n. Inr (PvInt (ucast n)))
           | TyDint \<Rightarrow> rbind (json_i64 r) (\<lambda>n. Inr (PvDint (ucast n)))
           | TyTime \<Rightarrow> rbind (json_i64 r) (\<lambda>n. Inr (PvTime (ucast n)))
           | TyReal \<Rightarrow>
               (case r of
                  JvNumber _ f \<Rightarrow> (case f of None \<Rightarrow> Inl (IoMap ''safe_state REAL overflow'')
                                  | Some x \<Rightarrow> Inr (PvReal (f_conv f64_fmt f32_fmt x)))
                | _ \<Rightarrow> Inl (IoMap ''safe_state is not a REAL''))))"

subsection \<open>Resolution\<close>

record slot_build =
  sb_tag :: string
  sb_ty :: value_type
  sb_unit :: string
  sb_safe :: "plc_value option"

record resolved_binding =
  rb_module_index :: nat
  rb_module_id :: string
  rb_driver :: string
  rb_binding_index :: nat
  rb_slot :: u32
  rb_image :: image_plane

record resolved_io_map =
  rv_image :: process_image
  rv_bindings :: "resolved_binding list"

text \<open>The variables of the loop: a plane with its next free number for each image plane.\<close>

record resolve_state =
  rs_planes :: "image_plane \<Rightarrow> slot_build option list"
  rs_next :: "image_plane \<Rightarrow> u32"
  rs_names :: "string list"
  rs_bindings :: "resolved_binding list"

definition resolve_init :: resolve_state where
  "resolve_init = \<lparr>rs_planes = (\<lambda>_. []), rs_next = (\<lambda>_. 0), rs_names = [], rs_bindings = []\<rparr>"

text \<open>\<open>Vec::resize_with(n, || None)\<close> when the vector is shorter.\<close>

definition grow :: "nat \<Rightarrow> 'a option list \<Rightarrow> 'a option list" where
  "grow n xs = xs @ replicate (n - length xs) None"

definition resolve_binding :: "nat \<Rightarrow> 'c io_module \<Rightarrow> nat \<Rightarrow> io_binding \<Rightarrow> resolve_state \<Rightarrow> io_error + resolve_state" where
  "resolve_binding mi md bi b st =
     (if str_blank (ib_tag b) then Inl (IoMap ''binding tag must be non-empty'')
      else if ib_tag b \<in> set (rs_names st) then Inl (IoMap ''duplicate tag'')
      else
        let p = ib_image b;
            next0 = rs_next st p;
            slot = (case ib_slot b of Some s \<Rightarrow> s | None \<Rightarrow> next0);
            next1 = (case ib_slot b of Some s \<Rightarrow> next0 | None \<Rightarrow> sat_add next0 1);
            idx = unat slot;
            plane = (if length (rs_planes st p) \<le> idx then grow (idx + 1) (rs_planes st p) else rs_planes st p)
        in if plane ! idx \<noteq> None then Inl (IoMap ''duplicate slot'')
           else
             let next2 = (if ib_slot b \<noteq> None then max next1 (sat_add slot 1) else next1)
             in rbind (if p = PlaneQ then rbind (parse_safe_state (ib_value_type b) (ib_safe_state b)) (\<lambda>v. Inr (Some v))
                       else Inr None) (\<lambda>safe.
               Inr \<lparr>rs_planes = (rs_planes st)(p := plane[idx := Some \<lparr>sb_tag = ib_tag b, sb_ty = ib_value_type b,
                                                                 sb_unit = ib_unit b, sb_safe = safe\<rparr>]),
                    rs_next = (rs_next st)(p := next2),
                    rs_names = ib_tag b # rs_names st,
                    rs_bindings = rs_bindings st @
                      [\<lparr>rb_module_index = mi, rb_module_id = im_id md, rb_driver = im_driver md,
                        rb_binding_index = bi, rb_slot = slot, rb_image = p\<rparr>]\<rparr>))"

fun resolve_bindings :: "nat \<Rightarrow> 'c io_module \<Rightarrow> nat \<Rightarrow> io_binding list \<Rightarrow> resolve_state \<Rightarrow> io_error + resolve_state" where
  "resolve_bindings mi md bi [] st = Inr st"
| "resolve_bindings mi md bi (b # bs) st =
     rbind (resolve_binding mi md bi b st) (resolve_bindings mi md (Suc bi) bs)"

fun resolve_modules :: "nat \<Rightarrow> 'c io_module list \<Rightarrow> resolve_state \<Rightarrow> io_error + resolve_state" where
  "resolve_modules mi [] st = Inr st"
| "resolve_modules mi (md # mds) st =
     (if str_blank (im_id md) then Inl (IoMap ''module.id must be non-empty'')
      else if str_blank (im_driver md) then Inl (IoMap ''module driver must be non-empty'')
      else rbind (resolve_bindings mi md 0 (im_bindings md) st) (resolve_modules (Suc mi) mds))"

definition fill_slots :: "slot_build option list \<Rightarrow> typed_slot list" where
  "fill_slots plane = map (\<lambda>s. slot_zero (case s of None \<Rightarrow> TyBool | Some b \<Rightarrow> sb_ty b)) plane"

definition fill_meta :: "string \<Rightarrow> slot_build option list \<Rightarrow> slot_meta list" where
  "fill_meta prefix plane =
     map (\<lambda>(i, s). case s of
        Some b \<Rightarrow> \<lparr>sm_tag = sb_tag b, sm_ty = sb_ty b, sm_unit = sb_unit b\<rparr>
      | None \<Rightarrow> \<lparr>sm_tag = prefix @ show_nat i, sm_ty = TyBool, sm_unit = []\<rparr>) (enumerate 0 plane)"

definition fill_safe :: "slot_build option list \<Rightarrow> plc_value list" where
  "fill_safe plane = map (\<lambda>s. case Option.bind s sb_safe of None \<Rightarrow> PvBool False | Some v \<Rightarrow> v) plane"

definition resolve :: "'c io_map \<Rightarrow> io_error + resolved_io_map" where
  "resolve m =
     rbind (resolve_modules 0 (mp_modules m) resolve_init) (\<lambda>st.
       let i = rs_planes st PlaneI; q = rs_planes st PlaneQ; k = rs_planes st PlaneM
       in Inr \<lparr>rv_image = \<lparr>pi_inputs = fill_slots i, pi_outputs = fill_slots q, pi_memory = fill_slots k,
                          pi_input_meta = fill_meta ''I'' i, pi_output_meta = fill_meta ''Q'' q,
                          pi_memory_meta = fill_meta ''M'' k, pi_output_safe = fill_safe q\<rparr>,
               rv_bindings = rs_bindings st\<rparr>)"

definition build_image :: "'c io_map \<Rightarrow> io_error + process_image" where
  "build_image m = rbind (resolve m) (\<lambda>r. Inr (rv_image r))"

subsection \<open>Every binding has its slot\<close>

definition binding_at :: "'c io_module list \<Rightarrow> resolved_binding \<Rightarrow> io_binding" where
  "binding_at mds rb = im_bindings (mds ! rb_module_index rb) ! rb_binding_index rb"

text \<open>The slot a resolved binding points at holds what its binding says.\<close>

definition built :: "'c io_module list \<Rightarrow> resolve_state \<Rightarrow> resolved_binding \<Rightarrow> bool" where
  "built mds st rb \<longleftrightarrow>
     (let b = binding_at mds rb; plane = rs_planes st (rb_image rb); idx = unat (rb_slot rb)
      in rb_image rb = ib_image b \<and> idx < length plane
         \<and> (case ib_slot b of None \<Rightarrow> True | Some s \<Rightarrow> rb_slot rb = s)
         \<and> (case plane ! idx of
              None \<Rightarrow> False
            | Some s \<Rightarrow> sb_tag s = ib_tag b \<and> sb_ty s = ib_value_type b \<and> sb_unit s = ib_unit b
                \<and> (if ib_image b = PlaneQ
                   then \<exists>v. parse_safe_state (ib_value_type b) (ib_safe_state b) = Inr v \<and> sb_safe s = Some v
                   else sb_safe s = None)))"

definition state_ok :: "'c io_module list \<Rightarrow> resolve_state \<Rightarrow> bool" where
  "state_ok mds st \<longleftrightarrow>
     list_all (built mds st) (rs_bindings st)
     \<and> distinct (map (\<lambda>rb. (rb_image rb, rb_slot rb)) (rs_bindings st))
     \<and> map (\<lambda>rb. ib_tag (binding_at mds rb)) (rs_bindings st) = rev (rs_names st)
     \<and> distinct (rs_names st)"

lemma resolve_binding_ok:
  assumes "state_ok mds st" "mds ! mi = md" "im_bindings md ! bi = b" "resolve_binding mi md bi b st = Inr st'"
  shows "state_ok mds st'
    \<and> map (\<lambda>rb. (rb_module_index rb, rb_binding_index rb)) (rs_bindings st')
      = map (\<lambda>rb. (rb_module_index rb, rb_binding_index rb)) (rs_bindings st) @ [(mi, bi)]"
proof -
  define p where "p = ib_image b"
  define slot where "slot = (case ib_slot b of Some s \<Rightarrow> s | None \<Rightarrow> rs_next st p)"
  define idx where "idx = unat slot"
  define plane where "plane = (if length (rs_planes st p) \<le> idx then grow (idx + 1) (rs_planes st p) else rs_planes st p)"
  obtain safe where tag: "ib_tag b \<notin> set (rs_names st)" and free: "plane ! idx = None"
    and safe: "if p = PlaneQ then \<exists>v. parse_safe_state (ib_value_type b) (ib_safe_state b) = Inr v \<and> safe = Some v else safe = None"
    and pl: "rs_planes st' = (rs_planes st)(p := plane[idx := Some \<lparr>sb_tag = ib_tag b, sb_ty = ib_value_type b,
                                                                 sb_unit = ib_unit b, sb_safe = safe\<rparr>])"
    and nm: "rs_names st' = ib_tag b # rs_names st"
    and bd: "rs_bindings st' = rs_bindings st @
                      [\<lparr>rb_module_index = mi, rb_module_id = im_id md, rb_driver = im_driver md,
                        rb_binding_index = bi, rb_slot = slot, rb_image = p\<rparr>]"
    using assms(4) unfolding p_def slot_def idx_def plane_def
    by (auto simp: resolve_binding_def Let_def rbind_eq_Inr split: if_splits)
  have len: "idx < length plane" by (simp add: plane_def grow_def)
  have old: "plane ! i = rs_planes st p ! i" "i < length plane" if "i < length (rs_planes st p)" for i
    using that by (auto simp: plane_def grow_def nth_append)
  let ?new = "\<lparr>rb_module_index = mi, rb_module_id = im_id md, rb_driver = im_driver md,
                        rb_binding_index = bi, rb_slot = slot, rb_image = p\<rparr>"
  have at: "binding_at mds ?new = b" using assms(2,3) by (simp add: binding_at_def)
  have slot_ok: "case ib_slot b of None \<Rightarrow> True | Some s \<Rightarrow> slot = s"
    by (simp add: slot_def split: option.splits)
  have "built mds st' ?new"
    using len safe slot_ok
    by (cases "ib_slot b") (auto simp: built_def binding_at_def assms(2,3) pl p_def [symmetric] idx_def [symmetric] Let_def split: if_splits)
  moreover have keep: "built mds st' rb \<and> (rb_image rb, rb_slot rb) \<noteq> (p, slot)" if rb: "built mds st rb" for rb
  proof -
    have apart: "\<not> (rb_image rb = p \<and> rb_slot rb = slot)"
      using rb free old(1) [of idx] by (auto simp: built_def Let_def idx_def split: option.splits)
    then have ne: "rb_image rb = p \<Longrightarrow> unat (rb_slot rb) \<noteq> idx" by (simp add: idx_def word_unat_eq_iff)
    show ?thesis
      using rb ne apart old [of "unat (rb_slot rb)"]
      by (auto simp: built_def Let_def pl split: option.splits)
  qed
  ultimately show ?thesis
    using assms(1) tag at by (auto simp: state_ok_def bd nm list_all_iff)
qed

definition positions :: "resolved_binding list \<Rightarrow> (nat \<times> nat) list" where
  "positions rbs = map (\<lambda>rb. (rb_module_index rb, rb_binding_index rb)) rbs"

text \<open>The bindings of a map, by module and position, in the order they are written.\<close>

definition binding_order :: "nat \<Rightarrow> 'c io_module list \<Rightarrow> (nat \<times> nat) list" where
  "binding_order mi mds =
     concat (map (\<lambda>(i, md). map (Pair i) [0 ..< length (im_bindings md)]) (enumerate mi mds))"

lemma resolve_bindings_ok:
  assumes "state_ok mds st" "mds ! mi = md" "drop bi (im_bindings md) = bs"
    and "resolve_bindings mi md bi bs st = Inr st'"
  shows "state_ok mds st' \<and> positions (rs_bindings st')
    = positions (rs_bindings st) @ map (Pair mi) [bi ..< bi + length bs]"
  using assms
proof (induction bs arbitrary: bi st)
  case (Cons b bs)
  obtain st1 where st1: "resolve_binding mi md bi b st = Inr st1"
    and rest: "resolve_bindings mi md (Suc bi) bs st1 = Inr st'"
    using Cons.prems(4) by (auto simp: rbind_eq_Inr)
  have b: "im_bindings md ! bi = b" "drop (Suc bi) (im_bindings md) = bs"
    using Cons.prems(3) by (metis hd_drop_conv_nth drop_eq_Nil2 linorder_not_le list.discI list.sel(1),
      metis drop_Suc list.sel(3) tl_drop)
  have one: "state_ok mds st1" "positions (rs_bindings st1) = positions (rs_bindings st) @ [(mi, bi)]"
    using resolve_binding_ok [OF Cons.prems(1,2) b(1) st1] by (simp_all add: positions_def)
  have "[bi ..< bi + length (b # bs)] = bi # [Suc bi ..< Suc bi + length bs]"
    by (subst upt_conv_Cons) simp_all
  then show ?case
    using Cons.IH [OF one(1) Cons.prems(2) b(2) rest] one(2) by simp
qed simp

lemma resolve_modules_ok:
  assumes "state_ok mds st" "drop mi mds = rest" "resolve_modules mi rest st = Inr st'"
  shows "state_ok mds st' \<and> positions (rs_bindings st') = positions (rs_bindings st) @ binding_order mi rest"
  using assms
proof (induction rest arbitrary: mi st)
  case Nil
  then show ?case by (simp add: binding_order_def)
next
  case (Cons md rest)
  obtain st1 where st1: "resolve_bindings mi md 0 (im_bindings md) st = Inr st1"
    and more: "resolve_modules (Suc mi) rest st1 = Inr st'"
    using Cons.prems(3) by (auto simp: rbind_eq_Inr split: if_splits)
  have md: "mds ! mi = md" "drop (Suc mi) mds = rest"
    using Cons.prems(2) by (metis hd_drop_conv_nth drop_eq_Nil2 linorder_not_le list.discI list.sel(1),
      metis drop_Suc list.sel(3) tl_drop)
  show ?case
    using resolve_bindings_ok [OF Cons.prems(1) md(1) _ st1] Cons.IH [OF _ md(2) more]
    by (simp add: binding_order_def)
qed

text \<open>The slots, the metadata and the safe values of a plane of the image.\<close>

primrec plane_slots :: "image_plane \<Rightarrow> process_image \<Rightarrow> typed_slot list" where
  "plane_slots PlaneI img = pi_inputs img"
| "plane_slots PlaneQ img = pi_outputs img"
| "plane_slots PlaneM img = pi_memory img"

primrec plane_meta :: "image_plane \<Rightarrow> process_image \<Rightarrow> slot_meta list" where
  "plane_meta PlaneI img = pi_input_meta img"
| "plane_meta PlaneQ img = pi_output_meta img"
| "plane_meta PlaneM img = pi_memory_meta img"

lemma fill_lengths [simp]:
  "length (fill_slots plane) = length plane"
  "length (fill_meta pre plane) = length plane"
  "length (fill_safe plane) = length plane"
  by (simp_all add: fill_slots_def fill_meta_def fill_safe_def)

lemma fill_nth:
  assumes "i < length plane" "plane ! i = Some s"
  shows "fill_slots plane ! i = slot_zero (sb_ty s)"
    and "fill_meta pre plane ! i = \<lparr>sm_tag = sb_tag s, sm_ty = sb_ty s, sm_unit = sb_unit s\<rparr>"
    and "sb_safe s = Some v \<Longrightarrow> fill_safe plane ! i = v"
  using assms by (simp_all add: fill_slots_def fill_meta_def fill_safe_def nth_enumerate_eq)

definition bound_slot :: "'c io_module list \<Rightarrow> process_image \<Rightarrow> resolved_binding \<Rightarrow> bool" where
  "bound_slot mds img rb \<longleftrightarrow>
     (let b = binding_at mds rb; p = rb_image rb; i = unat (rb_slot rb)
      in p = ib_image b
         \<and> (case ib_slot b of None \<Rightarrow> True | Some s \<Rightarrow> rb_slot rb = s)
         \<and> i < length (plane_slots p img)
         \<and> plane_slots p img ! i = slot_zero (ib_value_type b)
         \<and> plane_meta p img ! i = \<lparr>sm_tag = ib_tag b, sm_ty = ib_value_type b, sm_unit = ib_unit b\<rparr>
         \<and> (if p = PlaneQ
            then parse_safe_state (ib_value_type b) (ib_safe_state b) = Inr (pi_output_safe img ! i) else True))"

lemma bound_slot_built:
  assumes "built mds st rb"
    and "\<And>p. plane_slots p img = fill_slots (rs_planes st p)"
    and "\<And>p. \<exists>pre. plane_meta p img = fill_meta pre (rs_planes st p)"
    and "pi_output_safe img = fill_safe (rs_planes st PlaneQ)"
  shows "bound_slot mds img rb"
proof -
  let ?b = "binding_at mds rb" and ?i = "unat (rb_slot rb)" and ?pl = "rs_planes st (rb_image rb)"
  obtain s where s: "?pl ! ?i = Some s" "?i < length ?pl" and p: "rb_image rb = ib_image ?b"
    and sl: "case ib_slot ?b of None \<Rightarrow> True | Some s \<Rightarrow> rb_slot rb = s"
    and f: "sb_tag s = ib_tag ?b" "sb_ty s = ib_value_type ?b" "sb_unit s = ib_unit ?b"
    and sf: "ib_image ?b = PlaneQ \<Longrightarrow> \<exists>v. parse_safe_state (ib_value_type ?b) (ib_safe_state ?b) = Inr v \<and> sb_safe s = Some v"
    using assms(1) by (auto simp: built_def Let_def split: option.splits if_splits)
  obtain pre where pre: "plane_meta (rb_image rb) img = fill_meta pre ?pl" using assms(3) by blast
  show ?thesis
    using s p sl sf f fill_nth [OF s(2) s(1)] assms(2) [of "rb_image rb"] pre assms(4)
    by (auto simp: bound_slot_def Let_def)
qed

lemma resolve_modules_init:
  assumes "resolve_modules 0 mds resolve_init = Inr st"
  shows "state_ok mds st" "positions (rs_bindings st) = binding_order 0 mds"
  using resolve_modules_ok [of mds resolve_init 0 mds st] assms
  by (auto simp: state_ok_def resolve_init_def positions_def)

lemma resolve_image:
  assumes "resolve m = Inr r"
  obtains st where "resolve_modules 0 (mp_modules m) resolve_init = Inr st" "rv_bindings r = rs_bindings st"
    "\<And>p. plane_slots p (rv_image r) = fill_slots (rs_planes st p)"
    "\<And>p. \<exists>pre. plane_meta p (rv_image r) = fill_meta pre (rs_planes st p)"
    "pi_output_safe (rv_image r) = fill_safe (rs_planes st PlaneQ)"
proof -
  obtain st where st: "resolve_modules 0 (mp_modules m) resolve_init = Inr st"
    using assms by (auto simp: resolve_def rbind_eq_Inr)
  have "plane_slots p (rv_image r) = fill_slots (rs_planes st p)"
    "\<exists>pre. plane_meta p (rv_image r) = fill_meta pre (rs_planes st p)" for p
    using assms st by (cases p; auto simp: resolve_def Let_def)+
  then show thesis
    using that [OF st] assms st by (auto simp: resolve_def Let_def)
qed

lemma resolve_bound:
  assumes "resolve m = Inr r"
  shows "positions (rv_bindings r) = binding_order 0 (mp_modules m)"
    and "\<forall>rb \<in> set (rv_bindings r). bound_slot (mp_modules m) (rv_image r) rb"
    and "distinct (map (\<lambda>rb. (rb_image rb, rb_slot rb)) (rv_bindings r))"
    and "distinct (map (\<lambda>rb. ib_tag (binding_at (mp_modules m) rb)) (rv_bindings r))"
    and "length (plane_meta p (rv_image r)) = length (plane_slots p (rv_image r))"
    and "length (pi_output_safe (rv_image r)) = length (pi_outputs (rv_image r))"
proof -
  obtain st where st: "resolve_modules 0 (mp_modules m) resolve_init = Inr st" "rv_bindings r = rs_bindings st"
    and pl: "\<And>p. plane_slots p (rv_image r) = fill_slots (rs_planes st p)"
    "\<And>p. \<exists>pre. plane_meta p (rv_image r) = fill_meta pre (rs_planes st p)"
    "pi_output_safe (rv_image r) = fill_safe (rs_planes st PlaneQ)"
    using resolve_image [OF assms] by blast
  note ok = resolve_modules_init [OF st(1)]
  show "positions (rv_bindings r) = binding_order 0 (mp_modules m)" using ok(2) st(2) by simp
  show "\<forall>rb \<in> set (rv_bindings r). bound_slot (mp_modules m) (rv_image r) rb"
    using ok(1) bound_slot_built [OF _ pl] by (auto simp: state_ok_def list_all_iff st(2))
  show "distinct (map (\<lambda>rb. (rb_image rb, rb_slot rb)) (rv_bindings r))"
    using ok(1) by (simp add: state_ok_def st(2))
  show "distinct (map (\<lambda>rb. ib_tag (binding_at (mp_modules m) rb)) (rv_bindings r))"
    using ok(1) by (simp add: state_ok_def st(2) distinct_rev)
  show "length (plane_meta p (rv_image r)) = length (plane_slots p (rv_image r))"
    using pl(1,2) [of p] by auto
  show "length (pi_output_safe (rv_image r)) = length (pi_outputs (rv_image r))"
    using pl(1) [of PlaneQ] pl(3) by simp
qed

end
