(* ===== verification/ModbusPlan.thy ===== *)
theory ModbusPlan
  imports IoMap "HOL-Library.Multiset"
begin

section \<open>Modbus points (\<open>plc-io-modbus\<close>: \<open>address.rs\<close>, \<open>convert.rs\<close>, \<open>validate.rs\<close>)\<close>

text \<open>
  The Modicon register references, the conversion between field words and image values, and the
  validation of the Modbus modules of a tag map, which turns every binding into a planned point. The
  YAML deserialiser of a module's own configuration is a parameter (\<open>parse_cfg\<close>). The lemmas say what
  a validated module guarantees: addresses in range, widths that fit the table, and no two points of
  one table on the same address.
\<close>

subsection \<open>Addresses\<close>

primrec table_name :: "register_type \<Rightarrow> string" where
  "table_name Coil = ''coil''"
| "table_name Discrete = ''discrete''"
| "table_name Holding = ''holding''"
| "table_name InputReg = ''input''"

definition decode :: "u32 \<Rightarrow> register_type option \<Rightarrow> string + register_type \<times> u16" where
  "decode register hint =
     (let r = uint register
      in rbind
           (if 1 \<le> r \<and> r \<le> 9999 then Inr (Coil, register - 1)
            else if 10001 \<le> r \<and> r \<le> 19999 then Inr (Discrete, register - 10001)
            else if 30001 \<le> r \<and> r \<le> 39999 then Inr (InputReg, register - 30001)
            else if 40001 \<le> r \<and> r \<le> 49999 then Inr (Holding, register - 40001)
            else Inl ''register is not a 5-digit Modicon reference'')
         (\<lambda>(table, pdu).
           if (case hint of None \<Rightarrow> False | Some h \<Rightarrow> h \<noteq> table) then Inl ''register is in another table''
           else Inr (table, if uint pdu < 65536 then ucast pdu else 0)))"

definition is_bit_table :: "register_type \<Rightarrow> bool" where
  "is_bit_table table = (table = Coil \<or> table = Discrete)"

primrec read_fc :: "register_type \<Rightarrow> u8" where
  "read_fc Coil = 1"
| "read_fc Discrete = 2"
| "read_fc Holding = 3"
| "read_fc InputReg = 4"

subsection \<open>Points and modules\<close>

record planned_point =
  pp_tag :: string
  pp_slot :: nat
  pp_direction :: binding_direction
  pp_table :: register_type
  pp_pdu :: u16
  pp_words :: u16
  pp_raw :: raw_type
  pp_bit :: "u8 option"
  pp_value_type :: value_type
  pp_scale :: f64
  pp_offset :: f64
  pp_clamp :: "(f64 \<times> f64) option"
  pp_safe :: plc_value
  pp_input_pos :: "nat option"
  pp_output_pos :: "nat option"

record planned_module =
  pm_id :: string
  pm_host :: string
  pm_port :: u16
  pm_unit :: u8
  pm_poll_ms :: u64
  pm_stale_ms :: u64
  pm_timeout_ms :: u64
  pm_on_bad :: bad_quality_policy
  pm_points :: "planned_point list"

record module_config =
  mc_endpoint :: string
  mc_unit :: u16
  mc_poll_ms :: u64
  mc_stale_ms :: "u64 option"
  mc_timeout_ms :: "u64 option"

subsection \<open>Conversion\<close>

definition f64_finite :: "f64 \<Rightarrow> bool" where
  "f64_finite x = (case fdecode f64_fmt x of FFin _ _ _ \<Rightarrow> True | _ \<Rightarrow> False)"

text \<open>\<open>f64::round\<close>: the nearest integer, halves away from zero, the sign kept.\<close>

definition f64_round :: "f64 \<Rightarrow> f64" where
  "f64_round x =
     (case fdecode f64_fmt x of
        FNan \<Rightarrow> x
      | FInf _ \<Rightarrow> x
      | FFin s m e \<Rightarrow>
          if 0 \<le> e then x
          else fround f64_fmt s ((2 * m + 2 ^ nat (- e)) div (2 * 2 ^ nat (- e))) 1 0)"

text \<open>\<open>f64::from\<close> of an integer, and \<open>as\<close> to one between \<open>lo\<close> and \<open>hi\<close>.\<close>

abbreviation "f64_of \<equiv> f_of_int f64_fmt :: int \<Rightarrow> f64"

definition sat_int :: "int \<Rightarrow> int \<Rightarrow> f64 \<Rightarrow> int" where
  "sat_int lo hi x =
     (if \<not> f64_finite x then 0
      else let y = f64_round x
           in if flt f64_fmt (f64_of hi) y then hi
              else if flt f64_fmt y (f64_of lo) then lo
              else f_to_int f64_fmt y lo hi)"

definition sat_i16 :: "f64 \<Rightarrow> i16" where
  "sat_i16 x = word_of_int (sat_int (- 32768) 32767 x)"

definition sat_u16 :: "f64 \<Rightarrow> u16" where
  "sat_u16 x = word_of_int (sat_int 0 65535 x)"

definition sat_i32 :: "f64 \<Rightarrow> i32" where
  "sat_i32 x = word_of_int (sat_int (- 2147483648) 2147483647 x)"

definition f32_MAX :: f32 where "f32_MAX = 0x7F7FFFFF"

definition f32_MIN :: f32 where "f32_MIN = 0xFF7FFFFF"

definition sat_f32 :: "f64 \<Rightarrow> f32" where
  "sat_f32 x =
     (if \<not> f64_finite x then 0
      else let mx = f_conv f32_fmt f64_fmt f32_MAX
           in if flt f64_fmt mx x then f32_MAX
              else if flt f64_fmt x (fneg f64_fmt mx) then f32_MIN
              else f_conv f64_fmt f32_fmt x)"

definition finish :: "f64 \<Rightarrow> value_type \<Rightarrow> plc_value" where
  "finish eng ty =
     (case ty of
        TyBool \<Rightarrow> PvBool (f64_finite eng \<and> \<not> feq f64_fmt eng 0)
      | TyInt \<Rightarrow> PvInt (sat_i16 eng)
      | TyDint \<Rightarrow> PvDint (sat_i32 eng)
      | TyTime \<Rightarrow> PvTime (sat_i32 eng)
      | TyReal \<Rightarrow> PvReal (sat_f32 eng))"

definition decode_number :: "f64 \<Rightarrow> planned_point \<Rightarrow> plc_value" where
  "decode_number raw p =
     finish (if pp_direction p = DirInput
             then apply_scale_offset_clamp raw (pp_scale p) (pp_offset p) (pp_clamp p) else raw)
       (pp_value_type p)"

text \<open>\<open>regs.get(i).copied().unwrap_or(0)\<close>, and the two words of a 32-bit value, high word first.\<close>

definition reg_or_0 :: "u16 list \<Rightarrow> nat \<Rightarrow> u16" where
  "reg_or_0 regs i = (case nth_opt regs i of None \<Rightarrow> 0 | Some r \<Rightarrow> r)"

definition join_words :: "u16 list \<Rightarrow> u32" where
  "join_words regs = push_bit 16 (ucast (reg_or_0 regs 0)) OR ucast (reg_or_0 regs 1)"

definition split_words :: "u32 \<Rightarrow> u16 list" where
  "split_words n = [ucast (drop_bit 16 n), ucast n]"

definition decode_regs :: "u16 list \<Rightarrow> planned_point \<Rightarrow> plc_value" where
  "decode_regs regs p =
     decode_number
       (case pp_raw p of
          RawBool \<Rightarrow> f64_of (uint (drop_bit (unat (case pp_bit p of None \<Rightarrow> 0 | Some b \<Rightarrow> b)) (reg_or_0 regs 0) AND 1))
        | RawInt \<Rightarrow> f64_of (sint (reg_or_0 regs 0))
        | RawUint \<Rightarrow> f64_of (uint (reg_or_0 regs 0))
        | RawDint \<Rightarrow> f64_of (sint (join_words regs))
        | RawReal \<Rightarrow> f_conv f32_fmt f64_fmt (join_words regs)) p"

definition plc_eng :: "plc_value \<Rightarrow> f64" where
  "plc_eng v =
     (case v of
        PvBool b \<Rightarrow> f64_of (if b then 1 else 0)
      | PvInt n \<Rightarrow> f64_of (sint n)
      | PvDint n \<Rightarrow> f64_of (sint n)
      | PvTime n \<Rightarrow> f64_of (sint n)
      | PvReal n \<Rightarrow> f_conv f32_fmt f64_fmt n)"

definition coil_on :: "plc_value \<Rightarrow> planned_point \<Rightarrow> bool" where
  "coil_on v p = (let raw = eng_to_raw (plc_eng v) (pp_scale p) (pp_offset p) in f64_finite raw \<and> \<not> feq f64_fmt raw 0)"

definition value_to_words :: "plc_value \<Rightarrow> planned_point \<Rightarrow> u16 list" where
  "value_to_words v p =
     (let raw = eng_to_raw (plc_eng v) (pp_scale p) (pp_offset p)
      in case pp_raw p of
           RawBool \<Rightarrow> [if coil_on v p then 1 else 0]
         | RawInt \<Rightarrow> [sat_i16 raw]
         | RawUint \<Rightarrow> [sat_u16 raw]
         | RawDint \<Rightarrow> split_words (sat_i32 raw)
         | RawReal \<Rightarrow> split_words (sat_f32 raw))"

subsection \<open>Validation\<close>

definition default_raw :: "value_type \<Rightarrow> string + raw_type" where
  "default_raw ty =
     (case ty of
        TyBool \<Rightarrow> Inr RawBool | TyInt \<Rightarrow> Inr RawInt | TyDint \<Rightarrow> Inr RawDint | TyReal \<Rightarrow> Inr RawReal
      | TyTime \<Rightarrow> Inl ''TIME is not a modbus raw type'')"

primrec raw_words :: "raw_type \<Rightarrow> u16" where
  "raw_words RawBool = 1"
| "raw_words RawInt = 1"
| "raw_words RawUint = 1"
| "raw_words RawDint = 2"
| "raw_words RawReal = 2"

definition check_bit :: "register_type \<Rightarrow> raw_type \<Rightarrow> u32 option \<Rightarrow> value_type \<Rightarrow> io_error + u8 option" where
  "check_bit table raw bt ty =
     (if is_bit_table table then
        if bt \<noteq> None then Inl (IoMap ''bit is not used on coils or discrete inputs'')
        else if raw \<noteq> RawBool \<or> ty \<noteq> TyBool then Inl (IoMap ''coils and discrete inputs are BOOL'')
        else Inr None
      else if raw = RawBool then
        if ty \<noteq> TyBool then Inl (IoMap ''BOOL raw values map to BOOL tags'')
        else case bt of
          None \<Rightarrow> Inl (IoMap ''holding/input BOOL requires bit'')
        | Some b \<Rightarrow> if 15 < b then Inl (IoMap ''bit is outside 0..=15'') else Inr (Some (ucast b))
      else if bt \<noteq> None then Inl (IoMap ''bit is only valid for BOOL raw values'')
      else Inr None)"

text \<open>\<open>rsplit_once(':')\<close>, and \<open>u16::from_str\<close> (an optional plus sign, then digits).\<close>

definition rsplit_colon :: "string \<Rightarrow> (string \<times> string) option" where
  "rsplit_colon s =
     (let t = takeWhile (\<lambda>c. c \<noteq> CHR '':'') (rev s)
      in if length t = length s then None else Some (take (length s - length t - 1) s, rev t))"

definition parse_u16 :: "string \<Rightarrow> u16 option" where
  "parse_u16 s =
     (let body = (if s \<noteq> [] \<and> hd s = CHR ''+'' then tl s else s);
          (ds, rest) = read_digits 10 body
      in if body = [] \<or> rest \<noteq> [] \<or> 65535 < digits_value 10 ds then None
         else Some (word_of_int (digits_value 10 ds)))"

definition parse_endpoint :: "string \<Rightarrow> string + string \<times> u16" where
  "parse_endpoint raw0 =
     (case rsplit_colon (trim raw0) of
        None \<Rightarrow> Inl ''endpoint must be host:port''
      | Some (host0, port0) \<Rightarrow>
          let host1 = trim host0
          in rbind
               (if host1 \<noteq> [] \<and> hd host1 = CHR ''['' \<and> last host1 = CHR '']'' \<and> 2 \<le> length host1
                then Inr (butlast (tl host1))
                else if CHR '':'' \<in> set host1 then Inl ''endpoint must be host:port''
                else Inr host1)
             (\<lambda>host.
               if host = [] then Inl ''endpoint must be host:port''
               else case parse_u16 (trim port0) of
                 None \<Rightarrow> Inl ''endpoint must be host:port''
               | Some port \<Rightarrow>
                   if port = 0 then Inl ''endpoint port must be non-zero'' else Inr (host, port)))"

text \<open>\<open>*table as u8\<close>: the position of the constructor.\<close>

primrec table_code :: "register_type \<Rightarrow> nat" where
  "table_code Holding = 0"
| "table_code InputReg = 1"
| "table_code Coil = 2"
| "table_code Discrete = 3"

type_synonym reg_span = "register_type \<times> u32 \<times> u32 \<times> string"

definition span_key :: "reg_span \<Rightarrow> int" where
  "span_key sp = (case sp of (table, start, _, _) \<Rightarrow> int (table_code table) * 2 ^ 32 + uint start)"

fun overlap_free :: "reg_span list \<Rightarrow> bool" where
  "overlap_free ((t0, s0, e0, g0) # (t1, s1, e1, g1) # rest) =
     (\<not> (t0 = t1 \<and> s1 < e0) \<and> overlap_free ((t1, s1, e1, g1) # rest))"
| "overlap_free _ = True"

definition check_overlaps :: "reg_span list \<Rightarrow> io_error + unit" where
  "check_overlaps spans =
     (if overlap_free (sort_key span_key spans) then Inr () else Inl (IoMap ''registers overlap''))"

text \<open>The variables of the loop over the bindings.\<close>

record plan_state =
  ps_points :: "planned_point list"
  ps_input_pos :: nat
  ps_output_pos :: nat
  ps_spans :: "reg_span list"

definition find_slot :: "resolved_io_map \<Rightarrow> nat \<Rightarrow> nat \<Rightarrow> nat option" where
  "find_slot resolved mi bi =
     map_option (\<lambda>rb. unat (rb_slot rb))
       (List.find (\<lambda>rb. rb_module_index rb = mi \<and> rb_binding_index rb = bi) (rv_bindings resolved))"

definition point_of ::
  "resolved_io_map \<Rightarrow> io_binding \<Rightarrow> register_type \<Rightarrow> u16 \<Rightarrow> raw_type \<Rightarrow> u8 option \<Rightarrow> nat \<Rightarrow> plan_state \<Rightarrow> planned_point" where
  "point_of resolved b table pdu raw bt slot st =
     (let direction = plane_direction (ib_image b)
      in \<lparr>pp_tag = ib_tag b, pp_slot = slot, pp_direction = direction, pp_table = table, pp_pdu = pdu,
          pp_words = (if is_bit_table table then 1 else raw_words raw), pp_raw = raw, pp_bit = bt,
          pp_value_type = ib_value_type b, pp_scale = ib_scale b, pp_offset = ib_offset b,
          pp_clamp = (if direction = DirInput then ib_clamp b else None),
          pp_safe = (if direction = DirOutput
                     then (case nth_opt (pi_output_safe (rv_image resolved)) slot of
                             None \<Rightarrow> PvBool False | Some v \<Rightarrow> v)
                     else plc_default_of (ib_value_type b)),
          pp_input_pos = (if direction = DirInput then Some (ps_input_pos st) else None),
          pp_output_pos = (if direction = DirOutput then Some (ps_output_pos st) else None)\<rparr>)"

definition push_point :: "planned_point \<Rightarrow> plan_state \<Rightarrow> plan_state" where
  "push_point p st =
     \<lparr>ps_points = ps_points st @ [p],
      ps_input_pos = (if pp_direction p = DirInput then ps_input_pos st + 1 else ps_input_pos st),
      ps_output_pos = (if pp_direction p = DirOutput then ps_output_pos st + 1 else ps_output_pos st),
      ps_spans = ps_spans st @ [(pp_table p, ucast (pp_pdu p), ucast (pp_pdu p) + ucast (pp_words p), pp_tag p)]\<rparr>"

definition plan_binding :: "resolved_io_map \<Rightarrow> nat \<Rightarrow> nat \<Rightarrow> io_binding \<Rightarrow> plan_state \<Rightarrow> io_error + plan_state" where
  "plan_binding resolved mi bi b st =
     (if ib_image b = PlaneM then Inl (IoMap ''modbus does not back %M'')
      else case ib_register b of
        None \<Rightarrow> Inl (IoMap ''register is required'')
      | Some register \<Rightarrow>
          (case decode register (ib_register_type b) of
             Inl e \<Rightarrow> Inl (IoMap e)
           | Inr (table, pdu) \<Rightarrow>
               if ib_value_type b = TyTime then Inl (IoMap ''TIME is not a modbus raw type'')
               else
                 rbind (case ib_raw_type b of
                          Some raw \<Rightarrow> Inr raw
                        | None \<Rightarrow> (case default_raw (ib_value_type b) of Inl e \<Rightarrow> Inl (IoMap e) | Inr raw \<Rightarrow> Inr raw)) (\<lambda>raw.
                 rbind (check_bit table raw (ib_bit b) (ib_value_type b)) (\<lambda>bt.
                 if plane_direction (ib_image b) = DirOutput \<and> (table = InputReg \<or> table = Discrete)
                 then Inl (IoMap ''registers are read-only'')
                 else if plane_direction (ib_image b) = DirOutput \<and> feq f64_fmt (ib_scale b) 0
                 then Inl (IoMap ''output scale must be non-zero'')
                 else if \<not> f64_finite (ib_scale b) \<or> \<not> f64_finite (ib_offset b)
                 then Inl (IoMap ''scale and offset must be finite'')
                 else rbind (ok_or (find_slot resolved mi bi) (IoMap ''missing slot assignment'')) (\<lambda>slot.
                   Inr (push_point (point_of resolved b table pdu raw bt slot st) st))))))"

fun plan_bindings :: "resolved_io_map \<Rightarrow> nat \<Rightarrow> nat \<Rightarrow> io_binding list \<Rightarrow> plan_state \<Rightarrow> io_error + plan_state" where
  "plan_bindings resolved mi bi [] st = Inr st"
| "plan_bindings resolved mi bi (b # bs) st =
     rbind (plan_binding resolved mi bi b st) (plan_bindings resolved mi (Suc bi) bs)"

definition plan_init :: plan_state where
  "plan_init = \<lparr>ps_points = [], ps_input_pos = 0, ps_output_pos = 0, ps_spans = []\<rparr>"

definition validate_module ::
  "('c \<Rightarrow> string + module_config) \<Rightarrow> nat \<Rightarrow> 'c io_module \<Rightarrow> resolved_io_map \<Rightarrow> io_error + planned_module" where
  "validate_module parse_cfg mi md resolved =
     (case parse_cfg (im_config md) of
        Inl e \<Rightarrow> Inl (IoMap (''modbus config: '' @ e))
      | Inr cfg \<Rightarrow>
          if mc_poll_ms cfg = 0 then Inl (IoMap ''poll_ms must be > 0'')
          else if \<not> (1 \<le> mc_unit cfg \<and> mc_unit cfg \<le> 255) then Inl (IoMap ''unit must be 1..=255'')
          else
            let stale_ms = (case mc_stale_ms cfg of Some s \<Rightarrow> s | None \<Rightarrow> sat_mul (mc_poll_ms cfg) 3)
            in if stale_ms < mc_poll_ms cfg then Inl (IoMap ''stale_ms must be >= poll_ms'')
               else
                 let timeout_ms = (case mc_timeout_ms cfg of Some s \<Rightarrow> s | None \<Rightarrow> mc_poll_ms cfg)
                 in if timeout_ms = 0 then Inl (IoMap ''timeout_ms must be > 0'')
                    else case parse_endpoint (mc_endpoint cfg) of
                      Inl e \<Rightarrow> Inl (IoMap e)
                    | Inr (host, port) \<Rightarrow>
                        rbind (plan_bindings resolved mi 0 (im_bindings md) plan_init) (\<lambda>st.
                        rbind (check_overlaps (ps_spans st)) (\<lambda>_.
                        Inr \<lparr>pm_id = im_id md, pm_host = host, pm_port = port,
                             pm_unit = ucast (mc_unit cfg), pm_poll_ms = mc_poll_ms cfg,
                             pm_stale_ms = stale_ms, pm_timeout_ms = timeout_ms,
                             pm_on_bad = im_on_bad_quality md, pm_points = ps_points st\<rparr>)))"

fun validate_modules ::
  "('c \<Rightarrow> string + module_config) \<Rightarrow> nat \<Rightarrow> 'c io_module list \<Rightarrow> resolved_io_map \<Rightarrow> io_error + planned_module list" where
  "validate_modules parse_cfg mi [] resolved = Inr []"
| "validate_modules parse_cfg mi (md # mds) resolved =
     (if im_driver md \<noteq> ''modbus_tcp'' then validate_modules parse_cfg (Suc mi) mds resolved
      else rbind (validate_module parse_cfg mi md resolved) (\<lambda>p.
           rbind (validate_modules parse_cfg (Suc mi) mds resolved) (\<lambda>ps. Inr (p # ps))))"

definition validate_map ::
  "('c \<Rightarrow> string + module_config) \<Rightarrow> 'c io_map \<Rightarrow> resolved_io_map \<Rightarrow> io_error + planned_module list" where
  "validate_map parse_cfg m resolved = validate_modules parse_cfg 0 (mp_modules m) resolved"

subsection \<open>What a validated module guarantees\<close>

definition point_ok :: "planned_point \<Rightarrow> bool" where
  "point_ok p \<longleftrightarrow>
     unat (pp_pdu p) + unat (pp_words p) \<le> 10000
     \<and> pp_words p = (if is_bit_table (pp_table p) then 1 else raw_words (pp_raw p))
     \<and> (is_bit_table (pp_table p) \<longrightarrow> pp_raw p = RawBool \<and> pp_value_type p = TyBool)
     \<and> (pp_raw p = RawBool \<and> \<not> is_bit_table (pp_table p) \<longrightarrow> (\<exists>b. pp_bit p = Some b \<and> b \<le> 15))
     \<and> pp_value_type p \<noteq> TyTime
     \<and> pp_direction p \<noteq> DirMemory
     \<and> (pp_direction p = DirOutput \<longrightarrow> pp_table p = Coil \<or> pp_table p = Holding)
     \<and> (pp_direction p = DirInput \<longleftrightarrow> pp_input_pos p \<noteq> None)
     \<and> (pp_direction p = DirOutput \<longleftrightarrow> pp_output_pos p \<noteq> None)"

definition points_apart :: "planned_point \<Rightarrow> planned_point \<Rightarrow> bool" where
  "points_apart p q \<longleftrightarrow>
     (pp_table p = pp_table q \<longrightarrow>
        unat (pp_pdu p) + unat (pp_words p) \<le> unat (pp_pdu q)
        \<or> unat (pp_pdu q) + unat (pp_words q) \<le> unat (pp_pdu p))"

definition taken_positions :: "(planned_point \<Rightarrow> nat option) \<Rightarrow> planned_point list \<Rightarrow> nat list" where
  "taken_positions pos points = map (\<lambda>p. the (pos p)) (filter (\<lambda>p. pos p \<noteq> None) points)"

definition points_ok :: "planned_point list \<Rightarrow> bool" where
  "points_ok points \<longleftrightarrow>
     list_all point_ok points \<and> sorted_wrt points_apart points
     \<and> taken_positions pp_input_pos points = [0 ..< length (filter (\<lambda>p. pp_input_pos p \<noteq> None) points)]
     \<and> taken_positions pp_output_pos points = [0 ..< length (filter (\<lambda>p. pp_output_pos p \<noteq> None) points)]"

lemma raw_words_bounds: "1 \<le> unat (raw_words r)" "unat (raw_words r) \<le> 2"
  by (cases r; simp)+

lemma point_words:
  assumes "point_ok p"
  shows "1 \<le> unat (pp_words p)" "unat (pp_words p) \<le> 2"
  using assms raw_words_bounds [of "pp_raw p"] by (auto simp: point_ok_def)

lemma points_apart_sym: "points_apart p q \<Longrightarrow> points_apart q p"
  by (auto simp: points_apart_def)

lemma sorted_wrt_perm:
  assumes "\<And>x y. R x y \<Longrightarrow> R y x" "mset xs = mset ys" "sorted_wrt R xs"
  shows "sorted_wrt R ys"
  using assms(2,3)
proof (induction xs arbitrary: ys)
  case (Cons x xs)
  have "x \<in> set ys" using Cons.prems(1) by (metis list.set_intros(1) mset_eq_setD)
  then obtain as bs where ys: "ys = as @ x # bs" by (meson split_list)
  then have m: "mset xs = mset (as @ bs)" using Cons.prems(1) by simp
  have "sorted_wrt R (as @ bs)" using Cons.IH [OF m] Cons.prems(2) by simp
  moreover have "\<forall>y \<in> set (as @ bs). R x y" using Cons.prems(2) m by (metis list.inject sorted_wrt.elims(2) list.distinct(1) mset_eq_setD)
  ultimately show ?case using assms(1) by (auto simp: ys sorted_wrt_append)
qed simp

definition span_ok :: "reg_span \<Rightarrow> bool" where
  "span_ok sp \<longleftrightarrow> (case sp of (t, s, e, _) \<Rightarrow> s < e)"

definition span_before :: "reg_span \<Rightarrow> reg_span \<Rightarrow> bool" where
  "span_before a b \<longleftrightarrow> (case a of (t0, s0, e0, _) \<Rightarrow> case b of (t1, s1, e1, _) \<Rightarrow> t0 = t1 \<longrightarrow> e0 \<le> s1)"

lemma span_key_le:
  assumes "span_key (t0, s0, e0, g0) \<le> span_key (t1, s1, e1, g1)"
  shows "table_code t0 \<le> table_code t1" "t0 = t1 \<Longrightarrow> s0 \<le> s1"
proof -
  have "uint s0 < 2 ^ 32" "0 \<le> uint s0" "uint s1 < 2 ^ 32" using uint_lt2p [of s0] uint_lt2p [of s1] by simp_all
  then have "int (table_code t0) * 2 ^ 32 < (int (table_code t1) + 1) * 2 ^ 32"
    using assms unfolding span_key_def prod.case distrib_right by linarith
  then show "table_code t0 \<le> table_code t1" by simp
  show "t0 = t1 \<Longrightarrow> s0 \<le> s1" using assms by (simp add: span_key_def word_le_def)
qed

lemma table_code_inj: "table_code t = table_code u \<Longrightarrow> t = u"
  by (cases t; cases u) simp_all

lemma overlap_free_sorted:
  assumes "overlap_free xs" "sorted (map span_key xs)" "list_all span_ok xs"
  shows "sorted_wrt span_before xs"
  using assms
proof (induction xs rule: overlap_free.induct)
  case (1 t0 s0 e0 g0 t1 s1 e1 g1 rest)
  let ?b = "(t1, s1, e1, g1)"
  have tail: "sorted_wrt span_before (?b # rest)" using 1 by simp
  have "span_before (t0, s0, e0, g0) c" if c: "c \<in> set (?b # rest)" for c
  proof (cases "c = ?b")
    case True
    then show ?thesis using "1.prems"(1) by (auto simp: span_before_def not_less)
  next
    case False
    obtain t2 s2 e2 g2 where cc: "c = (t2, s2, e2, g2)" by (cases c)
    have "span_key (t0, s0, e0, g0) \<le> span_key ?b" "span_key ?b \<le> span_key c"
      using "1.prems"(2) c by auto
    then have k: "table_code t0 \<le> table_code t1" "table_code t1 \<le> table_code t2"
      using span_key_le by (auto simp: cc)
    have "span_before ?b c" using tail c False by auto
    moreover have "s1 < e1" using "1.prems"(3) by (simp add: span_ok_def)
    ultimately show ?thesis
      using "1.prems"(1) k table_code_inj [of t0 t1] by (auto simp: cc span_before_def not_less)
  qed
  then show ?case using tail by simp
qed simp_all

definition span_of :: "planned_point \<Rightarrow> reg_span" where
  "span_of p = (pp_table p, ucast (pp_pdu p), ucast (pp_pdu p) + ucast (pp_words p), pp_tag p)"

lemma unat_ucast_u16 [simp]: "unat (ucast (a :: u16) :: u32) = unat a"
  using unat_bound [of a] by (simp add: unsigned_ucast_eq take_bit_nat_eq_self)

lemma unat_span_end: "unat (ucast (a :: u16) + ucast (b :: u16) :: u32) = unat a + unat b"
proof -
  have "unat a < 2 ^ 16" "unat b < 2 ^ 16" using unat_bound [of a] unat_bound [of b] by simp_all
  then show ?thesis by (simp add: unat_word_ariths)
qed

lemma span_of_ok: "point_ok p \<Longrightarrow> span_ok (span_of p)"
  using point_words [of p] by (simp add: span_ok_def span_of_def word_less_nat_alt unat_span_end)

lemma check_overlaps_apart:
  assumes "check_overlaps (map span_of points) = Inr ()" "list_all point_ok points"
  shows "sorted_wrt points_apart points"
proof -
  let ?s = "sort_key span_key (map span_of points)"
  have "list_all span_ok ?s" using assms(2) span_of_ok by (auto simp: list_all_iff)
  moreover have "overlap_free ?s" using assms(1) by (simp add: check_overlaps_def split: if_splits)
  ultimately have "sorted_wrt span_before ?s" by (simp add: overlap_free_sorted)
  then have "sorted_wrt (\<lambda>a b. span_before a b \<or> span_before b a) ?s"
    by (rule sorted_wrt_mono_rel [rotated]) simp
  then have "sorted_wrt (\<lambda>a b. span_before a b \<or> span_before b a) (map span_of points)"
    by (rule sorted_wrt_perm [rotated 2]) auto
  then show ?thesis
    by (rule sorted_wrt_mono_rel [rotated, OF iffD1 [OF sorted_wrt_map]])
      (auto simp: points_apart_def span_before_def span_of_def word_le_nat_alt unat_span_end)
qed

text \<open>The loop over the bindings.\<close>

definition plan_inv :: "plan_state \<Rightarrow> bool" where
  "plan_inv st \<longleftrightarrow>
     list_all point_ok (ps_points st) \<and> ps_spans st = map span_of (ps_points st)
     \<and> taken_positions pp_input_pos (ps_points st) = [0 ..< ps_input_pos st]
     \<and> taken_positions pp_output_pos (ps_points st) = [0 ..< ps_output_pos st]"

lemma decode_bounds:
  assumes "decode register hint = Inr (table, pdu)"
  shows "unat pdu \<le> 9998"
proof -
  have sub: "unat (ucast (register - word_of_int k) :: u16) \<le> 9998"
    if "k \<le> uint register" "uint register \<le> k + 9998" "0 \<le> k" "k < 2 ^ 31" for k
  proof -
    have "uint (register - word_of_int k) = uint register - k"
      using that uint_lt2p [of register] by (simp add: uint_word_ariths unsigned_of_int take_bit_int_eq_self)
    then have "unat (register - word_of_int k) \<le> 9998" using that by (simp add: unat_eq_nat_uint)
    then show ?thesis by (simp add: unsigned_ucast_eq take_bit_nat_eq_self)
  qed
  show ?thesis
    using assms sub [of 1] sub [of 10001] sub [of 30001] sub [of 40001]
    by (auto simp: decode_def Let_def rbind_eq_Inr split: if_splits option.splits)
qed

lemma check_bit_ok:
  assumes "check_bit table raw bt ty = Inr b"
  shows "is_bit_table table \<Longrightarrow> raw = RawBool \<and> ty = TyBool"
    and "raw = RawBool \<Longrightarrow> \<not> is_bit_table table \<Longrightarrow> \<exists>x. b = Some x \<and> x \<le> 15"
proof -
  have "ucast x \<le> (15 :: u8)" if "x \<le> (15 :: u32)" for x
    using that by (simp add: word_le_nat_alt unsigned_ucast_eq take_bit_nat_eq_self)
  then show "raw = RawBool \<Longrightarrow> \<not> is_bit_table table \<Longrightarrow> \<exists>x. b = Some x \<and> x \<le> 15"
    using assms by (auto simp: check_bit_def not_less split: if_splits option.splits)
  show "is_bit_table table \<Longrightarrow> raw = RawBool \<and> ty = TyBool"
    using assms by (auto simp: check_bit_def split: if_splits)
qed

lemma plan_binding_Inr:
  assumes "plan_binding resolved mi bi b st = Inr st'"
  obtains register table pdu raw bt slot where
    "ib_image b \<noteq> PlaneM" "decode register (ib_register_type b) = Inr (table, pdu)" "ib_value_type b \<noteq> TyTime"
    "check_bit table raw (ib_bit b) (ib_value_type b) = Inr bt"
    "plane_direction (ib_image b) = DirOutput \<Longrightarrow> table \<noteq> InputReg \<and> table \<noteq> Discrete"
    "find_slot resolved mi bi = Some slot"
    "st' = push_point (point_of resolved b table pdu raw bt slot st) st"
proof -
  obtain register where r: "ib_register b = Some register" "ib_image b \<noteq> PlaneM"
    using assms by (auto simp: plan_binding_def split: if_splits option.splits)
  obtain table pdu where d: "decode register (ib_register_type b) = Inr (table, pdu)" "ib_value_type b \<noteq> TyTime"
    using assms r by (auto simp: plan_binding_def split: sum.splits if_splits)
  show thesis
    using assms r d by (auto simp: plan_binding_def rbind_eq_Inr ok_or_eq_Inr split: if_splits intro: that [OF r(2) d])
qed

lemma plan_binding_inv:
  assumes "plan_inv st" "plan_binding resolved mi bi b st = Inr st'"
  shows "plan_inv st'"
  using assms(2)
proof (rule plan_binding_Inr)
  fix register table pdu raw bt slot
  assume r: "ib_image b \<noteq> PlaneM" "decode register (ib_register_type b) = Inr (table, pdu)" "ib_value_type b \<noteq> TyTime"
    and bt: "check_bit table raw (ib_bit b) (ib_value_type b) = Inr bt"
    and ro: "plane_direction (ib_image b) = DirOutput \<Longrightarrow> table \<noteq> InputReg \<and> table \<noteq> Discrete"
    and st': "st' = push_point (point_of resolved b table pdu raw bt slot st) st"
  let ?p = "point_of resolved b table pdu raw bt slot st"
  have "unat pdu + unat (if is_bit_table table then 1 else raw_words raw) \<le> 10000"
    using decode_bounds [OF r(2)] raw_words_bounds [of raw] by auto
  moreover have "plane_direction (ib_image b) \<noteq> DirMemory" using r(1) by (cases "ib_image b") simp_all
  moreover have "table = Coil \<or> table = Holding" if "plane_direction (ib_image b) = DirOutput"
    using ro [OF that] by (cases table) simp_all
  ultimately have ok: "point_ok ?p"
    using check_bit_ok [OF bt] r(3) by (auto simp: point_ok_def point_of_def Let_def)
  have pos: "pp_input_pos ?p = (if pp_direction ?p = DirInput then Some (ps_input_pos st) else None)"
    "pp_output_pos ?p = (if pp_direction ?p = DirOutput then Some (ps_output_pos st) else None)"
    by (simp_all add: point_of_def Let_def)
  show ?thesis
    using assms(1) ok pos unfolding plan_inv_def st' push_point_def
    by (simp add: span_of_def taken_positions_def)
qed

lemma plan_bindings_inv:
  "plan_inv st \<Longrightarrow> plan_bindings resolved mi bi bs st = Inr st' \<Longrightarrow> plan_inv st'"
  by (induction bs arbitrary: bi st) (auto simp: rbind_eq_Inr intro: plan_binding_inv)

lemma validate_module_ok:
  assumes "validate_module parse_cfg mi md resolved = Inr pm"
  shows "points_ok (pm_points pm)"
proof -
  obtain st where st: "plan_bindings resolved mi 0 (im_bindings md) plan_init = Inr st"
    "check_overlaps (ps_spans st) = Inr ()" "pm_points pm = ps_points st"
    using assms by (auto simp: validate_module_def Let_def rbind_eq_Inr split: sum.splits if_splits)
  have inv: "plan_inv st"
    by (rule plan_bindings_inv [OF _ st(1)]) (simp add: plan_inv_def plan_init_def taken_positions_def)
  have len: "n = length (filter (\<lambda>p. f p \<noteq> None) (ps_points st))"
    if "taken_positions f (ps_points st) = [0 ..< n]" for f n
    using arg_cong [OF that, of length] by (simp add: taken_positions_def)
  show ?thesis
    using inv check_overlaps_apart [of "ps_points st"] st(2) len
    by (auto simp: points_ok_def plan_inv_def st(3))
qed

end
