(* ===== verification/ModbusDriver.thy ===== *)
theory ModbusDriver
  imports ModbusPlan
begin

section \<open>Modbus TCP driver (\<open>plc-io-modbus\<close>: \<open>codec.rs\<close>, \<open>driver.rs\<close>)\<close>

text \<open>
  The framing of requests and responses, the poll of a module by the worker thread, and the bridge
  the scan thread sees. The network with the device behind it is a state \<open>'w\<close> with the socket
  operations as a record of functions, so the model says nothing about how a peer behaves. The
  cells that the worker and the scan thread share (input snapshot, status, mailbox) are in
  \<open>module_share\<close>; each is behind a lock or a double buffer, so an access is one step. Instants are
  nanoseconds, and a clock reading is an argument.
\<close>

subsection \<open>Sockets and sessions\<close>

record 'w net_ops =
  nw_resolve :: "'w \<Rightarrow> string \<Rightarrow> u16 \<Rightarrow> (string + string list) \<times> 'w"
  nw_connect :: "'w \<Rightarrow> string \<Rightarrow> u64 \<Rightarrow> (string + unit) \<times> 'w"
  nw_configure :: "'w \<Rightarrow> u64 \<Rightarrow> (string + unit) \<times> 'w"
  nw_write_all :: "'w \<Rightarrow> bytes \<Rightarrow> (string + unit) \<times> 'w"
  nw_read_exact :: "'w \<Rightarrow> nat \<Rightarrow> (string + bytes) \<times> 'w"

datatype fail = Mismatch | FailOther string

primrec fail_text :: "fail \<Rightarrow> string" where
  "fail_text Mismatch = ''transaction id mismatch''"
| "fail_text (FailOther s) = s"

text \<open>A session works on the next transaction id and the network.\<close>

type_synonym ('w, 'a) sess = "u16 \<times> 'w \<Rightarrow> (fail + 'a) \<times> u16 \<times> 'w"

definition sret :: "'a \<Rightarrow> ('w, 'a) sess" where
  "sret x st = (Inr x, st)"

definition sfail :: "fail \<Rightarrow> ('w, 'a) sess" where
  "sfail e st = (Inl e, st)"

definition sbind :: "('w, 'a) sess \<Rightarrow> ('a \<Rightarrow> ('w, 'b) sess) \<Rightarrow> ('w, 'b) sess" where
  "sbind m f st = (case m st of (Inl e, st') \<Rightarrow> (Inl e, st') | (Inr x, st') \<Rightarrow> f x st')"

definition be_bytes :: "u16 \<Rightarrow> bytes" where
  "be_bytes w = [ucast (drop_bit 8 w), ucast w]"

definition of_be_bytes :: "u8 \<Rightarrow> u8 \<Rightarrow> u16" where
  "of_be_bytes h l = push_bit 8 (ucast h) OR ucast l"

text \<open>\<open>u16::try_from(n).unwrap_or(0)\<close> and \<open>u8::try_from(n).unwrap_or(255)\<close>.\<close>

definition u16_or_0 :: "nat \<Rightarrow> u16" where
  "u16_or_0 n = (if int n < 65536 then word_of_nat n else 0)"

definition u8_or_255 :: "nat \<Rightarrow> u8" where
  "u8_or_255 n = (if int n < 256 then word_of_nat n else 255)"

definition byte_or_0 :: "bytes \<Rightarrow> nat \<Rightarrow> u8" where
  "byte_or_0 bs i = (case nth_opt bs i of None \<Rightarrow> 0 | Some b \<Rightarrow> b)"

definition send :: "'w net_ops \<Rightarrow> u8 \<Rightarrow> u16 \<Rightarrow> bytes \<Rightarrow> ('w, unit) sess" where
  "send ops unit tid pdu st =
     (case st of (t, w) \<Rightarrow>
       (case nw_write_all ops w
               (be_bytes tid @ be_bytes 0 @ be_bytes (u16_or_0 (1 + length pdu)) @ [unit] @ pdu) of
          (Inl e, w') \<Rightarrow> (Inl (FailOther e), t, w')
        | (Inr _, w') \<Rightarrow> (Inr (), t, w')))"

definition recv_tid :: "'w net_ops \<Rightarrow> u8 \<Rightarrow> u16 \<Rightarrow> ('w, bytes) sess" where
  "recv_tid ops unit expect st =
     (case st of (t, w) \<Rightarrow>
       (case nw_read_exact ops w 6 of
          (Inl e, w1) \<Rightarrow> (Inl (FailOther e), t, w1)
        | (Inr prefix, w1) \<Rightarrow>
            let tid = of_be_bytes (prefix ! 0) (prefix ! 1);
                proto = of_be_bytes (prefix ! 2) (prefix ! 3);
                len = unat (of_be_bytes (prefix ! 4) (prefix ! 5))
            in if proto \<noteq> 0 then (Inl (FailOther ''protocol id''), t, w1)
               else if \<not> (2 \<le> len \<and> len \<le> 254) then (Inl (FailOther ''bad mbap length''), t, w1)
               else (case nw_read_exact ops w1 len of
                       (Inl e, w2) \<Rightarrow> (Inl (FailOther e), t, w2)
                     | (Inr rest, w2) \<Rightarrow>
                         if tid \<noteq> expect then (Inl Mismatch, t, w2)
                         else if rest ! 0 \<noteq> unit then (Inl (FailOther ''unit id mismatch''), t, w2)
                         else (Inr (drop 1 rest), t, w2))))"

definition transact :: "'w net_ops \<Rightarrow> u8 \<Rightarrow> bytes \<Rightarrow> ('w, bytes) sess" where
  "transact ops unit request st =
     (case st of (tid, w) \<Rightarrow>
       sbind (send ops unit tid request) (\<lambda>_.
       sbind (\<lambda>st1. case recv_tid ops unit tid st1 of
                     (Inl Mismatch, st2) \<Rightarrow> recv_tid ops unit tid st2
                   | r \<Rightarrow> r) (\<lambda>pdu.
         let fc = byte_or_0 request 0
         in case nth_opt pdu 0 of
              Some got \<Rightarrow>
                if got = fc OR 0x80 then sfail (FailOther ''modbus exception'')
                else if got = fc then sret pdu
                else sfail (FailOther ''unexpected function code'')
            | None \<Rightarrow> sfail (FailOther ''unexpected function code''))) (tid + 1, w))"

definition read_pdu :: "u8 \<Rightarrow> u16 \<Rightarrow> u16 \<Rightarrow> bytes" where
  "read_pdu fc start qty = [fc] @ be_bytes start @ be_bytes qty"

definition read_bits :: "'w net_ops \<Rightarrow> u8 \<Rightarrow> u8 \<Rightarrow> u16 \<Rightarrow> u16 \<Rightarrow> ('w, bytes) sess" where
  "read_bits ops unit fc start qty =
     sbind (transact ops unit (read_pdu fc start qty)) (\<lambda>pdu.
       let count = unat (byte_or_0 pdu 1); expect = (unat qty + 7) div 8
       in if count \<noteq> expect \<or> length pdu < 2 + count then sfail (FailOther ''short bit response'')
          else sret (slice 2 (2 + count) pdu))"

definition read_regs :: "'w net_ops \<Rightarrow> u8 \<Rightarrow> u8 \<Rightarrow> u16 \<Rightarrow> u16 \<Rightarrow> ('w, u16 list) sess" where
  "read_regs ops unit fc start qty =
     sbind (transact ops unit (read_pdu fc start qty)) (\<lambda>pdu.
       let count = unat (byte_or_0 pdu 1)
       in if count \<noteq> unat qty * 2 \<or> length pdu < 2 + count then sfail (FailOther ''short register response'')
          else sret (map (\<lambda>i. of_be_bytes (pdu ! (2 + i * 2)) (pdu ! (2 + i * 2 + 1))) [0 ..< unat qty]))"

definition write_coil :: "'w net_ops \<Rightarrow> u8 \<Rightarrow> u16 \<Rightarrow> bool \<Rightarrow> ('w, unit) sess" where
  "write_coil ops unit addr on =
     sbind (transact ops unit ([5] @ be_bytes addr @ be_bytes (if on then 0xFF00 else 0))) (\<lambda>_. sret ())"

definition write_reg :: "'w net_ops \<Rightarrow> u8 \<Rightarrow> u16 \<Rightarrow> u16 \<Rightarrow> ('w, unit) sess" where
  "write_reg ops unit addr v =
     sbind (transact ops unit ([6] @ be_bytes addr @ be_bytes v)) (\<lambda>_. sret ())"

definition set_coil_bit :: "bytes \<Rightarrow> nat \<times> bool \<Rightarrow> bytes" where
  "set_coil_bit data x =
     (case x of (i, on) \<Rightarrow>
        if on then data[i div 8 := (data ! (i div 8)) OR push_bit (i mod 8) 1] else data)"

definition coil_data :: "bool list \<Rightarrow> bytes" where
  "coil_data bits = foldl set_coil_bit (replicate ((length bits + 7) div 8) 0) (enumerate 0 bits)"

definition write_coils :: "'w net_ops \<Rightarrow> u8 \<Rightarrow> u16 \<Rightarrow> bool list \<Rightarrow> ('w, unit) sess" where
  "write_coils ops unit addr bits =
     sbind (transact ops unit
       ([15] @ be_bytes addr @ be_bytes (u16_or_0 (length bits)) @ [u8_or_255 ((length bits + 7) div 8)] @ coil_data bits))
       (\<lambda>_. sret ())"

definition write_regs :: "'w net_ops \<Rightarrow> u8 \<Rightarrow> u16 \<Rightarrow> u16 list \<Rightarrow> ('w, unit) sess" where
  "write_regs ops unit addr regs =
     sbind (transact ops unit
       ([16] @ be_bytes addr @ be_bytes (u16_or_0 (length regs)) @ [u8_or_255 (length regs * 2)] @ concat (map be_bytes regs)))
       (\<lambda>_. sret ())"

subsection \<open>Groups of adjacent points\<close>

record group =
  gp_start :: u16
  gp_qty :: u16
  gp_members :: "nat list"

definition opt_list :: "'a option \<Rightarrow> 'a list" where
  "opt_list m = (case m of None \<Rightarrow> [] | Some x \<Rightarrow> [x])"

definition point_span :: "planned_point \<Rightarrow> u16 \<Rightarrow> u16" where
  "point_span p start = sat_sub (sat_add (pp_pdu p) (pp_words p)) start"

definition start_new :: "u16 \<Rightarrow> planned_point \<Rightarrow> group option \<Rightarrow> bool" where
  "start_new max_qty p cur =
     (case cur of
        None \<Rightarrow> True
      | Some g \<Rightarrow>
          \<not> (pp_pdu p = sat_add (gp_start g) (gp_qty g)
             \<and> point_span p (gp_start g) \<le> max_qty \<and> 0 < point_span p (gp_start g)))"

definition new_group :: "planned_point \<Rightarrow> nat \<Rightarrow> group" where
  "new_group p idx = \<lparr>gp_start = pp_pdu p, gp_qty = pp_words p, gp_members = [idx]\<rparr>"

definition extend_group :: "planned_point \<Rightarrow> nat \<Rightarrow> group \<Rightarrow> group" where
  "extend_group p idx g = g\<lparr>gp_qty := point_span p (gp_start g), gp_members := gp_members g @ [idx]\<rparr>"

fun group_loop :: "planned_point list \<Rightarrow> u16 \<Rightarrow> group option \<Rightarrow> nat list \<Rightarrow> group list" where
  "group_loop points max_qty cur [] = opt_list cur"
| "group_loop points max_qty cur (idx # idxs) =
     (let p = points ! idx
      in if start_new max_qty p cur
         then opt_list cur @ group_loop points max_qty (Some (new_group p idx)) idxs
         else group_loop points max_qty (map_option (extend_group p idx) cur) idxs)"

definition build_groups :: "planned_point list \<Rightarrow> (planned_point \<Rightarrow> bool) \<Rightarrow> u16 \<Rightarrow> group list" where
  "build_groups points pred max_qty =
     group_loop points max_qty None
       (sort_key (\<lambda>i. pp_pdu (points ! i)) (filter (\<lambda>i. pred (points ! i)) [0 ..< length points]))"

definition is_input :: "register_type \<Rightarrow> planned_point \<Rightarrow> bool" where
  "is_input table p \<longleftrightarrow> pp_direction p = DirInput \<and> pp_table p = table"

definition read_group_list :: "planned_point list \<Rightarrow> group list" where
  "read_group_list points =
     concat (map (\<lambda>table. build_groups points (is_input table) (if is_bit_table table then 2000 else 125))
       [Coil, Discrete, Holding, InputReg])"

definition is_coil_out :: "planned_point \<Rightarrow> bool" where
  "is_coil_out p \<longleftrightarrow> pp_direction p = DirOutput \<and> pp_table p = Coil"

definition is_reg_out :: "planned_point \<Rightarrow> bool" where
  "is_reg_out p \<longleftrightarrow> pp_direction p = DirOutput \<and> pp_table p = Holding \<and> pp_raw p \<noteq> RawBool"

definition is_bit_out :: "planned_point \<Rightarrow> bool" where
  "is_bit_out p \<longleftrightarrow> pp_direction p = DirOutput \<and> pp_table p = Holding \<and> pp_raw p = RawBool"

subsection \<open>A module: what the threads share, and the worker's part\<close>

record mod_status =
  ms_quality :: quality
  ms_last_ok :: "int option"

record mail =
  ml_armed :: bool
  ml_force_safe :: bool
  ml_values :: "plc_value list"

record module_share =
  sh_inputs :: double_buffer
  sh_input_slots :: "nat list"
  sh_output_slots :: "nat list"
  sh_mailbox :: mail
  sh_status :: mod_status
  sh_on_bad :: bad_quality_policy
  sh_stale :: int

record mod_rt =
  rt_host :: string
  rt_port :: u16
  rt_unit :: u8
  rt_period :: int
  rt_timeout :: u64
  rt_stale :: int
  rt_on_bad :: bad_quality_policy
  rt_points :: "planned_point list"
  rt_read_groups :: "group list"
  rt_coil_groups :: "group list"
  rt_reg_groups :: "group list"
  rt_bit_outs :: "nat list"
  rt_last_inputs :: "plc_value list"
  rt_connected :: bool
  rt_tid :: u16
  rt_next_due :: int

definition millis :: "u64 \<Rightarrow> int" where
  "millis ms = uint ms * 1000000"

text \<open>One pass of the loop over the points: the slot of each position, and the default values.\<close>

definition place_point :: "nat list \<times> nat list \<times> plc_value list \<Rightarrow> planned_point \<Rightarrow> nat list \<times> nat list \<times> plc_value list" where
  "place_point st p =
     (case st of (ins, outs, dflt) \<Rightarrow>
       (case pp_input_pos p of None \<Rightarrow> ins | Some pos \<Rightarrow> ins[pos := pp_slot p],
        case pp_output_pos p of None \<Rightarrow> outs | Some pos \<Rightarrow> outs[pos := pp_slot p],
        case pp_input_pos p of None \<Rightarrow> dflt | Some pos \<Rightarrow> dflt[pos := plc_default_of (pp_value_type p)]))"

definition share_publish :: "plc_value list \<Rightarrow> quality \<Rightarrow> module_share \<Rightarrow> module_share option" where
  "share_publish vs q sh =
     map_option (\<lambda>b. sh\<lparr>sh_inputs := b\<rparr>) (db_publish (sh_inputs sh) vs (replicate (length vs) q))"

definition split_module :: "planned_module \<Rightarrow> int \<Rightarrow> (module_share \<times> mod_rt) option" where
  "split_module md now =
     (let points = pm_points md;
          n_in = length (filter (\<lambda>p. pp_input_pos p \<noteq> None) points);
          n_out = length (filter (\<lambda>p. pp_output_pos p \<noteq> None) points);
          (input_slots, output_slots, defaults) =
            foldl place_point (replicate n_in 0, replicate n_out 0, replicate n_in (PvBool False)) points;
          sh = \<lparr>sh_inputs = db_new n_in, sh_input_slots = input_slots, sh_output_slots = output_slots,
                sh_mailbox = \<lparr>ml_armed = False, ml_force_safe = False, ml_values = replicate n_out (PvBool False)\<rparr>,
                sh_status = \<lparr>ms_quality = Bad, ms_last_ok = None\<rparr>,
                sh_on_bad = pm_on_bad md, sh_stale = millis (pm_stale_ms md)\<rparr>;
          rt = \<lparr>rt_host = pm_host md, rt_port = pm_port md, rt_unit = pm_unit md,
                rt_period = millis (pm_poll_ms md), rt_timeout = pm_timeout_ms md, rt_stale = millis (pm_stale_ms md),
                rt_on_bad = pm_on_bad md, rt_points = points,
                rt_read_groups = read_group_list points,
                rt_coil_groups = build_groups points is_coil_out 1968,
                rt_reg_groups = build_groups points is_reg_out 123,
                rt_bit_outs = filter (\<lambda>i. is_bit_out (points ! i)) [0 ..< length points],
                rt_last_inputs = defaults, rt_connected = False, rt_tid = 1, rt_next_due = now\<rparr>
      in map_option (\<lambda>sh'. (sh', rt)) (share_publish defaults Bad sh))"

subsection \<open>Polling a module\<close>

definition comms_stale :: "int \<Rightarrow> mod_rt \<Rightarrow> module_share \<Rightarrow> bool" where
  "comms_stale now rt sh =
     (case ms_last_ok (sh_status sh) of None \<Rightarrow> False | Some t \<Rightarrow> rt_stale rt < now - t)"

definition set_status :: "quality \<Rightarrow> int option \<Rightarrow> module_share \<Rightarrow> module_share" where
  "set_status q ok sh =
     sh\<lparr>sh_status := \<lparr>ms_quality = q, ms_last_ok = (case ok of None \<Rightarrow> ms_last_ok (sh_status sh) | Some t \<Rightarrow> Some t)\<rparr>\<rparr>"

definition publish :: "quality \<Rightarrow> mod_rt \<Rightarrow> module_share \<Rightarrow> module_share option" where
  "publish q rt sh = (if rt_last_inputs rt = [] then Some sh else share_publish (rt_last_inputs rt) q sh)"

definition mark_good :: "int \<Rightarrow> mod_rt \<Rightarrow> module_share \<Rightarrow> module_share option" where
  "mark_good now rt sh = publish Good rt (set_status Good (Some now) sh)"

definition mark_bad :: "mod_rt \<Rightarrow> module_share \<Rightarrow> module_share option" where
  "mark_bad rt sh = publish Bad rt (set_status Bad None sh)"

datatype payload = Bits bytes | Regs "u16 list"

text \<open>The value of one point of a group that has been read.\<close>

definition member_value :: "planned_point \<Rightarrow> group \<Rightarrow> payload \<Rightarrow> string + plc_value" where
  "member_value p g data =
     (let rel = unat (sat_sub (pp_pdu p) (gp_start g))
      in case data of
           Bits bytes \<Rightarrow>
             Inr (decode_number
               (f64_of (if (case nth_opt bytes (rel div 8) of None \<Rightarrow> False
                            | Some b \<Rightarrow> drop_bit (rel mod 8) b AND 1 = 1) then 1 else 0)) p)
         | Regs regs \<Rightarrow>
             let words = unat (pp_words p)
             in if length regs < rel + words then Inl ''short register block''
                else Inr (decode_regs (slice rel (rel + words) regs) p))"

fun store_members :: "planned_point list \<Rightarrow> group \<Rightarrow> payload \<Rightarrow> nat list \<Rightarrow> plc_value list \<Rightarrow> (string + unit) \<times> plc_value list" where
  "store_members points g data [] vals = (Inr (), vals)"
| "store_members points g data (idx # idxs) vals =
     (case member_value (points ! idx) g data of
        Inl e \<Rightarrow> (Inl e, vals)
      | Inr v \<Rightarrow>
          store_members points g data idxs
            (case pp_input_pos (points ! idx) of None \<Rightarrow> vals | Some pos \<Rightarrow> vals[pos := v]))"

definition store_group :: "mod_rt \<Rightarrow> group \<Rightarrow> payload \<Rightarrow> (string + unit) \<times> mod_rt" where
  "store_group rt g data =
     (case store_members (rt_points rt) g data (gp_members g) (rt_last_inputs rt) of
        (r, vals) \<Rightarrow> (r, rt\<lparr>rt_last_inputs := vals\<rparr>))"

definition read_group :: "'w net_ops \<Rightarrow> u8 \<Rightarrow> register_type \<Rightarrow> group \<Rightarrow> ('w, payload) sess" where
  "read_group ops unit table g =
     (if is_bit_table table
      then sbind (read_bits ops unit (read_fc table) (gp_start g) (gp_qty g)) (\<lambda>b. sret (Bits b))
      else sbind (read_regs ops unit (read_fc table) (gp_start g) (gp_qty g)) (\<lambda>r. sret (Regs r)))"

fun read_inputs_loop :: "'w net_ops \<Rightarrow> group list \<Rightarrow> mod_rt \<Rightarrow> 'w \<Rightarrow> (string + unit) \<times> mod_rt \<times> 'w" where
  "read_inputs_loop ops [] rt w = (Inr (), rt, w)"
| "read_inputs_loop ops (g # gs) rt w =
     (if \<not> rt_connected rt then (Inl ''no socket'', rt, w)
      else let table = pp_table (rt_points rt ! hd (gp_members g))
           in case read_group ops (rt_unit rt) table g (rt_tid rt, w) of
                (Inl e, tid, w') \<Rightarrow> (Inl (fail_text e), rt\<lparr>rt_tid := tid, rt_connected := False\<rparr>, w')
              | (Inr data, tid, w') \<Rightarrow>
                  (case store_group (rt\<lparr>rt_tid := tid\<rparr>) g data of
                     (Inl e, rt') \<Rightarrow> (Inl e, rt'\<lparr>rt_connected := False\<rparr>, w')
                   | (Inr _, rt') \<Rightarrow> read_inputs_loop ops gs rt' w'))"

definition read_inputs :: "'w net_ops \<Rightarrow> mod_rt \<Rightarrow> 'w \<Rightarrow> (string + unit) \<times> mod_rt \<times> 'w" where
  "read_inputs ops rt w = read_inputs_loop ops (rt_read_groups rt) rt w"

definition selected :: "planned_point \<Rightarrow> mail \<Rightarrow> bool \<Rightarrow> plc_value" where
  "selected p m force =
     (if force then pp_safe p
      else case Option.bind (pp_output_pos p) (nth_opt (ml_values m)) of None \<Rightarrow> pp_safe p | Some v \<Rightarrow> v)"

fun write_coil_groups :: "'w net_ops \<Rightarrow> u8 \<Rightarrow> planned_point list \<Rightarrow> mail \<Rightarrow> bool \<Rightarrow> group list \<Rightarrow> ('w, unit) sess" where
  "write_coil_groups ops unit points m force [] = sret ()"
| "write_coil_groups ops unit points m force (g # gs) =
     (let bits = map (\<lambda>i. coil_on (selected (points ! i) m force) (points ! i)) (gp_members g)
      in sbind (if length bits = 1 then write_coil ops unit (gp_start g) (bits ! 0)
                else write_coils ops unit (gp_start g) bits) (\<lambda>_.
         write_coil_groups ops unit points m force gs))"

text \<open>\<open>regs.get_mut(off + i)\<close> for the words of a point.\<close>

definition put_words :: "u16 list \<Rightarrow> nat \<Rightarrow> u16 list \<Rightarrow> u16 list" where
  "put_words regs off words = foldl (\<lambda>rs (i, v). rs[off + i := v]) regs (enumerate 0 words)"

definition group_regs :: "planned_point list \<Rightarrow> mail \<Rightarrow> bool \<Rightarrow> group \<Rightarrow> u16 list" where
  "group_regs points m force g =
     foldl (\<lambda>regs i. put_words regs (unat (sat_sub (pp_pdu (points ! i)) (gp_start g)))
                       (value_to_words (selected (points ! i) m force) (points ! i)))
       (replicate (unat (gp_qty g)) 0) (gp_members g)"

fun write_reg_groups :: "'w net_ops \<Rightarrow> u8 \<Rightarrow> planned_point list \<Rightarrow> mail \<Rightarrow> bool \<Rightarrow> group list \<Rightarrow> ('w, unit) sess" where
  "write_reg_groups ops unit points m force [] = sret ()"
| "write_reg_groups ops unit points m force (g # gs) =
     (let regs = group_regs points m force g
      in sbind (if length regs = 1 then write_reg ops unit (gp_start g) (regs ! 0)
                else if regs \<noteq> [] then write_regs ops unit (gp_start g) regs
                else sret ()) (\<lambda>_.
         write_reg_groups ops unit points m force gs))"

definition bit_word :: "planned_point \<Rightarrow> bool \<Rightarrow> u16 \<Rightarrow> u16" where
  "bit_word p on r =
     (let b = unat (case pp_bit p of None \<Rightarrow> 0 | Some b \<Rightarrow> b)
      in if on then r OR push_bit b 1 else r AND NOT (push_bit b 1))"

fun write_bit_outs :: "'w net_ops \<Rightarrow> u8 \<Rightarrow> planned_point list \<Rightarrow> mail \<Rightarrow> bool \<Rightarrow> nat list \<Rightarrow> ('w, unit) sess" where
  "write_bit_outs ops unit points m force [] = sret ()"
| "write_bit_outs ops unit points m force (i # is) =
     (let p = points ! i
      in sbind (read_regs ops unit 3 (pp_pdu p) 1) (\<lambda>regs.
         sbind (write_reg ops unit (pp_pdu p) (bit_word p (coil_on (selected p m force) p) (reg_or_0 regs 0))) (\<lambda>_.
         write_bit_outs ops unit points m force is)))"

definition write_with :: "'w net_ops \<Rightarrow> mod_rt \<Rightarrow> mail \<Rightarrow> bool \<Rightarrow> ('w, unit) sess" where
  "write_with ops rt m force =
     sbind (write_coil_groups ops (rt_unit rt) (rt_points rt) m force (rt_coil_groups rt)) (\<lambda>_.
     sbind (write_reg_groups ops (rt_unit rt) (rt_points rt) m force (rt_reg_groups rt)) (\<lambda>_.
     write_bit_outs ops (rt_unit rt) (rt_points rt) m force (rt_bit_outs rt)))"

definition write_outputs :: "'w net_ops \<Rightarrow> mod_rt \<Rightarrow> module_share \<Rightarrow> 'w \<Rightarrow> (string + unit) \<times> mod_rt \<times> 'w" where
  "write_outputs ops rt sh w =
     (let m = sh_mailbox sh; bad = is_bad (ms_quality (sh_status sh))
      in if \<not> ml_armed m then (Inr (), rt, w)
         else if bad \<and> rt_on_bad rt = HoldLast then (Inr (), rt, w)
         else
           let force = ml_force_safe m \<or> (bad \<and> rt_on_bad rt = ForceSafe)
           in if \<not> rt_connected rt then (Inl ''no socket'', rt, w)
              else case write_with ops rt m force (rt_tid rt, w) of
                (Inl e, tid, w') \<Rightarrow> (Inl (fail_text e), rt\<lparr>rt_tid := tid, rt_connected := False\<rparr>, w')
              | (Inr _, tid, w') \<Rightarrow> (Inr (), rt\<lparr>rt_tid := tid\<rparr>, w'))"

fun connect_loop :: "'w net_ops \<Rightarrow> u64 \<Rightarrow> string \<Rightarrow> string list \<Rightarrow> 'w \<Rightarrow> (string + unit) \<times> 'w" where
  "connect_loop ops timeout msg [] w = (Inl msg, w)"
| "connect_loop ops timeout msg (a # as) w =
     (case nw_connect ops w a timeout of
        (Inl e, w') \<Rightarrow> connect_loop ops timeout e as w'
      | (Inr _, w') \<Rightarrow> nw_configure ops w' timeout)"

definition connect_to :: "'w net_ops \<Rightarrow> string \<Rightarrow> u16 \<Rightarrow> u64 \<Rightarrow> 'w \<Rightarrow> (string + unit) \<times> 'w" where
  "connect_to ops host port timeout w =
     (case nw_resolve ops w host port of
        (Inl e, w') \<Rightarrow> (Inl e, w')
      | (Inr addrs, w') \<Rightarrow> connect_loop ops timeout ''no addresses'' addrs w')"

text \<open>
  \<open>ModRt::poll\<close> up to \<open>mark_good\<close>, and the writing part after it. The scan thread may run between
  the two. \<open>None\<close> is the failed length assertion of \<open>publish\<close>; the number counts failures.
\<close>

definition poll_fail :: "mod_rt \<Rightarrow> module_share \<Rightarrow> u32 \<Rightarrow> 'w \<Rightarrow> (bool \<times> mod_rt \<times> module_share \<times> u32 \<times> 'w) option" where
  "poll_fail rt sh fails w =
     (let rt' = rt\<lparr>rt_connected := False\<rparr>
      in map_option (\<lambda>sh'. (False, rt', sh', fails + 1, w)) (mark_bad rt' sh))"

definition poll_read ::
  "'w net_ops \<Rightarrow> int \<Rightarrow> int \<Rightarrow> mod_rt \<Rightarrow> module_share \<Rightarrow> u32 \<Rightarrow> 'w
    \<Rightarrow> (bool \<times> mod_rt \<times> module_share \<times> u32 \<times> 'w) option" where
  "poll_read ops t_stale t_ok rt sh0 fails w0 =
     Option.bind (if comms_stale t_stale rt sh0 then mark_bad rt sh0 else Some sh0) (\<lambda>sh.
       case (if rt_connected rt then (Inr (), w0) else connect_to ops (rt_host rt) (rt_port rt) (rt_timeout rt) w0) of
         (Inl _, w1) \<Rightarrow> poll_fail rt sh fails w1
       | (Inr _, w1) \<Rightarrow>
           (case read_inputs ops (rt\<lparr>rt_connected := True\<rparr>) w1 of
              (Inl _, rt', w2) \<Rightarrow> poll_fail rt' sh fails w2
            | (Inr _, rt', w2) \<Rightarrow> map_option (\<lambda>sh'. (True, rt', sh', fails, w2)) (mark_good t_ok rt' sh)))"

definition poll_write ::
  "'w net_ops \<Rightarrow> operating_mode \<Rightarrow> mod_rt \<Rightarrow> module_share \<Rightarrow> u32 \<Rightarrow> 'w
    \<Rightarrow> (bool \<times> mod_rt \<times> module_share \<times> u32 \<times> 'w) option" where
  "poll_write ops gate rt sh fails w =
     (if gate = Sim then Some (True, rt, sh, fails, w)
      else case write_outputs ops rt sh w of
        (Inl _, rt', w') \<Rightarrow> poll_fail rt' sh fails w'
      | (Inr _, rt', w') \<Rightarrow> Some (True, rt', sh, fails, w'))"

definition poll ::
  "'w net_ops \<Rightarrow> operating_mode \<Rightarrow> int \<Rightarrow> int \<Rightarrow> mod_rt \<Rightarrow> module_share \<Rightarrow> u32 \<Rightarrow> 'w
    \<Rightarrow> (bool \<times> mod_rt \<times> module_share \<times> u32 \<times> 'w) option" where
  "poll ops gate t_stale t_ok rt sh fails w =
     Option.bind (poll_read ops t_stale t_ok rt sh fails w) (\<lambda>(ok, rt', sh', fails', w').
       if ok then poll_write ops gate rt' sh' fails' w' else Some (ok, rt', sh', fails', w'))"

text \<open>The clock readings of one visit of the worker: for the staleness, the status, the next due time.\<close>

record visit_times =
  vt_stale :: int
  vt_ok :: int
  vt_next :: int

definition worker_visit ::
  "'w net_ops \<Rightarrow> operating_mode \<Rightarrow> int \<Rightarrow> visit_times \<Rightarrow> mod_rt \<times> module_share \<times> u32 \<times> 'w
    \<Rightarrow> (mod_rt \<times> module_share \<times> u32 \<times> 'w) option" where
  "worker_visit ops gate now ts st =
     (case st of (rt, sh, fails, w) \<Rightarrow>
       if rt_next_due rt \<le> now
       then map_option (\<lambda>(_, rt', sh', fails', w'). (rt'\<lparr>rt_next_due := vt_next ts + rt_period rt'\<rparr>, sh', fails', w'))
              (poll ops gate (vt_stale ts) (vt_ok ts) rt sh fails w)
       else Some st)"

text \<open>How long the worker sleeps after a pass over the modules.\<close>

definition soonest :: "int \<Rightarrow> mod_rt list \<Rightarrow> int" where
  "soonest now rts = foldl (\<lambda>t rt. if rt_next_due rt < t then rt_next_due rt else t) (now + 1000000000) rts"

subsection \<open>The bridge\<close>

record bridge =
  br_shares :: "module_share list"
  br_runtimes :: "mod_rt list option"
  br_stop :: bool
  br_join :: bool
  br_running :: bool
  br_fails :: u32

fun split_modules :: "planned_module list \<Rightarrow> int \<Rightarrow> (module_share list \<times> mod_rt list) option" where
  "split_modules [] now = Some ([], [])"
| "split_modules (md # mds) now =
     Option.bind (split_module md now) (\<lambda>(sh, rt).
     map_option (\<lambda>(shs, rts). (sh # shs, rt # rts)) (split_modules mds now))"

definition bridge_new :: "planned_module list \<Rightarrow> int \<Rightarrow> bridge option" where
  "bridge_new plan now =
     map_option (\<lambda>(shs, rts). \<lparr>br_shares = shs, br_runtimes = Some rts, br_stop = False, br_join = False,
                              br_running = False, br_fails = 0\<rparr>) (split_modules plan now)"

definition bridge_start :: "bridge \<Rightarrow> bridge \<times> (io_error + unit)" where
  "bridge_start b =
     (if br_join b then (b\<lparr>br_running := True\<rparr>, Inr ())
      else case br_runtimes b of
        None \<Rightarrow> (b, Inl (IoNotReady ''modbus worker was already started''))
      | Some rts \<Rightarrow> (b\<lparr>br_runtimes := None, br_join := True, br_running := True\<rparr>, Inr ()))"

definition stop_worker :: "bridge \<Rightarrow> bridge" where
  "stop_worker b = b\<lparr>br_stop := True, br_join := False, br_running := False\<rparr>"

definition effective_quality :: "int \<Rightarrow> mod_status \<Rightarrow> int \<Rightarrow> quality" where
  "effective_quality now st stale =
     (if is_bad (ms_quality st) then Bad
      else case ms_last_ok st of
        Some t \<Rightarrow> if stale < now - t then Bad else ms_quality st
      | None \<Rightarrow> Bad)"

definition overlay_slot :: "snapshot \<Rightarrow> quality \<Rightarrow> input_update \<Rightarrow> nat \<times> nat \<Rightarrow> input_update" where
  "overlay_slot snap module_q out x =
     (case x of (i, slot) \<Rightarrow>
       if slot < length (iu_values out) \<and> slot < length (iu_quality out) then
         out\<lparr>iu_values := (case nth_opt (sn_values snap) i of
                             None \<Rightarrow> iu_values out | Some v \<Rightarrow> (iu_values out)[slot := v]),
             iu_quality := (iu_quality out)[slot :=
               (if is_bad module_q then Bad
                else case nth_opt (sn_quality snap) i of None \<Rightarrow> Bad | Some q \<Rightarrow> q)]\<rparr>
       else out)"

definition overlay_share :: "int \<Rightarrow> input_update \<Rightarrow> module_share \<Rightarrow> input_update" where
  "overlay_share now out sh =
     (let snap = db_read 8 (sh_inputs sh); module_q = effective_quality now (sh_status sh) (sh_stale sh)
      in foldl (overlay_slot snap module_q) out (enumerate 0 (sh_input_slots sh)))"

definition overlay_inputs :: "int \<Rightarrow> bridge \<Rightarrow> input_update \<Rightarrow> input_update" where
  "overlay_inputs now b out = foldl (overlay_share now) out (br_shares b)"

definition bridge_poll_inputs :: "operating_mode \<Rightarrow> int \<Rightarrow> bridge \<Rightarrow> input_update \<Rightarrow> bridge \<times> input_update \<times> (io_error + unit)" where
  "bridge_poll_inputs gate now b out =
     (if \<not> br_running b then (b, out, Inl (IoNotReady ''modbus_tcp''))
      else (b, if gate \<noteq> Sim then overlay_inputs now b out else out, Inr ()))"

definition post_mail :: "output_image \<Rightarrow> module_share \<Rightarrow> module_share" where
  "post_mail im sh =
     sh\<lparr>sh_mailbox := \<lparr>ml_armed = True, ml_force_safe = oi_force_safe im,
         ml_values = map (\<lambda>slot. case nth_opt (oi_values im) slot of None \<Rightarrow> PvBool False | Some v \<Rightarrow> v)
                       (sh_output_slots sh)\<rparr>\<rparr>"

definition bridge_apply_outputs :: "bridge \<Rightarrow> output_image \<Rightarrow> bridge \<times> (io_error + unit)" where
  "bridge_apply_outputs b im =
     (if \<not> br_running b then (b, Inl (IoNotReady ''modbus_tcp''))
      else (b\<lparr>br_shares := map (post_mail im) (br_shares b)\<rparr>, Inr ()))"

definition fill_slot_state :: "quality \<Rightarrow> bad_quality_policy \<Rightarrow> output_module_state list \<Rightarrow> nat \<Rightarrow> output_module_state list" where
  "fill_slot_state q pol st slot =
     (if slot < length st then st[slot := \<lparr>om_quality = q, om_on_bad_quality = pol\<rparr>] else st)"

definition bridge_fill_state :: "int \<Rightarrow> bridge \<Rightarrow> output_module_state list \<Rightarrow> output_module_state list \<times> bool" where
  "bridge_fill_state now b st =
     (foldl (\<lambda>st sh. foldl (fill_slot_state (effective_quality now (sh_status sh) (sh_stale sh)) (sh_on_bad sh))
                       st (sh_output_slots sh)) st (br_shares b), True)"

record driver_diag =
  dd_status :: string
  dd_fail_count :: u32
  dd_last_seq :: u64

definition bridge_diagnostics :: "bridge \<Rightarrow> driver_diag" where
  "bridge_diagnostics b =
     \<lparr>dd_status = (if br_running b then ''running'' else ''stopped''), dd_fail_count = br_fails b,
      dd_last_seq = (case br_shares b of [] \<Rightarrow> 0 | sh # _ \<Rightarrow> sn_seq (db_read 4 (sh_inputs sh)))\<rparr>"

definition modbus_ops :: "operating_mode \<Rightarrow> int \<Rightarrow> bridge driver_ops" where
  "modbus_ops gate now =
     \<lparr>drv_start = bridge_start, drv_poll_inputs = bridge_poll_inputs gate now,
      drv_apply_outputs = bridge_apply_outputs, drv_fill_output_module_state = bridge_fill_state now\<rparr>"

subsection \<open>The bridge as a driver\<close>

text \<open>What the scan has posted for the worker of every module.\<close>

definition modbus_deenergized :: "bridge \<Rightarrow> bool" where
  "modbus_deenergized b \<longleftrightarrow> list_all (\<lambda>sh. ml_armed (sh_mailbox sh) \<and> ml_force_safe (sh_mailbox sh)) (br_shares b)"

definition modbus_drives :: "bridge \<Rightarrow> plc_value list \<Rightarrow> bool" where
  "modbus_drives b vs \<longleftrightarrow>
     list_all (\<lambda>sh. ml_armed (sh_mailbox sh) \<and> \<not> ml_force_safe (sh_mailbox sh)
        \<and> list_all2 (\<lambda>slot v. slot < length vs \<longrightarrow> v = vs ! slot) (sh_output_slots sh) (ml_values (sh_mailbox sh)))
       (br_shares b)"

lemma length_fill_slots: "length (foldl (fill_slot_state q pol) st slots) = length st"
  by (induction slots arbitrary: st) (simp_all add: fill_slot_state_def)

lemma length_bridge_fill: "length (fst (bridge_fill_state now b st)) = length st"
proof -
  have "length (foldl (\<lambda>st sh. foldl (fill_slot_state (q sh) (pol sh)) st (sh_output_slots sh)) st shs) = length st"
    for q :: "module_share \<Rightarrow> quality" and pol shs
    by (induction shs arbitrary: st) (simp_all add: length_fill_slots)
  then show ?thesis by (simp add: bridge_fill_state_def)
qed

lemma post_mail_drives:
  "\<not> oi_force_safe im \<Longrightarrow> ml_armed (sh_mailbox (post_mail im sh)) \<and> \<not> ml_force_safe (sh_mailbox (post_mail im sh))
     \<and> list_all2 (\<lambda>slot v. slot < length (oi_values im) \<longrightarrow> v = oi_values im ! slot)
         (sh_output_slots (post_mail im sh)) (ml_values (sh_mailbox (post_mail im sh)))"
  by (simp add: post_mail_def list_all2_conv_all_nth nth_opt_def)

interpretation modbus: ready_driver "modbus_ops gate now" modbus_deenergized modbus_drives br_running for gate now
  by unfold_locales
    (auto simp: modbus_ops_def bridge_apply_outputs_def bridge_poll_inputs_def bridge_start_def length_bridge_fill
      modbus_deenergized_def modbus_drives_def list_all_iff post_mail_drives split: if_splits option.splits,
     simp_all add: post_mail_def)

end
