(* ===== verification/ModbusWire.thy ===== *)
theory ModbusWire
  imports ModbusDriver
begin

section \<open>The Modbus codec against a device\<close>

text \<open>
  A Modbus device as the application protocol describes it: four tables, and a service that answers
  a request PDU. \<open>conforming\<close> says of a network that whatever it delivers of the answer to a request
  is the device's answer; any socket operation may fail, and the input tables may change at any time.
  Against such a network a transaction that succeeds has had the effect of its request. Device and
  network are not code of the repository; they are what the theorems of this part assume.
\<close>

subsection \<open>Devices\<close>

record device =
  dv_coils :: "nat \<Rightarrow> bool"
  dv_discretes :: "nat \<Rightarrow> bool"
  dv_holding :: "nat \<Rightarrow> u16"
  dv_inputs :: "nat \<Rightarrow> u16"
  dv_has :: "register_type \<Rightarrow> nat \<Rightarrow> bool"

definition has_range :: "device \<Rightarrow> register_type \<Rightarrow> nat \<Rightarrow> nat \<Rightarrow> bool" where
  "has_range d table a n \<longleftrightarrow> int a + int n \<le> 65536 \<and> list_all (dv_has d table) [a ..< a + n]"

definition exception :: "u8 \<Rightarrow> u8 \<Rightarrow> bytes" where
  "exception fc code = [fc OR 0x80, code]"

definition pack_bools :: "bool list \<Rightarrow> bytes" where
  "pack_bools bs = map (\<lambda>k. horner_sum of_bool 2 (take 8 (drop (8 * k) bs))) [0 ..< (length bs + 7) div 8]"

definition unpack_bools :: "nat \<Rightarrow> bytes \<Rightarrow> bool list" where
  "unpack_bools n data = map (\<lambda>i. bit (data ! (i div 8)) (i mod 8)) [0 ..< n]"

definition unpack_words :: "nat \<Rightarrow> bytes \<Rightarrow> u16 list" where
  "unpack_words n data = map (\<lambda>i. of_be_bytes (data ! (2 * i)) (data ! (2 * i + 1))) [0 ..< n]"

definition put_range :: "(nat \<Rightarrow> 'a) \<Rightarrow> nat \<Rightarrow> 'a list \<Rightarrow> nat \<Rightarrow> 'a" where
  "put_range f a xs i = (if a \<le> i \<and> i < a + length xs then xs ! (i - a) else f i)"

definition serve_bits :: "device \<Rightarrow> u8 \<Rightarrow> register_type \<Rightarrow> (nat \<Rightarrow> bool) \<Rightarrow> nat \<Rightarrow> nat \<Rightarrow> bytes" where
  "serve_bits d fc table f a n =
     (if n = 0 \<or> 2000 < int n then exception fc 3
      else if \<not> has_range d table a n then exception fc 2
      else [fc, word_of_nat ((n + 7) div 8)] @ pack_bools (map f [a ..< a + n]))"

definition serve_words :: "device \<Rightarrow> u8 \<Rightarrow> register_type \<Rightarrow> (nat \<Rightarrow> u16) \<Rightarrow> nat \<Rightarrow> nat \<Rightarrow> bytes" where
  "serve_words d fc table f a n =
     (if n = 0 \<or> 125 < int n then exception fc 3
      else if \<not> has_range d table a n then exception fc 2
      else [fc, word_of_nat (2 * n)] @ concat (map (\<lambda>i. be_bytes (f i)) [a ..< a + n]))"

definition serve :: "device \<Rightarrow> bytes \<Rightarrow> device \<times> bytes" where
  "serve d req =
     (let fc = byte_or_0 req 0;
          a = unat (of_be_bytes (byte_or_0 req 1) (byte_or_0 req 2));
          v = of_be_bytes (byte_or_0 req 3) (byte_or_0 req 4);
          n = unat v;
          data = drop 6 req
      in if length req < 5 then (d, exception fc 3)
         else if fc = 1 then (d, serve_bits d fc Coil (dv_coils d) a n)
         else if fc = 2 then (d, serve_bits d fc Discrete (dv_discretes d) a n)
         else if fc = 3 then (d, serve_words d fc Holding (dv_holding d) a n)
         else if fc = 4 then (d, serve_words d fc InputReg (dv_inputs d) a n)
         else if fc = 5 then
           if v \<noteq> 0 \<and> v \<noteq> 0xFF00 then (d, exception fc 3)
           else if \<not> has_range d Coil a 1 then (d, exception fc 2)
           else (d\<lparr>dv_coils := (dv_coils d)(a := v = 0xFF00)\<rparr>, take 5 req)
         else if fc = 6 then
           if \<not> has_range d Holding a 1 then (d, exception fc 2)
           else (d\<lparr>dv_holding := (dv_holding d)(a := v)\<rparr>, take 5 req)
         else if fc = 15 then
           if n = 0 \<or> 1968 < int n \<or> unat (byte_or_0 req 5) \<noteq> (n + 7) div 8 \<or> length data \<noteq> (n + 7) div 8
           then (d, exception fc 3)
           else if \<not> has_range d Coil a n then (d, exception fc 2)
           else (d\<lparr>dv_coils := put_range (dv_coils d) a (unpack_bools n data)\<rparr>, take 5 req)
         else if fc = 16 then
           if n = 0 \<or> 123 < int n \<or> unat (byte_or_0 req 5) \<noteq> 2 * n \<or> length data \<noteq> 2 * n
           then (d, exception fc 3)
           else if \<not> has_range d Holding a n then (d, exception fc 2)
           else (d\<lparr>dv_holding := put_range (dv_holding d) a (unpack_words n data)\<rparr>, take 5 req)
         else (d, exception fc 1))"

definition writable :: "device \<Rightarrow> (nat \<Rightarrow> bool) \<times> (nat \<Rightarrow> u16)" where
  "writable d = (dv_coils d, dv_holding d)"

text \<open>The frame of a PDU, and its first six bytes.\<close>

definition mbap :: "u16 \<Rightarrow> nat \<Rightarrow> bytes" where
  "mbap tid len = be_bytes tid @ be_bytes 0 @ be_bytes (word_of_nat len)"

definition adu :: "u16 \<Rightarrow> u8 \<Rightarrow> bytes \<Rightarrow> bytes" where
  "adu tid unit pdu = mbap tid (1 + length pdu) @ [unit] @ pdu"

definition conforming :: "'w net_ops \<Rightarrow> ('w \<Rightarrow> device) \<Rightarrow> bool" where
  "conforming ops view \<longleftrightarrow>
     (\<forall>w tid unit req w1 w2 w3 hdr body.
        nw_write_all ops w (adu tid unit req) = (Inr (), w1)
        \<longrightarrow> nw_read_exact ops w1 6 = (Inr hdr, w2)
        \<longrightarrow> (let (d, resp) = serve (view w) req
            in hdr = mbap tid (1 + length resp)
               \<and> (nw_read_exact ops w2 (1 + length resp) = (Inr body, w3)
                  \<longrightarrow> body = unit # resp \<and> writable (view w3) = writable d)))"

text \<open>The states a network goes through.\<close>

definition net_step :: "'w net_ops \<Rightarrow> 'w \<Rightarrow> 'w \<Rightarrow> bool" where
  "net_step ops w w' \<longleftrightarrow>
     (\<exists>b. w' = snd (nw_write_all ops w b)) \<or> (\<exists>n. w' = snd (nw_read_exact ops w n))
     \<or> (\<exists>h p. w' = snd (nw_resolve ops w h p)) \<or> (\<exists>a t. w' = snd (nw_connect ops w a t))
     \<or> (\<exists>t. w' = snd (nw_configure ops w t))"

abbreviation net_reach :: "'w net_ops \<Rightarrow> 'w \<Rightarrow> 'w \<Rightarrow> bool" where
  "net_reach ops \<equiv> (net_step ops)\<^sup>*\<^sup>*"

subsection \<open>Bytes\<close>

lemma length_be_bytes [simp]: "length (be_bytes w) = 2"
  by (simp add: be_bytes_def)

lemma of_be_be_bytes [simp]: "of_be_bytes (ucast (drop_bit 8 w)) (ucast w) = (w :: u16)"
  by (rule bit_word_eqI) (auto simp: of_be_bytes_def bit_simps)

lemma be_bytes_nth [simp]: "be_bytes w ! 0 = ucast (drop_bit 8 w)" "be_bytes w ! Suc 0 = ucast w"
  by (simp_all add: be_bytes_def)

lemma length_pack_bools [simp]: "length (pack_bools bs) = (length bs + 7) div 8"
  by (simp add: pack_bools_def)

lemma pack_bools_bit:
  assumes "i < length bs"
  shows "bit (pack_bools bs ! (i div 8)) (i mod 8) = bs ! i"
proof -
  have "i div 8 < (length bs + 7) div 8" using assms by linarith
  moreover have "8 * (i div 8) + i mod 8 = i" by simp
  moreover have "i mod 8 < length bs - 8 * (i div 8)" using assms calculation(2) by linarith
  ultimately show ?thesis
    by (simp add: pack_bools_def bit_horner_sum_bit_iff)
qed

lemma set_coil_bit_bit:
  assumes "i div 8 < length r" "j div 8 < length r"
  shows "bit (set_coil_bit r (i, on) ! (j div 8)) (j mod 8) \<longleftrightarrow> bit (r ! (j div 8)) (j mod 8) \<or> on \<and> i = j"
proof -
  have eq: "i = j \<longleftrightarrow> i div 8 = j div 8 \<and> i mod 8 = j mod 8"
    by (metis div_mult_mod_eq)
  have "bit (push_bit (i mod 8) 1 :: u8) (j mod 8) \<longleftrightarrow> i mod 8 = j mod 8"
    by (auto simp: bit_simps)
  then show ?thesis
    using assms eq by (auto simp: set_coil_bit_def nth_list_update bit_or_iff)
qed

lemma set_coil_bits:
  assumes "length bits \<le> 8 * n"
  shows "length (foldl set_coil_bit (replicate n 0) (enumerate 0 bits)) = n"
    and "j < 8 * n \<Longrightarrow> bit (foldl set_coil_bit (replicate n 0) (enumerate 0 bits) ! (j div 8)) (j mod 8)
           \<longleftrightarrow> j < length bits \<and> bits ! j"
  using assms
proof (induction bits arbitrary: j rule: rev_induct)
  case Nil
  {
    case 1
    then show ?case by simp
  next
    case 2
    then show ?case by (simp add: less_mult_imp_div_less mult.commute)
  }
next
  case (snoc b bits)
  let ?r = "foldl set_coil_bit (replicate n 0) (enumerate 0 bits)"
  {
    case 1
    then show ?case using snoc by (simp add: enumerate_append_eq set_coil_bit_def)
  next
    case 2
    have len: "length ?r = n" "length bits < 8 * n" using 2 snoc(1) by simp_all
    have ih: "bit (?r ! (j div 8)) (j mod 8) \<longleftrightarrow> j < length bits \<and> bits ! j" using 2 snoc(2) [of j] by simp
    have "length bits div 8 < n" "j div 8 < n" using len 2 by (simp_all add: less_mult_imp_div_less mult.commute)
    then have "bit (set_coil_bit ?r (length bits, b) ! (j div 8)) (j mod 8)
        \<longleftrightarrow> bit (?r ! (j div 8)) (j mod 8) \<or> b \<and> length bits = j"
      by (intro set_coil_bit_bit) (simp_all add: len(1))
    then show ?case
      unfolding ih by (auto simp: enumerate_append_eq nth_append less_Suc_eq)
  }
qed

lemma length_coil_data [simp]: "length (coil_data bits) = (length bits + 7) div 8"
  unfolding coil_data_def by (rule set_coil_bits(1)) linarith

lemma unpack_coil_data [simp]: "unpack_bools (length bits) (coil_data bits) = bits"
proof (rule nth_equalityI)
  fix i
  assume "i < length (unpack_bools (length bits) (coil_data bits))"
  then have i: "i < length bits" by (simp add: unpack_bools_def)
  have "length bits \<le> 8 * ((length bits + 7) div 8)" by linarith
  then show "unpack_bools (length bits) (coil_data bits) ! i = bits ! i"
    using i set_coil_bits(2) [of bits "(length bits + 7) div 8" i] by (simp add: unpack_bools_def coil_data_def)
qed (simp add: unpack_bools_def)

lemma length_concat_be [simp]: "length (concat (map be_bytes ws)) = 2 * length ws"
  by (induction ws) simp_all

lemma nth_concat_be:
  "i < length ws \<Longrightarrow> concat (map be_bytes ws) ! (2 * i) = ucast (drop_bit 8 (ws ! i))
     \<and> concat (map be_bytes ws) ! (2 * i + 1) = ucast (ws ! i)"
proof (induction ws arbitrary: i)
  case (Cons w ws)
  then show ?case by (cases i) (simp_all add: nth_append)
qed simp

lemma unpack_concat_be [simp]: "unpack_words (length ws) (concat (map be_bytes ws)) = ws"
  by (rule nth_equalityI) (simp_all add: unpack_words_def nth_concat_be [simplified])

lemma byte_or_0_nth: "byte_or_0 bs i = (if i < length bs then bs ! i else 0)"
  by (simp add: byte_or_0_def nth_opt_def)

subsection \<open>Transactions\<close>

lemma length_concat_be_map [simp]: "length (concat (map (\<lambda>i. be_bytes (f i)) is)) = 2 * length is"
  by (induction "is") simp_all

lemma answer_length:
  "length (exception fc code) = 2"
  "1 \<le> length (serve_bits d fc table f a n)" "length (serve_bits d fc table f a n) \<le> 253"
  "1 \<le> length (serve_words d fc table g a n)" "length (serve_words d fc table g a n) \<le> 253"
  by (auto simp: serve_bits_def serve_words_def exception_def)

lemma serve_length: "1 \<le> length (snd (serve d req))" "length (snd (serve d req)) \<le> 253"
  using answer_length by (simp_all add: serve_def Let_def)

lemma mbap_nth:
  "mbap tid n ! 0 = ucast (drop_bit 8 tid)" "mbap tid n ! Suc 0 = ucast tid"
  "mbap tid n ! 2 = 0" "mbap tid n ! 3 = 0"
  "mbap tid n ! 4 = ucast (drop_bit 8 (word_of_nat n :: u16))" "mbap tid n ! 5 = ucast (word_of_nat n :: u16)"
  by (simp_all add: mbap_def be_bytes_def nth_append)

lemma recv_mbap:
  assumes "nw_read_exact ops w 6 = (Inr (mbap tid n), w1)" "2 \<le> n" "n \<le> 254"
  shows "recv_tid ops unit tid (t, w) =
    (case nw_read_exact ops w1 n of
       (Inl e, w2) \<Rightarrow> (Inl (FailOther e), t, w2)
     | (Inr rest, w2) \<Rightarrow>
         if rest ! 0 \<noteq> unit then (Inl (FailOther ''unit id mismatch''), t, w2) else (Inr (drop 1 rest), t, w2))"
proof -
  have "unat (word_of_nat n :: u16) = n" using assms(3) by (simp add: unat_of_nat)
  moreover have "of_be_bytes 0 0 = 0" by (simp add: of_be_bytes_def)
  ultimately show ?thesis
    using assms by (simp add: recv_tid_def mbap_nth split: prod.splits sum.splits)
qed

lemma net_reach_io:
  "nw_write_all ops w b = (r, w') \<Longrightarrow> net_reach ops w w'"
  "nw_read_exact ops w n = (r', w') \<Longrightarrow> net_reach ops w w'"
  "nw_resolve ops w h p = (r1, w') \<Longrightarrow> net_reach ops w w'"
  "nw_connect ops w a t = (r2, w') \<Longrightarrow> net_reach ops w w'"
  "nw_configure ops w t = (r3, w') \<Longrightarrow> net_reach ops w w'"
  by (rule r_into_rtranclp, metis net_step_def snd_conv)+

lemma sbind_Inr: "sbind m f st = (Inr y, st'') \<longleftrightarrow> (\<exists>x st'. m st = (Inr x, st') \<and> f x st' = (Inr y, st''))"
  by (auto simp: sbind_def split: prod.splits sum.splits)

lemma sess_Inr [simp]: "sret x st = (Inr y, st') \<longleftrightarrow> y = x \<and> st' = st" "sfail e st \<noteq> (Inr y, st')"
  by (auto simp: sret_def sfail_def)

lemma send_Inr:
  "send ops unit tid pdu (t, w) = (Inr u, st') \<longleftrightarrow>
     (\<exists>w'. nw_write_all ops w (be_bytes tid @ be_bytes 0 @ be_bytes (u16_or_0 (1 + length pdu)) @ [unit] @ pdu) = (Inr (), w')
          \<and> st' = (t, w'))"
  by (auto simp: send_def split: prod.splits sum.splits)

lemma transact_ok:
  assumes conf: "conforming ops view" and req: "length req < 65535" "req \<noteq> []"
    and t: "transact ops unit req (tid, w) = (Inr pdu, tid', w')"
  shows "pdu = snd (serve (view w) req)" "writable (view w') = writable (fst (serve (view w) req))"
    "net_reach ops w w'" "byte_or_0 pdu 0 = byte_or_0 req 0"
proof -
  obtain d resp where s: "serve (view w) req = (d, resp)" by (cases "serve (view w) req")
  have n: "2 \<le> 1 + length resp" "1 + length resp \<le> 254" using serve_length [where d = "view w" and req = req] s by simp_all
  obtain w1 st2 where w1: "nw_write_all ops w (adu tid unit req) = (Inr (), w1)"
    and rc: "(case recv_tid ops unit tid (tid + 1, w1) of
                (Inl Mismatch, st2) \<Rightarrow> recv_tid ops unit tid st2 | r \<Rightarrow> r) = (Inr pdu, st2)"
    and fin: "st2 = (tid', w')" "nth_opt pdu 0 = Some (byte_or_0 req 0)"
    using t req
    by (auto simp: transact_def sbind_Inr send_Inr adu_def mbap_def u16_or_0_def Let_def
        split: option.splits if_splits)
  obtain hdr w2 where w2: "nw_read_exact ops w1 6 = (Inr hdr, w2)"
    using rc by (cases "nw_read_exact ops w1 6") (auto simp: recv_tid_def split: sum.splits)
  have hdr: "hdr = mbap tid (1 + length resp)"
    and body: "\<And>body w3. nw_read_exact ops w2 (1 + length resp) = (Inr body, w3) \<Longrightarrow>
      body = unit # resp \<and> writable (view w3) = writable d"
    using conf [unfolded conforming_def, rule_format, OF w1 w2] by (auto simp: s)
  have "recv_tid ops unit tid (tid + 1, w1) = (Inr pdu, st2)
      \<and> (\<exists>b w3. nw_read_exact ops w2 (1 + length resp) = (Inr b, w3) \<and> pdu = drop 1 b \<and> st2 = (tid + 1, w3))"
    using rc unfolding recv_mbap [OF w2 [unfolded hdr] n]
    by (auto split: prod.splits sum.splits if_splits)
  then obtain w3 where w3: "nw_read_exact ops w2 (1 + length resp) = (Inr (unit # resp), w3)" "pdu = resp" "w' = w3"
    using body fin(1) by auto
  show "pdu = snd (serve (view w) req)" "writable (view w') = writable (fst (serve (view w) req))"
    using w3 body s by auto
  show "net_reach ops w w'"
    using net_reach_io(1) [OF w1] net_reach_io(2) [OF w2] net_reach_io(2) [OF w3(1)] w3(3) by simp
  show "byte_or_0 pdu 0 = byte_or_0 req 0"
    using fin(2) by (auto simp: nth_opt_eq_Some byte_or_0_nth)
qed

subsection \<open>Requests\<close>

text \<open>The table a read function code addresses.\<close>

definition bit_table :: "u8 \<Rightarrow> device \<Rightarrow> nat \<Rightarrow> bool" where
  "bit_table fc d = (if fc = 1 then dv_coils d else dv_discretes d)"

definition word_table :: "u8 \<Rightarrow> device \<Rightarrow> nat \<Rightarrow> u16" where
  "word_table fc d = (if fc = 3 then dv_holding d else dv_inputs d)"

lemma request_fields:
  fixes fc :: u8 and a v :: u16 and rest :: bytes
  defines "req \<equiv> [fc] @ be_bytes a @ be_bytes v @ rest"
  shows "byte_or_0 req 0 = fc" "of_be_bytes (byte_or_0 req 1) (byte_or_0 req 2) = a"
    "of_be_bytes (byte_or_0 req 3) (byte_or_0 req 4) = v" "\<not> length req < 5"
    "take 5 req = [fc] @ be_bytes a @ be_bytes v" "byte_or_0 req 5 = byte_or_0 rest 0" "drop 6 req = drop 1 rest"
  by (simp_all add: req_def byte_or_0_nth be_bytes_def nth_append)

lemmas serve_request = serve_def [where req = "[fc] @ be_bytes a @ be_bytes v @ rest" for fc a v rest,
  unfolded Let_def request_fields]

lemma serve_reads:
  "serve d (read_pdu 1 a v) = (d, serve_bits d 1 Coil (bit_table 1 d) (unat a) (unat v))"
  "serve d (read_pdu 2 a v) = (d, serve_bits d 2 Discrete (bit_table 2 d) (unat a) (unat v))"
  "serve d (read_pdu 3 a v) = (d, serve_words d 3 Holding (word_table 3 d) (unat a) (unat v))"
  "serve d (read_pdu 4 a v) = (d, serve_words d 4 InputReg (word_table 4 d) (unat a) (unat v))"
  using serve_request [where rest = "[]"] by (simp_all add: read_pdu_def bit_table_def word_table_def)

lemma serve_writes:
  "serve d ([5] @ be_bytes a @ be_bytes v) =
     (if v \<noteq> 0 \<and> v \<noteq> 0xFF00 then (d, exception 5 3)
      else if \<not> has_range d Coil (unat a) 1 then (d, exception 5 2)
      else (d\<lparr>dv_coils := (dv_coils d)(unat a := v = 0xFF00)\<rparr>, [5] @ be_bytes a @ be_bytes v))"
  "serve d ([6] @ be_bytes a @ be_bytes v) =
     (if \<not> has_range d Holding (unat a) 1 then (d, exception 6 2)
      else (d\<lparr>dv_holding := (dv_holding d)(unat a := v)\<rparr>, [6] @ be_bytes a @ be_bytes v))"
  "serve d ([15] @ be_bytes a @ be_bytes v @ [c] @ data) =
     (if unat v = 0 \<or> 1968 < int (unat v) \<or> unat c \<noteq> (unat v + 7) div 8 \<or> length data \<noteq> (unat v + 7) div 8
      then (d, exception 15 3)
      else if \<not> has_range d Coil (unat a) (unat v) then (d, exception 15 2)
      else (d\<lparr>dv_coils := put_range (dv_coils d) (unat a) (unpack_bools (unat v) data)\<rparr>, [15] @ be_bytes a @ be_bytes v))"
  "serve d ([16] @ be_bytes a @ be_bytes v @ [c] @ data) =
     (if unat v = 0 \<or> 123 < int (unat v) \<or> unat c \<noteq> 2 * unat v \<or> length data \<noteq> 2 * unat v
      then (d, exception 16 3)
      else if \<not> has_range d Holding (unat a) (unat v) then (d, exception 16 2)
      else (d\<lparr>dv_holding := put_range (dv_holding d) (unat a) (unpack_words (unat v) data)\<rparr>, [16] @ be_bytes a @ be_bytes v))"
  using serve_request [where rest = "[]"] serve_request [where rest = "[c] @ data"]
  by (simp_all add: byte_or_0_nth)

lemma exception_head: "byte_or_0 (exception fc code) 0 = fc \<longleftrightarrow> bit fc 7"
proof -
  have "fc OR 0x80 = fc \<longleftrightarrow> bit fc 7"
  proof
    assume "fc OR 0x80 = fc"
    then have "bit (fc OR 0x80) 7 = bit fc 7" by simp
    then show "bit fc 7" by (simp add: bit_simps)
  next
    assume b: "bit fc 7"
    show "fc OR 0x80 = fc"
    proof (rule bit_word_eqI)
      fix n
      assume "n < LENGTH(8)"
      have "bit (0x80 :: u8) n \<longleftrightarrow> n = 7"
      proof -
        have "(0x80 :: u8) = push_bit 7 1" by simp
        then show ?thesis by (simp only: bit_push_bit_iff) (auto simp: bit_simps)
      qed
      then show "bit (fc OR 0x80) n = bit fc n" using b by (auto simp: bit_or_iff)
    qed
  qed
  then show ?thesis by (simp add: exception_def byte_or_0_nth)
qed

lemma read_regs_ok:
  assumes conf: "conforming ops view" and fc: "fc = 3 \<or> fc = 4"
    and r: "read_regs ops unit fc start qty (tid, w) = (Inr regs, tid', w')"
  shows "regs = map (word_table fc (view w)) [unat start ..< unat start + unat qty]"
    "writable (view w') = writable (view w)" "net_reach ops w w'"
proof -
  obtain pdu where t: "transact ops unit (read_pdu fc start qty) (tid, w) = (Inr pdu, tid', w')"
    and regs: "regs = map (\<lambda>i. of_be_bytes (pdu ! (2 + i * 2)) (pdu ! (2 + i * 2 + 1))) [0 ..< unat qty]"
    using r by (auto simp: read_regs_def sbind_Inr Let_def split: if_splits)
  have len: "length (read_pdu fc start qty) < 65535" "read_pdu fc start qty \<noteq> []" by (simp_all add: read_pdu_def)
  note ok = transact_ok [OF conf len t]
  let ?f = "word_table fc (view w)"
  obtain table where sv: "serve (view w) (read_pdu fc start qty) =
      (view w, serve_words (view w) fc table ?f (unat start) (unat qty))"
    using fc serve_reads(3,4) by metis
  have nb: "\<not> bit fc 7" using fc by auto
  have "byte_or_0 (read_pdu fc start qty) 0 = fc" by (simp add: read_pdu_def byte_or_0_nth)
  then have pdu: "pdu = [fc, word_of_nat (2 * unat qty)] @ concat (map be_bytes (map ?f [unat start ..< unat start + unat qty]))"
    using ok(1,4) nb sv exception_head [of fc] by (auto simp: serve_words_def comp_def split: if_splits)
  show "regs = map ?f [unat start ..< unat start + unat qty]"
    unfolding regs pdu
    by (rule nth_equalityI) (use nth_concat_be [of _ "map ?f [unat start ..< unat start + unat qty]"] in
        \<open>simp_all add: mult.commute\<close>)
  show "writable (view w') = writable (view w)" "net_reach ops w w'" using ok(2,3) sv by simp_all
qed

lemma read_bits_ok:
  assumes conf: "conforming ops view" and fc: "fc = 1 \<or> fc = 2"
    and r: "read_bits ops unit fc start qty (tid, w) = (Inr bs, tid', w')"
  shows "bs = pack_bools (map (bit_table fc (view w)) [unat start ..< unat start + unat qty])"
    "writable (view w') = writable (view w)" "net_reach ops w w'"
proof -
  obtain pdu where t: "transact ops unit (read_pdu fc start qty) (tid, w) = (Inr pdu, tid', w')"
    and bs: "bs = slice 2 (2 + (unat qty + 7) div 8) pdu"
    using r by (auto simp: read_bits_def sbind_Inr Let_def split: if_splits)
  have len: "length (read_pdu fc start qty) < 65535" "read_pdu fc start qty \<noteq> []" by (simp_all add: read_pdu_def)
  note ok = transact_ok [OF conf len t]
  let ?f = "bit_table fc (view w)"
  obtain table where sv: "serve (view w) (read_pdu fc start qty) =
      (view w, serve_bits (view w) fc table ?f (unat start) (unat qty))"
    using fc serve_reads(1,2) by metis
  have nb: "\<not> bit fc 7" using fc by auto
  have "byte_or_0 (read_pdu fc start qty) 0 = fc" by (simp add: read_pdu_def byte_or_0_nth)
  then have pdu: "pdu = [fc, word_of_nat ((unat qty + 7) div 8)] @ pack_bools (map ?f [unat start ..< unat start + unat qty])"
    using ok(1,4) nb sv exception_head [of fc] by (auto simp: serve_bits_def split: if_splits)
  show "bs = pack_bools (map ?f [unat start ..< unat start + unat qty])"
    unfolding bs pdu by (simp add: slice_def)
  show "writable (view w') = writable (view w)" "net_reach ops w w'" using ok(2,3) sv by simp_all
qed

lemma put_range_one: "put_range f a [x] = f(a := x)"
  by (auto simp: put_range_def fun_eq_iff)

lemma put_range_nil [simp]: "put_range f a [] = f"
  by (auto simp: put_range_def fun_eq_iff)

lemma transact_write_ok:
  assumes "conforming ops view" "length req < 65535" "req \<noteq> []" "\<not> bit (byte_or_0 req 0) 7"
    "sbind (transact ops unit req) (\<lambda>_. sret ()) (tid, w) = (Inr u, tid', w')"
    "fst (serve (view w) req) = d \<or> (\<exists>code. snd (serve (view w) req) = exception (byte_or_0 req 0) code)"
  shows "writable (view w') = writable d" "net_reach ops w w'"
proof -
  obtain pdu where t: "transact ops unit req (tid, w) = (Inr pdu, tid', w')"
    using assms(5) by (auto simp: sbind_Inr)
  note ok = transact_ok [OF assms(1-3) t]
  show "writable (view w') = writable d"
    using ok(1,2,4) assms(4,6) exception_head [of "byte_or_0 req 0"] by auto
  show "net_reach ops w w'" by (rule ok(3))
qed

lemma write_coil_ok:
  assumes conf: "conforming ops view" and r: "write_coil ops unit a on (tid, w) = (Inr u, tid', w')"
  shows "writable (view w') = ((dv_coils (view w))(unat a := on), dv_holding (view w))" "net_reach ops w w'"
proof -
  let ?d = "view w\<lparr>dv_coils := (dv_coils (view w))(unat a := on)\<rparr>"
  let ?req = "[5] @ be_bytes a @ be_bytes (if on then 0xFF00 else 0)"
  have sv: "fst (serve (view w) ?req) = ?d \<or> (\<exists>code. snd (serve (view w) ?req) = exception (byte_or_0 ?req 0) code)"
    unfolding serve_writes by (auto simp: byte_or_0_nth)
  have req: "length ?req < 65535" "?req \<noteq> []" "\<not> bit (byte_or_0 ?req 0) 7"
    by (simp_all add: byte_or_0_nth)
  have "writable (view w') = writable ?d \<and> net_reach ops w w'"
    using transact_write_ok [OF conf req r [unfolded write_coil_def] sv] by simp
  then show "writable (view w') = ((dv_coils (view w))(unat a := on), dv_holding (view w))" "net_reach ops w w'"
    by (auto simp: writable_def)
qed

lemma write_reg_ok:
  assumes conf: "conforming ops view" and r: "write_reg ops unit a v (tid, w) = (Inr u, tid', w')"
  shows "writable (view w') = (dv_coils (view w), (dv_holding (view w))(unat a := v))" "net_reach ops w w'"
proof -
  let ?d = "view w\<lparr>dv_holding := (dv_holding (view w))(unat a := v)\<rparr>"
  let ?req = "[6] @ be_bytes a @ be_bytes v"
  have sv: "fst (serve (view w) ?req) = ?d \<or> (\<exists>code. snd (serve (view w) ?req) = exception (byte_or_0 ?req 0) code)"
    unfolding serve_writes by (auto simp: byte_or_0_nth)
  have req: "length ?req < 65535" "?req \<noteq> []" "\<not> bit (byte_or_0 ?req 0) 7"
    by (simp_all add: byte_or_0_nth)
  have "writable (view w') = writable ?d \<and> net_reach ops w w'"
    using transact_write_ok [OF conf req r [unfolded write_reg_def] sv] by simp
  then show "writable (view w') = (dv_coils (view w), (dv_holding (view w))(unat a := v))" "net_reach ops w w'"
    by (auto simp: writable_def)
qed

lemma unat_u16_or_0: "n < 65536 \<Longrightarrow> unat (u16_or_0 n) = n"
  by (simp add: u16_or_0_def unat_of_nat)

lemma write_coils_ok:
  assumes conf: "conforming ops view" and len: "length bits < 65536"
    and r: "write_coils ops unit a bits (tid, w) = (Inr u, tid', w')"
  shows "writable (view w') = (put_range (dv_coils (view w)) (unat a) bits, dv_holding (view w))" "net_reach ops w w'"
proof -
  let ?d = "view w\<lparr>dv_coils := put_range (dv_coils (view w)) (unat a) bits\<rparr>"
  have short: "Suc (Suc (Suc (Suc (Suc (Suc ((length bits + 7) div 8)))))) < 65535" using len by simp
  let ?req = "[15] @ be_bytes a @ be_bytes (u16_or_0 (length bits)) @ [u8_or_255 ((length bits + 7) div 8)] @ coil_data bits"
  have sv: "fst (serve (view w) ?req) = ?d \<or> (\<exists>code. snd (serve (view w) ?req) = exception (byte_or_0 ?req 0) code)"
    unfolding serve_writes unat_u16_or_0 [OF len] by (auto simp: byte_or_0_nth)
  have req: "length ?req < 65535" "?req \<noteq> []" "\<not> bit (byte_or_0 ?req 0) 7"
    using short by (simp_all add: byte_or_0_nth)
  have "writable (view w') = writable ?d \<and> net_reach ops w w'"
    using transact_write_ok [OF conf req r [unfolded write_coils_def] sv] by simp
  then show "writable (view w') = (put_range (dv_coils (view w)) (unat a) bits, dv_holding (view w))" "net_reach ops w w'"
    by (auto simp: writable_def)
qed

lemma write_regs_ok:
  assumes conf: "conforming ops view" and len: "length regs < 32000"
    and r: "write_regs ops unit a regs (tid, w) = (Inr u, tid', w')"
  shows "writable (view w') = (dv_coils (view w), put_range (dv_holding (view w)) (unat a) regs)" "net_reach ops w w'"
proof -
  let ?d = "view w\<lparr>dv_holding := put_range (dv_holding (view w)) (unat a) regs\<rparr>"
  have n: "length regs < 65536" using len by simp
  let ?req = "[16] @ be_bytes a @ be_bytes (u16_or_0 (length regs)) @ [u8_or_255 (length regs * 2)] @ concat (map be_bytes regs)"
  have sv: "fst (serve (view w) ?req) = ?d \<or> (\<exists>code. snd (serve (view w) ?req) = exception (byte_or_0 ?req 0) code)"
    unfolding serve_writes unat_u16_or_0 [OF n] by (auto simp: byte_or_0_nth)
  have req: "length ?req < 65535" "?req \<noteq> []" "\<not> bit (byte_or_0 ?req 0) 7"
    using len by (simp_all add: byte_or_0_nth)
  have "writable (view w') = writable ?d \<and> net_reach ops w w'"
    using transact_write_ok [OF conf req r [unfolded write_regs_def] sv] by simp
  then show "writable (view w') = (dv_coils (view w), put_range (dv_holding (view w)) (unat a) regs)" "net_reach ops w w'"
    by (auto simp: writable_def)
qed

text \<open>The write of a group of coils and of a group of registers, whichever request it uses.\<close>

lemma coil_group_write_ok:
  assumes conf: "conforming ops view" and len: "length bits < 65536"
    and r: "(if length bits = 1 then write_coil ops unit a (bits ! 0) else write_coils ops unit a bits) (tid, w) = (Inr u, tid', w')"
  shows "writable (view w') = (put_range (dv_coils (view w)) (unat a) bits, dv_holding (view w))" "net_reach ops w w'"
proof -
  have "writable (view w') = (put_range (dv_coils (view w)) (unat a) bits, dv_holding (view w)) \<and> net_reach ops w w'"
  proof (cases "length bits = 1")
    case True
    then obtain b where "bits = [b]" by (auto simp: length_Suc_conv)
    then show ?thesis using r write_coil_ok [OF conf] by (auto simp: put_range_one)
  next
    case False
    then show ?thesis using r write_coils_ok [OF conf len] by auto
  qed
  then show "writable (view w') = (put_range (dv_coils (view w)) (unat a) bits, dv_holding (view w))" "net_reach ops w w'"
    by simp_all
qed

lemma reg_group_write_ok:
  assumes conf: "conforming ops view" and len: "length regs < 32000"
    and r: "(if length regs = 1 then write_reg ops unit a (regs ! 0)
             else if regs \<noteq> [] then write_regs ops unit a regs else sret ()) (tid, w) = (Inr u, tid', w')"
  shows "writable (view w') = (dv_coils (view w), put_range (dv_holding (view w)) (unat a) regs)" "net_reach ops w w'"
proof -
  consider (one) v where "regs = [v]" | (none) "regs = []" | (more) "length regs \<noteq> 1" "regs \<noteq> []"
    by (auto simp: length_Suc_conv)
  then have "writable (view w') = (dv_coils (view w), put_range (dv_holding (view w)) (unat a) regs) \<and> net_reach ops w w'"
  proof cases
    case one
    then show ?thesis using r write_reg_ok [OF conf] by (auto simp: put_range_one)
  next
    case none
    then show ?thesis using r by (auto simp: writable_def)
  next
    case more
    then show ?thesis using r write_regs_ok [OF conf len] by auto
  qed
  then show "writable (view w') = (dv_coils (view w), put_range (dv_holding (view w)) (unat a) regs)" "net_reach ops w w'"
    by simp_all
qed

end
