(* ===== verification/ModbusGroups.thy ===== *)
theory ModbusGroups
  imports ModbusWire
begin

section \<open>Modbus groups, and writing them\<close>

text \<open>
  The groups of adjacent points cover every point of their kind once and stay within the limits of
  the protocol. Against a conforming network the three writing loops leave every output point with
  its words, and every other address as it was.
\<close>

subsection \<open>Groups\<close>

abbreviation pdu_of :: "planned_point list \<Rightarrow> nat \<Rightarrow> nat" where
  "pdu_of points i \<equiv> unat (pp_pdu (points ! i))"

abbreviation words_of :: "planned_point list \<Rightarrow> nat \<Rightarrow> nat" where
  "words_of points i \<equiv> unat (pp_words (points ! i))"

text \<open>The members follow each other from address \<open>a\<close> up to \<open>e\<close>.\<close>

fun contig :: "planned_point list \<Rightarrow> nat \<Rightarrow> nat list \<Rightarrow> nat \<Rightarrow> bool" where
  "contig points a [] e \<longleftrightarrow> a = e"
| "contig points a (i # is) e \<longleftrightarrow> pdu_of points i = a \<and> contig points (a + words_of points i) is e"

definition group_ok :: "planned_point list \<Rightarrow> u16 \<Rightarrow> group \<Rightarrow> bool" where
  "group_ok points max_qty g \<longleftrightarrow>
     gp_members g \<noteq> [] \<and> unat (gp_qty g) \<le> unat max_qty
     \<and> contig points (unat (gp_start g)) (gp_members g) (unat (gp_start g) + unat (gp_qty g))"

lemma point_end: "point_ok p \<Longrightarrow> unat (pp_pdu p) + unat (pp_words p) \<le> 10000"
  unfolding point_ok_def by blast

lemma contig_append: "contig points a (is @ js) e \<longleftrightarrow> (\<exists>m. contig points a is m \<and> contig points m js e)"
  by (induction "is" arbitrary: a) simp_all

lemma contig_end:
  assumes "contig points a is e" "is \<noteq> []" "list_all (\<lambda>i. point_ok (points ! i)) is"
  shows "e \<le> 10000"
  using assms
proof (induction "is" arbitrary: a)
  case (Cons i "is")
  then show ?case by (cases "is = []") (auto simp: point_ok_def)
qed simp

lemma extend_group_ok:
  assumes g: "group_ok points mx g" "list_all (\<lambda>i. point_ok (points ! i)) (gp_members g)"
    and p: "point_ok (points ! i)" "\<not> start_new mx (points ! i) (Some g)"
  shows "group_ok points mx (extend_group (points ! i) i g)"
proof -
  let ?p = "points ! i" and ?e = "unat (gp_start g) + unat (gp_qty g)"
  have e: "?e \<le> 10000" using g contig_end by (auto simp: group_ok_def)
  then have pdu: "unat (pp_pdu ?p) = ?e"
    using p(2) by (simp add: start_new_def unat_sat_add)
  have sp: "unat (point_span ?p (gp_start g)) = unat (gp_qty g) + unat (pp_words ?p)"
    using point_end [OF p(1)] pdu by (simp add: point_span_def unat_sat_add unat_sat_sub)
  have "point_span ?p (gp_start g) \<le> mx" using p(2) by (simp add: start_new_def)
  then show ?thesis
    using g(1) pdu sp by (auto simp: group_ok_def extend_group_def contig_append word_le_nat_alt add.assoc)
qed

lemma group_loop_ok:
  assumes "list_all (\<lambda>i. point_ok (points ! i)) idxs" "2 \<le> unat mx"
    and "\<And>g. cur = Some g \<Longrightarrow> group_ok points mx g \<and> list_all (\<lambda>i. point_ok (points ! i)) (gp_members g)"
  shows "list_all (group_ok points mx) (group_loop points mx cur idxs)
    \<and> concat (map gp_members (group_loop points mx cur idxs)) = concat (map gp_members (opt_list cur)) @ idxs"
  using assms
proof (induction idxs arbitrary: cur)
  case Nil
  then show ?case by (simp add: opt_list_def split: option.split)
next
  case (Cons i idxs)
  have i: "point_ok (points ! i)" using Cons.prems(1) by simp
  show ?case
  proof (cases "start_new mx (points ! i) cur")
    case True
    have "group_ok points mx (new_group (points ! i) i)"
      using point_words [OF i] Cons.prems(2) by (simp add: group_ok_def new_group_def)
    moreover have "list_all (group_ok points mx) (opt_list cur)"
      using Cons.prems(3) by (simp add: opt_list_def split: option.split)
    moreover have "gp_members (new_group (points ! i) i) = [i]" by (simp add: new_group_def)
    ultimately show ?thesis
      using True i Cons.prems(1,2) Cons.IH [of "Some (new_group (points ! i) i)"] by (simp add: opt_list_def)
  next
    case False
    then obtain g where g: "cur = Some g" by (auto simp: start_new_def split: option.splits)
    have "group_ok points mx (extend_group (points ! i) i g)"
      using False g i Cons.prems(3) by (simp add: extend_group_ok)
    moreover have "gp_members (extend_group (points ! i) i g) = gp_members g @ [i]" by (simp add: extend_group_def)
    ultimately show ?thesis
      using False g i Cons.prems Cons.IH [of "Some (extend_group (points ! i) i g)"] by (simp add: opt_list_def)
  qed
qed

lemma build_groups_ok:
  assumes "list_all point_ok points" "2 \<le> unat mx"
  shows "list_all (group_ok points mx) (build_groups points pred mx)"
    and "set (concat (map gp_members (build_groups points pred mx))) = {i. i < length points \<and> pred (points ! i)}"
    and "distinct (concat (map gp_members (build_groups points pred mx)))"
proof -
  let ?idxs = "sort_key (\<lambda>i. pp_pdu (points ! i)) (filter (\<lambda>i. pred (points ! i)) [0 ..< length points])"
  have ok: "list_all (\<lambda>i. point_ok (points ! i)) ?idxs" using assms(1) by (auto simp: list_all_iff list_all_length)
  note gl = group_loop_ok [OF ok assms(2), of None]
  show "list_all (group_ok points mx) (build_groups points pred mx)"
    using gl by (simp add: build_groups_def)
  have c: "concat (map gp_members (build_groups points pred mx)) = ?idxs"
    using gl by (simp add: build_groups_def opt_list_def)
  show "set (concat (map gp_members (build_groups points pred mx))) = {i. i < length points \<and> pred (points ! i)}"
    unfolding c by auto
  show "distinct (concat (map gp_members (build_groups points pred mx)))"
    unfolding c by simp
qed

subsection \<open>Writing disjoint points\<close>

text \<open>Every listed point holds its words, and no address outside the points has changed.\<close>

definition wrote :: "planned_point list \<Rightarrow> (nat \<Rightarrow> 'a list) \<Rightarrow> nat list \<Rightarrow> (nat \<Rightarrow> 'a) \<Rightarrow> (nat \<Rightarrow> 'a) \<Rightarrow> bool" where
  "wrote points val is f f' \<longleftrightarrow>
     (\<forall>i \<in> set is. map f' [pdu_of points i ..< pdu_of points i + words_of points i] = val i)
     \<and> (\<forall>a. (\<forall>i \<in> set is. \<not> (pdu_of points i \<le> a \<and> a < pdu_of points i + words_of points i)) \<longrightarrow> f' a = f a)"

definition spans_apart :: "planned_point list \<Rightarrow> nat \<Rightarrow> nat \<Rightarrow> bool" where
  "spans_apart points i j \<longleftrightarrow>
     pdu_of points i + words_of points i \<le> pdu_of points j \<or> pdu_of points j + words_of points j \<le> pdu_of points i"

lemma wrote_nil: "wrote points val [] f f"
  by (simp add: wrote_def)

lemma wrote_append:
  assumes "wrote points val is f f1" "wrote points val js f1 f2"
    and "\<And>i j. i \<in> set is \<Longrightarrow> j \<in> set js \<Longrightarrow> spans_apart points i j"
  shows "wrote points val (is @ js) f f2"
proof -
  have "map f2 [pdu_of points i ..< pdu_of points i + words_of points i] = val i" if i: "i \<in> set is" for i
  proof -
    have "f2 a = f1 a" if "a \<in> set [pdu_of points i ..< pdu_of points i + words_of points i]" for a
    proof -
      have "\<not> (pdu_of points j \<le> a \<and> a < pdu_of points j + words_of points j)" if "j \<in> set js" for j
        using assms(3) [OF i that] \<open>a \<in> set _\<close> unfolding spans_apart_def set_upt by (elim disjE) simp_all
      then show ?thesis using assms(2) unfolding wrote_def by blast
    qed
    then have "map f2 [pdu_of points i ..< pdu_of points i + words_of points i]
        = map f1 [pdu_of points i ..< pdu_of points i + words_of points i]"
      by (rule map_cong [OF refl])
    moreover have "map f1 [pdu_of points i ..< pdu_of points i + words_of points i] = val i"
      using assms(1) i unfolding wrote_def by blast
    ultimately show ?thesis by (rule trans)
  qed
  then show ?thesis using assms(1,2) by (auto simp: wrote_def)
qed

lemma wrote_one:
  assumes "length (val i) = words_of points i"
  shows "wrote points val [i] f (put_range f (pdu_of points i) (val i))"
  using assms by (auto simp: wrote_def put_range_def intro!: nth_equalityI)

lemma put_range_append: "put_range f a (xs @ ys) = put_range (put_range f a xs) (a + length xs) ys"
  by (auto simp: put_range_def fun_eq_iff nth_append)

lemma contig_lower:
  "contig points a is e \<Longrightarrow> i \<in> set is \<Longrightarrow> a \<le> pdu_of points i"
  by (induction "is" arbitrary: a) (auto dest: add_leD1)

lemma contig_length:
  assumes "contig points a is e" "\<And>i. i \<in> set is \<Longrightarrow> length (val i) = words_of points i"
  shows "a + length (concat (map val is)) = e"
  using assms by (induction "is" arbitrary: a) (simp_all flip: add.assoc)

lemma wrote_group:
  assumes "contig points a is e" "\<And>i. i \<in> set is \<Longrightarrow> length (val i) = words_of points i"
  shows "wrote points val is f (put_range f a (concat (map val is)))"
  using assms
proof (induction "is" arbitrary: a f)
  case (Cons i "is")
  have i: "pdu_of points i = a" "contig points (a + words_of points i) is e" "length (val i) = words_of points i"
    using Cons.prems by simp_all
  have one: "wrote points val [i] f (put_range f a (val i))"
    using wrote_one [of val i points f] i by simp
  have more: "wrote points val is (put_range f a (val i)) (put_range (put_range f a (val i)) (a + words_of points i) (concat (map val is)))"
    using Cons.IH [OF i(2)] Cons.prems(2) by simp
  have "spans_apart points i j" if "j \<in> set is" for j
    using contig_lower [OF i(2) that] i(1) by (simp add: spans_apart_def)
  then show ?case
    using wrote_append [OF one more] i(3) by (simp add: put_range_append)
qed (simp add: wrote_nil)

text \<open>Points of one table.\<close>

lemma points_spans_apart:
  assumes "points_ok points" "i < length points" "j < length points" "i \<noteq> j"
    "pp_table (points ! i) = pp_table (points ! j)"
  shows "spans_apart points i j"
proof -
  have "points_apart (points ! i) (points ! j) \<or> points_apart (points ! j) (points ! i)"
    using assms(1-4) sorted_wrt_nth_less [of points_apart points] unfolding points_ok_def
    by (metis nat_neq_iff)
  then show ?thesis using assms(5) by (auto simp: points_apart_def spans_apart_def)
qed

lemma value_to_words_length:
  "point_ok p \<Longrightarrow> \<not> is_bit_table (pp_table p) \<Longrightarrow> length (value_to_words v p) = unat (pp_words p)"
  by (cases "pp_raw p") (auto simp: value_to_words_def point_ok_def split_words_def Let_def)

subsection \<open>The three loops that write\<close>

definition same_members :: "planned_point list \<Rightarrow> register_type \<Rightarrow> nat list \<Rightarrow> bool" where
  "same_members points table is \<longleftrightarrow>
     distinct is \<and> (\<forall>i \<in> set is. i < length points \<and> pp_table (points ! i) = table)"

lemma members_apart:
  assumes "points_ok points" "same_members points table (is @ js)" "i \<in> set is" "j \<in> set js"
  shows "spans_apart points i j"
  using assms by (intro points_spans_apart) (auto simp: same_members_def)

definition coil_bit :: "planned_point list \<Rightarrow> mail \<Rightarrow> bool \<Rightarrow> nat \<Rightarrow> bool" where
  "coil_bit points m force i = coil_on (selected (points ! i) m force) (points ! i)"

lemma coil_bit_fold: "(\<lambda>i. coil_on (selected (points ! i) m force) (points ! i)) = coil_bit points m force"
  by (simp add: fun_eq_iff coil_bit_def)

definition reg_words :: "planned_point list \<Rightarrow> mail \<Rightarrow> bool \<Rightarrow> nat \<Rightarrow> u16 list" where
  "reg_words points m force i = value_to_words (selected (points ! i) m force) (points ! i)"

lemma members_point_ok: "points_ok points \<Longrightarrow> same_members points table is \<Longrightarrow> i \<in> set is \<Longrightarrow> point_ok (points ! i)"
  by (auto simp: points_ok_def same_members_def list_all_length)

lemma members_single:
  assumes "points_ok points" "same_members points table is" "i \<in> set is" "is_bit_table table"
  shows "words_of points i = 1"
  using members_point_ok [OF assms(1-3)] assms(2-4) by (simp add: point_ok_def same_members_def)

lemma write_coil_groups_ok:
  assumes conf: "conforming ops view" and pts: "points_ok points"
    and "list_all (group_ok points mx) gs" "same_members points Coil (concat (map gp_members gs))"
    and "write_coil_groups ops unit points m force gs (tid, w) = (Inr u, tid', w')"
  shows "wrote points (\<lambda>i. [coil_bit points m force i]) (concat (map gp_members gs)) (dv_coils (view w)) (dv_coils (view w'))
    \<and> dv_holding (view w') = dv_holding (view w) \<and> net_reach ops w w'"
  using assms(3-5)
proof (induction gs arbitrary: tid w)
  case Nil
  then show ?case by (simp add: wrote_nil)
next
  case (Cons g gs)
  let ?val = "\<lambda>i. [coil_bit points m force i]" and ?ms = "gp_members g"
  let ?bits = "map (coil_bit points m force) ?ms"
  obtain tid1 w1 where one: "(if length ?bits = 1 then write_coil ops unit (gp_start g) (?bits ! 0)
        else write_coils ops unit (gp_start g) ?bits) (tid, w) = (Inr (), tid1, w1)"
    and rest: "write_coil_groups ops unit points m force gs (tid1, w1) = (Inr u, tid', w')"
    using Cons.prems(3) by (auto simp: Let_def sbind_Inr coil_bit_fold)
  have ms: "same_members points Coil ?ms" "same_members points Coil (concat (map gp_members gs))"
    using Cons.prems(2) by (auto simp: same_members_def)
  have len: "length (?val i) = words_of points i" if "i \<in> set ?ms" for i
    using members_single [OF pts ms(1) that] by (simp add: is_bit_table_def)
  have g: "contig points (unat (gp_start g)) ?ms (unat (gp_start g) + unat (gp_qty g))"
    using Cons.prems(1) by (simp add: group_ok_def)
  have bits: "concat (map ?val ?ms) = ?bits" by (induction ?ms) simp_all
  have "length ?ms = unat (gp_qty g)" using contig_length [OF g, of ?val] len by (simp add: bits)
  then have short: "length ?bits < 65536" using unat_bound [of "gp_qty g"] by simp
  note ok = coil_group_write_ok [OF conf short one]
  have first: "wrote points ?val ?ms (dv_coils (view w)) (dv_coils (view w1))"
    using wrote_group [OF g len, of "dv_coils (view w)"] ok(1) unfolding bits by (simp add: writable_def)
  have ih: "wrote points ?val (concat (map gp_members gs)) (dv_coils (view w1)) (dv_coils (view w'))"
    "dv_holding (view w') = dv_holding (view w1)" "net_reach ops w1 w'"
    using Cons.IH [OF _ ms(2) rest] Cons.prems(1) by simp_all
  have "wrote points ?val (?ms @ concat (map gp_members gs)) (dv_coils (view w)) (dv_coils (view w'))"
    by (rule wrote_append [OF first ih(1) members_apart [OF pts Cons.prems(2) [simplified list.map concat.simps]]])
  then show ?case
    using ih(2,3) ok by (auto simp: writable_def)
qed

lemma put_words_blit:
  assumes "off + length ws \<le> length regs"
  shows "put_words regs off ws = blit regs off ws"
  using assms
proof (induction ws rule: rev_induct)
  case Nil
  then show ?case by (simp add: put_words_def blit_def)
next
  case (snoc v ws)
  have "put_words regs off (ws @ [v]) = (blit regs off ws)[off + length ws := v]"
    using snoc by (simp add: put_words_def enumerate_append_eq)
  also have "\<dots> = blit regs off (ws @ [v])"
    using snoc.prems by (intro nth_equalityI) (auto simp: blit_def nth_append nth_list_update)
  finally show ?case .
qed

lemma fill_group:
  assumes "contig points (unat start + length xs) is (unat start + n)"
    and "\<And>i. i \<in> set is \<Longrightarrow> length (val i) = words_of points i"
  shows "foldl (\<lambda>regs i. put_words regs (unat (sat_sub (pp_pdu (points ! i)) start)) (val i))
      (xs @ replicate (n - length xs) 0) is = xs @ concat (map val is)"
  using assms
proof (induction "is" arbitrary: xs)
  case (Cons i "is")
  have i: "pdu_of points i = unat start + length xs" "length (val i) = words_of points i"
    using Cons.prems by simp_all
  have "unat start + length xs + length (concat (map val (i # is))) = unat start + n"
    by (rule contig_length [OF Cons.prems])
  then have n: "length xs + length (val i) \<le> n" by simp
  have "unat (sat_sub (pp_pdu (points ! i)) start) = length xs" using i(1) by (simp add: unat_sat_sub)
  moreover have "put_words (xs @ replicate (n - length xs) 0) (length xs) (val i)
      = (xs @ val i) @ replicate (n - length (xs @ val i)) 0"
    using n by (simp add: put_words_blit blit_def)
  ultimately show ?case
    using Cons.IH [of "xs @ val i"] Cons.prems i by (simp add: add.assoc)
qed simp

lemma group_regs_concat:
  assumes "contig points (unat (gp_start g)) (gp_members g) (unat (gp_start g) + unat (gp_qty g))"
    and "\<And>i. i \<in> set (gp_members g) \<Longrightarrow> length (reg_words points m force i) = words_of points i"
  shows "group_regs points m force g = concat (map (reg_words points m force) (gp_members g))"
  using fill_group [of points "gp_start g" "[]" "gp_members g" "unat (gp_qty g)" "reg_words points m force"] assms
  by (simp add: group_regs_def reg_words_def)

lemma write_reg_groups_ok:
  assumes conf: "conforming ops view" and pts: "points_ok points" and mx: "unat mx < 32000"
    and "list_all (group_ok points mx) gs" "same_members points Holding (concat (map gp_members gs))"
    and "write_reg_groups ops unit points m force gs (tid, w) = (Inr u, tid', w')"
  shows "wrote points (reg_words points m force) (concat (map gp_members gs)) (dv_holding (view w)) (dv_holding (view w'))
    \<and> dv_coils (view w') = dv_coils (view w) \<and> net_reach ops w w'"
  using assms(4-6)
proof (induction gs arbitrary: tid w)
  case Nil
  then show ?case by (simp add: wrote_nil)
next
  case (Cons g gs)
  let ?val = "reg_words points m force" and ?ms = "gp_members g" and ?regs = "group_regs points m force g"
  obtain tid1 w1 where one: "(if length ?regs = 1 then write_reg ops unit (gp_start g) (?regs ! 0)
        else if ?regs \<noteq> [] then write_regs ops unit (gp_start g) ?regs else sret ()) (tid, w) = (Inr (), tid1, w1)"
    and rest: "write_reg_groups ops unit points m force gs (tid1, w1) = (Inr u, tid', w')"
    using Cons.prems(3) by (auto simp: Let_def sbind_Inr)
  have ms: "same_members points Holding ?ms" "same_members points Holding (concat (map gp_members gs))"
    using Cons.prems(2) by (auto simp: same_members_def)
  have len: "length (?val i) = words_of points i" if i: "i \<in> set ?ms" for i
    using value_to_words_length [OF members_point_ok [OF pts ms(1) i]] ms(1) i
    by (simp add: reg_words_def same_members_def is_bit_table_def)
  have g: "contig points (unat (gp_start g)) ?ms (unat (gp_start g) + unat (gp_qty g))"
    using Cons.prems(1) by (simp add: group_ok_def)
  have regs: "?regs = concat (map ?val ?ms)" by (rule group_regs_concat [OF g len])
  have "length ?regs = unat (gp_qty g)" using contig_length [OF g len] unfolding regs by simp
  then have short: "length ?regs < 32000" using Cons.prems(1) mx by (simp add: group_ok_def)
  note ok = reg_group_write_ok [OF conf short one]
  have first: "wrote points ?val ?ms (dv_holding (view w)) (dv_holding (view w1))"
    using wrote_group [OF g len, of "dv_holding (view w)"] ok(1) by (simp add: writable_def regs)
  have ih: "wrote points ?val (concat (map gp_members gs)) (dv_holding (view w1)) (dv_holding (view w'))"
    "dv_coils (view w') = dv_coils (view w1)" "net_reach ops w1 w'"
    using Cons.IH [OF _ ms(2) rest] Cons.prems(1) by simp_all
  have "wrote points ?val (?ms @ concat (map gp_members gs)) (dv_holding (view w)) (dv_holding (view w'))"
    by (rule wrote_append [OF first ih(1) members_apart [OF pts Cons.prems(2) [simplified list.map concat.simps]]])
  then show ?case
    using ih(2,3) ok by (auto simp: writable_def)
qed

definition bit_val :: "planned_point list \<Rightarrow> mail \<Rightarrow> bool \<Rightarrow> (nat \<Rightarrow> u16) \<Rightarrow> nat \<Rightarrow> u16 list" where
  "bit_val points m force f i = [bit_word (points ! i) (coil_bit points m force i) (f (pdu_of points i))]"

lemma wrote_cong:
  assumes "wrote points val is f f'" "\<And>i. i \<in> set is \<Longrightarrow> val i = val' i"
  shows "wrote points val' is f f'"
  using assms unfolding wrote_def by simp

lemma write_bit_outs_ok:
  assumes conf: "conforming ops view" and pts: "points_ok points"
    and "same_members points Holding is" "\<And>i. i \<in> set is \<Longrightarrow> words_of points i = 1"
    and "write_bit_outs ops unit points m force is (tid, w) = (Inr u, tid', w')"
  shows "wrote points (bit_val points m force (dv_holding (view w))) is (dv_holding (view w)) (dv_holding (view w'))
    \<and> dv_coils (view w') = dv_coils (view w) \<and> net_reach ops w w'"
  using assms(3-5)
proof (induction "is" arbitrary: tid w)
  case Nil
  then show ?case by (simp add: wrote_nil)
next
  case (Cons i "is")
  let ?val = "bit_val points m force (dv_holding (view w))" and ?p = "points ! i"
  obtain regs tid1 w1 tid2 w2 where r: "read_regs ops unit 3 (pp_pdu ?p) 1 (tid, w) = (Inr regs, tid1, w1)"
    and wr: "write_reg ops unit (pp_pdu ?p) (bit_word ?p (coil_bit points m force i) (reg_or_0 regs 0)) (tid1, w1) = (Inr (), tid2, w2)"
    and rest: "write_bit_outs ops unit points m force is (tid2, w2) = (Inr u, tid', w')"
    using Cons.prems(3) by (auto simp: Let_def sbind_Inr coil_bit_def)
  note ro = read_regs_ok [OF conf _ r, simplified]
  note wo = write_reg_ok [OF conf wr]
  have f1: "dv_holding (view w1) = dv_holding (view w)" "dv_coils (view w1) = dv_coils (view w)"
    using ro(2) by (simp_all add: writable_def)
  have reg: "reg_or_0 regs 0 = dv_holding (view w) (pdu_of points i)"
    using ro(1) by (simp add: reg_or_0_def nth_opt_def word_table_def)
  have h2: "dv_holding (view w2) = put_range (dv_holding (view w)) (pdu_of points i) (?val i)"
    using wo(1) f1 reg by (simp add: writable_def bit_val_def put_range_one)
  have len: "length (?val i) = words_of points i" using Cons.prems(2) by (simp add: bit_val_def)
  have first: "wrote points ?val [i] (dv_holding (view w)) (dv_holding (view w2))"
    unfolding h2 by (rule wrote_one) (rule len)
  have ms: "same_members points Holding is" "same_members points Holding ([i] @ is)"
    using Cons.prems(1) by (auto simp: same_members_def)
  have ih: "wrote points (bit_val points m force (dv_holding (view w2))) is (dv_holding (view w2)) (dv_holding (view w'))"
    "dv_coils (view w') = dv_coils (view w2)" "net_reach ops w2 w'"
    using Cons.IH [OF ms(1) _ rest] Cons.prems(2) by simp_all
  have "dv_holding (view w2) (pdu_of points j) = dv_holding (view w) (pdu_of points j)" if j: "j \<in> set is" for j
    using members_apart [OF pts ms(2) _ j, of i] Cons.prems(2) [of i] Cons.prems(2) [of j] j len
    by (auto simp: h2 put_range_def spans_apart_def)
  then have more: "wrote points ?val is (dv_holding (view w2)) (dv_holding (view w'))"
    by (intro wrote_cong [OF ih(1)]) (simp add: bit_val_def)
  have "wrote points ?val ([i] @ is) (dv_holding (view w)) (dv_holding (view w'))"
    by (rule wrote_append [OF first more members_apart [OF pts ms(2)]])
  then show ?case
    using ih(2,3) wo ro(3) f1 by (auto simp: writable_def)
qed

text \<open>What the writing part of a poll has to achieve: the output points of the three kinds hold the
  selected values, everything else is as before.\<close>

definition outputs_written :: "planned_point list \<Rightarrow> mail \<Rightarrow> bool \<Rightarrow> device \<Rightarrow> device \<Rightarrow> bool" where
  "outputs_written points m force d d' \<longleftrightarrow>
     (\<forall>p \<in> set points.
        (is_coil_out p \<longrightarrow> dv_coils d' (unat (pp_pdu p)) = coil_on (selected p m force) p)
        \<and> (is_reg_out p \<longrightarrow>
            map (dv_holding d') [unat (pp_pdu p) ..< unat (pp_pdu p) + unat (pp_words p)] = value_to_words (selected p m force) p)
        \<and> (is_bit_out p \<longrightarrow>
            dv_holding d' (unat (pp_pdu p)) = bit_word p (coil_on (selected p m force) p) (dv_holding d (unat (pp_pdu p)))))
     \<and> (\<forall>a. (\<forall>p \<in> set points. is_coil_out p \<longrightarrow> unat (pp_pdu p) \<noteq> a) \<longrightarrow> dv_coils d' a = dv_coils d a)
     \<and> (\<forall>a. (\<forall>p \<in> set points. is_reg_out p \<or> is_bit_out p \<longrightarrow>
               a < unat (pp_pdu p) \<or> unat (pp_pdu p) + unat (pp_words p) \<le> a) \<longrightarrow> dv_holding d' a = dv_holding d a)"

subsection \<open>The worker's record\<close>

definition rt_ok :: "mod_rt \<Rightarrow> bool" where
  "rt_ok rt \<longleftrightarrow>
     points_ok (rt_points rt)
     \<and> rt_read_groups rt = read_group_list (rt_points rt)
     \<and> rt_coil_groups rt = build_groups (rt_points rt) is_coil_out 1968
     \<and> rt_reg_groups rt = build_groups (rt_points rt) is_reg_out 123
     \<and> rt_bit_outs rt = filter (\<lambda>i. is_bit_out (rt_points rt ! i)) [0 ..< length (rt_points rt)]
     \<and> length (rt_last_inputs rt) = length (filter (\<lambda>p. pp_input_pos p \<noteq> None) (rt_points rt))"

lemma points_all_ok: "points_ok points \<Longrightarrow> list_all point_ok points"
  by (simp add: points_ok_def)

lemma build_groups_members:
  assumes "points_ok points" "2 \<le> unat mx" "\<And>p. pred p \<Longrightarrow> pp_table p = table"
  shows "same_members points table (concat (map gp_members (build_groups points pred mx)))"
  using build_groups_ok(2,3) [OF points_all_ok [OF assms(1)] assms(2), of pred] assms(3)
  unfolding same_members_def by blast

lemma bit_out_words:
  assumes "points_ok points" "i < length points" "is_bit_out (points ! i)"
  shows "words_of points i = 1"
  using assms by (auto simp: points_ok_def list_all_length point_ok_def is_bit_out_def is_bit_table_def)

lemma reg_bit_wrote:
  assumes pts: "points_ok points" and ms: "same_members points Holding (rs @ bs)"
    and ones: "\<And>i. i \<in> set bs \<Longrightarrow> words_of points i = 1"
    and regs: "wrote points (reg_words points m force) rs h h1"
    and bits: "wrote points (bit_val points m force h1) bs h1 h2"
  shows "wrote points (\<lambda>i. if i \<in> set rs then reg_words points m force i else bit_val points m force h i) (rs @ bs) h h2"
proof -
  have new: "i \<notin> set rs" if "i \<in> set bs" for i using ms that by (auto simp: same_members_def)
  have "h1 (pdu_of points i) = h (pdu_of points i)" if i: "i \<in> set bs" for i
  proof -
    have "\<not> (pdu_of points j \<le> pdu_of points i \<and> pdu_of points i < pdu_of points j + words_of points j)" if j: "j \<in> set rs" for j
      using members_apart [OF pts ms j i] ones [OF i] by (auto simp: spans_apart_def)
    then show ?thesis using regs unfolding wrote_def by blast
  qed
  then have val: "bit_val points m force h1 i = bit_val points m force h i" if "i \<in> set bs" for i
    using that by (simp add: bit_val_def)
  show ?thesis
    by (rule wrote_append [OF wrote_cong [OF regs] wrote_cong [OF bits] members_apart [OF pts ms]])
      (simp_all add: val new)
qed

lemma wrote_outputs:
  assumes pts: "points_ok points"
    and K: "wrote points (\<lambda>i. [coil_bit points m force i]) cs (dv_coils d) (dv_coils d')"
    and cs: "set cs = {i. i < length points \<and> is_coil_out (points ! i)}"
    and H: "wrote points (\<lambda>i. if i \<in> set rs then reg_words points m force i else bit_val points m force (dv_holding d) i)
      (rs @ bs) (dv_holding d) (dv_holding d')"
    and rs: "set rs = {i. i < length points \<and> is_reg_out (points ! i)}"
    and bs: "set bs = {i. i < length points \<and> is_bit_out (points ! i)}"
  shows "outputs_written points m force d d'"
proof -
  have one: "words_of points i = 1" if "i < length points" "is_coil_out (points ! i) \<or> is_bit_out (points ! i)" for i
    using pts that by (auto simp: points_ok_def list_all_length point_ok_def is_bit_out_def is_coil_out_def is_bit_table_def)
  have coil: "dv_coils d' (pdu_of points i) = coil_bit points m force i"
    if "i < length points" "is_coil_out (points ! i)" for i
  proof -
    have "map (dv_coils d') [pdu_of points i ..< pdu_of points i + words_of points i] = [coil_bit points m force i]"
      using K cs that unfolding wrote_def by blast
    then show ?thesis using one [of i] that by simp
  qed
  have bit: "dv_holding d' (pdu_of points i) = bit_word (points ! i) (coil_bit points m force i) (dv_holding d (pdu_of points i))"
    if i: "i < length points" "is_bit_out (points ! i)" for i
  proof -
    have "i \<in> set bs" "i \<notin> set rs" using rs bs i by (auto simp: is_reg_out_def is_bit_out_def)
    then have "map (dv_holding d') [pdu_of points i ..< pdu_of points i + words_of points i] = bit_val points m force (dv_holding d) i"
      using H unfolding wrote_def by auto
    then show ?thesis using one [of i] i by (simp add: bit_val_def)
  qed
  have reg: "map (dv_holding d') [pdu_of points i ..< pdu_of points i + words_of points i] = reg_words points m force i"
    if "i < length points" "is_reg_out (points ! i)" for i
    using H rs that unfolding wrote_def by auto
  have keep_c: "dv_coils d' a = dv_coils d a" if "\<forall>p \<in> set points. is_coil_out p \<longrightarrow> unat (pp_pdu p) \<noteq> a" for a
  proof -
    have "\<not> (pdu_of points i \<le> a \<and> a < pdu_of points i + words_of points i)" if "i \<in> set cs" for i
      using \<open>\<forall>p \<in> set points. _ p\<close> that cs one [of i] by (auto simp: all_set_conv_all_nth)
    then show ?thesis using K unfolding wrote_def by blast
  qed
  have keep_h: "dv_holding d' a = dv_holding d a"
    if "\<forall>p \<in> set points. is_reg_out p \<or> is_bit_out p \<longrightarrow> a < unat (pp_pdu p) \<or> unat (pp_pdu p) + unat (pp_words p) \<le> a" for a
  proof -
    have "\<not> (pdu_of points i \<le> a \<and> a < pdu_of points i + words_of points i)" if "i \<in> set (rs @ bs)" for i
      using \<open>\<forall>p \<in> set points. _ p\<close> that rs bs by (auto simp: all_set_conv_all_nth)
    then show ?thesis using H unfolding wrote_def by blast
  qed
  show ?thesis
    unfolding outputs_written_def all_set_conv_all_nth
    using coil bit reg keep_c keep_h by (simp add: coil_bit_def reg_words_def all_set_conv_all_nth)
qed

lemma write_with_ok:
  assumes conf: "conforming ops view" and rt: "rt_ok rt"
    and wr: "write_with ops rt m force (tid, w) = (Inr u, tid', w')"
  shows "outputs_written (rt_points rt) m force (view w) (view w')" "net_reach ops w w'"
proof -
  let ?pts = "rt_points rt"
  let ?cs = "concat (map gp_members (rt_coil_groups rt))" and ?rs = "concat (map gp_members (rt_reg_groups rt))"
    and ?bs = "rt_bit_outs rt"
  have pts: "points_ok ?pts" using rt by (simp add: rt_ok_def)
  note grp = build_groups_ok [OF points_all_ok [OF pts]]
  have cs: "list_all (group_ok ?pts 1968) (rt_coil_groups rt)" "same_members ?pts Coil ?cs"
    "set ?cs = {i. i < length ?pts \<and> is_coil_out (?pts ! i)}"
    using rt grp(1,2) [of 1968 is_coil_out] build_groups_members [OF pts, of 1968 is_coil_out Coil]
    by (simp_all add: rt_ok_def is_coil_out_def)
  have rs: "list_all (group_ok ?pts 123) (rt_reg_groups rt)" "same_members ?pts Holding ?rs"
    "set ?rs = {i. i < length ?pts \<and> is_reg_out (?pts ! i)}"
    using rt grp(1,2) [of 123 is_reg_out] build_groups_members [OF pts, of 123 is_reg_out Holding]
    by (simp_all add: rt_ok_def is_reg_out_def)
  have bs: "set ?bs = {i. i < length ?pts \<and> is_bit_out (?pts ! i)}" "distinct ?bs"
    using rt by (auto simp: rt_ok_def)
  have ones: "words_of ?pts i = 1" if "i \<in> set ?bs" for i using bit_out_words [OF pts] that bs(1) by auto
  have rbs: "same_members ?pts Holding (?rs @ ?bs)"
    using rs(2,3) bs by (auto simp: same_members_def is_reg_out_def is_bit_out_def)
  then have bms: "same_members ?pts Holding ?bs" by (simp add: same_members_def)
  obtain t1 w1 t2 w2 where
    c: "write_coil_groups ops (rt_unit rt) ?pts m force (rt_coil_groups rt) (tid, w) = (Inr (), t1, w1)" and
    r: "write_reg_groups ops (rt_unit rt) ?pts m force (rt_reg_groups rt) (t1, w1) = (Inr (), t2, w2)" and
    b: "write_bit_outs ops (rt_unit rt) ?pts m force ?bs (t2, w2) = (Inr u, tid', w')"
    using wr by (auto simp: write_with_def sbind_Inr)
  note C = write_coil_groups_ok [OF conf pts cs(1,2) c]
  note R = write_reg_groups_ok [OF conf pts _ rs(1,2) r, simplified]
  note B = write_bit_outs_ok [OF conf pts bms ones b]
  have H: "wrote ?pts (\<lambda>i. if i \<in> set ?rs then reg_words ?pts m force i else bit_val ?pts m force (dv_holding (view w)) i)
      (?rs @ ?bs) (dv_holding (view w)) (dv_holding (view w'))"
    using reg_bit_wrote [OF pts rbs ones] R B C by auto
  have K: "wrote ?pts (\<lambda>i. [coil_bit ?pts m force i]) ?cs (dv_coils (view w)) (dv_coils (view w'))"
    using C R B by simp
  show "outputs_written ?pts m force (view w) (view w')"
    by (rule wrote_outputs [OF pts K cs(3) H rs(3) bs(1)])
  show "net_reach ops w w'" using C R B by auto
qed

end
