(* ===== verification/ModbusProps.thy ===== *)
theory ModbusProps
  imports ModbusGroups
begin

section \<open>Modbus: inputs are read and outputs written where the points say\<close>

text \<open>
  A module worker with its shared cells runs as a transition system in which the scan thread may post
  outputs at any time. In it every published value has its declared type, the successful part of a
  poll reads every input point from the device and writes every output point to it and nothing else,
  and after a failure everything is marked Bad.
\<close>

subsection \<open>Reading the input points\<close>

definition point_value :: "device \<Rightarrow> planned_point \<Rightarrow> plc_value" where
  "point_value d p =
     (let fc = read_fc (pp_table p)
      in if is_bit_table (pp_table p)
         then decode_number (f64_of (if bit_table fc d (unat (pp_pdu p)) then 1 else 0)) p
         else decode_regs (map (word_table fc d) [unat (pp_pdu p) ..< unat (pp_pdu p) + unat (pp_words p)]) p)"

lemma point_value_type: "plc_value_type (point_value d p) = pp_value_type p"
  by (cases "pp_value_type p") (simp_all add: point_value_def decode_regs_def decode_number_def finish_def Let_def)

lemma contig_upper:
  "contig points a is e \<Longrightarrow> i \<in> set is \<Longrightarrow> pdu_of points i + words_of points i \<le> e"
proof (induction "is" arbitrary: a)
  case (Cons j "is")
  show ?case
  proof (cases "i = j")
    case True
    have "a + words_of points j \<le> e"
      using Cons.prems(1) contig_length [of points "a + words_of points j" "is" e "\<lambda>i. replicate (words_of points i) ()"] by simp
    then show ?thesis using Cons.prems(1) True by simp
  next
    case False
    then show ?thesis using Cons.IH [of "a + words_of points j"] Cons.prems by simp
  qed
qed simp

lemma drop_bit_and_1: "drop_bit k b AND 1 = (1 :: 'a::len word) \<longleftrightarrow> bit b k"
  by (simp add: and_one_eq bit_iff_odd_drop_bit odd_iff_mod_2_eq_one)

lemma read_group_member:
  assumes conf: "conforming ops view"
    and r: "read_group ops unit table g (tid, w) = (Inr data, tid', w')"
    and g: "contig points (unat (gp_start g)) (gp_members g) (unat (gp_start g) + unat (gp_qty g))"
    and i: "i \<in> set (gp_members g)" "pp_table (points ! i) = table" "1 \<le> words_of points i"
  shows "member_value (points ! i) g data = Inr (point_value (view w) (points ! i))"
proof -
  let ?s = "unat (gp_start g)" and ?n = "unat (gp_qty g)" and ?rel = "unat (sat_sub (pp_pdu (points ! i)) (gp_start g))"
  have rel: "?s + ?rel = pdu_of points i" "?rel + words_of points i \<le> ?n"
    using contig_lower [OF g i(1)] contig_upper [OF g i(1)] by (simp_all add: unat_sat_sub)
  then have lt: "?rel < ?n" using i(3) by simp
  show ?thesis
  proof (cases "is_bit_table table")
    case True
    have fc: "read_fc table = 1 \<or> read_fc table = 2" using True by (auto simp: is_bit_table_def)
    obtain bs where bs: "read_bits ops unit (read_fc table) (gp_start g) (gp_qty g) (tid, w) = (Inr bs, tid', w')" "data = Bits bs"
      using r True by (auto simp: read_group_def sbind_Inr)
    have b: "bs = pack_bools (map (bit_table (read_fc table) (view w)) [?s ..< ?s + ?n])"
      by (rule read_bits_ok(1) [OF conf fc bs(1)])
    have "?rel div 8 < length bs" using lt unfolding b by simp
    moreover have "bit (bs ! (?rel div 8)) (?rel mod 8) = bit_table (read_fc table) (view w) (pdu_of points i)"
      unfolding b using lt rel(1) by (simp add: pack_bools_bit)
    ultimately show ?thesis
      using True i(2) by (simp add: member_value_def bs(2) point_value_def Let_def nth_opt_def drop_bit_and_1)
  next
    case False
    have fc: "read_fc table = 3 \<or> read_fc table = 4" using False by (cases table) (auto simp: is_bit_table_def)
    obtain rs where rs: "read_regs ops unit (read_fc table) (gp_start g) (gp_qty g) (tid, w) = (Inr rs, tid', w')" "data = Regs rs"
      using r False by (auto simp: read_group_def sbind_Inr)
    have v: "rs = map (word_table (read_fc table) (view w)) [?s ..< ?s + ?n]"
      by (rule read_regs_ok(1) [OF conf fc rs(1)])
    have "slice ?rel (?rel + words_of points i) rs
        = map (word_table (read_fc table) (view w)) [pdu_of points i ..< pdu_of points i + words_of points i]"
      unfolding v using rel by (intro nth_equalityI) (simp_all add: slice_def drop_map take_map add.assoc [symmetric])
    then show ?thesis
      using False i(2) rel by (simp add: member_value_def rs(2) point_value_def Let_def v)
  qed
qed

lemma distinct_map_filter_inj:
  assumes "distinct (map f (filter P xs))" "i < length xs" "j < length xs" "P (xs ! i)" "P (xs ! j)" "f (xs ! i) = f (xs ! j)"
  shows "i = j"
  using assms
proof (induction xs arbitrary: i j)
  case (Cons x xs)
  have tail: "xs ! k \<in> set (filter P xs)" if "k < length xs" "P (xs ! k)" for k using that by simp
  show ?case
  proof (cases i; cases j)
    fix k
    assume "i = 0" "j = Suc k"
    then show ?thesis using Cons.prems tail [of k] by (auto simp: image_iff)
  next
    fix k
    assume "i = Suc k" "j = 0"
    then show ?thesis using Cons.prems tail [of k] by (auto simp: image_iff)
  next
    fix k l
    assume "i = Suc k" "j = Suc l"
    then show ?thesis using Cons by (auto split: if_splits)
  qed simp
qed simp

lemma input_pos_inj:
  assumes "points_ok points" "i < length points" "j < length points"
    "pp_input_pos (points ! i) = Some pos" "pp_input_pos (points ! j) = Some pos"
  shows "i = j"
  by (rule distinct_map_filter_inj [of "\<lambda>p. the (pp_input_pos p)" "\<lambda>p. pp_input_pos p \<noteq> None" points])
    (use assms in \<open>auto simp: points_ok_def taken_positions_def\<close>)

lemma input_pos_bound:
  assumes "points_ok points" "p \<in> set points" "pp_input_pos p = Some pos"
  shows "pos < length (filter (\<lambda>p. pp_input_pos p \<noteq> None) points)"
proof -
  have "the (pp_input_pos p) \<in> set (taken_positions pp_input_pos points)"
    using assms(2,3) by (force simp: taken_positions_def)
  then show ?thesis using assms(1,3) by (simp add: points_ok_def)
qed

lemma store_members_ok:
  assumes "\<And>i. i \<in> set is \<Longrightarrow> member_value (points ! i) g data = Inr (V i)"
    and "distinct (map (\<lambda>i. pp_input_pos (points ! i)) is)"
    and "\<And>i. i \<in> set is \<Longrightarrow> \<exists>pos. pp_input_pos (points ! i) = Some pos \<and> pos < length vals"
  shows "\<exists>vals'. store_members points g data is vals = (Inr (), vals') \<and> length vals' = length vals
    \<and> (\<forall>i \<in> set is. vals' ! the (pp_input_pos (points ! i)) = V i)
    \<and> (\<forall>pos. Some pos \<notin> set (map (\<lambda>i. pp_input_pos (points ! i)) is) \<longrightarrow> vals' ! pos = vals ! pos)"
  using assms
proof (induction "is" arbitrary: vals)
  case (Cons i "is")
  obtain pos where pos: "pp_input_pos (points ! i) = Some pos" "pos < length vals" using Cons.prems(3) by auto
  have fresh: "Some pos \<notin> set (map (\<lambda>i. pp_input_pos (points ! i)) is)" using Cons.prems(2) pos(1) by simp
  have "\<exists>vals'. store_members points g data is (vals[pos := V i]) = (Inr (), vals') \<and> length vals' = length vals
    \<and> (\<forall>i \<in> set is. vals' ! the (pp_input_pos (points ! i)) = V i)
    \<and> (\<forall>q. Some q \<notin> set (map (\<lambda>i. pp_input_pos (points ! i)) is) \<longrightarrow> vals' ! q = vals[pos := V i] ! q)"
    using Cons.IH [of "vals[pos := V i]"] Cons.prems by simp
  then obtain vals' where v: "store_members points g data is (vals[pos := V i]) = (Inr (), vals')" "length vals' = length vals"
    "\<forall>i \<in> set is. vals' ! the (pp_input_pos (points ! i)) = V i"
    "\<forall>q. Some q \<notin> set (map (\<lambda>i. pp_input_pos (points ! i)) is) \<longrightarrow> vals' ! q = vals[pos := V i] ! q"
    by blast
  have "vals' ! pos = V i" using v(4) fresh pos(2) by simp
  moreover have "vals' ! q = vals ! q" if "Some q \<notin> set (map (\<lambda>i. pp_input_pos (points ! i)) (i # is))" for q
    using v(4) that pos(1) by auto
  ultimately show ?case
    using v(1-3) Cons.prems(1) pos by auto
qed simp

definition read_group_ok :: "planned_point list \<Rightarrow> group \<Rightarrow> bool" where
  "read_group_ok points g \<longleftrightarrow>
     contig points (unat (gp_start g)) (gp_members g) (unat (gp_start g) + unat (gp_qty g))
     \<and> (\<forall>i \<in> set (gp_members g). i < length points \<and> pp_direction (points ! i) = DirInput
           \<and> pp_table (points ! i) = pp_table (points ! hd (gp_members g)))"

text \<open>A value that the device had at some moment of the exchange.\<close>

definition read_during :: "'w net_ops \<Rightarrow> ('w \<Rightarrow> device) \<Rightarrow> 'w \<Rightarrow> 'w \<Rightarrow> planned_point \<Rightarrow> plc_value \<Rightarrow> bool" where
  "read_during ops view w w' p v \<longleftrightarrow> (\<exists>x. net_reach ops w x \<and> net_reach ops x w' \<and> v = point_value (view x) p)"

lemma read_during_mono:
  "read_during ops view w1 w2 p v \<Longrightarrow> net_reach ops w w1 \<Longrightarrow> net_reach ops w2 w' \<Longrightarrow> read_during ops view w w' p v"
  unfolding read_during_def by (blast intro: rtranclp_trans)

definition static_eq :: "mod_rt \<Rightarrow> mod_rt \<Rightarrow> bool" where
  "static_eq rt rt' \<longleftrightarrow>
     (\<exists>vals tid con due. length vals = length (rt_last_inputs rt)
        \<and> rt' = rt\<lparr>rt_last_inputs := vals, rt_tid := tid, rt_connected := con, rt_next_due := due\<rparr>)"

lemma static_eq_upd [simp]:
  "static_eq rt rt" "static_eq rt (rt\<lparr>rt_tid := t\<rparr>)" "static_eq rt (rt\<lparr>rt_connected := c\<rparr>)"
  "static_eq rt (rt\<lparr>rt_next_due := n\<rparr>)" "length vs = length (rt_last_inputs rt) \<Longrightarrow> static_eq rt (rt\<lparr>rt_last_inputs := vs\<rparr>)"
  unfolding static_eq_def by (cases rt; force)+

lemma static_eq_trans: "static_eq a b \<Longrightarrow> static_eq b c \<Longrightarrow> static_eq a c"
  unfolding static_eq_def by force

lemma static_eq_fields:
  assumes "static_eq rt rt'"
  shows "rt_points rt' = rt_points rt" "length (rt_last_inputs rt') = length (rt_last_inputs rt)"
    "rt_unit rt' = rt_unit rt" "rt_ok rt' \<longleftrightarrow> rt_ok rt"
  using assms by (auto simp: static_eq_def rt_ok_def)

lemma read_one_group:
  assumes conf: "conforming ops view" and pts: "points_ok (rt_points rt)"
    and g: "read_group_ok (rt_points rt) g" "distinct (gp_members g)"
    and len: "length (rt_last_inputs rt) = length (filter (\<lambda>p. pp_input_pos p \<noteq> None) (rt_points rt))"
    and r: "read_group ops unit (pp_table (rt_points rt ! hd (gp_members g))) g (tid, w) = (Inr data, tid', w')"
  shows "\<exists>vals. store_group rt g data = (Inr (), rt\<lparr>rt_last_inputs := vals\<rparr>)
    \<and> length vals = length (rt_last_inputs rt)
    \<and> (\<forall>i \<in> set (gp_members g). vals ! the (pp_input_pos (rt_points rt ! i)) = point_value (view w) (rt_points rt ! i))
    \<and> (\<forall>pos. Some pos \<notin> (\<lambda>i. pp_input_pos (rt_points rt ! i)) ` set (gp_members g) \<longrightarrow> vals ! pos = rt_last_inputs rt ! pos)"
proof -
  let ?pts = "rt_points rt"
  have ok: "point_ok (?pts ! i)" "i < length ?pts" "pp_direction (?pts ! i) = DirInput" if "i \<in> set (gp_members g)" for i
    using that g(1) pts by (auto simp: read_group_ok_def points_ok_def list_all_length)
  have val: "member_value (?pts ! i) g data = Inr (point_value (view w) (?pts ! i))" if i: "i \<in> set (gp_members g)" for i
    using read_group_member [OF conf r _ i] g(1) i point_words(1) [OF ok(1) [OF i]] by (simp add: read_group_ok_def)
  have pos: "\<exists>pos. pp_input_pos (?pts ! i) = Some pos \<and> pos < length (rt_last_inputs rt)" if i: "i \<in> set (gp_members g)" for i
  proof -
    obtain q where "pp_input_pos (?pts ! i) = Some q" using ok(1,3) [OF i] by (auto simp: point_ok_def)
    then show ?thesis using input_pos_bound [OF pts, of "?pts ! i" q] ok(2) [OF i] len by simp
  qed
  have dis: "distinct (map (\<lambda>i. pp_input_pos (?pts ! i)) (gp_members g))"
    unfolding distinct_map
  proof (intro conjI g(2) inj_onI)
    fix i j
    assume i: "i \<in> set (gp_members g)" and j: "j \<in> set (gp_members g)" and eq: "pp_input_pos (?pts ! i) = pp_input_pos (?pts ! j)"
    obtain q where "pp_input_pos (?pts ! i) = Some q" using pos [OF i] by auto
    then show "i = j" using input_pos_inj [OF pts ok(2) [OF i] ok(2) [OF j]] eq by simp
  qed
  show ?thesis
    using store_members_ok [OF val dis pos] by (auto simp: store_group_def)
qed

lemma read_group_frame:
  assumes conf: "conforming ops view" and r: "read_group ops unit table g (tid, w) = (Inr data, tid', w')"
  shows "writable (view w') = writable (view w)" "net_reach ops w w'"
proof -
  have "writable (view w') = writable (view w) \<and> net_reach ops w w'"
  proof (cases "is_bit_table table")
    case True
    then have fc: "read_fc table = 1 \<or> read_fc table = 2" by (auto simp: is_bit_table_def)
    obtain x where "read_bits ops unit (read_fc table) (gp_start g) (gp_qty g) (tid, w) = (Inr x, tid', w')"
      using r True by (auto simp: read_group_def sbind_Inr)
    then show ?thesis using read_bits_ok(2,3) [OF conf fc] by blast
  next
    case False
    then have fc: "read_fc table = 3 \<or> read_fc table = 4" by (cases table) (auto simp: is_bit_table_def)
    obtain x where "read_regs ops unit (read_fc table) (gp_start g) (gp_qty g) (tid, w) = (Inr x, tid', w')"
      using r False by (auto simp: read_group_def sbind_Inr)
    then show ?thesis using read_regs_ok(2,3) [OF conf fc] by blast
  qed
  then show "writable (view w') = writable (view w)" "net_reach ops w w'" by simp_all
qed

lemma read_inputs_loop_ok:
  assumes conf: "conforming ops view"
    and "points_ok (rt_points rt)" "list_all (read_group_ok (rt_points rt)) gs" "distinct (concat (map gp_members gs))"
    and "length (rt_last_inputs rt) = length (filter (\<lambda>p. pp_input_pos p \<noteq> None) (rt_points rt))"
    and "read_inputs_loop ops gs rt w = (Inr u, rt', w')"
  shows "static_eq rt rt' \<and> rt_connected rt' = rt_connected rt \<and> writable (view w') = writable (view w) \<and> net_reach ops w w'
    \<and> (\<forall>i \<in> set (concat (map gp_members gs)).
          read_during ops view w w' (rt_points rt ! i) (rt_last_inputs rt' ! the (pp_input_pos (rt_points rt ! i))))
    \<and> (\<forall>pos. Some pos \<notin> (\<lambda>i. pp_input_pos (rt_points rt ! i)) ` set (concat (map gp_members gs))
          \<longrightarrow> rt_last_inputs rt' ! pos = rt_last_inputs rt ! pos)"
  using assms(2-6)
proof (induction gs arbitrary: rt w)
  case Nil
  then show ?case by simp
next
  case (Cons g gs)
  let ?pts = "rt_points rt" and ?rest = "concat (map gp_members gs)"
  obtain data tid w1 rt1 where
    rd: "read_group ops (rt_unit rt) (pp_table (?pts ! hd (gp_members g))) g (rt_tid rt, w) = (Inr data, tid, w1)"
    and st: "store_group (rt\<lparr>rt_tid := tid\<rparr>) g data = (Inr (), rt1)" and rest: "read_inputs_loop ops gs rt1 w1 = (Inr u, rt', w')"
    using Cons.prems(5) by (auto simp: Let_def split: if_splits prod.splits sum.splits)
  obtain vals where v: "rt1 = rt\<lparr>rt_tid := tid, rt_last_inputs := vals\<rparr>" "length vals = length (rt_last_inputs rt)"
    "\<forall>i \<in> set (gp_members g). vals ! the (pp_input_pos (?pts ! i)) = point_value (view w) (?pts ! i)"
    "\<forall>pos. Some pos \<notin> (\<lambda>i. pp_input_pos (?pts ! i)) ` set (gp_members g) \<longrightarrow> vals ! pos = rt_last_inputs rt ! pos"
  proof -
    have "distinct (gp_members g)" "read_group_ok ?pts g" using Cons.prems(2,3) by auto
    then have "\<exists>vals. store_group (rt\<lparr>rt_tid := tid\<rparr>) g data = (Inr (), rt\<lparr>rt_tid := tid, rt_last_inputs := vals\<rparr>)
      \<and> length vals = length (rt_last_inputs (rt\<lparr>rt_tid := tid\<rparr>))
      \<and> (\<forall>i \<in> set (gp_members g). vals ! the (pp_input_pos (rt_points (rt\<lparr>rt_tid := tid\<rparr>) ! i)) = point_value (view w) (rt_points (rt\<lparr>rt_tid := tid\<rparr>) ! i))
      \<and> (\<forall>pos. Some pos \<notin> (\<lambda>i. pp_input_pos (rt_points (rt\<lparr>rt_tid := tid\<rparr>) ! i)) ` set (gp_members g)
            \<longrightarrow> vals ! pos = rt_last_inputs (rt\<lparr>rt_tid := tid\<rparr>) ! pos)"
      using Cons.prems(1,4) rd by (intro read_one_group [OF conf]) simp_all
    then show thesis using st that by auto
  qed
  note fr = read_group_frame [OF conf rd]
  have s1: "static_eq rt rt1"
    unfolding v(1) using v(2) by (intro static_eq_trans [OF static_eq_upd(2) static_eq_upd(5)]) simp
  have f: "rt_points rt1 = ?pts" "rt_last_inputs rt1 = vals" "rt_connected rt1 = rt_connected rt" by (simp_all add: v(1))
  have ih: "static_eq rt1 rt'" "rt_connected rt' = rt_connected rt" "writable (view w') = writable (view w1)" "net_reach ops w1 w'"
    "\<forall>i \<in> set ?rest. read_during ops view w1 w' (?pts ! i) (rt_last_inputs rt' ! the (pp_input_pos (?pts ! i)))"
    "\<forall>pos. Some pos \<notin> (\<lambda>i. pp_input_pos (?pts ! i)) ` set ?rest \<longrightarrow> rt_last_inputs rt' ! pos = vals ! pos"
    using Cons.IH [of rt1 w1] Cons.prems(1-4) rest v(2) by (simp_all add: f)
  have now: "read_during ops view w w' (?pts ! i) (rt_last_inputs rt' ! the (pp_input_pos (?pts ! i)))"
    if i: "i \<in> set (gp_members g)" for i
  proof -
    have "i < length ?pts \<and> pp_direction (?pts ! i) = DirInput" "point_ok (?pts ! i)"
      using i Cons.prems(1,2) by (auto simp: read_group_ok_def points_ok_def list_all_length)
    then obtain q where q: "pp_input_pos (?pts ! i) = Some q" "i < length ?pts" by (auto simp: point_ok_def)
    have "Some q \<notin> (\<lambda>i. pp_input_pos (?pts ! i)) ` set ?rest"
    proof
      assume "Some q \<in> (\<lambda>i. pp_input_pos (?pts ! i)) ` set ?rest"
      then obtain j where j: "j \<in> set ?rest" "pp_input_pos (?pts ! j) = Some q" by (metis imageE)
      then have "j < length ?pts" using Cons.prems(2) by (auto simp: read_group_ok_def list_all_iff)
      then have "i = j" using input_pos_inj [OF Cons.prems(1) q(2) _ q(1) j(2)] by simp
      then show False using Cons.prems(3) i j(1) by auto
    qed
    then have "rt_last_inputs rt' ! q = point_value (view w) (?pts ! i)" using ih(6) v(3) i q(1) by force
    then show ?thesis
      using fr(2) ih(4) q(1) unfolding read_during_def by (auto intro!: exI [of _ w])
  qed
  have later: "read_during ops view w w' (?pts ! i) (rt_last_inputs rt' ! the (pp_input_pos (?pts ! i)))" if "i \<in> set ?rest" for i
    using read_during_mono [OF _ fr(2), of view w'] ih(5) that by blast
  have keep: "rt_last_inputs rt' ! pos = rt_last_inputs rt ! pos"
    if "Some pos \<notin> (\<lambda>i. pp_input_pos (?pts ! i)) ` set (concat (map gp_members (g # gs)))" for pos
    using that ih(6) v(4) by (simp add: image_Un)
  show ?case
    using static_eq_trans [OF s1 ih(1)] ih(2,3,4) fr now later keep by auto
qed

lemma build_groups_read:
  assumes "points_ok points" "2 \<le> unat mx"
  shows "list_all (read_group_ok points) (build_groups points (is_input table) mx)"
proof -
  have "read_group_ok points g" if g: "g \<in> set (build_groups points (is_input table) mx)" for g
  proof -
    have ok: "group_ok points mx g"
      using build_groups_ok(1) [OF points_all_ok [OF assms(1)] assms(2)] g by (auto simp: list_all_iff)
    have mem: "i < length points \<and> is_input table (points ! i)" if "i \<in> set (gp_members g)" for i
      using build_groups_ok(2) [OF points_all_ok [OF assms(1)] assms(2), of "is_input table"] g that by auto
    then have "is_input table (points ! hd (gp_members g))" using ok by (auto simp: group_ok_def)
    then show ?thesis using ok mem by (auto simp: read_group_ok_def group_ok_def is_input_def)
  qed
  then show ?thesis by (simp add: list_all_iff)
qed

lemma read_group_list_ok:
  assumes "points_ok points"
  shows "list_all (read_group_ok points) (read_group_list points)"
    and "distinct (concat (map gp_members (read_group_list points)))"
    and "set (concat (map gp_members (read_group_list points))) = {i. i < length points \<and> pp_direction (points ! i) = DirInput}"
proof -
  let ?mx = "\<lambda>table. if is_bit_table table then 2000 else 125 :: u16"
  let ?ms = "\<lambda>table. concat (map gp_members (build_groups points (is_input table) (?mx table)))"
  have mx: "2 \<le> unat (?mx table)" for table by simp
  note ok = build_groups_ok(2,3) [OF points_all_ok [OF assms] mx, of "is_input table" table for table]
  show "list_all (read_group_ok points) (read_group_list points)"
    using build_groups_read [OF assms mx] by (simp add: read_group_list_def)
  have c: "concat (map gp_members (read_group_list points)) = ?ms Coil @ ?ms Discrete @ ?ms Holding @ ?ms InputReg"
    by (simp add: read_group_list_def)
  have "pp_table p = Coil \<or> pp_table p = Discrete \<or> pp_table p = Holding \<or> pp_table p = InputReg" for p :: planned_point
    by (cases "pp_table p") simp_all
  then show "set (concat (map gp_members (read_group_list points))) = {i. i < length points \<and> pp_direction (points ! i) = DirInput}"
    unfolding c set_append ok(1) by (auto simp: is_input_def)
  show "distinct (concat (map gp_members (read_group_list points)))"
    unfolding c distinct_append set_append ok(1) using ok(2) by (auto simp: is_input_def)
qed

subsection \<open>A module worker and the scan thread\<close>

text \<open>
  The states of a module: whether the worker is between the reading and the writing part of a poll,
  its record, the shared cells, the failure count and the network. The scan thread posts outputs in
  any of them.
\<close>

inductive module_reach ::
  "'w net_ops \<Rightarrow> planned_module \<Rightarrow> bool \<Rightarrow> mod_rt \<Rightarrow> module_share \<Rightarrow> u32 \<Rightarrow> 'w \<Rightarrow> bool"
  for ops :: "'w net_ops" and md :: planned_module where
  mr_start: "split_module md now = Some (sh, rt) \<Longrightarrow> module_reach ops md False rt sh 0 w"
| mr_read: "module_reach ops md False rt sh n w
    \<Longrightarrow> poll_read ops t_stale t_ok rt sh n w = Some (ok, rt', sh', n', w') \<Longrightarrow> module_reach ops md ok rt' sh' n' w'"
| mr_write: "module_reach ops md True rt sh n w
    \<Longrightarrow> poll_write ops gate rt sh n w = Some (ok, rt', sh', n', w') \<Longrightarrow> module_reach ops md False rt' sh' n' w'"
| mr_due: "module_reach ops md False rt sh n w \<Longrightarrow> module_reach ops md False (rt\<lparr>rt_next_due := due\<rparr>) sh n w"
| mr_post: "module_reach ops md mid rt sh n w \<Longrightarrow> module_reach ops md mid rt (post_mail im sh) n w"

definition typed :: "planned_point list \<Rightarrow> plc_value list \<Rightarrow> bool" where
  "typed points vals \<longleftrightarrow>
     (\<forall>i < length points. \<forall>pos. pp_input_pos (points ! i) = Some pos
        \<longrightarrow> plc_value_type (vals ! pos) = pp_value_type (points ! i))"

lemma member_value_type: "member_value p g data = Inr v \<Longrightarrow> plc_value_type v = pp_value_type p"
  by (cases data; cases "pp_value_type p")
    (auto simp: member_value_def decode_regs_def decode_number_def finish_def Let_def split: if_splits)

lemma typed_update:
  assumes "points_ok points" "typed points vals" "i < length points" "pp_input_pos (points ! i) = Some pos"
    "plc_value_type v = pp_value_type (points ! i)" "pos < length vals"
  shows "typed points (vals[pos := v])"
  unfolding typed_def
proof (intro allI impI)
  fix j q
  assume j: "j < length points" "pp_input_pos (points ! j) = Some q"
  show "plc_value_type (vals[pos := v] ! q) = pp_value_type (points ! j)"
  proof (cases "q = pos")
    case True
    then have "j = i" using input_pos_inj [OF assms(1) j(1) assms(3)] j(2) assms(4) by simp
    then show ?thesis using True assms(5,6) by simp
  next
    case False
    then show ?thesis using assms(2) j by (simp add: typed_def)
  qed
qed

lemma store_members_typed:
  assumes "points_ok points" "typed points vals" "\<forall>i \<in> set is. i < length points"
    "length vals = length (filter (\<lambda>p. pp_input_pos p \<noteq> None) points)" "store_members points g data is vals = (r, vals')"
  shows "typed points vals' \<and> length vals' = length vals"
  using assms(2-5)
proof (induction "is" arbitrary: vals)
  case (Cons i "is")
  show ?case
  proof (cases "member_value (points ! i) g data")
    case (Inl e)
    then show ?thesis using Cons.prems by simp
  next
    case (Inr v)
    define vs where "vs = (case pp_input_pos (points ! i) of None \<Rightarrow> vals | Some pos \<Rightarrow> vals[pos := v])"
    have i: "i < length points" using Cons.prems(2) by simp
    have "typed points vs"
      using Cons.prems(1,3) input_pos_bound [OF assms(1), of "points ! i"] i member_value_type [OF Inr]
      by (auto simp: vs_def intro!: typed_update [OF assms(1)] split: option.split)
    moreover have "length vs = length vals" by (simp add: vs_def split: option.split)
    ultimately show ?thesis
      using Cons.IH [of vs] Cons.prems(2-4) Inr by (simp add: vs_def)
  qed
qed simp

lemma read_inputs_loop_typed:
  assumes "points_ok (rt_points rt)" "typed (rt_points rt) (rt_last_inputs rt)"
    and "list_all (read_group_ok (rt_points rt)) gs"
    and "length (rt_last_inputs rt) = length (filter (\<lambda>p. pp_input_pos p \<noteq> None) (rt_points rt))"
    and "read_inputs_loop ops gs rt w = (r, rt', w')"
  shows "static_eq rt rt' \<and> typed (rt_points rt') (rt_last_inputs rt')"
  using assms
proof (induction gs arbitrary: rt w)
  case (Cons g gs)
  let ?tab = "pp_table (rt_points rt ! hd (gp_members g))"
  obtain rr tid w1 where rd: "read_group ops (rt_unit rt) ?tab g (rt_tid rt, w) = (rr, tid, w1)"
    by (cases "read_group ops (rt_unit rt) ?tab g (rt_tid rt, w)") auto
  show ?case
  proof (cases "rt_connected rt \<and> (\<exists>data. rr = Inr data)")
    case False
    then show ?thesis
      using Cons.prems(2,5) rd static_eq_trans [OF static_eq_upd(2) static_eq_upd(3)]
      by (auto simp: Let_def split: if_splits sum.splits)
  next
    case True
    then obtain data where data: "rr = Inr data" by blast
    obtain sr vals where st: "store_members (rt_points rt) g data (gp_members g) (rt_last_inputs rt) = (sr, vals)"
      by (cases "store_members (rt_points rt) g data (gp_members g) (rt_last_inputs rt)")
    have t: "typed (rt_points rt) vals \<and> length vals = length (rt_last_inputs rt)"
      using store_members_typed [OF Cons.prems(1,2) _ Cons.prems(4) st] Cons.prems(3) by (auto simp: read_group_ok_def)
    let ?rt1 = "rt\<lparr>rt_tid := tid, rt_last_inputs := vals\<rparr>"
    have s1: "static_eq rt ?rt1" using t by (intro static_eq_trans [OF static_eq_upd(2) static_eq_upd(5)]) simp
    have "read_inputs_loop ops (g # gs) rt w
        = (case sr of Inl e \<Rightarrow> (Inl e, ?rt1\<lparr>rt_connected := False\<rparr>, w1) | Inr _ \<Rightarrow> read_inputs_loop ops gs ?rt1 w1)"
      using True data rd st by (simp add: Let_def store_group_def split: sum.split)
    then show ?thesis
      using Cons.IH [of ?rt1 w1] Cons.prems t s1 static_eq_trans [OF s1] static_eq_trans [OF s1 static_eq_upd(3)]
      by (auto split: sum.splits)
  qed
qed simp

lemma place_points:
  assumes "distinct (taken_positions pp_input_pos ps)" "distinct (taken_positions pp_output_pos ps)"
    and "\<And>p pos. p \<in> set ps \<Longrightarrow> pp_input_pos p = Some pos \<Longrightarrow> pos < length i0 \<and> pos < length d0"
    and "\<And>p pos. p \<in> set ps \<Longrightarrow> pp_output_pos p = Some pos \<Longrightarrow> pos < length o0"
    and "foldl place_point (i0, o0, d0) ps = (ins, outs, dflt)"
  shows "length ins = length i0 \<and> length outs = length o0 \<and> length dflt = length d0
    \<and> (\<forall>p \<in> set ps. \<forall>pos. pp_input_pos p = Some pos \<longrightarrow>
          ins ! pos = pp_slot p \<and> dflt ! pos = plc_default_of (pp_value_type p))
    \<and> (\<forall>p \<in> set ps. \<forall>pos. pp_output_pos p = Some pos \<longrightarrow> outs ! pos = pp_slot p)"
  using assms
proof (induction ps arbitrary: ins outs dflt rule: rev_induct)
  case (snoc q ps)
  obtain i1 o1 d1 where f: "foldl place_point (i0, o0, d0) ps = (i1, o1, d1)" by (metis prod_cases3)
  have dis: "distinct (taken_positions pp_input_pos ps)" "distinct (taken_positions pp_output_pos ps)"
    using snoc.prems(1,2) by (auto simp: taken_positions_def split: if_splits)
  have new: "pp_input_pos q = Some pos \<Longrightarrow> pp_input_pos p \<noteq> Some pos" "pp_output_pos q = Some pos \<Longrightarrow> pp_output_pos p \<noteq> Some pos"
    if "p \<in> set ps" for p pos
    using snoc.prems(1,2) that by (force simp: taken_positions_def)+
  have ih: "length i1 = length i0 \<and> length o1 = length o0 \<and> length d1 = length d0"
    "\<forall>p \<in> set ps. \<forall>pos. pp_input_pos p = Some pos \<longrightarrow> i1 ! pos = pp_slot p \<and> d1 ! pos = plc_default_of (pp_value_type p)"
    "\<forall>p \<in> set ps. \<forall>pos. pp_output_pos p = Some pos \<longrightarrow> o1 ! pos = pp_slot p"
    using snoc.IH [OF dis _ _ f] snoc.prems(3,4) by auto
  have last: "ins = (case pp_input_pos q of None \<Rightarrow> i1 | Some pos \<Rightarrow> i1[pos := pp_slot q])"
    "outs = (case pp_output_pos q of None \<Rightarrow> o1 | Some pos \<Rightarrow> o1[pos := pp_slot q])"
    "dflt = (case pp_input_pos q of None \<Rightarrow> d1 | Some pos \<Rightarrow> d1[pos := plc_default_of (pp_value_type q)])"
    using snoc.prems(5) unfolding foldl_append f by (simp_all add: place_point_def)
  have lens: "length ins = length i0 \<and> length outs = length o0 \<and> length dflt = length d0"
    using ih(1) by (simp add: last split: option.split)
  have inq: "ins ! pos = pp_slot p \<and> dflt ! pos = plc_default_of (pp_value_type p)"
    if p: "p \<in> set (ps @ [q])" "pp_input_pos p = Some pos" for p pos
  proof (cases "pp_input_pos q = Some pos")
    case True
    then have "p = q" using new(1) [of p pos] p by auto
    then show ?thesis using True snoc.prems(3) [of q pos] ih(1) by (simp add: last)
  next
    case False
    then have "p \<in> set ps" using p by auto
    then show ?thesis using ih(2) p(2) False by (auto simp: last split: option.split)
  qed
  have outq: "outs ! pos = pp_slot p" if p: "p \<in> set (ps @ [q])" "pp_output_pos p = Some pos" for p pos
  proof (cases "pp_output_pos q = Some pos")
    case True
    then have "p = q" using new(2) [of p pos] p by auto
    then show ?thesis using True snoc.prems(4) [of q pos] ih(1) by (simp add: last)
  next
    case False
    then have "p \<in> set ps" using p by auto
    then show ?thesis using ih(3) p(2) False by (auto simp: last split: option.split)
  qed
  show ?case using lens inq outq by blast
qed simp

definition front_ok :: "planned_point list \<Rightarrow> double_buffer \<Rightarrow> bool" where
  "front_ok points b \<longleftrightarrow>
     (let n = length (filter (\<lambda>p. pp_input_pos p \<noteq> None) points)
      in db_slots b = n \<and> length (sn_values (db_front b)) = n \<and> length (sn_quality (db_front b)) = n
         \<and> typed points (sn_values (db_front b)))"

definition module_inv :: "bool \<Rightarrow> mod_rt \<Rightarrow> module_share \<Rightarrow> bool" where
  "module_inv mid rt sh \<longleftrightarrow>
     rt_ok rt \<and> typed (rt_points rt) (rt_last_inputs rt) \<and> front_ok (rt_points rt) (sh_inputs sh)
     \<and> (mid \<longrightarrow> ms_quality (sh_status sh) = Good)"

lemma output_pos_bound:
  assumes "points_ok points" "p \<in> set points" "pp_output_pos p = Some pos"
  shows "pos < length (filter (\<lambda>p. pp_output_pos p \<noteq> None) points)"
proof -
  have "the (pp_output_pos p) \<in> set (taken_positions pp_output_pos points)"
    using assms(2,3) by (force simp: taken_positions_def)
  then show ?thesis using assms(1,3) by (simp add: points_ok_def)
qed

lemma db_publish_front:
  assumes "db_publish b vs qs = Some b'"
  shows "sn_values (db_front b') = vs" "sn_quality (db_front b') = qs" "db_slots b' = db_slots b"
  using assms by (auto simp: db_publish_def Let_def split: if_splits)

lemma default_type: "ty \<noteq> TyTime \<Longrightarrow> plc_value_type (plc_default_of ty) = ty"
  by (cases ty) simp_all

lemma split_module_ok:
  assumes pts: "points_ok (pm_points md)"
  shows "\<exists>sh rt. split_module md now = Some (sh, rt) \<and> module_inv False rt sh \<and> rt_points rt = pm_points md
    \<and> (\<forall>p \<in> set (pm_points md). \<forall>pos. pp_input_pos p = Some pos \<longrightarrow> sh_input_slots sh ! pos = pp_slot p)
    \<and> (\<forall>p \<in> set (pm_points md). \<forall>pos. pp_output_pos p = Some pos \<longrightarrow> sh_output_slots sh ! pos = pp_slot p)"
proof -
  let ?ps = "pm_points md"
  let ?n = "length (filter (\<lambda>p. pp_input_pos p \<noteq> None) ?ps)" and ?k = "length (filter (\<lambda>p. pp_output_pos p \<noteq> None) ?ps)"
  obtain ins outs dflt where f:
    "foldl place_point (replicate ?n 0, replicate ?k 0, replicate ?n (PvBool False)) ?ps = (ins, outs, dflt)"
    by (metis prod_cases3)
  have pl: "length dflt = ?n \<and> (\<forall>p \<in> set ?ps. \<forall>pos. pp_input_pos p = Some pos \<longrightarrow>
        ins ! pos = pp_slot p \<and> dflt ! pos = plc_default_of (pp_value_type p))
      \<and> (\<forall>p \<in> set ?ps. \<forall>pos. pp_output_pos p = Some pos \<longrightarrow> outs ! pos = pp_slot p)"
    using place_points [OF _ _ _ _ f] pts input_pos_bound [OF pts] output_pos_bound [OF pts]
    by (simp add: points_ok_def)
  have ty: "typed ?ps dflt"
    unfolding typed_def
  proof (intro allI impI)
    fix i pos
    assume i: "i < length ?ps" "pp_input_pos (?ps ! i) = Some pos"
    have "pp_value_type (?ps ! i) \<noteq> TyTime" using pts i(1) by (simp add: points_ok_def list_all_length point_ok_def)
    then show "plc_value_type (dflt ! pos) = pp_value_type (?ps ! i)"
      using pl i(2) default_type nth_mem [OF i(1)] by metis
  qed
  obtain b where b: "db_publish (db_new ?n) dflt (replicate (length dflt) Bad) = Some b"
    using pl by (simp add: db_publish_def db_new_def Let_def)
  have fr: "front_ok ?ps b"
    using db_publish_front [OF b] pl ty by (simp add: front_ok_def db_new_def)
  show ?thesis
    unfolding split_module_def Let_def f share_publish_def
    using b pl ty fr pts by (simp add: module_inv_def rt_ok_def)
qed

text \<open>Publishing the values of the worker succeeds and keeps the snapshot well formed.\<close>

lemma publish_ok:
  assumes "rt_ok rt" "typed (rt_points rt) (rt_last_inputs rt)" "front_ok (rt_points rt) (sh_inputs sh)"
  shows "\<exists>b. publish q rt sh = Some (sh\<lparr>sh_inputs := b\<rparr>) \<and> front_ok (rt_points rt) b
    \<and> (rt_last_inputs rt \<noteq> [] \<longrightarrow> sn_values (db_front b) = rt_last_inputs rt
         \<and> sn_quality (db_front b) = replicate (length (rt_last_inputs rt)) q)"
proof (cases "rt_last_inputs rt = []")
  case True
  then show ?thesis using assms(3) by (auto simp: publish_def intro!: exI [of _ "sh_inputs sh"])
next
  case False
  have "length (rt_last_inputs rt) = db_slots (sh_inputs sh)" using assms(1,3) by (simp add: rt_ok_def front_ok_def Let_def)
  then obtain b where b: "db_publish (sh_inputs sh) (rt_last_inputs rt) (replicate (length (rt_last_inputs rt)) q) = Some b"
    by (simp add: db_publish_def Let_def)
  then show ?thesis
    using False assms db_publish_front [OF b]
    by (auto simp: publish_def share_publish_def front_ok_def rt_ok_def Let_def)
qed

lemma mark_good_ok:
  assumes "module_inv mid rt sh"
  shows "\<exists>b. mark_good t rt sh = Some (set_status Good (Some t) sh\<lparr>sh_inputs := b\<rparr>)
    \<and> module_inv True rt (set_status Good (Some t) sh\<lparr>sh_inputs := b\<rparr>)
    \<and> (rt_last_inputs rt \<noteq> [] \<longrightarrow> sn_values (db_front b) = rt_last_inputs rt
         \<and> sn_quality (db_front b) = replicate (length (rt_last_inputs rt)) Good)"
  using publish_ok [of rt "set_status Good (Some t) sh" Good] assms
  by (auto simp: mark_good_def module_inv_def set_status_def)

lemma mark_bad_ok:
  assumes "module_inv mid rt sh"
  shows "\<exists>b. mark_bad rt sh = Some (set_status Bad None sh\<lparr>sh_inputs := b\<rparr>)
    \<and> module_inv False rt (set_status Bad None sh\<lparr>sh_inputs := b\<rparr>)
    \<and> (rt_last_inputs rt \<noteq> [] \<longrightarrow> sn_values (db_front b) = rt_last_inputs rt
         \<and> sn_quality (db_front b) = replicate (length (rt_last_inputs rt)) Bad)"
  using publish_ok [of rt "set_status Bad None sh" Bad] assms
  by (auto simp: mark_bad_def module_inv_def set_status_def)

lemma module_inv_upd [simp]:
  "module_inv mid (rt\<lparr>rt_connected := c\<rparr>) sh = module_inv mid rt sh"
  "module_inv mid (rt\<lparr>rt_next_due := n\<rparr>) sh = module_inv mid rt sh"
  "module_inv mid (rt\<lparr>rt_tid := t\<rparr>) sh = module_inv mid rt sh"
  "module_inv mid rt (post_mail im sh) = module_inv mid rt sh"
  by (simp_all add: module_inv_def rt_ok_def post_mail_def)

text \<open>The qualities of the snapshot are all \<open>q\<close>, and so is the status.\<close>

definition marked :: "quality \<Rightarrow> mod_rt \<Rightarrow> module_share \<Rightarrow> bool" where
  "marked q rt sh \<longleftrightarrow>
     ms_quality (sh_status sh) = q
     \<and> sn_values (db_front (sh_inputs sh)) = rt_last_inputs rt
     \<and> sn_quality (db_front (sh_inputs sh)) = replicate (length (rt_last_inputs rt)) q"

lemma marked_marks:
  assumes "module_inv mid rt sh"
  shows "mark_good t rt sh = Some sh' \<Longrightarrow> marked Good rt sh' \<and> module_inv True rt sh' \<and> ms_last_ok (sh_status sh') = Some t"
    and "mark_bad rt sh = Some sh' \<Longrightarrow> marked Bad rt sh' \<and> module_inv False rt sh'"
proof -
  have nil: "vs = []" if "rt_last_inputs rt = []" "length vs = length (rt_last_inputs rt)" for vs :: "'a list"
    using that by simp
  have len: "length (sn_values (db_front (sh_inputs x))) = length (rt_last_inputs rt)
      \<and> length (sn_quality (db_front (sh_inputs x))) = length (rt_last_inputs rt)" if "module_inv m rt x" for m x
    using that by (simp add: module_inv_def front_ok_def rt_ok_def Let_def)
  show "mark_good t rt sh = Some sh' \<Longrightarrow> marked Good rt sh' \<and> module_inv True rt sh' \<and> ms_last_ok (sh_status sh') = Some t"
    using mark_good_ok [OF assms, of t] len [of True sh'] by (cases "rt_last_inputs rt = []") (auto simp: marked_def set_status_def)
  show "mark_bad rt sh = Some sh' \<Longrightarrow> marked Bad rt sh' \<and> module_inv False rt sh'"
    using mark_bad_ok [OF assms] len [of False sh'] by (cases "rt_last_inputs rt = []") (auto simp: marked_def set_status_def)
qed

lemma poll_fail_ok:
  assumes "module_inv mid rt sh"
  shows "\<exists>sh'. poll_fail rt sh n w = Some (False, rt\<lparr>rt_connected := False\<rparr>, sh', n + 1, w)
    \<and> module_inv False rt sh' \<and> marked Bad rt sh'"
proof -
  have inv: "module_inv mid (rt\<lparr>rt_connected := False\<rparr>) sh" using assms by simp
  obtain sh' where m: "mark_bad (rt\<lparr>rt_connected := False\<rparr>) sh = Some sh'" using mark_bad_ok [OF inv] by blast
  then show ?thesis
    using marked_marks(2) [OF inv m] by (simp add: poll_fail_def marked_def)
qed

lemma read_inputs_inv:
  assumes "module_inv False rt sh" "read_inputs ops (rt\<lparr>rt_connected := True\<rparr>) w = (r, rt', w')"
  shows "module_inv False rt' sh" "static_eq rt rt'"
proof -
  let ?rt = "rt\<lparr>rt_connected := True\<rparr>"
  have pts: "points_ok (rt_points rt)" using assms(1) by (simp add: module_inv_def rt_ok_def)
  have "static_eq ?rt rt' \<and> typed (rt_points rt') (rt_last_inputs rt')"
    using assms read_group_list_ok(1) [OF pts]
    by (intro read_inputs_loop_typed [where gs = "rt_read_groups rt" and ops = ops and w = w and w' = w' and r = r])
      (auto simp: module_inv_def rt_ok_def read_inputs_def)
  moreover from this have "static_eq rt rt'" using static_eq_trans [OF static_eq_upd(3)] by blast
  ultimately show "module_inv False rt' sh" "static_eq rt rt'"
    using assms(1) static_eq_fields [of rt rt'] by (auto simp: module_inv_def)
qed

lemma poll_read_inv:
  assumes inv: "module_inv False rt sh"
  shows "\<exists>ok rt' sh' n' w'. poll_read ops t_stale t_ok rt sh n w = Some (ok, rt', sh', n', w')
    \<and> module_inv ok rt' sh' \<and> static_eq rt rt'
    \<and> marked (if ok then Good else Bad) rt' sh' \<and> (ok \<longrightarrow> ms_last_ok (sh_status sh') = Some t_ok)"
proof -
  obtain sh1 where sh1: "(if comms_stale t_stale rt sh then mark_bad rt sh else Some sh) = Some sh1" "module_inv False rt sh1"
    using inv mark_bad_ok [OF inv] by (cases "comms_stale t_stale rt sh") auto
  obtain c w1 where c: "(if rt_connected rt then (Inr (), w) else connect_to ops (rt_host rt) (rt_port rt) (rt_timeout rt) w) = (c, w1)"
    by (metis surj_pair)
  show ?thesis
  proof (cases c)
    case (Inl e)
    then show ?thesis
      using poll_fail_ok [OF sh1(2), of n w1] sh1(1) c by (auto simp: poll_read_def marked_def)
  next
    case (Inr u)
    obtain r rt' w2 where r: "read_inputs ops (rt\<lparr>rt_connected := True\<rparr>) w1 = (r, rt', w2)" by (metis prod_cases3)
    note ri = read_inputs_inv [OF sh1(2) r]
    show ?thesis
    proof (cases r)
      case (Inl e)
      have "static_eq rt (rt'\<lparr>rt_connected := False\<rparr>)" using static_eq_trans [OF ri(2) static_eq_upd(3)] .
      then show ?thesis
        using poll_fail_ok [OF ri(1), of n w2] sh1(1) c \<open>c = Inr u\<close> r Inl by (auto simp: poll_read_def marked_def)
    next
      case (Inr u')
      obtain sh' where m: "mark_good t_ok rt' sh1 = Some sh'" using mark_good_ok [OF ri(1)] by blast
      then show ?thesis
        using marked_marks(1) [OF ri(1) m] sh1(1) c \<open>c = Inr u\<close> r Inr ri(2) by (auto simp: poll_read_def)
    qed
  qed
qed

lemma write_outputs_static:
  assumes "write_outputs ops rt sh w = (r, rt', w')"
  shows "static_eq rt rt' \<and> (\<exists>t c. rt' = rt\<lparr>rt_tid := t, rt_connected := c\<rparr>)"
proof -
  have "\<exists>t c. rt' = rt\<lparr>rt_tid := t, rt_connected := c\<rparr>"
    using assms by (cases rt) (auto simp: write_outputs_def Let_def split: if_splits prod.splits sum.splits)
  then show ?thesis using static_eq_trans [OF static_eq_upd(2) static_eq_upd(3)] by blast
qed

lemma poll_write_inv:
  assumes inv: "module_inv True rt sh"
  shows "\<exists>ok rt' sh' n' w'. poll_write ops gate rt sh n w = Some (ok, rt', sh', n', w')
    \<and> module_inv False rt' sh' \<and> static_eq rt rt'
    \<and> (if ok then sh' = sh else marked Bad rt' sh')"
proof (cases "gate = Sim")
  case True
  then show ?thesis using inv by (auto simp: poll_write_def module_inv_def)
next
  case False
  obtain r rt1 w1 where r: "write_outputs ops rt sh w = (r, rt1, w1)" by (metis prod_cases3)
  obtain t c where rt1: "rt1 = rt\<lparr>rt_tid := t, rt_connected := c\<rparr>" "static_eq rt rt1"
    using write_outputs_static [OF r] by blast
  have i1: "module_inv True rt1 sh" "module_inv False rt1 sh" using inv by (simp_all add: rt1(1)) (simp add: module_inv_def)
  show ?thesis
  proof (cases r)
    case (Inl e)
    have "static_eq rt (rt1\<lparr>rt_connected := False\<rparr>)" using static_eq_trans [OF rt1(2) static_eq_upd(3)] .
    then show ?thesis
      using poll_fail_ok [OF i1(1), of n w1] False r Inl by (auto simp: poll_write_def marked_def)
  next
    case (Inr u)
    then show ?thesis using False r rt1(2) i1(2) by (auto simp: poll_write_def)
  qed
qed

lemma module_reach_inv:
  assumes "module_reach ops md mid rt sh n w" "points_ok (pm_points md)"
  shows "module_inv mid rt sh \<and> rt_points rt = pm_points md"
  using assms
proof induction
  case (mr_start now sh rt w)
  then show ?case using split_module_ok [of md now] by auto
next
  case (mr_read rt sh n w t_stale t_ok ok rt' sh' n' w')
  then show ?case using poll_read_inv [of rt sh ops t_stale t_ok n w] static_eq_fields(1) by auto
next
  case (mr_write rt sh n w gate ok rt' sh' n' w')
  then show ?case using poll_write_inv [of rt sh ops gate n w] static_eq_fields(1) by auto
qed simp_all

subsection \<open>What a poll does\<close>

lemma connect_loop_reach: "connect_loop ops t msg as w = (r, w') \<Longrightarrow> net_reach ops w w'"
proof (induction "as" arbitrary: msg w)
  case (Cons a "as")
  obtain r1 w1 where c: "nw_connect ops w a t = (r1, w1)" by (metis surj_pair)
  have "net_reach ops w1 w'"
    using Cons c by (cases r1) (auto dest: net_reach_io(5))
  then show ?case using net_reach_io(4) [OF c] by simp
qed simp

lemma connect_to_reach: "connect_to ops h p t w = (r, w') \<Longrightarrow> net_reach ops w w'"
  unfolding connect_to_def
  by (auto split: prod.splits sum.splits dest!: connect_loop_reach net_reach_io(3))

lemma poll_read_values:
  assumes conf: "conforming ops view" and inv: "module_inv False rt sh"
    and r: "poll_read ops t_stale t_ok rt sh n w = Some (True, rt', sh', n', w')"
    and p: "p \<in> set (rt_points rt)" "pp_input_pos p = Some pos"
  shows "read_during ops view w w' p (rt_last_inputs rt' ! pos)"
proof -
  have pts: "points_ok (rt_points rt)" and rt: "rt_read_groups rt = read_group_list (rt_points rt)"
    "length (rt_last_inputs rt) = length (filter (\<lambda>p. pp_input_pos p \<noteq> None) (rt_points rt))"
    using inv by (simp_all add: module_inv_def rt_ok_def)
  obtain c w1 where c: "(if rt_connected rt then (Inr (), w) else connect_to ops (rt_host rt) (rt_port rt) (rt_timeout rt) w) = (c, w1)"
    by (metis surj_pair)
  then have w1: "net_reach ops w w1" by (auto dest: connect_to_reach split: if_splits)
  have ri: "read_inputs ops (rt\<lparr>rt_connected := True\<rparr>) w1 = (Inr (), rt', w')"
    using r c by (auto simp: poll_read_def poll_fail_def Let_def split: bind_splits sum.splits prod.splits)
  obtain i where i: "i < length (rt_points rt)" "rt_points rt ! i = p" using p(1) by (auto simp: in_set_conv_nth)
  have "point_ok p" using pts p(1) by (simp add: points_ok_def list_all_iff)
  then have "i \<in> set (concat (map gp_members (rt_read_groups rt)))"
    using read_group_list_ok(3) [OF pts] i p(2) rt(1) by (simp add: point_ok_def del: set_concat)
  moreover have "\<forall>i \<in> set (concat (map gp_members (rt_read_groups rt))).
      read_during ops view w1 w' (rt_points rt ! i) (rt_last_inputs rt' ! the (pp_input_pos (rt_points rt ! i)))"
    using read_inputs_loop_ok [OF conf, of "rt\<lparr>rt_connected := True\<rparr>" "rt_read_groups rt" w1 "()" rt' w'] ri
      read_group_list_ok(1,2) [OF pts] pts rt
    by (simp add: read_inputs_def del: set_concat)
  ultimately have "read_during ops view w1 w' p (rt_last_inputs rt' ! pos)" using i(2) p(2) by fastforce
  then show ?thesis using w1 by (rule read_during_mono) simp
qed

lemma poll_no_panic:
  assumes "module_inv False rt sh"
  shows "poll ops gate t_stale t_ok rt sh n w \<noteq> None"
proof -
  obtain ok rt' sh' n' w' where r: "poll_read ops t_stale t_ok rt sh n w = Some (ok, rt', sh', n', w')" "module_inv ok rt' sh'"
    using poll_read_inv [OF assms] by meson
  then show ?thesis
    using poll_write_inv [of rt' sh' ops gate n' w'] by (cases ok) (auto simp: poll_def)
qed

text \<open>C26: Whatever the peer sends, in every state a Modbus module can be in, every published input
  value has the value type of its point, and a poll does not panic.\<close>

theorem modbus_inputs_typed:
  assumes "validate_module parse_cfg mi im resolved = Inr md"
    and "module_reach ops md mid rt sh n w"
  shows "(\<forall>p \<in> set (pm_points md). \<forall>pos. pp_input_pos p = Some pos \<longrightarrow>
            (let snap = db_read 8 (sh_inputs sh)
             in pos < length (sn_values snap) \<and> pos < length (sn_quality snap)
                \<and> plc_value_type (sn_values snap ! pos) = pp_value_type p))
         \<and> (\<not> mid \<longrightarrow> poll ops gate t_stale t_ok rt sh n w \<noteq> None)"
proof -
  have pts: "points_ok (pm_points md)" by (rule validate_module_ok [OF assms(1)])
  have inv: "module_inv mid rt sh" "rt_points rt = pm_points md" using module_reach_inv [OF assms(2) pts] by simp_all
  then show ?thesis
    using input_pos_bound [OF pts] poll_no_panic [of rt sh ops gate t_stale t_ok n w]
    by (auto simp: module_inv_def front_ok_def typed_def Let_def db_read_front in_set_conv_nth)
qed

text \<open>C25: Against a conforming device, a poll that reads successfully publishes for every input point
  the Good value of exactly the point's registers at some moment of the poll; when it fails,
  everything it publishes is Bad.\<close>

theorem modbus_inputs_read:
  assumes "validate_module parse_cfg mi im resolved = Inr md"
    and "module_reach ops md False rt sh n w"
    and "conforming ops view"
    and "poll_read ops t_stale t_ok rt sh n w = Some (ok, rt', sh', n', w')"
  shows "let snap = db_read 8 (sh_inputs sh')
         in ms_quality (sh_status sh') = (if ok then Good else Bad)
            \<and> (\<forall>p \<in> set (pm_points md). \<forall>pos. pp_input_pos p = Some pos \<longrightarrow>
                 sn_quality snap ! pos = (if ok then Good else Bad)
                 \<and> (ok \<longrightarrow> read_during ops view w w' p (sn_values snap ! pos)))"
proof -
  have pts: "points_ok (pm_points md)" by (rule validate_module_ok [OF assms(1)])
  have inv: "module_inv False rt sh" "rt_points rt = pm_points md" using module_reach_inv [OF assms(2) pts] by simp_all
  have r: "module_inv ok rt' sh'" "static_eq rt rt'" "marked (if ok then Good else Bad) rt' sh'"
    using poll_read_inv [OF inv(1), of ops t_stale t_ok n w] assms(4) by auto
  have len: "length (rt_last_inputs rt') = length (filter (\<lambda>p. pp_input_pos p \<noteq> None) (pm_points md))"
    using inv static_eq_fields(2) [OF r(2)] by (simp add: module_inv_def rt_ok_def)
  have "read_during ops view w w' p (rt_last_inputs rt' ! pos)"
    if "ok" "p \<in> set (pm_points md)" "pp_input_pos p = Some pos" for p pos
    using poll_read_values [OF assms(3) inv(1)] assms(4) that inv(2) by auto
  then show ?thesis
    using r(3) input_pos_bound [OF pts] len by (auto simp: marked_def Let_def db_read_front)
qed

text \<open>C24: Against a conforming device, the writing part of a poll that succeeds leaves every output
  point with the value posted by the scan (its safe value under force-safe) and changes no other
  coil or register; in SIM and before the first post it sends nothing.\<close>

theorem modbus_outputs_written:
  assumes "validate_module parse_cfg mi im resolved = Inr md"
    and "module_reach ops md True rt sh n w"
    and "conforming ops view"
    and "poll_write ops gate rt sh n w = Some (True, rt', sh', n', w')"
  shows "if gate \<noteq> Sim \<and> ml_armed (sh_mailbox sh)
         then outputs_written (pm_points md) (sh_mailbox sh) (ml_force_safe (sh_mailbox sh)) (view w) (view w')
         else w' = w"
proof -
  have pts: "points_ok (pm_points md)" by (rule validate_module_ok [OF assms(1)])
  have inv: "module_inv True rt sh" "rt_points rt = pm_points md" using module_reach_inv [OF assms(2) pts] by simp_all
  then have good: "\<not> is_bad (ms_quality (sh_status sh))" "rt_ok rt" by (simp_all add: module_inv_def is_bad_def)
  show ?thesis
  proof (cases "gate \<noteq> Sim \<and> ml_armed (sh_mailbox sh)")
    case True
    then obtain tid where "write_with ops rt (sh_mailbox sh) (ml_force_safe (sh_mailbox sh)) (rt_tid rt, w) = (Inr (), tid, w')"
      using assms(4) good(1)
      by (auto simp: poll_write_def write_outputs_def poll_fail_def Let_def split: if_splits prod.splits sum.splits)
    then show ?thesis using True write_with_ok(1) [OF assms(3) good(2)] inv(2) by simp
  next
    case False
    then show ?thesis
      using assms(4) by (auto simp: poll_write_def write_outputs_def poll_fail_def Let_def split: if_splits)
  qed
qed

subsection \<open>A simulated device\<close>

record sim_net =
  sn_device :: device
  sn_pending :: bytes

definition sim_net_ops :: "sim_net net_ops" where
  "sim_net_ops = \<lparr>nw_resolve = (\<lambda>w h p. (Inr [h], w)), nw_connect = (\<lambda>w a t. (Inr (), w)),
     nw_configure = (\<lambda>w t. (Inr (), w)),
     nw_write_all = (\<lambda>w b. let (d, resp) = serve (sn_device w) (drop 7 b)
        in (Inr (), \<lparr>sn_device = d, sn_pending = take 2 b @ [0, 0] @ be_bytes (word_of_nat (1 + length resp)) @ [b ! 6] @ resp\<rparr>)),
     nw_read_exact = (\<lambda>w n. if n \<le> length (sn_pending w)
        then (Inr (take n (sn_pending w)), w\<lparr>sn_pending := drop n (sn_pending w)\<rparr>) else (Inl ''eof'', w))\<rparr>"

lemma sim_net_conforming: "conforming sim_net_ops sn_device"
  unfolding conforming_def
proof (intro allI impI)
  fix w tid unit req w1 w2 w3 hdr body
  assume wr: "nw_write_all sim_net_ops w (adu tid unit req) = (Inr (), w1)"
    and rd: "nw_read_exact sim_net_ops w1 6 = (Inr hdr, w2)"
  obtain d resp where s: "serve (sn_device w) req = (d, resp)" by (metis surj_pair)
  have "drop 7 (adu tid unit req) = req" "take 2 (adu tid unit req) = be_bytes tid" "adu tid unit req ! 6 = unit"
    by (simp_all add: adu_def mbap_def nth_append)
  then have w1: "w1 = \<lparr>sn_device = d, sn_pending = mbap tid (1 + length resp) @ [unit] @ resp\<rparr>"
    using wr s by (simp add: sim_net_ops_def mbap_def be_bytes_def)
  have len: "length (mbap tid (1 + length resp)) = 6" by (simp add: mbap_def)
  have "hdr = mbap tid (1 + length resp)" "w2 = \<lparr>sn_device = d, sn_pending = [unit] @ resp\<rparr>"
    using rd len by (auto simp: sim_net_ops_def w1)
  then show "let (d, resp) = serve (sn_device w) req
      in hdr = mbap tid (1 + length resp)
         \<and> (nw_read_exact sim_net_ops w2 (1 + length resp) = (Inr body, w3)
            \<longrightarrow> body = unit # resp \<and> writable (sn_device w3) = writable d)"
    by (auto simp: s sim_net_ops_def)
qed

text \<open>Integer points are shifted by one; the Boolean points are wired active-low.\<close>

definition demo_binding :: "string \<Rightarrow> image_plane \<Rightarrow> value_type \<Rightarrow> u32 option \<Rightarrow> u32 \<Rightarrow> io_binding" where
  "demo_binding tag pl ty bt reg =
     \<lparr>ib_tag = tag, ib_image = pl, ib_value_type = ty, ib_bit = bt, ib_slot = None,
      ib_scale = (if ty = TyBool then 0xBFF0000000000000 else 0x3FF0000000000000),
      ib_offset = 0x3FF0000000000000, ib_clamp = None, ib_unit = [], ib_safe_state = None, ib_register = Some reg,
      ib_register_type = None, ib_raw_type = None\<rparr>"

definition demo_module :: "module_config io_module" where
  "demo_module = \<lparr>im_id = ''m'', im_driver = ''modbus_tcp'',
     im_config = \<lparr>mc_endpoint = ''h:502'', mc_unit = 1, mc_poll_ms = 100, mc_stale_ms = None, mc_timeout_ms = None\<rparr>,
     im_on_bad_quality = ForceSafe,
     im_bindings = [demo_binding ''level'' PlaneI TyInt None 40003, demo_binding ''next'' PlaneI TyInt None 40004,
       demo_binding ''valve'' PlaneQ TyBool None 8, demo_binding ''lamp'' PlaneQ TyBool (Some 3) 40020]\<rparr>"

definition demo_map :: "module_config io_map" where
  "demo_map = \<lparr>mp_version = 1, mp_modules = [demo_module]\<rparr>"

definition demo_resolved :: resolved_io_map where
  "demo_resolved = projr (resolve demo_map)"

definition demo_planned :: plan_state where
  "demo_planned = projr (plan_bindings demo_resolved 0 0 (im_bindings demo_module) plan_init)"

definition demo_plan :: planned_module where
  "demo_plan = \<lparr>pm_id = ''m'', pm_host = ''h'', pm_port = 502, pm_unit = 1, pm_poll_ms = 100, pm_stale_ms = 300,
     pm_timeout_ms = 100, pm_on_bad = ForceSafe, pm_points = ps_points demo_planned\<rparr>"

definition demo_device :: device where
  "demo_device = \<lparr>dv_coils = (\<lambda>a. True), dv_discretes = (\<lambda>a. False), dv_holding = (\<lambda>a. if a = 2 then 25 else 15),
     dv_inputs = (\<lambda>a. 0), dv_has = (\<lambda>t a. True)\<rparr>"

definition demo_net :: sim_net where
  "demo_net = \<lparr>sn_device = demo_device, sn_pending = []\<rparr>"

definition demo_start :: "module_share \<times> mod_rt" where
  "demo_start = the (split_module demo_plan 0)"

definition demo_read :: "bool \<times> mod_rt \<times> module_share \<times> u32 \<times> sim_net" where
  "demo_read = the (poll_read sim_net_ops 0 0 (snd demo_start) (fst demo_start) 0 demo_net)"

definition demo_outputs :: output_image where
  "demo_outputs = \<lparr>oi_values = [PvBool True, PvBool True], oi_force_safe = False\<rparr>"

definition demo_rt :: mod_rt where "demo_rt = fst (snd demo_read)"
definition demo_share :: module_share where "demo_share = fst (snd (snd demo_read))"
definition demo_fails :: u32 where "demo_fails = fst (snd (snd (snd demo_read)))"
definition demo_net' :: sim_net where "demo_net' = snd (snd (snd (snd demo_read)))"

definition demo_write :: "bool \<times> mod_rt \<times> module_share \<times> u32 \<times> sim_net" where
  "demo_write = the (poll_write sim_net_ops Run demo_rt (post_mail demo_outputs demo_share) demo_fails demo_net')"

lemma demo_resolve: "resolve demo_map = Inr demo_resolved"
proof -
  have "\<not> isl (resolve demo_map)" by code_simp
  then show ?thesis unfolding demo_resolved_def by (cases "resolve demo_map") simp_all
qed

lemma demo_endpoint: "parse_endpoint ''h:502'' = Inr (''h'', 502)"
proof -
  have "trim ''h:502'' = ''h:502''" "trim ''h'' = ''h''" "trim ''502'' = ''502''"
    by (rule trim_word, code_simp)+
  moreover have "rsplit_colon ''h:502'' = Some (''h'', ''502'')" "parse_u16 ''502'' = Some 502" by code_simp+
  ultimately show ?thesis by (simp add: parse_endpoint_def)
qed

lemma demo_validated: "validate_module Inr 0 demo_module demo_resolved = Inr demo_plan"
proof -
  have "\<not> isl (plan_bindings demo_resolved 0 0 (im_bindings demo_module) plan_init)" by code_simp
  then have pb: "plan_bindings demo_resolved 0 0 (im_bindings demo_module) plan_init = Inr demo_planned"
    unfolding demo_planned_def
    by (cases "plan_bindings demo_resolved 0 0 (im_bindings demo_module) plan_init") simp_all
  moreover have "check_overlaps (ps_spans demo_planned) = Inr ()" by code_simp
  moreover have "sat_mul (100 :: u64) 3 = 300" by code_simp
  ultimately show ?thesis
    using demo_endpoint unfolding validate_module_def
    by (simp add: demo_module_def demo_plan_def)
qed

lemma demo_reached: "module_reach sim_net_ops demo_plan False (snd demo_start) (fst demo_start) 0 demo_net"
proof (rule mr_start)
  have "split_module demo_plan 0 \<noteq> None" by code_simp
  then show "split_module demo_plan 0 = Some (fst demo_start, snd demo_start)" by (auto simp: demo_start_def)
qed

lemma demo_polled:
  "poll_read sim_net_ops 0 0 (snd demo_start) (fst demo_start) 0 demo_net
     = Some (True, demo_rt, demo_share, demo_fails, demo_net')"
proof -
  have "module_inv False (snd demo_start) (fst demo_start)"
    using module_reach_inv [OF demo_reached validate_module_ok [OF demo_validated]] by simp
  then have "poll_read sim_net_ops 0 0 (snd demo_start) (fst demo_start) 0 demo_net \<noteq> None"
    using poll_read_inv [of "snd demo_start" "fst demo_start" sim_net_ops 0 0 0 demo_net] by auto
  moreover have "fst demo_read" by code_simp
  ultimately show ?thesis by (auto simp: demo_read_def demo_rt_def demo_share_def demo_fails_def demo_net'_def)
qed

lemma demo_posted:
  "module_reach sim_net_ops demo_plan True demo_rt (post_mail demo_outputs demo_share) demo_fails demo_net'"
  by (rule mr_post [OF mr_read [OF demo_reached demo_polled]])

lemma demo_written:
  "poll_write sim_net_ops Run demo_rt (post_mail demo_outputs demo_share) demo_fails demo_net'
     = Some (True, fst (snd demo_write), fst (snd (snd demo_write)), fst (snd (snd (snd demo_write))), snd (snd (snd (snd demo_write))))"
proof -
  have "module_inv True demo_rt (post_mail demo_outputs demo_share)"
    using module_reach_inv [OF demo_posted validate_module_ok [OF demo_validated]] by simp
  then have "poll_write sim_net_ops Run demo_rt (post_mail demo_outputs demo_share) demo_fails demo_net' \<noteq> None"
    using poll_write_inv [of demo_rt "post_mail demo_outputs demo_share" sim_net_ops Run demo_fails demo_net'] by auto
  moreover have "fst demo_write" by code_simp
  ultimately show ?thesis
    by (auto simp: demo_write_def)
qed

lemma demo_level:
  "pm_points demo_plan ! 0 \<in> set (pm_points demo_plan)"
  "pp_input_pos (pm_points demo_plan ! 0) = Some 0" "pp_value_type (pm_points demo_plan ! 0) = TyInt"
proof -
  have "pm_points demo_plan \<noteq> []" by code_simp
  then show "pm_points demo_plan ! 0 \<in> set (pm_points demo_plan)" by simp
  show "pp_input_pos (pm_points demo_plan ! 0) = Some 0" "pp_value_type (pm_points demo_plan ! 0) = TyInt" by code_simp+
qed

theorem modbus_inputs_typed_witness:
  "plc_value_type (sn_values (db_read 8 (sh_inputs (fst demo_start))) ! 0) = TyInt
   \<and> poll sim_net_ops Run 0 0 (snd demo_start) (fst demo_start) 0 demo_net \<noteq> None"
  using modbus_inputs_typed [OF demo_validated demo_reached, of Run 0 0] demo_level by (force simp: Let_def)

theorem modbus_inputs_read_witness:
  "sn_quality (db_read 8 (sh_inputs demo_share)) ! 0 = Good
   \<and> read_during sim_net_ops sn_device demo_net demo_net' (pm_points demo_plan ! 0)
       (sn_values (db_read 8 (sh_inputs demo_share)) ! 0)"
  using modbus_inputs_read [OF demo_validated demo_reached sim_net_conforming demo_polled] demo_level by (force simp: Let_def)

theorem modbus_outputs_written_witness:
  "outputs_written (pm_points demo_plan) (sh_mailbox (post_mail demo_outputs demo_share)) False
     (sn_device demo_net') (sn_device (snd (snd (snd (snd demo_write)))))"
  using modbus_outputs_written [OF demo_validated demo_posted sim_net_conforming demo_written]
  by (simp add: post_mail_def demo_outputs_def)

subsection \<open>The tag map\<close>

text \<open>C27: Resolving a tag map gives every binding, in the order of the map, its own slot of its plane:
  the slot it names if it names one, holding the type's default with the binding's tag, type, unit
  and (for an output) safe value; no two bindings share a slot or a tag, and the three tables of a
  plane have the same length.\<close>

theorem tag_map_resolved:
  assumes "resolve m = Inr r"
  shows "positions (rv_bindings r) = binding_order 0 (mp_modules m)
    \<and> (\<forall>rb \<in> set (rv_bindings r). bound_slot (mp_modules m) (rv_image r) rb)
    \<and> distinct (map (\<lambda>rb. (rb_image rb, rb_slot rb)) (rv_bindings r))
    \<and> distinct (map (\<lambda>rb. ib_tag (binding_at (mp_modules m) rb)) (rv_bindings r))
    \<and> (\<forall>p. length (plane_meta p (rv_image r)) = length (plane_slots p (rv_image r)))
    \<and> length (pi_output_safe (rv_image r)) = length (pi_outputs (rv_image r))"
  using resolve_bound [OF assms] by blast

theorem tag_map_resolved_witness:
  "positions (rv_bindings demo_resolved) = [(0, 0), (0, 1), (0, 2), (0, 3)]
   \<and> list_all (bound_slot [demo_module] (rv_image demo_resolved)) (rv_bindings demo_resolved)"
proof -
  have "binding_order 0 (mp_modules demo_map) = [(0, 0), (0, 1), (0, 2), (0, 3)]" by code_simp
  moreover have "mp_modules demo_map = [demo_module]" by (simp add: demo_map_def)
  ultimately show ?thesis using tag_map_resolved [OF demo_resolve] by (simp add: list_all_iff)
qed

end
