(* ===== verification/StAst.thy ===== *)
theory StAst
  imports VmExec TextOps
begin

section \<open>Structured Text: diagnostics and syntax tree (\<open>plc-compiler/src/error.rs\<close>, \<open>ast.rs\<close>)\<close>

text \<open>
  The diagnostics of the compiler with their stable codes, and the syntax tree the parser builds
  and the binding phase consumes. A span is a pair of byte offsets. Integer literals are \<open>i64\<close>, times are
  milliseconds in an \<open>i32\<close>, reals are their binary32 pattern. The nested calls, paths and
  expressions are one mutually recursive datatype, as in the code.
\<close>

subsection \<open>Diagnostics\<close>

datatype error_code =
    ELex | EParse | EExcluded | EExcludedVarInOut | EExcludedPointer | EExcludedString
  | EExcludedLoopCtrl | EExcludedNestedFbType | EExcludedOop | EExcludedConfig | EUnboundedLoop
  | ERecursion | EUndefined | EType | EDuplicate | EProject | ELayout | ECodegen | EPackage

primrec error_code_str :: "error_code \<Rightarrow> string" where
  "error_code_str ELex = ''E_LEX''"
| "error_code_str EParse = ''E_PARSE''"
| "error_code_str EExcluded = ''E_EXCLUDED''"
| "error_code_str EExcludedVarInOut = ''E_EXCLUDED_VAR_IN_OUT''"
| "error_code_str EExcludedPointer = ''E_EXCLUDED_POINTER''"
| "error_code_str EExcludedString = ''E_EXCLUDED_STRING''"
| "error_code_str EExcludedLoopCtrl = ''E_EXCLUDED_LOOP_CTRL''"
| "error_code_str EExcludedNestedFbType = ''E_EXCLUDED_NESTED_FB_TYPE''"
| "error_code_str EExcludedOop = ''E_EXCLUDED_OOP''"
| "error_code_str EExcludedConfig = ''E_EXCLUDED_CONFIG''"
| "error_code_str EUnboundedLoop = ''E_UNBOUNDED_LOOP''"
| "error_code_str ERecursion = ''E_RECURSION''"
| "error_code_str EUndefined = ''E_UNDEFINED''"
| "error_code_str EType = ''E_TYPE''"
| "error_code_str EDuplicate = ''E_DUPLICATE''"
| "error_code_str EProject = ''E_PROJECT''"
| "error_code_str ELayout = ''E_LAYOUT''"
| "error_code_str ECodegen = ''E_CODEGEN''"
| "error_code_str EPackage = ''E_PACKAGE''"

record span =
  sp_start :: nat
  sp_end :: nat

definition span_at :: "nat \<Rightarrow> span" where
  "span_at pos = \<lparr>sp_start = pos, sp_end = pos\<rparr>"

definition span_new :: "nat \<Rightarrow> nat \<Rightarrow> span" where
  "span_new a b = \<lparr>sp_start = a, sp_end = b\<rparr>"

record compile_error =
  ce_code :: error_code
  ce_message :: string
  ce_path :: "string option"
  ce_span :: "span option"

definition cerr :: "error_code \<Rightarrow> string \<Rightarrow> compile_error" where
  "cerr c msg = \<lparr>ce_code = c, ce_message = msg, ce_path = None, ce_span = None\<rparr>"

definition with_path :: "string \<Rightarrow> compile_error \<Rightarrow> compile_error" where
  "with_path p e = e\<lparr>ce_path := Some p\<rparr>"

definition with_span :: "span \<Rightarrow> compile_error \<Rightarrow> compile_error" where
  "with_span sp e = e\<lparr>ce_span := Some sp\<rparr>"

type_synonym 'a cres = "compile_error + 'a"

subsection \<open>Expressions\<close>

datatype literal = LBool bool | LInt i64 | LReal f32 | LTimeMs i32

datatype unary_operator = UNeg | UNot

datatype binary_operator =
  BAdd | BSub | BMul | BDiv | BMod | BAnd | BOr | BXor | BEq | BNe | BLt | BLe | BGt | BGe

datatype expr =
    Literal literal span
  | Name "path_seg list" span
  | Unary unary_operator expr span
  | Binary binary_operator expr expr span
  | QGood expr span
  | FbCallE fb_call span
and path_seg = PIdent string | PIndex expr
and fb_call = FbCallExpr "path_seg list" span "call_arg list" "call_out list"
and call_arg = Positional expr | Named string expr
and call_out = CallOut string expr

primrec fc_callee :: "fb_call \<Rightarrow> path_seg list" where
  "fc_callee (FbCallExpr c sp ins outs) = c"

primrec fc_callee_span :: "fb_call \<Rightarrow> span" where
  "fc_callee_span (FbCallExpr c sp ins outs) = sp"

primrec fc_inputs :: "fb_call \<Rightarrow> call_arg list" where
  "fc_inputs (FbCallExpr c sp ins outs) = ins"

primrec fc_outputs :: "fb_call \<Rightarrow> call_out list" where
  "fc_outputs (FbCallExpr c sp ins outs) = outs"

primrec expr_span :: "expr \<Rightarrow> span" where
  "expr_span (Literal v sp) = sp"
| "expr_span (Name p sp) = sp"
| "expr_span (Unary u e sp) = sp"
| "expr_span (Binary b l r sp) = sp"
| "expr_span (QGood e sp) = sp"
| "expr_span (FbCallE c sp) = sp"

subsection \<open>Statements\<close>

datatype stmt =
    SAssign expr expr span
  | SFbCall fb_call span
  | SIf "(expr \<times> stmt list) list" "stmt list option" span
  | SCase expr "case_arm list" "stmt list option" span
  | SWhile expr "u32 option" "stmt list" span
  | SFor string span expr expr "expr option" "u32 option" "stmt list" span
  | SReturn span
  | SEmpty span
and case_arm = CaseArm "i64 list" "stmt list"

subsection \<open>Declarations\<close>

datatype var_kind = KVar | KInput | KOutput | KRetain | KConstant | KGlobal

datatype direct_plane = PlaneI | PlaneQ | PlaneM | PlaneR

record direct_addr =
  da_plane :: direct_plane
  da_index :: u32
  da_span :: span

datatype type_expr = TyNamed string span | TyArray u32 type_expr span

record var_decl =
  vd_name :: string
  vd_name_span :: span
  vd_at :: "direct_addr option"
  vd_ty :: type_expr
  vd_init :: "expr option"
  vd_span :: span

record var_section =
  vs_kind :: var_kind
  vs_vars :: "var_decl list"
  vs_span :: span

record program =
  pg_name :: string
  pg_name_span :: span
  pg_vars :: "var_section list"
  pg_body :: "stmt list"
  pg_span :: span

record function_block =
  fb_name :: string
  fb_name_span :: span
  fb_vars :: "var_section list"
  fb_body :: "stmt list"
  fb_span :: span

datatype decl = DProgram program | DFunctionBlock function_block

record compilation_unit =
  cu_decls :: "decl list"

primrec type_expr_span :: "type_expr \<Rightarrow> span" where
  "type_expr_span (TyNamed n sp) = sp"
| "type_expr_span (TyArray u e sp) = sp"

text \<open>The diagnostic codes are told apart by their stable text.\<close>

lemma error_code_str_inject: "error_code_str a = error_code_str b \<longleftrightarrow> a = b"
  by (cases a; cases b) simp_all

end
