(* ===== verification/StBind.thy ===== *)
theory StBind
  imports StAst "HOL-Library.AList"
begin

section \<open>Types, layout and symbol binding (\<open>plc-compiler/src/bind.rs\<close>, first half)\<close>

text \<open>
  Resolution of type expressions, the layout of function blocks, the check for recursive
  composition and the binding of the variable sections of the programs to storage. Offsets and
  cursors are natural numbers: the code adds them as \<open>u32\<close>, and the theorems that depend on them
  bound the finished segments by the 24 bits an instruction can address. Slot numbers, array
  bounds and instance numbers keep their width. A hash map is an association list; where
  the code iterates over one, the order of its keys is an argument.
\<close>

definition MAX_ARRAY_ELEMS :: u32 where "MAX_ARRAY_ELEMS = 1024"

definition MAX_LOOP_DEFAULT :: u32 where "MAX_LOOP_DEFAULT = 10000"

subsection \<open>Types and storage\<close>

datatype type_def = TElem ir_type | TArray type_def u32 | TPrim primitive_id | TUserFb string

definition ir_elem :: "type_def \<Rightarrow> ir_type option" where
  "ir_elem t = (case t of TElem ty \<Rightarrow> Some ty | _ \<Rightarrow> None)"

record field_layout =
  fl_name :: string
  fl_ty :: type_def
  fl_offset :: nat
  fl_retain :: bool
  fl_retain_offset :: "nat option"

record user_fb_layout =
  ul_name :: string
  ul_inputs :: "string list"
  ul_outputs :: "string list"
  ul_fields :: "field_layout list"
  ul_total_data_size :: nat
  ul_entry_name :: string
  ul_body :: "stmt list"
  ul_instances :: "(string \<times> type_def) list"

type_synonym fb_layouts = "(string \<times> user_fb_layout) list"

datatype storage =
    StInput u32 ir_type
  | StOutput u32 ir_type
  | StData nat type_def
  | StRetain nat ir_type
  | StPrim primitive_id u32 "(string \<times> nat \<times> ir_type) list"
  | StUserInst string nat
  | StConst ir_type literal

record symbol =
  sy_storage :: storage
  sy_span :: span

type_synonym symbols = "(string \<times> symbol) list"

definition default_span :: span where "default_span = span_at 0"

subsection \<open>The allocator\<close>

record allocator =
  al_data :: nat
  al_retain :: nat

definition align_up :: "nat \<Rightarrow> nat \<Rightarrow> nat" where
  "align_up cursor a = (if cursor mod a \<noteq> 0 then cursor + (a - cursor mod a) else cursor)"

definition alloc :: "nat \<Rightarrow> nat \<Rightarrow> bool \<Rightarrow> allocator \<Rightarrow> nat \<times> allocator" where
  "alloc sz a retain al =
     (let off = align_up (if retain then al_retain al else al_data al) (max a 1)
      in (off, if retain then al\<lparr>al_retain := off + sz\<rparr> else al\<lparr>al_data := off + sz\<rparr>))"

subsection \<open>Resolving types\<close>

definition parse_ir_type :: "string \<Rightarrow> ir_type cres" where
  "parse_ir_type s =
     (let u = to_ascii_uppercase s
      in if u = ''BOOL'' then Inr TBool
         else if u = ''INT'' then Inr TInt
         else if u = ''DINT'' then Inr TDint
         else if u = ''REAL'' then Inr TReal
         else if u = ''TIME'' then Inr TTime
         else Inl (cerr EType (''unsupported type '' @ u)))"

fun resolve_type :: "type_expr \<Rightarrow> type_def cres" where
  "resolve_type (TyNamed name sp) =
     (let u = to_ascii_uppercase name
      in case parse_ir_type u of
           Inr ir \<Rightarrow> Inr (TElem ir)
         | Inl _ \<Rightarrow> (case primitive_from_name u of Some p \<Rightarrow> Inr (TPrim p) | None \<Rightarrow> Inr (TUserFb name)))"
| "resolve_type (TyArray upper elem sp) =
     (let len = upper + 1
      in if MAX_ARRAY_ELEMS < len then Inl (with_span sp (cerr ELayout ''array length exceeds''))
         else rbind (resolve_type elem) (\<lambda>et.
           case et of
             TElem _ \<Rightarrow> Inr (TArray et len)
           | _ \<Rightarrow> Inl (with_span sp (cerr EType ''array elements must be elementary in v1''))))"

definition prim_shadow_size :: "primitive_id \<Rightarrow> nat" where
  "prim_shadow_size p = (let n = output_count p in if n = 1 then 4 else if n = 2 then 8 else n * 4)"

primrec prim_out_types :: "primitive_id \<Rightarrow> (string \<times> ir_type) list" where
  "prim_out_types PrimTon = [(''Q'', TBool), (''ET'', TTime)]"
| "prim_out_types PrimTof = [(''Q'', TBool), (''ET'', TTime)]"
| "prim_out_types PrimTp = [(''Q'', TBool), (''ET'', TTime)]"
| "prim_out_types PrimCtu = [(''Q'', TBool), (''CV'', TDint)]"
| "prim_out_types PrimCtd = [(''Q'', TBool), (''CV'', TDint)]"
| "prim_out_types PrimRs = [(''Q'', TBool)]"
| "prim_out_types PrimSr = [(''Q'', TBool)]"
| "prim_out_types PrimRTrig = [(''Q'', TBool)]"
| "prim_out_types PrimFTrig = [(''Q'', TBool)]"
| "prim_out_types PrimPid = [(''OUT'', TReal)]"

primrec prim_in_names :: "primitive_id \<Rightarrow> string list" where
  "prim_in_names PrimTon = [''IN'', ''PT'']"
| "prim_in_names PrimTof = [''IN'', ''PT'']"
| "prim_in_names PrimTp = [''IN'', ''PT'']"
| "prim_in_names PrimCtu = [''CU'', ''R'', ''PV'']"
| "prim_in_names PrimCtd = [''CD'', ''LD'', ''PV'']"
| "prim_in_names PrimRs = [''S'', ''R'']"
| "prim_in_names PrimSr = [''S'', ''R'']"
| "prim_in_names PrimRTrig = [''CLK'']"
| "prim_in_names PrimFTrig = [''CLK'']"
| "prim_in_names PrimPid = [''PV'', ''SP'', ''ENABLE'']"

definition ty_align :: "ir_type \<Rightarrow> nat" where
  "ty_align ty = (case ty of TBool \<Rightarrow> 1 | TInt \<Rightarrow> 2 | _ \<Rightarrow> 4)"

fun alloc_prim_fields :: "(string \<times> ir_type) list \<Rightarrow> allocator \<Rightarrow> (string \<times> nat \<times> ir_type) list \<times> allocator" where
  "alloc_prim_fields [] al = ([], al)"
| "alloc_prim_fields ((name, ty) # rest) al =
     (let (off, al) = alloc (byte_width ty) (ty_align ty) False al;
          (outs, al) = alloc_prim_fields rest al
      in ((name, off, ty) # outs, al))"

definition alloc_prim_outputs :: "primitive_id \<Rightarrow> allocator \<Rightarrow> (string \<times> nat \<times> ir_type) list \<times> allocator" where
  "alloc_prim_outputs p al = alloc_prim_fields (prim_out_types p) al"

primrec type_byte_size :: "fb_layouts \<Rightarrow> type_def \<Rightarrow> nat cres" where
  "type_byte_size fbs (TElem t) = Inr (byte_width t)"
| "type_byte_size fbs (TArray elem len) = rbind (type_byte_size fbs elem) (\<lambda>n. Inr (min (n * unat len) (2 ^ 32 - 1)))"
| "type_byte_size fbs (TPrim p) = Inr (prim_shadow_size p)"
| "type_byte_size fbs (TUserFb name) =
     (case map_of fbs (to_ascii_lowercase name) of
        Some l \<Rightarrow> Inr (ul_total_data_size l)
      | None \<Rightarrow> Inl (cerr EUndefined (''unknown FB type '' @ name)))"

primrec type_align :: "type_def \<Rightarrow> nat" where
  "type_align (TElem t) = ty_align t"
| "type_align (TArray elem len) = type_align elem"
| "type_align (TPrim p) = 4"
| "type_align (TUserFb n) = 4"

subsection \<open>Layout of function blocks\<close>

record fb_build =
  fbb_alloc :: allocator
  fbb_fields :: "field_layout list"
  fbb_inputs :: "string list"
  fbb_outputs :: "string list"
  fbb_instances :: "(string \<times> type_def) list"

definition add_data_field :: "fb_layouts \<Rightarrow> string \<Rightarrow> type_def \<Rightarrow> fb_build \<Rightarrow> fb_build cres" where
  "add_data_field known name ty b =
     rbind (type_byte_size known ty) (\<lambda>sz.
       let (off, al) = alloc sz (type_align ty) False (fbb_alloc b)
       in Inr (b\<lparr>fbb_alloc := al, fbb_fields := fbb_fields b @
            [\<lparr>fl_name = name, fl_ty = ty, fl_offset = off, fl_retain = False, fl_retain_offset = None\<rparr>]\<rparr>))"

definition layout_var :: "fb_layouts \<Rightarrow> var_section \<Rightarrow> fb_build \<Rightarrow> var_decl \<Rightarrow> fb_build cres" where
  "layout_var known section b v =
     rbind (resolve_type (vd_ty v)) (\<lambda>ty.
     rbind (case ty of
              TUserFb n \<Rightarrow> if map_of known (to_ascii_lowercase n) = None
                          then Inl (cerr EUndefined (''FB '' @ n @ '' not laid out yet'')) else Inr ()
            | _ \<Rightarrow> Inr ()) (\<lambda>_.
       case vs_kind section of
         KInput \<Rightarrow> add_data_field known (vd_name v) ty (b\<lparr>fbb_inputs := fbb_inputs b @ [vd_name v]\<rparr>)
       | KOutput \<Rightarrow> add_data_field known (vd_name v) ty (b\<lparr>fbb_outputs := fbb_outputs b @ [vd_name v]\<rparr>)
       | KRetain \<Rightarrow>
           (case ty of
              TElem ir \<Rightarrow>
                let (off, al) = alloc (byte_width ir) (ty_align ir) True (fbb_alloc b)
                in Inr (b\<lparr>fbb_alloc := al, fbb_fields := fbb_fields b @
                     [\<lparr>fl_name = vd_name v, fl_ty = ty, fl_offset = 0, fl_retain = True, fl_retain_offset = Some off\<rparr>]\<rparr>)
            | _ \<Rightarrow> Inl (with_span (vd_span v) (cerr EType ''VAR_RETAIN field must be elementary'')))
       | KGlobal \<Rightarrow> Inl (with_span (vs_span section) (cerr EExcluded ''VAR_GLOBAL inside FUNCTION_BLOCK is excluded''))
       | _ \<Rightarrow>
           (case ty of
              TPrim _ \<Rightarrow> Inr (b\<lparr>fbb_instances := fbb_instances b @ [(vd_name v, ty)]\<rparr>)
            | TUserFb _ \<Rightarrow> Inr (b\<lparr>fbb_instances := fbb_instances b @ [(vd_name v, ty)]\<rparr>)
            | _ \<Rightarrow> add_data_field known (vd_name v) ty b)))"

fun rfold :: "('b \<Rightarrow> 'a \<Rightarrow> 'e + 'b) \<Rightarrow> 'b \<Rightarrow> 'a list \<Rightarrow> 'e + 'b" where
  "rfold f b [] = Inr b"
| "rfold f b (x # xs) = rbind (f b x) (\<lambda>b. rfold f b xs)"

definition layout_section :: "fb_layouts \<Rightarrow> fb_build \<Rightarrow> var_section \<Rightarrow> fb_build cres" where
  "layout_section known b section = rfold (layout_var known section) b (vs_vars section)"

definition layout_user_fb :: "fb_layouts \<Rightarrow> function_block \<Rightarrow> user_fb_layout cres" where
  "layout_user_fb known fb =
     rbind (rfold (layout_section known)
              \<lparr>fbb_alloc = \<lparr>al_data = 0, al_retain = 0\<rparr>, fbb_fields = [], fbb_inputs = [], fbb_outputs = [], fbb_instances = []\<rparr>
              (fb_vars fb)) (\<lambda>b.
       Inr \<lparr>ul_name = fb_name fb, ul_inputs = fbb_inputs b, ul_outputs = fbb_outputs b, ul_fields = fbb_fields b,
            ul_total_data_size = max (al_data (fbb_alloc b)) 4, ul_entry_name = ''fb.'' @ fb_name fb,
            ul_body = fb_body fb, ul_instances = fbb_instances b\<rparr>)"

text \<open>One pass of \<open>pending.retain\<close>: blocks that can be laid out now leave the list, in order, each
  seeing the ones laid out before it.\<close>

fun layout_pass :: "(string \<Rightarrow> function_block) \<Rightarrow> string list \<Rightarrow> fb_layouts \<Rightarrow> string list \<times> fb_layouts" where
  "layout_pass fb [] known = ([], known)"
| "layout_pass fb (name # rest) known =
     (case layout_user_fb known (fb name) of
        Inr l \<Rightarrow> layout_pass fb rest ((name, l) # known)
      | Inl _ \<Rightarrow> let (p, known) = layout_pass fb rest known in (name # p, known))"

lemma layout_pass_length: "length (fst (layout_pass fb ns known)) \<le> length ns"
  by (induction fb ns known rule: layout_pass.induct) (auto split: sum.splits prod.splits)

text \<open>The loop of \<open>compile_loaded\<close> over the blocks not laid out yet. Each round shortens the list or
  ends, so the guard of the code (10000 rounds) counts down and the recursion is on the list.\<close>

function layout_rounds :: "nat \<Rightarrow> (string \<Rightarrow> function_block) \<Rightarrow> string list \<Rightarrow> fb_layouts \<Rightarrow> fb_layouts cres" where
  "layout_rounds guard fb pending known =
     (if pending = [] then Inr known
      else if 10000 < guard + 1 then Inl (cerr ELayout ''FB layout did not converge (possible cycle)'')
      else let (pending', known') = layout_pass fb pending known
           in if length pending' = length pending
              then rbind (layout_user_fb known' (fb (hd pending'))) (\<lambda>_.
                     Inl (cerr EUndefined (''cannot layout FB '' @ hd pending')))
              else layout_rounds (guard + 1) fb pending' known')"
  by pat_completeness auto
termination
proof (relation "measure (\<lambda>(guard, fb, pending, known). length pending)")
  fix guard :: nat and fb pending known x pending' known'
  assume "x = layout_pass fb pending known" "(pending', known') = x" "length pending' \<noteq> length pending"
  then show "((guard + 1, fb, pending', known'), guard, fb, pending, known)
      \<in> measure (\<lambda>(guard, fb, pending, known). length pending)"
    using layout_pass_length [of fb pending known] by (metis (no_types, lifting) case_prod_conv fst_conv in_measure le_neq_implies_less)
qed simp

declare layout_rounds.simps [simp del]

subsection \<open>Recursive composition\<close>

text \<open>The types of the variables of a block that name a block of the project.\<close>

definition fb_targets :: "(string \<times> function_block) list \<Rightarrow> function_block \<Rightarrow> string list" where
  "fb_targets fbs fb =
     concat (map (\<lambda>section. concat (map (\<lambda>v.
       case vd_ty v of
         TyNamed tn _ \<Rightarrow> let key = to_ascii_lowercase tn in if map_of fbs key = None then [] else [key]
       | _ \<Rightarrow> []) (vs_vars section))) (fb_vars fb))"

definition fb_edges :: "(string \<times> function_block) list \<Rightarrow> (string \<times> string list) list" where
  "fb_edges fbs = map (\<lambda>(name, fb). (name, fb_targets fbs fb)) fbs"

text \<open>The walk from one block: pops a name, fails when the start is among its targets, pushes the
  targets. The set \<open>path\<close> of the code is empty at every pop, since each round removes what it
  inserted. The walk keeps no visited set, so on a cycle away from the start it would not end.\<close>

partial_function (option) recursion_walk ::
  "(string \<times> string list) list \<Rightarrow> string \<Rightarrow> string list \<Rightarrow> unit cres option" where
  "recursion_walk edges start stack =
     (case stack of
        [] \<Rightarrow> Some (Inr ())
      | n # rest \<Rightarrow>
          let ts = (case map_of edges n of None \<Rightarrow> [] | Some ts \<Rightarrow> ts)
          in if start \<in> set ts then Some (Inl (cerr ERecursion (''recursive FB call graph at '' @ start)))
             else recursion_walk edges start (rev ts @ rest))"

fun recursion_starts :: "(string \<times> string list) list \<Rightarrow> string list \<Rightarrow> unit cres option" where
  "recursion_starts edges [] = Some (Inr ())"
| "recursion_starts edges (s # ss) =
     (case recursion_walk edges s [s] of
        None \<Rightarrow> None
      | Some (Inl e) \<Rightarrow> Some (Inl e)
      | Some (Inr _) \<Rightarrow> recursion_starts edges ss)"

definition check_fb_recursion :: "(string list \<Rightarrow> string list) \<Rightarrow> (string \<times> function_block) list \<Rightarrow> unit cres option" where
  "check_fb_recursion order fbs = (let edges = fb_edges fbs in recursion_starts edges (order (map fst edges)))"

subsection \<open>Binding the variable sections of a program\<close>

datatype tag_kind = TagI | TagQ | TagM | TagR | TagInternal

record manifest_retain_symbol =
  ms_name :: string
  ms_ty :: ir_type
  ms_offset :: nat

record tag_entry =
  te_name :: string
  te_ty :: ir_type
  te_kind :: tag_kind
  te_slot :: "u32 option"

record bind_state =
  bn_globals :: symbols
  bn_alloc :: allocator
  bn_prim_counts :: "(primitive_id \<times> u32) list"
  bn_retain_symbols :: "manifest_retain_symbol list"
  bn_input_slots :: u32
  bn_output_slots :: u32
  bn_tags :: "tag_entry list"

definition elem_or :: "type_def \<Rightarrow> string \<Rightarrow> span \<Rightarrow> ir_type cres" where
  "elem_or ty msg sp = ok_or (ir_elem ty) (with_span sp (cerr EType msg))"

definition prim_count :: "(primitive_id \<times> u32) list \<Rightarrow> primitive_id \<Rightarrow> u32" where
  "prim_count counts p = (case map_of counts p of None \<Rightarrow> 0 | Some n \<Rightarrow> n)"

definition bind_slot_tag :: "tag_kind \<Rightarrow> string \<Rightarrow> ir_type \<Rightarrow> u32 \<Rightarrow> tag_entry list \<Rightarrow> tag_entry list" where
  "bind_slot_tag kind name ir idx tags =
     (if list_ex (\<lambda>t. te_slot t = Some idx \<and> te_kind t = kind) tags then tags
      else tags @ [\<lparr>te_name = name, te_ty = ir, te_kind = kind, te_slot = Some idx\<rparr>])"

definition bind_at :: "fb_layouts \<Rightarrow> var_decl \<Rightarrow> direct_addr \<Rightarrow> type_def \<Rightarrow> bind_state \<Rightarrow> (storage \<times> bind_state) cres" where
  "bind_at fbs v at ty b =
     (case da_plane at of
        PlaneI \<Rightarrow>
          rbind (elem_or ty ''%I must be elementary'' (vd_span v)) (\<lambda>ir.
          Inr (StInput (da_index at) ir,
               b\<lparr>bn_input_slots := max (bn_input_slots b) (da_index at + 1),
                 bn_tags := bind_slot_tag TagI (vd_name v) ir (da_index at) (bn_tags b)\<rparr>))
      | PlaneQ \<Rightarrow>
          rbind (elem_or ty ''%Q must be elementary'' (vd_span v)) (\<lambda>ir.
          Inr (StOutput (da_index at) ir,
               b\<lparr>bn_output_slots := max (bn_output_slots b) (da_index at + 1),
                 bn_tags := bind_slot_tag TagQ (vd_name v) ir (da_index at) (bn_tags b)\<rparr>))
      | PlaneR \<Rightarrow>
          rbind (elem_or ty ''%R must be elementary'' (vd_span v)) (\<lambda>ir.
          let (off, al) = alloc (byte_width ir) (ty_align ir) True (bn_alloc b)
          in Inr (StRetain off ir,
               b\<lparr>bn_alloc := al,
                 bn_retain_symbols := bn_retain_symbols b @ [\<lparr>ms_name = vd_name v, ms_ty = ir, ms_offset = off\<rparr>],
                 bn_tags := (if list_ex (\<lambda>t. te_name t = vd_name v) (bn_tags b) then bn_tags b
                   else bn_tags b @ [\<lparr>te_name = vd_name v, te_ty = ir, te_kind = TagR, te_slot = None\<rparr>])\<rparr>))
      | PlaneM \<Rightarrow>
          rbind (type_byte_size fbs ty) (\<lambda>sz.
          let (off, al) = alloc sz (type_align ty) False (bn_alloc b)
          in Inr (StData off ty, b\<lparr>bn_alloc := al\<rparr>)))"

definition bind_const :: "var_decl \<Rightarrow> type_def \<Rightarrow> storage cres" where
  "bind_const v ty =
     rbind (elem_or ty ''CONSTANT must be elementary'' (vd_span v)) (\<lambda>ir.
       case vd_init v of
         Some (Literal value _) \<Rightarrow> Inr (StConst ir value)
       | _ \<Rightarrow> Inl (with_span (vd_span v) (cerr EType ''CONSTANT requires literal initializer'')))"

definition bind_retain :: "var_decl \<Rightarrow> type_def \<Rightarrow> bind_state \<Rightarrow> (storage \<times> bind_state) cres" where
  "bind_retain v ty b =
     rbind (elem_or ty ''VAR_RETAIN must be elementary'' (vd_span v)) (\<lambda>ir.
     let (off, al) = alloc (byte_width ir) (ty_align ir) True (bn_alloc b)
     in Inr (StRetain off ir, b\<lparr>bn_alloc := al,
          bn_retain_symbols := bn_retain_symbols b @ [\<lparr>ms_name = vd_name v, ms_ty = ir, ms_offset = off\<rparr>]\<rparr>))"

definition bind_plain :: "fb_layouts \<Rightarrow> u32 \<Rightarrow> var_decl \<Rightarrow> type_def \<Rightarrow> bind_state \<Rightarrow> (storage \<times> bind_state) cres" where
  "bind_plain fbs max_instances v ty b =
     (case ty of
        TPrim pid \<Rightarrow>
          let inst = prim_count (bn_prim_counts b) pid
          in if max_instances \<le> inst then Inl (cerr ELayout ''primitive instance limit exceeded'')
             else let (outs, al) = alloc_prim_outputs pid (bn_alloc b)
                  in Inr (StPrim pid inst outs,
                       b\<lparr>bn_alloc := al, bn_prim_counts := AList.update pid (inst + 1) (bn_prim_counts b)\<rparr>)
      | TUserFb name \<Rightarrow>
          (case map_of fbs (to_ascii_lowercase name) of
             None \<Rightarrow> Inl (with_span (vd_span v) (cerr EUndefined (''unknown FB type '' @ name)))
           | Some l \<Rightarrow>
               let (base, al) = alloc (ul_total_data_size l) 4 False (bn_alloc b)
               in Inr (StUserInst name base, b\<lparr>bn_alloc := al\<rparr>))
      | _ \<Rightarrow>
          rbind (type_byte_size fbs ty) (\<lambda>sz.
          let (off, al) = alloc sz (type_align ty) False (bn_alloc b)
          in Inr (StData off ty, b\<lparr>bn_alloc := al\<rparr>)))"

definition bind_var :: "fb_layouts \<Rightarrow> u32 \<Rightarrow> var_kind \<Rightarrow> bind_state \<Rightarrow> var_decl \<Rightarrow> bind_state cres" where
  "bind_var fbs max_instances kind b v =
     (let key = to_ascii_lowercase (vd_name v)
      in if map_of (bn_globals b) key \<noteq> None then
           (if kind \<in> {KGlobal, KRetain, KConstant} \<and> vd_at v \<noteq> None then Inr b
            else Inl (with_span (vd_name_span v) (cerr EDuplicate (''duplicate variable '' @ vd_name v))))
         else
           rbind (resolve_type (vd_ty v)) (\<lambda>ty.
           rbind (case vd_at v of
                    Some at \<Rightarrow> bind_at fbs v at ty b
                  | None \<Rightarrow>
                      if kind = KConstant then rbind (bind_const v ty) (\<lambda>st. Inr (st, b))
                      else if kind = KRetain then bind_retain v ty b
                      else bind_plain fbs max_instances v ty b) (\<lambda>(st, b).
           Inr (b\<lparr>bn_globals := bn_globals b @ [(key, \<lparr>sy_storage = st, sy_span = vd_name_span v\<rparr>)]\<rparr>))))"

definition bind_section :: "fb_layouts \<Rightarrow> u32 \<Rightarrow> bool \<Rightarrow> bind_state \<Rightarrow> var_section \<Rightarrow> bind_state cres" where
  "bind_section fbs max_instances allow_global b section =
     (if vs_kind section = KGlobal \<and> \<not> allow_global
      then Inl (with_span (vs_span section) (cerr EExcluded ''VAR_GLOBAL not allowed here''))
      else rfold (bind_var fbs max_instances (vs_kind section)) b (vs_vars section))"

definition bind_var_sections :: "fb_layouts \<Rightarrow> u32 \<Rightarrow> bool \<Rightarrow> var_section list \<Rightarrow> bind_state \<Rightarrow> bind_state cres" where
  "bind_var_sections fbs max_instances allow_global sections b =
     rfold (bind_section fbs max_instances allow_global) b sections"

end
