(* ===== verification/CodeGen.thy ===== *)
theory CodeGen
  imports StBind
begin

unbundle bit_operations_syntax

section \<open>Code generation (\<open>plc-compiler/src/bind.rs\<close>, \<open>Codegen\<close>)\<close>

text \<open>
  The emitter of statements and expressions. Its state is the \<open>codegen\<close> record; an operation that
  can fail returns the new state with its result or the diagnostic. A label \<open>.<prefix><id>\<close> is the
  pair of its prefix and its number: no prefix of the code ends in a digit, so the text determines
  the pair. Jumps are emitted with an empty target and a fix-up, and \<open>finish_code\<close> patches them. Where
  the code would panic (\<open>unwrap\<close>), the model returns the diagnostic \<open>cpanic\<close>. The order in which the
  code visits the named arguments of a block call, a hash map, is the argument \<open>ord\<close>.
\<close>

datatype label = Label string nat

record codegen =
  cg_fb_layouts :: fb_layouts
  cg_globals :: symbols
  cg_locals :: symbols
  cg_code :: bytes
  cg_entries :: "entry_point list"
  cg_labels :: "(label \<times> u32) list"
  cg_fixups :: "(nat \<times> label) list"
  cg_label_id :: nat
  cg_extra_data :: nat
  cg_extra_retain :: nat
  cg_data_cursor :: nat

definition cpanic :: "string \<Rightarrow> compile_error" where
  "cpanic msg = cerr ECodegen (''panic: '' @ msg)"

definition codegen_new :: "fb_layouts \<Rightarrow> symbols \<Rightarrow> codegen" where
  "codegen_new fbs globals =
     \<lparr>cg_fb_layouts = fbs, cg_globals = globals, cg_locals = [], cg_code = [], cg_entries = [], cg_labels = [],
      cg_fixups = [], cg_label_id = 0, cg_extra_data = 0, cg_extra_retain = 0, cg_data_cursor = 0\<rparr>"

definition begin_entry :: "string \<Rightarrow> bool \<Rightarrow> codegen \<Rightarrow> codegen" where
  "begin_entry name is_user_fb cg =
     cg\<lparr>cg_entries := cg_entries cg
          @ [\<lparr>ep_name = name, ep_pc = word_of_nat (length (cg_code cg)), ep_is_user_fb = is_user_fb\<rparr>]\<rparr>"

definition with_locals :: "symbols \<Rightarrow> (codegen \<Rightarrow> codegen cres) \<Rightarrow> codegen \<Rightarrow> codegen cres" where
  "with_locals locals f cg = rbind (f (cg\<lparr>cg_locals := locals\<rparr>)) (\<lambda>cg. Inr (cg\<lparr>cg_locals := []\<rparr>))"

definition fresh_label :: "string \<Rightarrow> codegen \<Rightarrow> label \<times> codegen" where
  "fresh_label prefix cg = (Label prefix (cg_label_id cg), cg\<lparr>cg_label_id := cg_label_id cg + 1\<rparr>)"

definition place_label :: "label \<Rightarrow> codegen \<Rightarrow> codegen" where
  "place_label l cg = cg\<lparr>cg_labels := (l, word_of_nat (length (cg_code cg))) # cg_labels cg\<rparr>"

definition emit :: "decoded_instr \<Rightarrow> codegen \<Rightarrow> codegen" where
  "emit i cg = cg\<lparr>cg_code := cg_code cg @ encode_instruction i\<rparr>"

definition emit_simple :: "opcode \<Rightarrow> nat \<Rightarrow> codegen \<Rightarrow> codegen" where
  "emit_simple op payload cg = emit (Simple op (word_of_nat payload)) cg"

definition emit_jmp :: "opcode \<Rightarrow> label \<Rightarrow> codegen \<Rightarrow> codegen" where
  "emit_jmp op l cg =
     (let off = length (cg_code cg); cg = emit_simple op 0 cg
      in cg\<lparr>cg_fixups := cg_fixups cg @ [(off, l)]\<rparr>)"

definition lookup_sym :: "string \<Rightarrow> codegen \<Rightarrow> symbol cres" where
  "lookup_sym name cg =
     (let key = to_ascii_lowercase name
      in case map_of (cg_locals cg) key of
           Some s \<Rightarrow> Inr s
         | None \<Rightarrow> ok_or (map_of (cg_globals cg) key) (cerr EUndefined (''undefined '' @ name)))"

subsection \<open>Temporaries\<close>

text \<open>Where the storage of a symbol ends in the data segment.\<close>

definition sym_data_end :: "fb_layouts \<Rightarrow> symbol \<Rightarrow> nat option" where
  "sym_data_end fbs s =
     (case sy_storage s of
        StData off ty \<Rightarrow> Some (off + (case type_byte_size fbs ty of Inr n \<Rightarrow> n | Inl _ \<Rightarrow> 4))
      | StPrim _ _ outs \<Rightarrow> if outs = [] then None else Some (fold max (map (\<lambda>(_, off, t). off + byte_width t) outs) 0)
      | StUserInst fb base \<Rightarrow> map_option (\<lambda>l. base + ul_total_data_size l) (map_of fbs (to_ascii_lowercase fb))
      | _ \<Rightarrow> None)"

definition globals_end :: "fb_layouts \<Rightarrow> symbols \<Rightarrow> nat" where
  "globals_end fbs globals = fold max (List.map_filter (\<lambda>(_, s). sym_data_end fbs s) globals) 0"

definition alloc_temp :: "ir_type \<Rightarrow> codegen \<Rightarrow> nat \<times> codegen" where
  "alloc_temp ty cg =
     (let a = ty_align ty;
          cursor = align_up (cg_data_cursor cg) a;
          base = max (max (globals_end (cg_fb_layouts cg) (cg_globals cg)) (cg_extra_data cg)) cursor;
          off = align_up base a;
          fin = off + byte_width ty
      in (off, cg\<lparr>cg_data_cursor := fin, cg_extra_data := fin\<rparr>))"

subsection \<open>Reading and writing paths\<close>

definition path_parts :: "path_seg list \<Rightarrow> (string \<times> path_seg list) cres" where
  "path_parts path =
     (case path of PIdent n # rest \<Rightarrow> Inr (n, rest) | _ \<Rightarrow> Inl (cerr EParse ''path must start with identifier''))"

definition emit_literal :: "literal \<Rightarrow> codegen \<Rightarrow> codegen \<times> ir_type" where
  "emit_literal v cg =
     (case v of
        LBool b \<Rightarrow> (emit_simple OpPushIBool (if b then 1 else 0) cg, TBool)
      | LInt n \<Rightarrow> (emit (WithImm32 OpPushIDint 0 (ucast n)) cg, TDint)
      | LReal r \<Rightarrow> (emit (WithImm32 OpPushIReal 0 r) cg, TReal)
      | LTimeMs t \<Rightarrow> (emit (WithImm32 OpPushTime 0 t) cg, TTime))"

definition find_out :: "(string \<times> nat \<times> ir_type) list \<Rightarrow> string \<Rightarrow> (string \<times> nat \<times> ir_type) option" where
  "find_out outs name = find (\<lambda>(n, _, _). eq_ignore_ascii_case n name) outs"

definition find_field :: "user_fb_layout \<Rightarrow> string \<Rightarrow> field_layout option" where
  "find_field l name = find (\<lambda>f. eq_ignore_ascii_case (fl_name f) name) (ul_fields l)"

definition elem_or_bool :: "type_def \<Rightarrow> ir_type" where
  "elem_or_bool ty = (case ir_elem ty of Some t \<Rightarrow> t | None \<Rightarrow> TBool)"

definition emit_load_root :: "string \<Rightarrow> storage \<Rightarrow> codegen \<Rightarrow> (codegen \<times> ir_type) cres" where
  "emit_load_root root st cg =
     (case st of
        StInput slot ty \<Rightarrow> Inr (emit_simple OpLdI (unat slot) cg, ty)
      | StOutput slot ty \<Rightarrow> Inr (emit_simple OpLdQ (unat slot) cg, ty)
      | StData off (TElem t) \<Rightarrow> Inr (emit_simple OpLdData off cg, t)
      | StRetain off ty \<Rightarrow> Inr (emit_simple OpLdRetain off cg, ty)
      | StConst _ value \<Rightarrow> Inr (emit_literal value cg)
      | _ \<Rightarrow> Inl (cerr EType (''cannot read '' @ root @ '' as a value'')))"

definition emit_load_index :: "storage \<Rightarrow> expr \<Rightarrow> codegen \<Rightarrow> (codegen \<times> ir_type) cres" where
  "emit_load_index st idx cg =
     (case st of
        StData off (TArray elem _) \<Rightarrow>
          (case ir_elem elem of
             None \<Rightarrow> Inl (cpanic ''unwrap'')
           | Some et \<Rightarrow>
               (case idx of
                  Literal (LInt i) _ \<Rightarrow>
                    Inr (emit_simple OpLdData (off + unat (ucast i :: u32) * byte_width et) cg, et)
                | _ \<Rightarrow> Inl (cerr EType ''array index must be constant in v1'')))
      | _ \<Rightarrow> Inl (cerr EType ''not an array''))"

definition field_access ::
  "opcode \<Rightarrow> opcode \<Rightarrow> string \<Rightarrow> storage \<Rightarrow> string \<Rightarrow> codegen \<Rightarrow> (codegen \<times> ir_type) cres" where
  "field_access data_op retain_op msg st field cg =
     (case st of
        StPrim _ _ outs \<Rightarrow>
          rbind (ok_or (find_out outs field) (cerr EUndefined (''no field '' @ field))) (\<lambda>(_, off, ty).
          Inr (emit_simple data_op off cg, ty))
      | StUserInst fb base \<Rightarrow>
          rbind (ok_or (map_of (cg_fb_layouts cg) (to_ascii_lowercase fb)) (cpanic ''unwrap'')) (\<lambda>l.
          rbind (ok_or (find_field l field) (cerr EUndefined (''no field '' @ field))) (\<lambda>f.
          let ty = elem_or_bool (fl_ty f)
          in if fl_retain f
             then rbind (ok_or (fl_retain_offset f) (cpanic ''unwrap'')) (\<lambda>off. Inr (emit_simple retain_op off cg, ty))
             else Inr (emit_simple data_op (base + fl_offset f) cg, ty)))
      | _ \<Rightarrow> Inl (cerr EType msg))"

definition emit_load_path :: "path_seg list \<Rightarrow> codegen \<Rightarrow> (codegen \<times> ir_type) cres" where
  "emit_load_path path cg =
     rbind (path_parts path) (\<lambda>(root, rest).
     rbind (lookup_sym root cg) (\<lambda>sym.
       case rest of
         [] \<Rightarrow> emit_load_root root (sy_storage sym) cg
       | PIdent f # _ \<Rightarrow> field_access OpLdData OpLdRetain ''bad field load'' (sy_storage sym) f cg
       | PIndex idx # _ \<Rightarrow> emit_load_index (sy_storage sym) idx cg))"

definition emit_store_root :: "storage \<Rightarrow> codegen \<Rightarrow> codegen cres" where
  "emit_store_root st cg =
     (case st of
        StOutput slot _ \<Rightarrow> Inr (emit_simple OpStQ (unat slot) cg)
      | StData off _ \<Rightarrow> Inr (emit_simple OpStData off cg)
      | StRetain off _ \<Rightarrow> Inr (emit_simple OpStRetain off cg)
      | StInput _ _ \<Rightarrow> Inl (cerr EType ''cannot assign to %I input'')
      | StConst _ _ \<Rightarrow> Inl (cerr EType ''cannot assign to CONSTANT'')
      | _ \<Rightarrow> Inl (cerr EType ''cannot assign to FB instance directly''))"

text \<open>The target of an assignment. The store to an array element comes after a match that has already
  refused every index, so it is never reached; a field of an array emits nothing.\<close>

definition emit_store :: "expr \<Rightarrow> ir_type \<Rightarrow> codegen \<Rightarrow> codegen cres" where
  "emit_store lhs ty cg =
     (case lhs of
        Name path _ \<Rightarrow>
          rbind (path_parts path) (\<lambda>(root, rest).
          rbind (lookup_sym root cg) (\<lambda>sym.
            case rest of
              [] \<Rightarrow> emit_store_root (sy_storage sym) cg
            | PIdent f # _ \<Rightarrow>
                (case sy_storage sym of
                   StData _ (TArray _ _) \<Rightarrow> Inr cg
                 | st \<Rightarrow> rbind (field_access OpStData OpStRetain ''invalid store target'' st f cg) (\<lambda>(cg, _). Inr cg))
            | PIndex _ # _ \<Rightarrow> Inl (cerr EType ''bad field store'')))
      | _ \<Rightarrow> Inl (cerr EType ''invalid assignment target''))"

definition emit_store_offset :: "nat \<Rightarrow> bool \<Rightarrow> ir_type \<Rightarrow> codegen \<Rightarrow> codegen" where
  "emit_store_offset off retain ty cg = emit_simple (if retain then OpStRetain else OpStData) off cg"

subsection \<open>Calls of function blocks\<close>

fun position :: "('a \<Rightarrow> bool) \<Rightarrow> 'a list \<Rightarrow> nat option" where
  "position P [] = None"
| "position P (x # xs) = (if P x then Some 0 else map_option Suc (position P xs))"

definition is_true_literal :: "expr \<Rightarrow> bool" where
  "is_true_literal e = (case e of Literal (LBool b) _ \<Rightarrow> b | _ \<Rightarrow> False)"

fun resolve_prim_args :: "string list \<Rightarrow> nat \<Rightarrow> expr option list \<Rightarrow> call_arg list \<Rightarrow> expr option list cres" where
  "resolve_prim_args names pos args [] = Inr args"
| "resolve_prim_args names pos args (Positional e # rest) =
     (if length args \<le> pos then Inl (cerr EType ''too many FB inputs'')
      else resolve_prim_args names (pos + 1) (args[pos := Some e]) rest)"
| "resolve_prim_args names pos args (Named name value # rest) =
     (if eq_ignore_ascii_case name ''EN'' then
        (if is_true_literal value then resolve_prim_args names pos args rest
         else Inl (cerr EExcluded ''EN must be constant TRUE in v1 (or omitted)''))
      else case position (\<lambda>n. eq_ignore_ascii_case n name) names of
             None \<Rightarrow> Inl (cerr EUndefined (''unknown input '' @ name))
           | Some idx \<Rightarrow> resolve_prim_args names pos (args[idx := Some value]) rest)"

type_synonym emit_expr_op = "expr \<Rightarrow> codegen \<Rightarrow> (codegen \<times> ir_type) cres"

fun emit_prim_args :: "emit_expr_op \<Rightarrow> (string \<times> expr option) list \<Rightarrow> codegen \<Rightarrow> codegen cres" where
  "emit_prim_args ee [] cg = Inr cg"
| "emit_prim_args ee ((name, a) # rest) cg =
     (case a of
        None \<Rightarrow> Inl (cerr EType (''missing input '' @ name))
      | Some e \<Rightarrow> rbind (ee e cg) (\<lambda>(cg, _). emit_prim_args ee rest cg))"

fun emit_prim_outs :: "(string \<times> nat \<times> ir_type) list \<Rightarrow> call_out list \<Rightarrow> codegen \<Rightarrow> codegen cres" where
  "emit_prim_outs outs [] cg = Inr cg"
| "emit_prim_outs outs (CallOut name dest # rest) cg =
     (if eq_ignore_ascii_case name ''ENO'' then emit_prim_outs outs rest cg
      else rbind (ok_or (find_out outs name) (cerr EUndefined (''unknown output '' @ name))) (\<lambda>(_, off, ty).
           rbind (emit_store dest ty (emit_simple OpLdData off cg)) (\<lambda>cg. emit_prim_outs outs rest cg)))"

definition emit_prim_call ::
  "emit_expr_op \<Rightarrow> primitive_id \<Rightarrow> u32 \<Rightarrow> (string \<times> nat \<times> ir_type) list \<Rightarrow> fb_call \<Rightarrow> codegen \<Rightarrow> codegen cres" where
  "emit_prim_call ee pid inst outs call cg =
     (let names = prim_in_names pid
      in rbind (resolve_prim_args names 0 (replicate (length names) None) (fc_inputs call)) (\<lambda>args.
         rbind (emit_prim_args ee (zip names args) cg) (\<lambda>cg.
         let cg = emit (CallFb 0 (primitive_u32 pid) inst) cg;
             cg = fold (\<lambda>(_, off, _). emit_simple OpStData off) outs cg
         in emit_prim_outs outs (fc_outputs call) cg)))"

fun emit_user_positional ::
  "emit_expr_op \<Rightarrow> user_fb_layout \<Rightarrow> nat \<Rightarrow> nat \<Rightarrow> (string \<times> expr) list \<Rightarrow> call_arg list \<Rightarrow> codegen
    \<Rightarrow> (codegen \<times> (string \<times> expr) list) cres" where
  "emit_user_positional ee l base pos named [] cg = Inr (cg, named)"
| "emit_user_positional ee l base pos named (Positional e # rest) cg =
     (if length (ul_inputs l) \<le> pos then Inl (cerr EType ''too many inputs'')
      else case find_field l (ul_inputs l ! pos) of
             None \<Rightarrow> Inl (cpanic ''unwrap'')
           | Some f \<Rightarrow> rbind (ee e cg) (\<lambda>(cg, ty).
               emit_user_positional ee l base (pos + 1) named rest (emit_store_offset (base + fl_offset f) False ty cg)))"
| "emit_user_positional ee l base pos named (Named name value # rest) cg =
     (if eq_ignore_ascii_case name ''EN'' then emit_user_positional ee l base pos named rest cg
      else emit_user_positional ee l base pos (AList.update (to_ascii_lowercase name) value named) rest cg)"

fun emit_user_named :: "emit_expr_op \<Rightarrow> user_fb_layout \<Rightarrow> nat \<Rightarrow> (string \<times> expr) list \<Rightarrow> codegen \<Rightarrow> codegen cres" where
  "emit_user_named ee l base [] cg = Inr cg"
| "emit_user_named ee l base ((fname, e) # rest) cg =
     rbind (ok_or (find_field l fname) (cerr EUndefined (''unknown input '' @ fname))) (\<lambda>f.
     rbind (ee e cg) (\<lambda>(cg, ty).
     rbind (if fl_retain f then rbind (ok_or (fl_retain_offset f) (cpanic ''unwrap'')) (\<lambda>off. Inr (emit_store_offset off True ty cg))
            else Inr (emit_store_offset (base + fl_offset f) False ty cg)) (\<lambda>cg.
     emit_user_named ee l base rest cg)))"

text \<open>The number of the called block: the digits of its entry name, which it has once its body has
  been emitted; before that, the position of an entry of that name, or 0.\<close>

definition user_fb_id :: "entry_point list \<Rightarrow> string \<Rightarrow> u32" where
  "user_fb_id ents entry_name =
     (let by_entry =
        (if list_ex (\<lambda>e. ep_name e = entry_name \<or> starts_with ''fb.'' (ep_name e)) ents
         then Some (case position (\<lambda>e. ep_name e = entry_name) ents of Some i \<Rightarrow> word_of_nat i | None \<Rightarrow> 0)
         else None);
          by_name = (if starts_with ''fb.'' entry_name then parse_u32 (drop 3 entry_name) else None)
      in case by_name of Some i \<Rightarrow> i | None \<Rightarrow> (case by_entry of Some i \<Rightarrow> i | None \<Rightarrow> 0))"

fun emit_user_outs :: "user_fb_layout \<Rightarrow> nat \<Rightarrow> call_out list \<Rightarrow> codegen \<Rightarrow> codegen cres" where
  "emit_user_outs l base [] cg = Inr cg"
| "emit_user_outs l base (CallOut name dest # rest) cg =
     rbind (ok_or (find_field l name) (cerr EUndefined (''unknown output '' @ name))) (\<lambda>f.
     rbind (if fl_retain f then rbind (ok_or (fl_retain_offset f) (cpanic ''unwrap'')) (\<lambda>off. Inr (emit_simple OpLdRetain off cg))
            else Inr (emit_simple OpLdData (base + fl_offset f) cg)) (\<lambda>cg.
     rbind (emit_store dest (elem_or_bool (fl_ty f)) cg) (\<lambda>cg. emit_user_outs l base rest cg)))"

definition named_in_order :: "(string list \<Rightarrow> string list) \<Rightarrow> (string \<times> expr) list \<Rightarrow> (string \<times> expr) list" where
  "named_in_order ord named = List.map_filter (\<lambda>k. map_option (Pair k) (map_of named k)) (ord (map fst named))"

definition emit_user_call ::
  "(string list \<Rightarrow> string list) \<Rightarrow> emit_expr_op \<Rightarrow> string \<Rightarrow> nat \<Rightarrow> fb_call \<Rightarrow> codegen \<Rightarrow> codegen cres" where
  "emit_user_call ord ee fb base call cg =
     rbind (ok_or (map_of (cg_fb_layouts cg) (to_ascii_lowercase fb)) (cerr EUndefined (''FB '' @ fb))) (\<lambda>l.
     rbind (emit_user_positional ee l base 0 [] (fc_inputs call) cg) (\<lambda>(cg, named).
     rbind (emit_user_named ee l base (named_in_order ord named) cg) (\<lambda>cg.
     emit_user_outs l base (fc_outputs call)
       (emit (CallFb 1 (user_fb_id (cg_entries cg) (ul_entry_name l)) (word_of_nat base)) cg))))"

definition fb_call_with ::
  "(string list \<Rightarrow> string list) \<Rightarrow> emit_expr_op \<Rightarrow> fb_call \<Rightarrow> codegen \<Rightarrow> codegen cres" where
  "fb_call_with ord ee call cg =
     (case fc_callee call of
        [PIdent n] \<Rightarrow>
          rbind (lookup_sym n cg) (\<lambda>sym.
            case sy_storage sym of
              StPrim pid inst outs \<Rightarrow> emit_prim_call ee pid inst outs call cg
            | StUserInst fb base \<Rightarrow> emit_user_call ord ee fb base call cg
            | _ \<Rightarrow> Inl (cerr EType (n @ '' is not an FB instance'')))
      | _ \<Rightarrow> Inl (with_span (fc_callee_span call) (cerr EParse ''FB call callee must be a simple instance name'')))"

text \<open>A call only emits the expressions among its arguments.\<close>

primrec arg_expr :: "call_arg \<Rightarrow> expr" where
  "arg_expr (Positional e) = e"
| "arg_expr (Named n e) = e"

lemma resolve_prim_args_subset:
  "resolve_prim_args names pos args ins = Inr args' \<Longrightarrow> Some e \<in> set args' \<Longrightarrow> Some e \<in> set args \<or> e \<in> arg_expr ` set ins"
proof (induction names pos args ins rule: resolve_prim_args.induct)
  case (2 names pos args x rest)
  then have "Some e \<in> set (args[pos := Some x]) \<or> e \<in> arg_expr ` set rest" by (auto split: if_splits)
  then show ?case using set_update_subset_insert [of args pos "Some x"] by auto
next
  case (3 names pos args name v rest)
  show ?case
  proof (cases "position (\<lambda>n. eq_ignore_ascii_case n name) names")
    case None
    then show ?thesis using 3 by (auto split: if_splits)
  next
    case (Some i)
    then show ?thesis using 3 set_update_subset_insert [of args i "Some v"] by (auto split: if_splits)
  qed
qed auto

lemma alist_update_subset: "set (AList.update k v al) \<subseteq> insert (k, v) (set al)"
  by (induction al) auto

lemma emit_user_positional_subset:
  "emit_user_positional ee l base pos named ins cg = Inr (cg', named') \<Longrightarrow> e \<in> snd ` set named'
    \<Longrightarrow> e \<in> snd ` set named \<or> e \<in> arg_expr ` set ins"
proof (induction ee l base pos named ins cg rule: emit_user_positional.induct)
  case (3 ee l base pos named name v rest cg)
  then have "e \<in> snd ` set (AList.update (to_ascii_lowercase name) v named) \<or> e \<in> snd ` set named \<or> e \<in> arg_expr ` set rest"
    by (auto split: if_splits)
  then show ?case using alist_update_subset [of "to_ascii_lowercase name" v named] by auto
qed (auto simp: rbind_eq_Inr split: if_splits option.splits)

lemma named_in_order_subset: "(k, e) \<in> set (named_in_order ord named) \<Longrightarrow> e \<in> snd ` set named"
  by (force simp: named_in_order_def map_filter_def dest: map_of_SomeD)

lemma rbind_cong: "m = m' \<Longrightarrow> (\<And>x. m' = Inr x \<Longrightarrow> f x = g x) \<Longrightarrow> rbind m f = rbind m' g"
  by (cases m') simp_all

lemma emit_prim_args_cong:
  "(\<And>e cg. Some e \<in> snd ` set args \<Longrightarrow> ee e cg = ee' e cg) \<Longrightarrow> emit_prim_args ee args cg = emit_prim_args ee' args cg"
proof (induction args arbitrary: cg)
  case (Cons x xs)
  obtain n a where x: "x = (n, a)" by force
  have "ee e cg = ee' e cg" if "a = Some e" for e cg using Cons.prems that by (simp add: x)
  moreover have "emit_prim_args ee xs cg = emit_prim_args ee' xs cg" for cg
    by (rule Cons.IH) (rule Cons.prems, simp)
  ultimately show ?case by (auto simp: x intro!: rbind_cong split: option.splits)
qed simp

lemma emit_user_positional_cong:
  "(\<And>e cg. e \<in> arg_expr ` set ins \<Longrightarrow> ee e cg = ee' e cg)
    \<Longrightarrow> emit_user_positional ee l base pos named ins cg = emit_user_positional ee' l base pos named ins cg"
proof (induction ins arbitrary: pos named cg)
  case (Cons a ins)
  then have "ee (arg_expr a) cg = ee' (arg_expr a) cg" for cg by simp
  then show ?case using Cons by (cases a) (auto intro!: rbind_cong split: option.splits)
qed simp

lemma emit_user_named_cong:
  "(\<And>e cg. e \<in> snd ` set named \<Longrightarrow> ee e cg = ee' e cg) \<Longrightarrow> emit_user_named ee l base named cg = emit_user_named ee' l base named cg"
proof (induction named arbitrary: cg)
  case (Cons x xs)
  then have "ee (snd x) cg = ee' (snd x) cg" for cg by simp
  then show ?case using Cons by (cases x) (auto intro!: rbind_cong)
qed simp

lemma emit_prim_call_cong:
  assumes "\<And>e cg. e \<in> arg_expr ` set (fc_inputs call) \<Longrightarrow> ee e cg = ee' e cg"
  shows "emit_prim_call ee pid inst outs call cg = emit_prim_call ee' pid inst outs call cg"
  unfolding emit_prim_call_def Let_def
proof (rule rbind_cong [OF refl])
  fix args
  assume r: "resolve_prim_args (prim_in_names pid) 0 (replicate (length (prim_in_names pid)) None) (fc_inputs call) = Inr args"
  have "emit_prim_args ee (zip (prim_in_names pid) args) cg = emit_prim_args ee' (zip (prim_in_names pid) args) cg"
    using resolve_prim_args_subset [OF r] assms
    by (intro emit_prim_args_cong) (auto dest!: set_zip_rightD)
  then show "rbind (emit_prim_args ee (zip (prim_in_names pid) args) cg)
       (\<lambda>cg. emit_prim_outs outs (fc_outputs call) (fold (\<lambda>(_, off, _). emit_simple OpStData off) outs (emit (CallFb 0 (primitive_u32 pid) inst) cg)))
     = rbind (emit_prim_args ee' (zip (prim_in_names pid) args) cg)
       (\<lambda>cg. emit_prim_outs outs (fc_outputs call) (fold (\<lambda>(_, off, _). emit_simple OpStData off) outs (emit (CallFb 0 (primitive_u32 pid) inst) cg)))"
    by simp
qed

lemma emit_user_call_cong:
  assumes a: "\<And>e cg. e \<in> arg_expr ` set (fc_inputs call) \<Longrightarrow> ee e cg = ee' e cg"
  shows "emit_user_call ord ee fb base call cg = emit_user_call ord ee' fb base call cg"
  unfolding emit_user_call_def
proof (intro rbind_cong refl)
  fix l
  show p: "emit_user_positional ee l base 0 [] (fc_inputs call) cg = emit_user_positional ee' l base 0 [] (fc_inputs call) cg"
    by (rule emit_user_positional_cong) (rule a)
  fix r
  assume r: "emit_user_positional ee' l base 0 [] (fc_inputs call) cg = Inr r"
  obtain cg' named where "r = (cg', named)" by force
  then have "emit_user_named ee l base (named_in_order ord named) cg' = emit_user_named ee' l base (named_in_order ord named) cg'"
    using emit_user_positional_subset [OF r [unfolded \<open>r = _\<close>]] named_in_order_subset a
    by (intro emit_user_named_cong) fastforce
  then show "(case r of (cg, named) \<Rightarrow> rbind (emit_user_named ee l base (named_in_order ord named) cg)
        (\<lambda>cg. emit_user_outs l base (fc_outputs call) (emit (CallFb 1 (user_fb_id (cg_entries cg) (ul_entry_name l)) (word_of_nat base)) cg)))
    = (case r of (cg, named) \<Rightarrow> rbind (emit_user_named ee' l base (named_in_order ord named) cg)
        (\<lambda>cg. emit_user_outs l base (fc_outputs call) (emit (CallFb 1 (user_fb_id (cg_entries cg) (ul_entry_name l)) (word_of_nat base)) cg)))"
    by (simp add: \<open>r = _\<close>)
qed

lemma fb_call_with_cong [fundef_cong]:
  assumes "\<And>e cg. e \<in> arg_expr ` set (fc_inputs call) \<Longrightarrow> ee e cg = ee' e cg" "ord = ord'" "call = call'" "cg = cg'"
  shows "fb_call_with ord ee call cg = fb_call_with ord' ee' call' cg'"
  using assms emit_prim_call_cong [of call ee ee'] emit_user_call_cong [of call ee ee']
  by (auto simp: fb_call_with_def split: list.splits path_seg.splits intro!: rbind_cong split: storage.splits)

subsection \<open>Expressions\<close>

primrec binary_opcode :: "binary_operator \<Rightarrow> opcode" where
  "binary_opcode BAdd = OpAdd"
| "binary_opcode BSub = OpSub"
| "binary_opcode BMul = OpMul"
| "binary_opcode BDiv = OpDiv"
| "binary_opcode BMod = OpNop"
| "binary_opcode BAnd = OpAnd"
| "binary_opcode BOr = OpOr"
| "binary_opcode BXor = OpXor"
| "binary_opcode BEq = OpEq"
| "binary_opcode BNe = OpNe"
| "binary_opcode BLt = OpLt"
| "binary_opcode BLe = OpLe"
| "binary_opcode BGt = OpGt"
| "binary_opcode BGe = OpGe"

definition is_comparison :: "binary_operator \<Rightarrow> bool" where
  "is_comparison op \<longleftrightarrow> op \<in> {BEq, BNe, BLt, BLe, BGt, BGe}"

definition needs_same_type :: "binary_operator \<Rightarrow> bool" where
  "needs_same_type op \<longleftrightarrow> op \<in> {BAdd, BSub, BMul, BDiv} \<or> is_comparison op"

lemma arg_expr_size: "a \<in> set ins \<Longrightarrow> size (arg_expr a) \<le> size_list size ins"
proof -
  assume "a \<in> set ins"
  then have "size a \<le> size_list size ins" by (intro size_list_estimation') auto
  moreover have "size (arg_expr a) \<le> size a" by (cases a) simp_all
  ultimately show ?thesis by simp
qed

lemma call_arg_size: "e \<in> arg_expr ` set (fc_inputs c) \<Longrightarrow> size e < Suc (size c)"
  using arg_expr_size by (cases c) (fastforce simp: less_Suc_eq_le trans_le_add2)

text \<open>The short-circuit operators keep the left value in a temporary; the arm that is not taken
  pushes the constant that decides the result.\<close>

function emit_expr :: "(string list \<Rightarrow> string list) \<Rightarrow> expr \<Rightarrow> codegen \<Rightarrow> (codegen \<times> ir_type) cres" where
  "emit_expr ord (Literal v sp) cg = Inr (emit_literal v cg)"
| "emit_expr ord (Name path sp) cg = emit_load_path path cg"
| "emit_expr ord (QGood e sp) cg =
     (case e of
        Name path _ \<Rightarrow>
          rbind (path_parts path) (\<lambda>(root, _).
          rbind (lookup_sym root cg) (\<lambda>sym.
            case sy_storage sym of
              StInput slot _ \<Rightarrow> Inr (emit_simple OpLdIq (unat slot) cg, TBool)
            | _ \<Rightarrow> Inl (cerr EType ''Q_GOOD requires an input tag'')))
      | _ \<Rightarrow> Inl (cerr EType ''Q_GOOD expects an %I tag name''))"
| "emit_expr ord (Unary op e sp) cg =
     rbind (emit_expr ord e cg) (\<lambda>(cg, t).
       case op of
         UNot \<Rightarrow> Inr (emit_simple OpNot 0 cg, TBool)
       | UNeg \<Rightarrow> Inr (emit_simple OpNeg 0 cg, t))"
| "emit_expr ord (Binary op l r sp) cg =
     (if op \<in> {BAnd, BOr} then
        (let (fin, cg) = fresh_label ''sc_end'' cg
         in rbind (emit_expr ord l cg) (\<lambda>(cg, t).
            if t \<noteq> TBool then Inl (cerr EType ''AND/OR require BOOL'')
            else
              let (skip, cg) = fresh_label (if op = BAnd then ''and_f'' else ''or_t'') cg;
                  (tmp, cg) = alloc_temp TBool cg;
                  cg = emit_simple OpStData tmp cg;
                  cg = emit_simple OpLdData tmp cg;
                  cg = emit_jmp (if op = BAnd then OpJmpIfNot else OpJmpIf) skip cg
              in rbind (emit_expr ord r cg) (\<lambda>(cg, _).
                 let cg = emit_jmp OpJmp fin cg;
                     cg = place_label skip cg;
                     cg = emit_simple OpPushIBool (if op = BAnd then 0 else 1) cg
                 in Inr (place_label fin cg, TBool))))
      else
        rbind (emit_expr ord l cg) (\<lambda>(cg, lt).
        rbind (emit_expr ord r cg) (\<lambda>(cg, rt).
          if op = BMod then Inl (cerr EExcluded ''MOD not in IR v0.1 opcode set'')
          else if needs_same_type op \<and> lt \<noteq> rt then Inl (cerr EType ''type mismatch'')
          else Inr (emit_simple (binary_opcode op) 0 cg, if is_comparison op then TBool else lt))))"
| "emit_expr ord (FbCallE call sp) cg =
     rbind (fb_call_with ord (\<lambda>e cg. emit_expr ord e cg) call cg) (\<lambda>_.
       Inl (cerr EType ''FB call as expression value not supported; use statement + field read''))"
  by pat_completeness auto
termination
  by (relation "measure (\<lambda>(ord, e, cg). size e)") (use call_arg_size in auto)

definition emit_fb_call :: "(string list \<Rightarrow> string list) \<Rightarrow> fb_call \<Rightarrow> codegen \<Rightarrow> codegen cres" where
  "emit_fb_call ord call cg = fb_call_with ord (\<lambda>e cg. emit_expr ord e cg) call cg"

subsection \<open>Statements\<close>

type_synonym emit_stmt_op = "stmt \<Rightarrow> codegen \<Rightarrow> codegen cres"

definition emit_stmts :: "emit_stmt_op \<Rightarrow> stmt list \<Rightarrow> codegen \<Rightarrow> codegen cres" where
  "emit_stmts es body cg = rfold (\<lambda>cg s. es s cg) cg body"

definition emit_else :: "emit_stmt_op \<Rightarrow> stmt list option \<Rightarrow> codegen \<Rightarrow> codegen cres" where
  "emit_else es eb cg = (case eb of None \<Rightarrow> Inr cg | Some b \<Rightarrow> emit_stmts es b cg)"

definition push_dint :: "u32 \<Rightarrow> codegen \<Rightarrow> codegen" where
  "push_dint imm cg = emit (WithImm32 OpPushIDint 0 imm) cg"

fun emit_branches ::
  "(string list \<Rightarrow> string list) \<Rightarrow> emit_stmt_op \<Rightarrow> bool \<Rightarrow> label \<Rightarrow> (expr \<times> stmt list) list \<Rightarrow> codegen \<Rightarrow> codegen cres" where
  "emit_branches ord es has_else fin [] cg = Inr cg"
| "emit_branches ord es has_else fin ((cond, body) # rest) cg =
     (let (nxt, cg) = fresh_label ''if_next'' cg
      in rbind (emit_expr ord cond cg) (\<lambda>(cg, t).
         if t \<noteq> TBool then Inl (cerr EType ''IF condition must be BOOL'')
         else rbind (emit_stmts es body (emit_jmp OpJmpIfNot nxt cg)) (\<lambda>cg.
              let cg = (if rest \<noteq> [] \<or> has_else then emit_jmp OpJmp fin cg else cg)
              in emit_branches ord es has_else fin rest (place_label nxt cg))))"

fun emit_case_labels :: "nat \<Rightarrow> label \<Rightarrow> label \<Rightarrow> i64 list \<Rightarrow> codegen \<Rightarrow> codegen" where
  "emit_case_labels tmp body_l next_l [] cg = cg"
| "emit_case_labels tmp body_l next_l (lab # rest) cg =
     (let cg = emit_simple OpLdData tmp cg;
          cg = push_dint (ucast lab) cg;
          cg = emit_simple OpEq 0 cg;
          cg = (if rest = [] then emit_jmp OpJmpIfNot next_l cg else emit_jmp OpJmpIf body_l cg)
      in emit_case_labels tmp body_l next_l rest cg)"

fun emit_arms :: "emit_stmt_op \<Rightarrow> nat \<Rightarrow> label \<Rightarrow> case_arm list \<Rightarrow> codegen \<Rightarrow> codegen cres" where
  "emit_arms es tmp fin [] cg = Inr cg"
| "emit_arms es tmp fin (CaseArm labels body # rest) cg =
     (let (body_l, cg) = fresh_label ''case_body'' cg;
          (next_l, cg) = fresh_label ''case_next'' cg;
          cg = place_label body_l (emit_case_labels tmp body_l next_l labels cg)
      in rbind (emit_stmts es body cg) (\<lambda>cg.
           emit_arms es tmp fin rest (place_label next_l (emit_jmp OpJmp fin cg))))"

definition emit_counter_test :: "nat \<Rightarrow> label \<Rightarrow> codegen \<Rightarrow> codegen" where
  "emit_counter_test counter fin cg =
     emit_jmp OpJmpIf fin (emit_simple OpEq 0 (push_dint 0 (emit_simple OpLdData counter cg)))"

definition emit_counter_dec :: "nat \<Rightarrow> codegen \<Rightarrow> codegen" where
  "emit_counter_dec counter cg =
     emit_simple OpStData counter (emit_simple OpSub 0 (push_dint 1 (emit_simple OpLdData counter cg)))"

definition for_bound :: "expr \<Rightarrow> expr \<Rightarrow> expr option \<Rightarrow> u32 option \<Rightarrow> u32 option" where
  "for_bound from to by max_iter =
     (case max_iter of
        Some m \<Rightarrow> Some m
      | None \<Rightarrow>
          (case (from, to) of
             (Literal (LInt a) _, Literal (LInt b) _) \<Rightarrow>
               if (case by of None \<Rightarrow> True | Some (Literal (LInt n) _) \<Rightarrow> n = 1 | _ \<Rightarrow> False)
                  \<and> sint a \<le> sint b \<and> sint (b - a + 1) \<le> sint (ucast MAX_LOOP_DEFAULT :: i64)
               then Some (ucast (b - a + 1)) else None
           | _ \<Rightarrow> None))"

definition for_var :: "string \<Rightarrow> span \<Rightarrow> codegen \<Rightarrow> (nat \<times> codegen) cres" where
  "for_var var sp cg =
     (case lookup_sym var cg of
        Inr y \<Rightarrow>
          (case sy_storage y of
             StData off _ \<Rightarrow> Inr (off, cg)
           | _ \<Rightarrow> Inl (cerr EType ''FOR variable must be a data VAR''))
      | Inl _ \<Rightarrow>
          let (off, cg) = alloc_temp TDint cg
          in Inr (off, cg\<lparr>cg_locals := (to_ascii_lowercase var, \<lparr>sy_storage = StData off (TElem TDint), sy_span = sp\<rparr>) # cg_locals cg\<rparr>))"

lemma rfold_cong [fundef_cong]:
  "xs = ys \<Longrightarrow> b = c \<Longrightarrow> (\<And>x b. x \<in> set ys \<Longrightarrow> f b x = g b x) \<Longrightarrow> rfold f b xs = rfold g c ys"
proof (induction ys arbitrary: b c xs)
  case (Cons y ys)
  have "rfold f b' ys = rfold g b' ys" for b' by (rule Cons.IH) (use Cons.prems(3) in auto)
  then show ?case using Cons.prems by simp
qed simp

lemma emit_stmts_cong [fundef_cong]:
  "(\<And>s cg. s \<in> set body \<Longrightarrow> es s cg = es' s cg) \<Longrightarrow> body = body' \<Longrightarrow> cg = cg' \<Longrightarrow> emit_stmts es body cg = emit_stmts es' body' cg'"
  by (simp add: emit_stmts_def cong: rfold_cong)

lemma emit_else_cong [fundef_cong]:
  "(\<And>b s cg. eb = Some b \<Longrightarrow> s \<in> set b \<Longrightarrow> es s cg = es' s cg) \<Longrightarrow> eb = eb' \<Longrightarrow> cg = cg'
    \<Longrightarrow> emit_else es eb cg = emit_else es' eb' cg'"
  by (auto simp: emit_else_def intro: emit_stmts_cong split: option.splits)

lemma emit_branches_cong [fundef_cong]:
  assumes "\<And>c b s cg. (c, b) \<in> set brs \<Longrightarrow> s \<in> set b \<Longrightarrow> es s cg = es' s cg"
    "ord = ord'" "he = he'" "fin = fin'" "brs = brs'" "cg = cg'"
  shows "emit_branches ord es he fin brs cg = emit_branches ord' es' he' fin' brs' cg'"
proof -
  have "emit_branches ord es he fin brs cg = emit_branches ord es' he fin brs cg"
    using assms(1)
  proof (induction brs arbitrary: cg)
    case (Cons x brs)
    obtain c b where x: "x = (c, b)" by force
    have b: "emit_stmts es b = emit_stmts es' b"
      by (intro ext emit_stmts_cong refl Cons.prems [of c b]) (simp_all add: x)
    have r: "emit_branches ord es he fin brs = emit_branches ord es' he fin brs"
      by (rule ext, rule Cons.IH, rule Cons.prems) auto
    show ?case unfolding x emit_branches.simps b r by (rule refl)
  qed simp
  then show ?thesis using assms by simp
qed

lemma emit_arms_cong [fundef_cong]:
  assumes "\<And>ls b s cg. CaseArm ls b \<in> set arms \<Longrightarrow> s \<in> set b \<Longrightarrow> es s cg = es' s cg"
    "tmp = tmp'" "fin = fin'" "arms = arms'" "cg = cg'"
  shows "emit_arms es tmp fin arms cg = emit_arms es' tmp' fin' arms' cg'"
proof -
  have "emit_arms es tmp fin arms cg = emit_arms es' tmp fin arms cg"
    using assms(1)
  proof (induction arms arbitrary: cg)
    case (Cons x arms)
    obtain ls b where x: "x = CaseArm ls b" by (cases x)
    have b: "emit_stmts es b = emit_stmts es' b"
      by (intro ext emit_stmts_cong refl Cons.prems [of ls b]) (simp_all add: x)
    have r: "emit_arms es tmp fin arms = emit_arms es' tmp fin arms"
      by (rule ext, rule Cons.IH, rule Cons.prems) auto
    show ?case unfolding x emit_arms.simps b r by (rule refl)
  qed simp
  then show ?thesis using assms by simp
qed

lemma stmt_size: "s \<in> set b \<Longrightarrow> size s < size_list size b" for s :: stmt
  by (induction b) auto

lemma branch_size: "(c, b) \<in> set brs \<Longrightarrow> s \<in> set b \<Longrightarrow> size s < Suc (size_list (size_prod (\<lambda>_. 0) (size_list size)) brs + n)" for s :: stmt
proof -
  assume a: "(c, b) \<in> set brs" "s \<in> set b"
  have "size s < size_list size b" using a(2) by (rule stmt_size)
  moreover have "size_prod (\<lambda>_. 0) (size_list size) (c, b) \<le> size_list (size_prod (\<lambda>_. 0) (size_list size)) brs"
    using a(1) by (rule size_list_estimation') simp
  ultimately show ?thesis by simp
qed

lemma arm_size: "CaseArm ls b \<in> set arms \<Longrightarrow> s \<in> set b \<Longrightarrow> size s < Suc (size_list size arms + n)" for s :: stmt
proof -
  assume a: "CaseArm ls b \<in> set arms" "s \<in> set b"
  have "size s < size_list size b" using a(2) by (rule stmt_size)
  moreover have "size (CaseArm ls b) \<le> size_list size arms" using a(1) by (rule size_list_estimation') simp
  ultimately show ?thesis by simp
qed

function emit_stmt :: "(string list \<Rightarrow> string list) \<Rightarrow> stmt \<Rightarrow> codegen \<Rightarrow> codegen cres" where
  "emit_stmt ord (SEmpty sp) cg = Inr cg"
| "emit_stmt ord (SReturn sp) cg = Inr (emit_simple OpRet 0 cg)"
| "emit_stmt ord (SAssign lhs rhs sp) cg = rbind (emit_expr ord rhs cg) (\<lambda>(cg, ty). emit_store lhs ty cg)"
| "emit_stmt ord (SFbCall call sp) cg = emit_fb_call ord call cg"
| "emit_stmt ord (SIf branches eb sp) cg =
     (let (fin, cg) = fresh_label ''if_end'' cg
      in rbind (emit_branches ord (\<lambda>s cg. emit_stmt ord s cg) (eb \<noteq> None) fin branches cg) (\<lambda>cg.
         rbind (emit_else (\<lambda>s cg. emit_stmt ord s cg) eb cg) (\<lambda>cg. Inr (place_label fin cg))))"
| "emit_stmt ord (SCase sel arms eb sp) cg =
     rbind (emit_expr ord sel cg) (\<lambda>(cg, t).
       if t \<notin> {TInt, TDint} then Inl (cerr EType ''CASE selector must be INT/DINT'')
       else
         let (tmp, cg) = alloc_temp t cg;
             cg = emit_simple OpStData tmp cg;
             (fin, cg) = fresh_label ''case_end'' cg
         in rbind (emit_arms (\<lambda>s cg. emit_stmt ord s cg) tmp fin arms cg) (\<lambda>cg.
            rbind (emit_else (\<lambda>s cg. emit_stmt ord s cg) eb cg) (\<lambda>cg. Inr (place_label fin cg))))"
| "emit_stmt ord (SWhile cond max_iter body sp) cg =
     (case max_iter of
        None \<Rightarrow> Inl (with_span sp (cerr EUnboundedLoop ''WHILE requires max_iter attribute''))
      | Some m \<Rightarrow>
          let (counter, cg) = alloc_temp TDint cg;
              cg = emit_simple OpStData counter (push_dint m cg);
              (head, cg) = fresh_label ''wh_head'' cg;
              (fin, cg) = fresh_label ''wh_end'' cg;
              cg = emit_counter_test counter fin (place_label head cg)
          in rbind (emit_expr ord cond cg) (\<lambda>(cg, t).
               if t \<noteq> TBool then Inl (cerr EType ''WHILE condition must be BOOL'')
               else rbind (emit_stmts (\<lambda>s cg. emit_stmt ord s cg) body (emit_jmp OpJmpIfNot fin cg)) (\<lambda>cg.
                    Inr (place_label fin (emit_jmp OpJmp head (emit_counter_dec counter cg))))))"
| "emit_stmt ord (SFor var var_span from to by max_iter body sp) cg =
     (case for_bound from to by max_iter of
        None \<Rightarrow> Inl (with_span sp (cerr EUnboundedLoop ''FOR requires max_iter or constant bounds''))
      | Some m \<Rightarrow>
          rbind (for_var var sp cg) (\<lambda>(var_off, cg).
          rbind (emit_expr ord from cg) (\<lambda>(cg, _).
          let cg = emit_simple OpStData var_off cg;
              (to_tmp, cg) = alloc_temp TDint cg
          in rbind (emit_expr ord to cg) (\<lambda>(cg, _).
          let cg = emit_simple OpStData to_tmp cg;
              (by_tmp, cg) = alloc_temp TDint cg
          in rbind (case by of Some b \<Rightarrow> rbind (emit_expr ord b cg) (\<lambda>(cg, _). Inr cg) | None \<Rightarrow> Inr (push_dint 1 cg)) (\<lambda>cg.
          let cg = emit_simple OpStData by_tmp cg;
              (counter, cg) = alloc_temp TDint cg;
              cg = emit_simple OpStData counter (push_dint m cg);
              (head, cg) = fresh_label ''for_head'' cg;
              (fin, cg) = fresh_label ''for_end'' cg;
              cg = emit_counter_test counter fin (place_label head cg);
              cg = emit_simple OpGt 0 (emit_simple OpLdData to_tmp (emit_simple OpLdData var_off cg))
          in rbind (emit_stmts (\<lambda>s cg. emit_stmt ord s cg) body (emit_jmp OpJmpIf fin cg)) (\<lambda>cg.
             let cg = emit_simple OpAdd 0 (emit_simple OpLdData by_tmp (emit_simple OpLdData var_off cg));
                 cg = emit_counter_dec counter (emit_simple OpStData var_off cg)
             in Inr (place_label fin (emit_jmp OpJmp head cg))))))))"
  by pat_completeness auto
termination
  by (relation "measure (\<lambda>(ord, s, cg). size s)")
    (auto intro: branch_size arm_size dest: stmt_size)

subsection \<open>Patching the jumps\<close>

fun patch_fixups :: "(label \<times> u32) list \<Rightarrow> (nat \<times> label) list \<Rightarrow> bytes \<Rightarrow> bytes cres" where
  "patch_fixups labels [] c = Inr c"
| "patch_fixups labels ((off, l) # rest) c =
     (case map_of labels l of
        None \<Rightarrow> Inl (cerr ECodegen ''undefined label'')
      | Some pc \<Rightarrow>
          let op = ucast (drop_bit 24 (u32_at c off)) :: u8;
              new = push_bit 24 (ucast op) OR (pc AND 0x00FFFFFF) :: u32
          in patch_fixups labels rest (blit c off (le_bytes 4 new)))"

definition finish_code :: "nat \<Rightarrow> nat \<Rightarrow> u32 \<Rightarrow> u32 \<Rightarrow> codegen \<Rightarrow> ir_module cres" where
  "finish_code data_sz retain_sz in_slots out_slots cg =
     rbind (patch_fixups (cg_labels cg) (cg_fixups cg) (cg_code cg)) (\<lambda>c.
       Inr \<lparr>ir_major = IR_MAJOR, ir_minor = IR_MINOR, const_size = 0,
            data_size = word_of_nat (max (max data_sz (cg_extra_data cg)) 16),
            retain_size = word_of_nat (max retain_sz (cg_extra_retain cg)),
            input_slots = in_slots, output_slots = out_slots, entries = cg_entries cg, const_data = [], code = c\<rparr>)"

end
