(* ===== verification/StSem.thy ===== *)
theory StSem
  imports CodeGen
begin

section \<open>A semantics of Structured Text\<close>

text \<open>
  What a program body means, stated on the syntax tree: the specification that the generated
  code is compared with. A state gives every variable cell a value of its own, so an assignment
  changes one variable and nothing else; cells are named by the offset the binding gave them.
  Temporaries, the operand stack, labels and jumps do not occur. The operators on values are those
  of the machine. A body has no meaning (\<open>None\<close>) where the machine would fault, and where a value is
  wider than the variable it is assigned to; calls of user blocks and array elements are not given
  a meaning. Loops run at most their bound, so the semantics is total.
\<close>

record src =
  ss_data :: "nat \<Rightarrow> vm_value"
  ss_retain :: "nat \<Rightarrow> vm_value"
  ss_inputs :: slot_image
  ss_outputs :: slot_image
  ss_prims :: primitive_store

type_synonym st_env = "string \<Rightarrow> storage option"

definition globals_env :: "symbols \<Rightarrow> st_env" where
  "globals_env globals name = map_option sy_storage (map_of globals (to_ascii_lowercase name))"

definition fits :: "vm_value \<Rightarrow> ir_type \<Rightarrow> bool" where
  "fits v t \<longleftrightarrow> byte_width (value_ir_type v) \<le> byte_width t"

definition to_option :: "'e + 'a \<Rightarrow> 'a option" where
  "to_option r = (case r of Inl _ \<Rightarrow> None | Inr x \<Rightarrow> Some x)"

definition if_fits :: "ir_type \<Rightarrow> vm_value option \<Rightarrow> vm_value option" where
  "if_fits t v = (case v of Some x \<Rightarrow> if fits x t then Some x else None | None \<Rightarrow> None)"

subsection \<open>Expressions\<close>

primrec literal_value :: "literal \<Rightarrow> vm_value" where
  "literal_value (LBool b) = VBool b"
| "literal_value (LInt n) = VDint (ucast n)"
| "literal_value (LReal r) = VReal r"
| "literal_value (LTimeMs t) = VTime t"

definition read_root :: "src \<Rightarrow> storage \<Rightarrow> vm_value option" where
  "read_root \<sigma> st =
     (case st of
        StInput slot t \<Rightarrow> if_fits t (nth_opt (si_values (ss_inputs \<sigma>)) (unat slot))
      | StOutput slot t \<Rightarrow> if_fits t (nth_opt (si_values (ss_outputs \<sigma>)) (unat slot))
      | StData off (TElem _) \<Rightarrow> Some (ss_data \<sigma> off)
      | StRetain off _ \<Rightarrow> Some (ss_retain \<sigma> off)
      | StConst _ v \<Rightarrow> Some (literal_value v)
      | _ \<Rightarrow> None)"

definition read_path :: "st_env \<Rightarrow> src \<Rightarrow> path_seg list \<Rightarrow> vm_value option" where
  "read_path env \<sigma> path =
     (case path of
        PIdent root # rest \<Rightarrow>
          (case env root of
             None \<Rightarrow> None
           | Some st \<Rightarrow>
               (case rest of
                  [] \<Rightarrow> read_root \<sigma> st
                | PIdent f # _ \<Rightarrow>
                    (case st of
                       StPrim _ _ outs \<Rightarrow> map_option (\<lambda>(_, off, _). ss_data \<sigma> off) (find_out outs f)
                     | _ \<Rightarrow> None)
                | _ \<Rightarrow> None))
      | _ \<Rightarrow> None)"

definition eval_unary :: "unary_operator \<Rightarrow> vm_value \<Rightarrow> vm_value option" where
  "eval_unary op v =
     (case op of
        UNot \<Rightarrow> (case v of VBool b \<Rightarrow> Some (VBool (\<not> b)) | _ \<Rightarrow> None)
      | UNeg \<Rightarrow> to_option (unary_op OpNeg v 0))"

definition eval_strict :: "binary_operator \<Rightarrow> vm_value \<Rightarrow> vm_value \<Rightarrow> vm_value option" where
  "eval_strict op a b =
     (if op = BMod \<or> op = BAnd \<or> op = BOr then None
      else if op = BXor then to_option (logic_op OpXor a b 0)
      else if op = BEq then Some (VBool (values_eq a b))
      else if op = BNe then Some (VBool (\<not> values_eq a b))
      else if is_comparison op then to_option (cmp_op (binary_opcode op) a b 0)
      else map_option fst (to_option (arith_op (binary_opcode op) a b 0)))"

primrec eval :: "st_env \<Rightarrow> src \<Rightarrow> expr \<Rightarrow> vm_value option" where
  "eval env \<sigma> (Literal v sp) = Some (literal_value v)"
| "eval env \<sigma> (Name path sp) = read_path env \<sigma> path"
| "eval env \<sigma> (Unary op e sp) = (case eval env \<sigma> e of Some v \<Rightarrow> eval_unary op v | None \<Rightarrow> None)"
| "eval env \<sigma> (Binary op l r sp) =
     (case eval env \<sigma> l of
        None \<Rightarrow> None
      | Some a \<Rightarrow>
          if op \<in> {BAnd, BOr} then
            (case a of
               VBool p \<Rightarrow>
                 if p = (op = BOr) then Some (VBool p)
                 else (case eval env \<sigma> r of Some (VBool q) \<Rightarrow> Some (VBool q) | _ \<Rightarrow> None)
             | _ \<Rightarrow> None)
          else (case eval env \<sigma> r of Some b \<Rightarrow> eval_strict op a b | None \<Rightarrow> None))"
| "eval env \<sigma> (QGood e sp) =
     (case e of
        Name (PIdent root # _) _ \<Rightarrow>
          (case env root of
             Some (StInput slot _) \<Rightarrow> map_option VBool (nth_opt (si_quality_good (ss_inputs \<sigma>)) (unat slot))
           | _ \<Rightarrow> None)
      | _ \<Rightarrow> None)"
| "eval env \<sigma> (FbCallE call sp) = None"

subsection \<open>Assignments and calls\<close>

definition write_data :: "nat \<Rightarrow> ir_type \<Rightarrow> vm_value \<Rightarrow> src \<Rightarrow> src option" where
  "write_data off t v \<sigma> = (if fits v t then Some (\<sigma>\<lparr>ss_data := (ss_data \<sigma>)(off := v)\<rparr>) else None)"

definition write_expr :: "st_env \<Rightarrow> expr \<Rightarrow> vm_value \<Rightarrow> src \<Rightarrow> src option" where
  "write_expr env lhs v \<sigma> =
     (case lhs of
        Name (PIdent root # rest) _ \<Rightarrow>
          (case (env root, rest) of
             (Some (StOutput slot _), []) \<Rightarrow>
               map_option (\<lambda>im. \<sigma>\<lparr>ss_outputs := im\<rparr>) (to_option (slot_set (ss_outputs \<sigma>) (unat slot) v 0))
           | (Some (StData off (TElem t)), []) \<Rightarrow> write_data off t v \<sigma>
           | (Some (StRetain off t), []) \<Rightarrow>
               if fits v t then Some (\<sigma>\<lparr>ss_retain := (ss_retain \<sigma>)(off := v)\<rparr>) else None
           | (Some (StPrim _ _ outs), PIdent f # _) \<Rightarrow>
               (case find_out outs f of Some (_, off, t) \<Rightarrow> write_data off t v \<sigma> | None \<Rightarrow> None)
           | _ \<Rightarrow> None)
      | _ \<Rightarrow> None)"

fun eval_args :: "st_env \<Rightarrow> src \<Rightarrow> expr option list \<Rightarrow> vm_value list option" where
  "eval_args env \<sigma> [] = Some []"
| "eval_args env \<sigma> (None # rest) = None"
| "eval_args env \<sigma> (Some e # rest) =
     (case eval env \<sigma> e of
        None \<Rightarrow> None
      | Some v \<Rightarrow> map_option (Cons v) (eval_args env \<sigma> rest))"

fun write_outs :: "(string \<times> nat \<times> ir_type) list \<Rightarrow> vm_value list \<Rightarrow> src \<Rightarrow> src option" where
  "write_outs [] [] \<sigma> = Some \<sigma>"
| "write_outs ((_, off, t) # outs) (v # vs) \<sigma> =
     (case write_data off t v \<sigma> of None \<Rightarrow> None | Some \<sigma> \<Rightarrow> write_outs outs vs \<sigma>)"
| "write_outs _ _ \<sigma> = None"

fun associate :: "st_env \<Rightarrow> (string \<times> nat \<times> ir_type) list \<Rightarrow> call_out list \<Rightarrow> src \<Rightarrow> src option" where
  "associate env outs [] \<sigma> = Some \<sigma>"
| "associate env outs (CallOut name dest # rest) \<sigma> =
     (if eq_ignore_ascii_case name ''ENO'' then associate env outs rest \<sigma>
      else case find_out outs name of
             None \<Rightarrow> None
           | Some (_, off, _) \<Rightarrow>
               (case write_expr env dest (ss_data \<sigma> off) \<sigma> of None \<Rightarrow> None | Some \<sigma> \<Rightarrow> associate env outs rest \<sigma>))"

definition call_block :: "st_env \<Rightarrow> u64 \<Rightarrow> fb_call \<Rightarrow> src \<Rightarrow> src option" where
  "call_block env now call \<sigma> =
     (case fc_callee call of
        [PIdent n] \<Rightarrow>
          (case env n of
             Some (StPrim pid inst outs) \<Rightarrow>
               (let names = prim_in_names pid
                in case resolve_prim_args names 0 (replicate (length names) None) (fc_inputs call) of
                     Inl _ \<Rightarrow> None
                   | Inr args \<Rightarrow>
                       (case eval_args env \<sigma> args of
                          None \<Rightarrow> None
                        | Some vs \<Rightarrow>
                            (case call_primitive (ss_prims \<sigma>) pid (unat inst) (map to_stack_value vs) now of
                               Inl _ \<Rightarrow> None
                             | Inr (prims, res) \<Rightarrow>
                                 (case write_outs outs (prim_outputs pid res) (\<sigma>\<lparr>ss_prims := prims\<rparr>) of
                                    None \<Rightarrow> None
                                  | Some \<sigma> \<Rightarrow> associate env outs (fc_outputs call) \<sigma>))))
           | _ \<Rightarrow> None)
      | _ \<Rightarrow> None)"

subsection \<open>Statements\<close>

text \<open>A statement ends normally or by \<open>RETURN\<close>.\<close>

datatype outcome = Next src | Ret src

type_synonym src_op = "src \<Rightarrow> outcome option"

definition and_then :: "outcome option \<Rightarrow> src_op \<Rightarrow> outcome option" where
  "and_then r f = (case r of Some (Next \<sigma>) \<Rightarrow> f \<sigma> | _ \<Rightarrow> r)"

fun run_stmts :: "(stmt \<Rightarrow> src_op) \<Rightarrow> stmt list \<Rightarrow> src_op" where
  "run_stmts ex [] \<sigma> = Some (Next \<sigma>)"
| "run_stmts ex (s # rest) \<sigma> = and_then (ex s \<sigma>) (run_stmts ex rest)"

definition run_else :: "(stmt \<Rightarrow> src_op) \<Rightarrow> stmt list option \<Rightarrow> src_op" where
  "run_else ex eb \<sigma> = (case eb of None \<Rightarrow> Some (Next \<sigma>) | Some b \<Rightarrow> run_stmts ex b \<sigma>)"

definition as_bool :: "vm_value option \<Rightarrow> bool option" where
  "as_bool v = (case v of Some (VBool b) \<Rightarrow> Some b | _ \<Rightarrow> None)"

fun run_branches ::
  "st_env \<Rightarrow> (stmt \<Rightarrow> src_op) \<Rightarrow> (expr \<times> stmt list) list \<Rightarrow> stmt list option \<Rightarrow> src_op" where
  "run_branches env ex [] eb \<sigma> = run_else ex eb \<sigma>"
| "run_branches env ex ((cond, body) # rest) eb \<sigma> =
     (case as_bool (eval env \<sigma> cond) of
        None \<Rightarrow> None
      | Some b \<Rightarrow> if b then run_stmts ex body \<sigma> else run_branches env ex rest eb \<sigma>)"

fun run_arms :: "(stmt \<Rightarrow> src_op) \<Rightarrow> vm_value \<Rightarrow> case_arm list \<Rightarrow> stmt list option \<Rightarrow> src_op" where
  "run_arms ex v [] eb \<sigma> = run_else ex eb \<sigma>"
| "run_arms ex v (CaseArm labels body # rest) eb \<sigma> =
     (if labels = [] \<or> list_ex (\<lambda>lab. values_eq v (VDint (ucast lab))) labels
      then run_stmts ex body \<sigma> else run_arms ex v rest eb \<sigma>)"

fun while_iter :: "nat \<Rightarrow> (src \<Rightarrow> bool option) \<Rightarrow> src_op \<Rightarrow> src_op" where
  "while_iter 0 cond body \<sigma> = Some (Next \<sigma>)"
| "while_iter (Suc n) cond body \<sigma> =
     (case cond \<sigma> of
        None \<Rightarrow> None
      | Some b \<Rightarrow> if b then and_then (body \<sigma>) (while_iter n cond body) else Some (Next \<sigma>))"

definition for_step :: "nat \<Rightarrow> ir_type \<Rightarrow> vm_value \<Rightarrow> src_op" where
  "for_step off t bv \<sigma> =
     (case to_option (arith_op OpAdd (ss_data \<sigma> off) bv 0) of
        None \<Rightarrow> None
      | Some (r, _) \<Rightarrow> map_option Next (write_data off t r \<sigma>))"

definition for_body :: "nat \<Rightarrow> ir_type \<Rightarrow> vm_value \<Rightarrow> src_op \<Rightarrow> src_op" where
  "for_body off t bv body \<sigma> = and_then (body \<sigma>) (for_step off t bv)"

definition for_cond :: "nat \<Rightarrow> vm_value \<Rightarrow> src \<Rightarrow> bool option" where
  "for_cond off tv \<sigma> = map_option Not (as_bool (to_option (cmp_op OpGt (ss_data \<sigma> off) tv 0)))"

lemma and_then_cong [fundef_cong]:
  "r = r' \<Longrightarrow> (\<And>\<sigma>. r' = Some (Next \<sigma>) \<Longrightarrow> f \<sigma> = g \<sigma>) \<Longrightarrow> and_then r f = and_then r' g"
  by (auto simp: and_then_def split: option.splits outcome.splits)

lemma run_stmts_cong [fundef_cong]:
  "(\<And>s \<sigma>. s \<in> set b \<Longrightarrow> ex s \<sigma> = ex' s \<sigma>) \<Longrightarrow> b = b' \<Longrightarrow> \<sigma> = \<sigma>' \<Longrightarrow> run_stmts ex b \<sigma> = run_stmts ex' b' \<sigma>'"
proof (induction b arbitrary: b' \<sigma> \<sigma>')
  case (Cons s b)
  have "run_stmts ex b = run_stmts ex' b"
    by (rule ext, rule Cons.IH) (use Cons.prems(1) in auto)
  then show ?case using Cons.prems by auto
qed simp

lemma run_else_cong [fundef_cong]:
  "(\<And>b s \<sigma>. eb = Some b \<Longrightarrow> s \<in> set b \<Longrightarrow> ex s \<sigma> = ex' s \<sigma>) \<Longrightarrow> eb = eb' \<Longrightarrow> \<sigma> = \<sigma>'
    \<Longrightarrow> run_else ex eb \<sigma> = run_else ex' eb' \<sigma>'"
  by (auto simp: run_else_def intro: run_stmts_cong split: option.splits)

lemma run_branches_cong [fundef_cong]:
  assumes "\<And>c b s \<sigma>. (c, b) \<in> set brs \<Longrightarrow> s \<in> set b \<Longrightarrow> ex s \<sigma> = ex' s \<sigma>"
    "\<And>b s \<sigma>. eb = Some b \<Longrightarrow> s \<in> set b \<Longrightarrow> ex s \<sigma> = ex' s \<sigma>" "env = env'" "brs = brs'" "eb = eb'" "\<sigma> = \<sigma>'"
  shows "run_branches env ex brs eb \<sigma> = run_branches env' ex' brs' eb' \<sigma>'"
proof -
  have e: "run_else ex eb = run_else ex' eb" by (intro ext run_else_cong refl assms(2))
  have "run_branches env ex brs eb = run_branches env ex' brs eb"
    using assms(1)
  proof (induction brs)
    case (Cons x brs)
    obtain c b where x: "x = (c, b)" by force
    have b: "run_stmts ex b = run_stmts ex' b"
      by (intro ext run_stmts_cong refl Cons.prems [of c b]) (simp_all add: x)
    have r: "run_branches env ex brs eb = run_branches env ex' brs eb"
      by (rule Cons.IH, rule Cons.prems) auto
    show ?case unfolding x by (rule ext) (simp only: run_branches.simps b r)
  qed (simp add: e fun_eq_iff)
  then show ?thesis using assms by simp
qed

lemma run_arms_cong [fundef_cong]:
  assumes "\<And>ls b s \<sigma>. CaseArm ls b \<in> set arms \<Longrightarrow> s \<in> set b \<Longrightarrow> ex s \<sigma> = ex' s \<sigma>"
    "\<And>b s \<sigma>. eb = Some b \<Longrightarrow> s \<in> set b \<Longrightarrow> ex s \<sigma> = ex' s \<sigma>" "v = v'" "arms = arms'" "eb = eb'" "\<sigma> = \<sigma>'"
  shows "run_arms ex v arms eb \<sigma> = run_arms ex' v' arms' eb' \<sigma>'"
proof -
  have e: "run_else ex eb = run_else ex' eb" by (intro ext run_else_cong refl assms(2))
  have "run_arms ex v arms eb = run_arms ex' v arms eb"
    using assms(1)
  proof (induction arms)
    case (Cons x arms)
    obtain ls b where x: "x = CaseArm ls b" by (cases x)
    have b: "run_stmts ex b = run_stmts ex' b"
      by (intro ext run_stmts_cong refl Cons.prems [of ls b]) (simp_all add: x)
    have r: "run_arms ex v arms eb = run_arms ex' v arms eb"
      by (rule Cons.IH, rule Cons.prems) auto
    show ?case unfolding x by (rule ext) (simp only: run_arms.simps b r)
  qed (simp add: e fun_eq_iff)
  then show ?thesis using assms by simp
qed

lemma while_iter_cong [fundef_cong]:
  assumes "n = n'" "\<And>\<sigma>. cond \<sigma> = cond' \<sigma>" "\<And>\<sigma>. body \<sigma> = body' \<sigma>" "\<sigma> = \<sigma>'"
  shows "while_iter n cond body \<sigma> = while_iter n' cond' body' \<sigma>'"
proof -
  have "cond = cond'" "body = body'" using assms by auto
  then show ?thesis using assms by simp
qed

lemma for_body_cong [fundef_cong]:
  assumes "off = off'" "t = t'" "bv = bv'" "\<And>\<sigma>. body \<sigma> = body' \<sigma>" "\<sigma> = \<sigma>'"
  shows "for_body off t bv body \<sigma> = for_body off' t' bv' body' \<sigma>'"
proof -
  have "body = body'" using assms by auto
  then show ?thesis using assms by simp
qed

text \<open>The step value of a \<open>FOR\<close> without \<open>BY\<close> is 1.\<close>

definition eval_by :: "st_env \<Rightarrow> src \<Rightarrow> expr option \<Rightarrow> vm_value option" where
  "eval_by env \<sigma> by = (case by of None \<Rightarrow> Some (VDint 1) | Some e \<Rightarrow> eval env \<sigma> e)"

function exec :: "st_env \<Rightarrow> u64 \<Rightarrow> stmt \<Rightarrow> src_op" where
  "exec env now (SEmpty sp) \<sigma> = Some (Next \<sigma>)"
| "exec env now (SReturn sp) \<sigma> = Some (Ret \<sigma>)"
| "exec env now (SAssign lhs rhs sp) \<sigma> =
     (case eval env \<sigma> rhs of None \<Rightarrow> None | Some v \<Rightarrow> map_option Next (write_expr env lhs v \<sigma>))"
| "exec env now (SFbCall call sp) \<sigma> = map_option Next (call_block env now call \<sigma>)"
| "exec env now (SIf branches eb sp) \<sigma> = run_branches env (\<lambda>s \<sigma>. exec env now s \<sigma>) branches eb \<sigma>"
| "exec env now (SCase sel arms eb sp) \<sigma> =
     (case eval env \<sigma> sel of None \<Rightarrow> None | Some v \<Rightarrow> run_arms (\<lambda>s \<sigma>. exec env now s \<sigma>) v arms eb \<sigma>)"
| "exec env now (SWhile cond max_iter body sp) \<sigma> =
     (case max_iter of
        None \<Rightarrow> None
      | Some m \<Rightarrow>
          while_iter (unat m) (\<lambda>\<sigma>. as_bool (eval env \<sigma> cond)) (\<lambda>\<sigma>. run_stmts (\<lambda>s \<sigma>. exec env now s \<sigma>) body \<sigma>) \<sigma>)"
| "exec env now (SFor var var_span from to by max_iter body sp) \<sigma> =
     (case (for_bound from to by max_iter, env var) of
        (Some m, Some (StData off (TElem t))) \<Rightarrow>
          (case eval env \<sigma> from of
             None \<Rightarrow> None
           | Some v0 \<Rightarrow>
               (case write_data off t v0 \<sigma> of
                  None \<Rightarrow> None
                | Some \<sigma> \<Rightarrow>
                    (case (if_fits TDint (eval env \<sigma> to), if_fits TDint (eval_by env \<sigma> by)) of
                       (Some tv, Some bv) \<Rightarrow>
                         while_iter (unat m) (for_cond off tv)
                           (for_body off t bv (\<lambda>\<sigma>. run_stmts (\<lambda>s \<sigma>. exec env now s \<sigma>) body \<sigma>)) \<sigma>
                     | _ \<Rightarrow> None)))
      | _ \<Rightarrow> None)"
  by pat_completeness auto
termination
  by (relation "measure (\<lambda>(env, now, s, \<sigma>). size s)")
    (auto intro: branch_size arm_size dest: stmt_size)

definition exec_body :: "st_env \<Rightarrow> u64 \<Rightarrow> stmt list \<Rightarrow> src_op" where
  "exec_body env now body \<sigma> = run_stmts (\<lambda>s \<sigma>. exec env now s \<sigma>) body \<sigma>"

end
