(* ===== verification/CodeGenLink.thy ===== *)
theory CodeGenLink
  imports CodeGen
begin

unbundle bit_operations_syntax

section \<open>How the emitter extends the code\<close>

text \<open>
  Emission only appends: \<open>grows\<close> relates an emitter state to a later one, and \<open>ext\<close> to the state after
  complete operations, which place every label they create. \<open>labst Q cg\<close> keeps track of labels
  that were created and not placed yet, which shows that no label is placed twice.
\<close>

named_theorems ext_intros \<open>the emitter extends its state\<close>
named_theorems grow_intros \<open>the emitter appends to its state\<close>

subsection \<open>Extension\<close>

definition code_wf :: "codegen \<Rightarrow> bool" where
  "code_wf cg \<longleftrightarrow> 4 dvd length (cg_code cg)
     \<and> (\<forall>x\<in>set (cg_fixups cg). 4 dvd fst x \<and> fst x + 4 \<le> length (cg_code cg))
     \<and> distinct (map fst (cg_fixups cg))"

definition cg_wf :: "codegen \<Rightarrow> bool" where
  "cg_wf cg \<longleftrightarrow> code_wf cg \<and> (\<forall>k\<in>fst ` set (cg_locals cg). map_of (cg_globals cg) k = None)"

definition grows :: "codegen \<Rightarrow> codegen \<Rightarrow> bool" where
  "grows cg cg' \<longleftrightarrow> (\<exists>c. cg_code cg' = cg_code cg @ c)
     \<and> (\<exists>f. cg_fixups cg' = cg_fixups cg @ f \<and> (\<forall>x\<in>set f. length (cg_code cg) \<le> fst x))
     \<and> set (cg_labels cg) \<subseteq> set (cg_labels cg')
     \<and> cg_globals cg' = cg_globals cg \<and> cg_fb_layouts cg' = cg_fb_layouts cg \<and> cg_entries cg' = cg_entries cg
     \<and> cg_extra_data cg \<le> cg_extra_data cg' \<and> cg_extra_retain cg' = cg_extra_retain cg
     \<and> (code_wf cg \<longrightarrow> code_wf cg') \<and> (cg_wf cg \<longrightarrow> cg_wf cg')"

text \<open>The part of it that also holds across entries and scopes.\<close>

definition appends :: "codegen \<Rightarrow> codegen \<Rightarrow> bool" where
  "appends cg cg' \<longleftrightarrow> (\<exists>c. cg_code cg' = cg_code cg @ c)
     \<and> (\<exists>f. cg_fixups cg' = cg_fixups cg @ f \<and> (\<forall>x\<in>set f. length (cg_code cg) \<le> fst x))
     \<and> set (cg_labels cg) \<subseteq> set (cg_labels cg') \<and> cg_globals cg' = cg_globals cg
     \<and> cg_extra_data cg \<le> cg_extra_data cg' \<and> cg_extra_retain cg' = cg_extra_retain cg \<and> (code_wf cg \<longrightarrow> code_wf cg')"

lemma appends_trans: "appends a b \<Longrightarrow> appends b c \<Longrightarrow> appends a c"
proof -
  assume ab: "appends a b" and bc: "appends b c"
  obtain c1 c2 where c: "cg_code b = cg_code a @ c1" "cg_code c = cg_code b @ c2"
    using ab bc unfolding appends_def by blast
  obtain f1 f2 where "cg_fixups b = cg_fixups a @ f1" "cg_fixups c = cg_fixups b @ f2"
    "\<forall>x\<in>set f1. length (cg_code a) \<le> fst x" "\<forall>x\<in>set f2. length (cg_code b) \<le> fst x"
    using ab bc unfolding appends_def by blast
  then have "cg_fixups c = cg_fixups a @ (f1 @ f2) \<and> (\<forall>x\<in>set (f1 @ f2). length (cg_code a) \<le> fst x)"
    using c by (auto dest: add_leD1)
  moreover have "cg_code c = cg_code a @ (c1 @ c2)" using c by simp
  ultimately show ?thesis using ab bc unfolding appends_def by simp blast
qed

lemma grow_refl [grow_intros]: "grows cg cg"
  by (simp add: grows_def)

lemma grow_trans: "grows a b \<Longrightarrow> grows b c \<Longrightarrow> grows a c"
proof -
  assume ab: "grows a b" and bc: "grows b c"
  obtain c1 c2 where "cg_code b = cg_code a @ c1" "cg_code c = cg_code b @ c2"
    using ab bc by (auto simp: grows_def)
  moreover obtain f1 f2 where "cg_fixups b = cg_fixups a @ f1" "cg_fixups c = cg_fixups b @ f2"
    "\<forall>x\<in>set f1. length (cg_code a) \<le> fst x" "\<forall>x\<in>set f2. length (cg_code b) \<le> fst x"
    using ab bc by (auto simp: grows_def)
  ultimately show ?thesis using ab bc by (fastforce simp: grows_def)
qed

lemma grow_appends: "grows cg cg' \<Longrightarrow> appends cg cg'"
  unfolding grows_def appends_def by blast

lemma grow_wf: "grows cg cg' \<Longrightarrow> cg_wf cg \<Longrightarrow> cg_wf cg'"
  by (simp add: grows_def)

lemma grow_length: "grows cg cg' \<Longrightarrow> length (cg_code cg) \<le> length (cg_code cg')"
  by (auto simp: grows_def)

lemma grow_keeps: "grows cg cg' \<Longrightarrow> cg_globals cg' = cg_globals cg"
  "grows cg cg' \<Longrightarrow> cg_fb_layouts cg' = cg_fb_layouts cg"
  "grows cg cg' \<Longrightarrow> cg_extra_data cg \<le> cg_extra_data cg'"
  by (simp_all add: grows_def)

lemma four_dvd_encode [simp]: "4 dvd length (encode_instruction i)"
  by (cases i) simp_all

lemma grow_emit_self: "grows cg (emit i cg)"
  by (force simp: grows_def emit_def cg_wf_def code_wf_def)

lemma grow_emit [grow_intros]: "grows cg cg0 \<Longrightarrow> grows cg (emit i cg0)"
  using grow_trans grow_emit_self by blast

lemma grow_emit_simple [grow_intros]: "grows cg cg0 \<Longrightarrow> grows cg (emit_simple op n cg0)"
  unfolding emit_simple_def by (rule grow_emit)

lemma grow_push_dint [grow_intros]: "grows cg cg0 \<Longrightarrow> grows cg (push_dint n cg0)"
  unfolding push_dint_def by (rule grow_emit)

lemma emit_jmp_code: "cg_code (emit_jmp op l cg) = cg_code cg @ le_bytes 4 (pack_word op 0)"
  "cg_fixups (emit_jmp op l cg) = cg_fixups cg @ [(length (cg_code cg), l)]"
  by (simp_all add: emit_jmp_def Let_def emit_simple_def emit_def)

lemma grow_emit_jmp_self: "grows cg (emit_jmp op l cg)"
proof -
  have c: "code_wf (emit_jmp op l cg)" if "code_wf cg"
    using that by (auto simp: code_wf_def emit_jmp_code)
  then have "cg_wf (emit_jmp op l cg)" if "cg_wf cg"
    using that by (auto simp: cg_wf_def emit_jmp_def Let_def emit_simple_def emit_def)
  with c show ?thesis
    by (auto simp: grows_def emit_jmp_code) (simp_all add: emit_jmp_def Let_def emit_simple_def emit_def)
qed

lemma grow_emit_jmp [grow_intros]: "grows cg cg0 \<Longrightarrow> grows cg (emit_jmp op l cg0)"
  using grow_trans grow_emit_jmp_self by blast

lemma grow_place_self: "grows cg (place_label l cg)"
  by (auto simp: grows_def place_label_def cg_wf_def code_wf_def)

lemma grow_place_label [grow_intros]: "grows cg cg0 \<Longrightarrow> grows cg (place_label l cg0)"
  using grow_trans grow_place_self by blast

lemma grow_fresh_self: "grows cg (snd (fresh_label p cg))"
  by (auto simp: grows_def fresh_label_def cg_wf_def code_wf_def)

lemma grow_fresh_label [grow_intros]: "grows cg cg0 \<Longrightarrow> grows cg (snd (fresh_label p cg0))"
  using grow_trans grow_fresh_self by blast

lemma align_up_ge: "n \<le> align_up n a"
  by (simp add: align_up_def)

lemma grow_alloc_self: "grows cg (snd (alloc_temp ty cg))"
proof -
  have "cg_extra_data cg \<le> cg_extra_data (snd (alloc_temp ty cg))"
    by (simp add: alloc_temp_def Let_def) (meson align_up_ge le_add1 le_trans max.cobounded1 max.cobounded2)
  then show ?thesis by (auto simp: grows_def alloc_temp_def Let_def cg_wf_def code_wf_def)
qed

lemma grow_alloc_temp [grow_intros]: "grows cg cg0 \<Longrightarrow> grows cg (snd (alloc_temp ty cg0))"
  using grow_trans grow_alloc_self by blast

lemma grow_locals: "map_of (cg_globals cg) k = None \<Longrightarrow> grows cg (cg\<lparr>cg_locals := (k, y) # cg_locals cg\<rparr>)"
  by (simp add: grows_def cg_wf_def code_wf_def)

subsection \<open>Pending labels\<close>

primrec label_num :: "label \<Rightarrow> nat" where
  "label_num (Label p i) = i"

definition labst :: "label set \<Rightarrow> codegen \<Rightarrow> bool" where
  "labst Q cg \<longleftrightarrow> distinct (map fst (cg_labels cg)) \<and> (\<forall>l\<in>fst ` set (cg_labels cg). label_num l < cg_label_id cg)
     \<and> (\<forall>l\<in>Q. label_num l < cg_label_id cg \<and> l \<notin> fst ` set (cg_labels cg))"

lemma labst_emit [simp]: "labst Q (emit i cg) = labst Q cg"
  "labst Q (emit_simple op n cg) = labst Q cg" "labst Q (push_dint m cg) = labst Q cg"
  "labst Q (emit_jmp op l cg) = labst Q cg" "labst Q (snd (alloc_temp ty cg)) = labst Q cg"
  "labst Q (cg\<lparr>cg_locals := ls\<rparr>) = labst Q cg"
  by (simp_all add: labst_def emit_def emit_simple_def push_dint_def emit_jmp_def alloc_temp_def Let_def)

lemma labst_fresh:
  assumes "labst Q cg"
  shows "labst (insert (fst (fresh_label p cg)) Q) (snd (fresh_label p cg)) \<and> fst (fresh_label p cg) \<notin> Q"
  using assms by (fastforce simp: labst_def fresh_label_def)

lemma labst_place: "labst (insert l Q) cg \<Longrightarrow> l \<notin> Q \<Longrightarrow> labst Q (place_label l cg)"
  by (auto simp: labst_def place_label_def)

definition ext :: "codegen \<Rightarrow> codegen \<Rightarrow> bool" where
  "ext cg cg' \<longleftrightarrow> grows cg cg' \<and> (\<forall>Q. labst Q cg \<longrightarrow> labst Q cg')"

lemma ext_refl [ext_intros]: "ext cg cg"
  by (simp add: ext_def grow_refl)

lemma ext_trans: "ext a b \<Longrightarrow> ext b c \<Longrightarrow> ext a c"
  using grow_trans by (auto simp: ext_def)

lemma ext_grow: "ext cg cg' \<Longrightarrow> grows cg cg'"
  by (simp add: ext_def)

lemma ext_labst: "ext cg cg' \<Longrightarrow> labst Q cg \<Longrightarrow> labst Q cg'"
  by (simp add: ext_def)

lemma ext_emit [ext_intros]: "ext cg cg0 \<Longrightarrow> ext cg (emit i cg0)"
  by (simp add: ext_def grow_emit)

lemma ext_emit_simple [ext_intros]: "ext cg cg0 \<Longrightarrow> ext cg (emit_simple op n cg0)"
  by (simp add: ext_def grow_emit_simple)

lemma ext_push_dint [ext_intros]: "ext cg cg0 \<Longrightarrow> ext cg (push_dint n cg0)"
  by (simp add: ext_def grow_push_dint)

lemma ext_emit_jmp [ext_intros]: "ext cg cg0 \<Longrightarrow> ext cg (emit_jmp op l cg0)"
  by (simp add: ext_def grow_emit_jmp)

lemma ext_alloc_temp [ext_intros]: "ext cg cg0 \<Longrightarrow> ext cg (snd (alloc_temp ty cg0))"
  by (simp add: ext_def grow_alloc_temp)

lemma ext_locals: "map_of (cg_globals cg) k = None \<Longrightarrow> ext cg (cg\<lparr>cg_locals := (k, y) # cg_locals cg\<rparr>)"
  by (simp add: ext_def grow_locals)

lemma for_var_ext: "for_var var sp cg = Inr r \<Longrightarrow> ext cg (snd r)"
proof -
  assume h: "for_var var sp cg = Inr r"
  show "ext cg (snd r)"
  proof (cases "lookup_sym var cg")
    case (Inl e)
    let ?a = "snd (alloc_temp TDint cg)"
    have n: "map_of (cg_globals cg) (to_ascii_lowercase var) = None"
      using Inl by (auto simp: lookup_sym_def Let_def ok_or_eq_Inl split: option.splits)
    have x: "ext cg ?a" by (rule ext_alloc_temp [OF ext_refl])
    have r: "snd r = ?a\<lparr>cg_locals := (to_ascii_lowercase var,
          \<lparr>sy_storage = StData (fst (alloc_temp TDint cg)) (TElem TDint), sy_span = sp\<rparr>) # cg_locals ?a\<rparr>"
      using h Inl by (auto simp: for_var_def split: prod.splits)
    have "map_of (cg_globals ?a) (to_ascii_lowercase var) = None" using n by (simp add: alloc_temp_def Let_def)
    then show ?thesis unfolding r by (intro ext_trans [OF x] ext_locals)
  next
    case (Inr y)
    then show ?thesis using h by (auto simp: for_var_def split: storage.splits intro!: ext_intros)
  qed
qed

text \<open>Every emitter operation extends its state.\<close>

lemma emit_literal_ext [ext_intros]: "ext cg cg0 \<Longrightarrow> ext cg (fst (emit_literal v cg0))"
  by (cases v) (auto simp: emit_literal_def intro!: ext_intros)

lemma field_access_ext: "field_access d r msg st f cg = Inr x \<Longrightarrow> ext cg (fst x)"
  by (auto simp: field_access_def Let_def rbind_eq_Inr ok_or_eq_Inr split: storage.splits if_splits intro!: ext_intros)

lemma emit_load_obtain:
  assumes "emit_load_path path cg = Inr r"
  obtains root rest y where "path_parts path = Inr (root, rest)" "lookup_sym root cg = Inr y"
    "(case rest of
        [] \<Rightarrow> emit_load_root root (sy_storage y) cg
      | PIdent f # _ \<Rightarrow> field_access OpLdData OpLdRetain ''bad field load'' (sy_storage y) f cg
      | PIndex idx # _ \<Rightarrow> emit_load_index (sy_storage y) idx cg) = Inr r"
  using assms by (auto simp: emit_load_path_def rbind_eq_Inr)

lemma emit_load_path_ext: "emit_load_path path cg = Inr r \<Longrightarrow> ext cg (fst r)"
  by (erule emit_load_obtain)
    (auto simp: emit_load_root_def emit_load_index_def
      split: list.splits path_seg.splits storage.splits type_def.splits option.splits expr.splits literal.splits
      intro!: ext_intros dest: field_access_ext)

lemma emit_store_obtain:
  assumes "emit_store lhs ty cg = Inr cg'"
  obtains path sp root rest y where "lhs = Name path sp" "path_parts path = Inr (root, rest)" "lookup_sym root cg = Inr y"
    "(case rest of
        [] \<Rightarrow> emit_store_root (sy_storage y) cg
      | PIdent f # _ \<Rightarrow>
          (case sy_storage y of
             StData _ (TArray _ _) \<Rightarrow> Inr cg
           | st \<Rightarrow> rbind (field_access OpStData OpStRetain ''invalid store target'' st f cg) (\<lambda>(cg, _). Inr cg))
      | PIndex _ # _ \<Rightarrow> Inl (cerr EType ''bad field store'')) = Inr cg'"
  using assms by (auto simp: emit_store_def rbind_eq_Inr split: expr.splits)

lemma emit_store_ext: "emit_store lhs ty cg = Inr cg' \<Longrightarrow> ext cg cg'"
proof (erule emit_store_obtain)
  fix path sp root rest y
  assume h: "(case rest of
        [] \<Rightarrow> emit_store_root (sy_storage y) cg
      | PIdent f # _ \<Rightarrow>
          (case sy_storage y of
             StData _ (TArray _ _) \<Rightarrow> Inr cg
           | st \<Rightarrow> rbind (field_access OpStData OpStRetain ''invalid store target'' st f cg) (\<lambda>(cg, _). Inr cg))
      | PIndex _ # _ \<Rightarrow> Inl (cerr EType ''bad field store'')) = Inr cg'"
  show ?thesis
  proof (cases rest)
    case Nil
    then show ?thesis using h by (auto simp: emit_store_root_def split: storage.splits intro!: ext_intros)
  next
    case (Cons a list)
    show ?thesis
    proof (cases a)
      case (PIdent f)
      then show ?thesis using h Cons
        by (auto simp: rbind_eq_Inr split: storage.splits type_def.splits dest!: field_access_ext intro: ext_refl)
    qed (use h Cons in simp)
  qed
qed

lemma ext_fold_stores: "ext cg cg0 \<Longrightarrow> ext cg (fold (\<lambda>(_, off, _). emit_simple OpStData off) outs cg0)"
  by (induction outs arbitrary: cg0) (auto intro!: ext_intros)

lemma emit_prim_outs_ext: "emit_prim_outs outs os cg = Inr cg' \<Longrightarrow> ext cg cg'"
proof (induction outs os cg rule: emit_prim_outs.induct)
  case (2 outs name dest rest cg)
  then show ?case
    by (auto simp: rbind_eq_Inr split: if_splits)
      (meson emit_store_ext ext_emit_simple ext_refl ext_trans)
qed (auto intro!: ext_intros)

lemma emit_user_outs_ext: "emit_user_outs l base os cg = Inr cg' \<Longrightarrow> ext cg cg'"
proof (induction l base os cg rule: emit_user_outs.induct)
  case (2 l base name dest rest cg)
  then show ?case
    by (auto simp: rbind_eq_Inr split: if_splits)
      (meson emit_store_ext ext_emit_simple ext_refl ext_trans)+
qed (auto intro!: ext_intros)

lemma emit_prim_args_ext:
  assumes "\<And>e cg r. Some e \<in> snd ` set args \<Longrightarrow> ee e cg = Inr r \<Longrightarrow> ext cg (fst r)" "emit_prim_args ee args cg = Inr cg'"
  shows "ext cg cg'"
  using assms
proof (induction args arbitrary: cg)
  case (Cons a args)
  obtain name e x where e: "a = (name, Some e)" "ee e cg = Inr x" "emit_prim_args ee args (fst x) = Inr cg'"
    using Cons.prems(2) by (cases a) (auto simp: rbind_eq_Inr split: option.splits)
  have "ext cg (fst x)" by (rule Cons.prems(1) [OF _ e(2)]) (simp add: e(1))
  moreover have "ext (fst x) cg'" by (rule Cons.IH [OF Cons.prems(1) e(3)]) simp_all
  ultimately show ?case by (rule ext_trans)
qed (simp add: ext_refl)

lemma emit_user_positional_ext:
  assumes "\<And>e cg r. e \<in> arg_expr ` set ins \<Longrightarrow> ee e cg = Inr r \<Longrightarrow> ext cg (fst r)"
    "emit_user_positional ee l base pos named ins cg = Inr r"
  shows "ext cg (fst r)"
  using assms
proof (induction ins arbitrary: pos named cg)
  case (Cons a ins)
  have IH: "ext cg (fst r)" if "emit_user_positional ee l base pos named ins cg = Inr r" for pos named cg
    by (rule Cons.IH [OF Cons.prems(1) that]) simp_all
  show ?case
  proof (cases a)
    case (Positional e)
    obtain f where f: "find_field l (ul_inputs l ! pos) = Some f"
      using Cons.prems(2) Positional by (cases "find_field l (ul_inputs l ! pos)") (simp_all split: if_splits)
    then obtain x where x: "ee e cg = Inr x"
      "emit_user_positional ee l base (pos + 1) named ins (emit_store_offset (base + fl_offset f) False (snd x) (fst x)) = Inr r"
      using Cons.prems(2) Positional by (cases "ee e cg") (auto split: if_splits)
    have "ext cg (fst x)" by (rule Cons.prems(1) [OF _ x(1)]) (simp add: Positional)
    then have "ext cg (emit_store_offset (base + fl_offset f) False (snd x) (fst x))"
      by (simp add: emit_store_offset_def ext_intros)
    then show ?thesis using IH [OF x(2)] ext_trans by blast
  qed (use Cons.prems IH in \<open>auto split: if_splits\<close>)
qed (auto intro!: ext_intros)

lemma emit_user_named_ext:
  assumes "\<And>e cg r. e \<in> snd ` set named \<Longrightarrow> ee e cg = Inr r \<Longrightarrow> ext cg (fst r)" "emit_user_named ee l base named cg = Inr cg'"
  shows "ext cg cg'"
  using assms
proof (induction named arbitrary: cg)
  case (Cons x named)
  obtain fname e where x: "x = (fname, e)" by force
  obtain f where f: "find_field l fname = Some f"
    using Cons.prems(2) by (cases "find_field l fname") (simp_all add: x)
  obtain r where "ee e cg = Inr r" using Cons.prems(2) f by (cases "ee e cg") (simp_all add: x)
  then obtain c where r: "ee e cg = Inr r" "emit_user_named ee l base named c = Inr cg'" "ext (fst r) c"
    using Cons.prems(2) f
    by (cases r; cases "fl_retain f"; cases "fl_retain_offset f")
      (auto simp: x emit_store_offset_def intro!: that ext_intros)
  have "ext cg (fst r)" by (rule Cons.prems(1) [OF _ r(1)]) (simp add: x)
  moreover have "ext c cg'" by (rule Cons.IH [OF Cons.prems(1) r(2)]) simp_all
  ultimately show ?case using r(3) ext_trans by blast
qed (auto intro!: ext_intros)

lemma fb_call_obtain:
  assumes "fb_call_with ord ee call cg = Inr cg'"
  obtains n y where "fc_callee call = [PIdent n]" "lookup_sym n cg = Inr y"
    "(case sy_storage y of
        StPrim pid inst outs \<Rightarrow> emit_prim_call ee pid inst outs call cg
      | StUserInst fb base \<Rightarrow> emit_user_call ord ee fb base call cg
      | _ \<Rightarrow> Inl (cerr EType (n @ '' is not an FB instance''))) = Inr cg'"
  using assms by (auto simp: fb_call_with_def rbind_eq_Inr split: list.splits path_seg.splits)

lemma fb_call_with_ext:
  assumes ee: "\<And>e cg r. e \<in> arg_expr ` set (fc_inputs call) \<Longrightarrow> ee e cg = Inr r \<Longrightarrow> ext cg (fst r)"
    and h: "fb_call_with ord ee call cg = Inr cg'"
  shows "ext cg cg'"
proof -
  have "(\<exists>pid inst outs. emit_prim_call ee pid inst outs call cg = Inr cg')
      \<or> (\<exists>fb base. emit_user_call ord ee fb base call cg = Inr cg')"
    using h by (rule fb_call_obtain) (auto split: storage.splits)
  then show ?thesis
  proof (elim disjE exE)
    fix pid inst outs
    assume "emit_prim_call ee pid inst outs call cg = Inr cg'"
    then obtain args c where a: "resolve_prim_args (prim_in_names pid) 0 (replicate (length (prim_in_names pid)) None) (fc_inputs call) = Inr args"
      "emit_prim_args ee (zip (prim_in_names pid) args) cg = Inr c"
      "emit_prim_outs outs (fc_outputs call) (fold (\<lambda>(_, off, _). emit_simple OpStData off) outs (emit (CallFb 0 (primitive_u32 pid) inst) c)) = Inr cg'"
      by (auto simp: emit_prim_call_def Let_def rbind_eq_Inr)
    have "ext cg c" by (rule emit_prim_args_ext [OF ee a(2)]) (use resolve_prim_args_subset [OF a(1)] in \<open>auto dest!: set_zip_rightD\<close>)
    then show ?thesis using emit_prim_outs_ext [OF a(3)] ext_fold_stores ext_emit ext_trans by blast
  next
    fix fb base
    assume "emit_user_call ord ee fb base call cg = Inr cg'"
    then obtain l r c where a: "emit_user_positional ee l base 0 [] (fc_inputs call) cg = Inr r"
      "emit_user_named ee l base (named_in_order ord (snd r)) (fst r) = Inr c"
      "emit_user_outs l base (fc_outputs call) (emit (CallFb 1 (user_fb_id (cg_entries c) (ul_entry_name l)) (word_of_nat base)) c) = Inr cg'"
      by (auto simp: emit_user_call_def rbind_eq_Inr)
    have "ext cg (fst r)" by (rule emit_user_positional_ext [OF ee a(1)])
    moreover have "ext (fst r) c"
      by (rule emit_user_named_ext [OF ee a(2)])
        (use emit_user_positional_subset [of ee l base 0 "[]" "fc_inputs call" cg "fst r" "snd r"] a(1)
          named_in_order_subset in fastforce)
    ultimately show ?thesis using emit_user_outs_ext [OF a(3)] ext_emit ext_trans by blast
  qed
qed

subsection \<open>Expressions and statements extend the state\<close>

text \<open>Code between the creation of a label and its placement.\<close>

lemma ext_bracket:
  assumes "ext (snd (fresh_label p cg)) c"
  shows "ext cg (place_label (fst (fresh_label p cg)) c)"
  unfolding ext_def
proof (intro conjI allI impI)
  show "grows cg (place_label (fst (fresh_label p cg)) c)"
    using grow_trans [OF grow_fresh_self ext_grow [OF assms]] by (rule grow_place_label)
next
  fix Q assume "labst Q cg"
  then show "labst Q (place_label (fst (fresh_label p cg)) c)"
    using labst_fresh labst_place ext_labst [OF assms] by blast
qed

text \<open>Two labels created together, the first placed before the second.\<close>

lemma ext_two_labels:
  fixes cg p q
  defines "c0 \<equiv> snd (fresh_label q (snd (fresh_label p cg)))"
  defines "a \<equiv> fst (fresh_label p cg)"
  defines "b \<equiv> fst (fresh_label q (snd (fresh_label p cg)))"
  assumes c1: "ext c0 c1" and c2: "ext (place_label a c1) c2"
  shows "ext cg (place_label b c2)"
  unfolding ext_def
proof (intro conjI allI impI)
  have "grows cg c0" unfolding c0_def by (intro grow_intros)
  moreover have "grows c1 c2" using grow_trans [OF grow_place_self ext_grow [OF c2]] .
  ultimately show "grows cg (place_label b c2)" using grow_trans ext_grow [OF c1] grow_place_label by blast
next
  fix Q assume Q: "labst Q cg"
  from labst_fresh [OF Q, of p] have a: "labst (insert a Q) (snd (fresh_label p cg))" "a \<notin> Q" by (auto simp: a_def)
  from labst_fresh [OF a(1), of q] have b: "labst (insert b (insert a Q)) c0" "b \<notin> insert a Q" by (auto simp: b_def c0_def)
  have "labst (insert a (insert b Q)) c1" using ext_labst [OF c1 b(1)] by (simp add: insert_commute)
  then have "labst (insert b Q) (place_label a c1)" by (rule labst_place) (use a b in auto)
  then show "labst Q (place_label b c2)" using labst_place ext_labst [OF c2] b(2) by blast
qed

definition sc_label :: "binary_operator \<Rightarrow> codegen \<Rightarrow> label \<times> codegen" where
  "sc_label op cg = fresh_label (if op = BAnd then ''and_f'' else ''or_t'') cg"

definition sc_test :: "binary_operator \<Rightarrow> codegen \<Rightarrow> codegen" where
  "sc_test op cg =
     (let (skip, cg) = sc_label op cg; (tmp, cg) = alloc_temp TBool cg
      in emit_jmp (if op = BAnd then OpJmpIfNot else OpJmpIf) skip (emit_simple OpLdData tmp (emit_simple OpStData tmp cg)))"

lemma emit_short_obtain:
  assumes "emit_expr ord (Binary op l r sp) cg = Inr res" "op = BAnd \<or> op = BOr"
  obtains c1 c3 t where "emit_expr ord l (snd (fresh_label ''sc_end'' cg)) = Inr (c1, TBool)"
    "emit_expr ord r (sc_test op c1) = Inr (c3, t)"
    "res = (place_label (fst (fresh_label ''sc_end'' cg)) (emit_simple OpPushIBool (if op = BAnd then 0 else 1)
       (place_label (fst (sc_label op c1)) (emit_jmp OpJmp (fst (fresh_label ''sc_end'' cg)) c3))), TBool)"
  using assms by (auto simp: sc_test_def sc_label_def Let_def case_prod_beta rbind_eq_Inr split: if_splits)

lemma emit_strict_obtain:
  assumes "emit_expr ord (Binary op l r sp) cg = Inr res" "\<not> (op = BAnd \<or> op = BOr)"
  obtains c1 lt c2 rt where "emit_expr ord l cg = Inr (c1, lt)" "emit_expr ord r c1 = Inr (c2, rt)" "op \<noteq> BMod"
    "needs_same_type op \<longrightarrow> lt = rt"
    "res = (emit_simple (binary_opcode op) 0 c2, if is_comparison op then TBool else lt)"
  using assms by (auto simp: rbind_eq_Inr split: if_splits)

lemma emit_qgood_obtain:
  assumes "emit_expr ord (QGood x sp) cg = Inr r"
  obtains path sp' root rest y slot ty where "x = Name path sp'" "path_parts path = Inr (root, rest)"
    "lookup_sym root cg = Inr y" "sy_storage y = StInput slot ty" "r = (emit_simple OpLdIq (unat slot) cg, TBool)"
proof -
  obtain path sp' root rest y where "x = Name path sp'" "path_parts path = Inr (root, rest)" "lookup_sym root cg = Inr y"
    "(case sy_storage y of
        StInput slot _ \<Rightarrow> Inr (emit_simple OpLdIq (unat slot) cg, TBool)
      | _ \<Rightarrow> Inl (cerr EType ''Q_GOOD requires an input tag'')) = Inr r"
    using assms by (auto simp: rbind_eq_Inr split: expr.splits)
  then show thesis using that by (cases "sy_storage y") auto
qed

lemma emit_expr_ext: "emit_expr ord e cg = Inr r \<Longrightarrow> ext cg (fst r)"
proof (induction e arbitrary: cg r rule: measure_induct_rule [of size])
  case (less e)
  show ?case
  proof (cases e)
    case (Unary op x sp)
    then show ?thesis using less.IH [of x] less.prems
      by (cases op) (auto simp: rbind_eq_Inr intro!: ext_intros)
  next
    case (Binary op le re sp)
    show ?thesis
    proof (cases "op = BAnd \<or> op = BOr")
      case True
      from less.prems [unfolded Binary] this show ?thesis
      proof (rule emit_short_obtain)
        fix c1 c3 t
        assume l: "emit_expr ord le (snd (fresh_label ''sc_end'' cg)) = Inr (c1, TBool)"
          and r: "emit_expr ord re (sc_test op c1) = Inr (c3, t)"
          and res: "r = (place_label (fst (fresh_label ''sc_end'' cg)) (emit_simple OpPushIBool (if op = BAnd then 0 else 1)
            (place_label (fst (sc_label op c1)) (emit_jmp OpJmp (fst (fresh_label ''sc_end'' cg)) c3))), TBool)"
        have "ext (snd (sc_label op c1)) (sc_test op c1)"
          unfolding sc_test_def by (auto simp: Let_def case_prod_beta intro!: ext_intros)
        then have "ext c1 (place_label (fst (sc_label op c1)) (emit_jmp OpJmp (fst (fresh_label ''sc_end'' cg)) c3))"
          unfolding sc_label_def using less.IH [OF _ r]
          by (intro ext_bracket ext_intros) (auto simp: Binary sc_label_def intro: ext_trans)
        then show ?thesis unfolding res fst_conv
          using less.IH [OF _ l] by (intro ext_bracket ext_intros) (auto simp: Binary intro: ext_trans)
      qed
    next
      case False
      from less.prems [unfolded Binary] this show ?thesis
      proof (rule emit_strict_obtain)
        fix c1 lt c2 rt
        assume a: "emit_expr ord le cg = Inr (c1, lt)" "emit_expr ord re c1 = Inr (c2, rt)"
          "r = (emit_simple (binary_opcode op) 0 c2, if is_comparison op then TBool else lt)"
        have "ext cg c1" using less.IH [OF _ a(1)] by (simp add: Binary)
        moreover have "ext c1 c2" using less.IH [OF _ a(2)] by (simp add: Binary)
        ultimately show ?thesis unfolding a(3) fst_conv by (intro ext_intros) (rule ext_trans)
      qed
    qed
  next
    case (QGood x sp)
    then show ?thesis using less.prems by (auto simp del: emit_expr.simps elim!: emit_qgood_obtain intro!: ext_intros)
  qed (use less.prems in \<open>auto simp del: emit_expr.simps(3) simp: rbind_eq_Inr emit_load_path_ext intro!: ext_intros\<close>)
qed

lemma emit_fb_call_ext: "emit_fb_call ord call cg = Inr cg' \<Longrightarrow> ext cg cg'"
  unfolding emit_fb_call_def by (rule fb_call_with_ext [of call "\<lambda>e cg. emit_expr ord e cg"]) (auto intro: emit_expr_ext)


lemma rfold_ext:
  assumes "\<And>x cg cg'. x \<in> set xs \<Longrightarrow> f cg x = Inr cg' \<Longrightarrow> ext cg cg'" "rfold f cg xs = Inr cg'"
  shows "ext cg cg'"
  using assms
proof (induction xs arbitrary: cg)
  case (Cons x xs)
  obtain c where c: "f cg x = Inr c" "rfold f c xs = Inr cg'" using Cons.prems(2) by (auto simp: rbind_eq_Inr)
  have "ext cg c" by (rule Cons.prems(1) [OF _ c(1)]) simp
  moreover have "ext c cg'" by (rule Cons.IH [OF Cons.prems(1) c(2)]) simp_all
  ultimately show ?case by (rule ext_trans)
qed (simp add: ext_refl)

lemma emit_stmts_ext:
  "(\<And>s cg cg'. s \<in> set body \<Longrightarrow> es s cg = Inr cg' \<Longrightarrow> ext cg cg') \<Longrightarrow> emit_stmts es body cg = Inr cg' \<Longrightarrow> ext cg cg'"
  unfolding emit_stmts_def by (rule rfold_ext)

lemma emit_else_ext:
  "(\<And>b s cg cg'. eb = Some b \<Longrightarrow> s \<in> set b \<Longrightarrow> es s cg = Inr cg' \<Longrightarrow> ext cg cg') \<Longrightarrow> emit_else es eb cg = Inr cg' \<Longrightarrow> ext cg cg'"
proof (cases eb)
  case (Some b)
  assume "\<And>b s cg cg'. eb = Some b \<Longrightarrow> s \<in> set b \<Longrightarrow> es s cg = Inr cg' \<Longrightarrow> ext cg cg'" "emit_else es eb cg = Inr cg'"
  then show ?thesis using emit_stmts_ext [of b es cg cg'] Some by (auto simp: emit_else_def)
qed (simp add: emit_else_def ext_refl)

lemma emit_branches_ext:
  assumes "\<And>b s cg cg'. b \<in> snd ` set brs \<Longrightarrow> s \<in> set b \<Longrightarrow> es s cg = Inr cg' \<Longrightarrow> ext cg cg'"
    "emit_branches ord es he fin brs cg = Inr cg'"
  shows "ext cg cg'"
  using assms
proof (induction brs arbitrary: cg)
  case (Cons x brs)
  obtain cond body where x: "x = (cond, body)" by force
  let ?f = "fresh_label ''if_next'' cg"
  obtain c1 c2 where c: "emit_expr ord cond (snd ?f) = Inr (c1, TBool)"
    "emit_stmts es body (emit_jmp OpJmpIfNot (fst ?f) c1) = Inr c2"
    "emit_branches ord es he fin brs (place_label (fst ?f) (if brs \<noteq> [] \<or> he then emit_jmp OpJmp fin c2 else c2)) = Inr cg'"
    using Cons.prems(2) by (auto simp: x Let_def case_prod_beta rbind_eq_Inr split: if_splits)
  have "ext (snd ?f) c1" using emit_expr_ext [OF c(1)] by simp
  moreover have "ext (emit_jmp OpJmpIfNot (fst ?f) c1) c2"
    by (rule emit_stmts_ext [OF Cons.prems(1) c(2)]) (auto simp: x)
  ultimately have "ext (snd ?f) c2" using ext_emit_jmp [OF ext_refl] ext_trans by blast
  then have "ext cg (place_label (fst ?f) (if brs \<noteq> [] \<or> he then emit_jmp OpJmp fin c2 else c2))"
    by (intro ext_bracket) (auto intro!: ext_intros)
  moreover have "ext (place_label (fst ?f) (if brs \<noteq> [] \<or> he then emit_jmp OpJmp fin c2 else c2)) cg'"
    by (rule Cons.IH [OF Cons.prems(1) c(3)]) simp_all
  ultimately show ?case by (rule ext_trans)
qed (simp add: ext_refl)

lemma emit_case_labels_ext [ext_intros]: "ext cg cg0 \<Longrightarrow> ext cg (emit_case_labels tmp b n labs cg0)"
proof (induction labs arbitrary: cg0)
  case (Cons a labs)
  show ?case unfolding emit_case_labels.simps Let_def
    by (rule Cons.IH) (use Cons.prems in \<open>auto intro!: ext_intros\<close>)
qed simp

primrec arm_body :: "case_arm \<Rightarrow> stmt list" where
  "arm_body (CaseArm labs b) = b"

lemma emit_arms_ext:
  assumes "\<And>b s cg cg'. b \<in> arm_body ` set arms \<Longrightarrow> s \<in> set b \<Longrightarrow> es s cg = Inr cg' \<Longrightarrow> ext cg cg'"
    "emit_arms es tmp fin arms cg = Inr cg'"
  shows "ext cg cg'"
  using assms
proof (induction arms arbitrary: cg)
  case (Cons x arms)
  obtain labs body where x: "x = CaseArm labs body" by (cases x)
  let ?b = "fresh_label ''case_body'' cg"
  let ?n = "fresh_label ''case_next'' (snd ?b)"
  let ?c1 = "emit_case_labels tmp (fst ?b) (fst ?n) labs (snd ?n)"
  obtain c2 where c: "emit_stmts es body (place_label (fst ?b) ?c1) = Inr c2"
    "emit_arms es tmp fin arms (place_label (fst ?n) (emit_jmp OpJmp fin c2)) = Inr cg'"
    using Cons.prems(2) by (auto simp: x Let_def case_prod_beta rbind_eq_Inr)
  have "ext (snd ?n) ?c1" by (intro ext_intros)
  moreover have "ext (place_label (fst ?b) ?c1) (emit_jmp OpJmp fin c2)"
    by (rule ext_emit_jmp, rule emit_stmts_ext [OF Cons.prems(1) c(1)]) (auto simp: x)
  ultimately have "ext cg (place_label (fst ?n) (emit_jmp OpJmp fin c2))"
    by (rule ext_two_labels)
  moreover have "ext (place_label (fst ?n) (emit_jmp OpJmp fin c2)) cg'"
    by (rule Cons.IH [OF Cons.prems(1) c(2)]) simp_all
  ultimately show ?case by (rule ext_trans)
qed (simp add: ext_refl)

lemma emit_counter_ext [ext_intros]: "ext cg cg0 \<Longrightarrow> ext cg (emit_counter_test c l cg0)"
  "ext cg cg0 \<Longrightarrow> ext cg (emit_counter_dec c cg0)"
  by (auto simp: emit_counter_test_def emit_counter_dec_def intro!: ext_intros)

lemma emit_while_obtain:
  fixes cg m
  defines "k \<equiv> alloc_temp TDint cg"
  defines "h \<equiv> fresh_label ''wh_head'' (emit_simple OpStData (fst k) (push_dint m (snd k)))"
  defines "f \<equiv> fresh_label ''wh_end'' (snd h)"
  assumes "emit_stmt ord (SWhile cond (Some m) body sp) cg = Inr cg'"
  obtains c1 c2 where
    "emit_expr ord cond (emit_counter_test (fst k) (fst f) (place_label (fst h) (snd f))) = Inr (c1, TBool)"
    "emit_stmts (\<lambda>s cg. emit_stmt ord s cg) body (emit_jmp OpJmpIfNot (fst f) c1) = Inr c2"
    "cg' = place_label (fst f) (emit_jmp OpJmp (fst h) (emit_counter_dec (fst k) c2))"
  using assms by (auto simp: Let_def case_prod_beta rbind_eq_Inr split: if_splits)

definition for_by :: "(string list \<Rightarrow> string list) \<Rightarrow> expr option \<Rightarrow> codegen \<Rightarrow> codegen cres" where
  "for_by ord by cg = (case by of Some b \<Rightarrow> rbind (emit_expr ord b cg) (\<lambda>(cg, _). Inr cg) | None \<Rightarrow> Inr (push_dint 1 cg))"

lemma emit_for_obtain:
  assumes "emit_stmt ord (SFor var vsp from to by mi body sp) cg = Inr cg'"
  obtains m voff cv c1 c2 c3 c4 where "for_bound from to by mi = Some m" "for_var var sp cg = Inr (voff, cv)"
    "\<exists>t. emit_expr ord from cv = Inr (c1, t)"
    "\<exists>t. emit_expr ord to (snd (alloc_temp TDint (emit_simple OpStData voff c1))) = Inr (c2, t)"
    "let c2' = emit_simple OpStData (fst (alloc_temp TDint (emit_simple OpStData voff c1))) c2
     in for_by ord by (snd (alloc_temp TDint c2')) = Inr c3
      \<and> (let c3' = emit_simple OpStData (fst (alloc_temp TDint c2')) c3; k = alloc_temp TDint c3';
             h = fresh_label ''for_head'' (emit_simple OpStData (fst k) (push_dint m (snd k)));
             f = fresh_label ''for_end'' (snd h);
             ct = emit_counter_test (fst k) (fst f) (place_label (fst h) (snd f));
             cc = emit_simple OpGt 0 (emit_simple OpLdData (fst (alloc_temp TDint (emit_simple OpStData voff c1))) (emit_simple OpLdData voff ct))
         in emit_stmts (\<lambda>s cg. emit_stmt ord s cg) body (emit_jmp OpJmpIf (fst f) cc) = Inr c4
          \<and> cg' = place_label (fst f) (emit_jmp OpJmp (fst h) (emit_counter_dec (fst k) (emit_simple OpStData voff
               (emit_simple OpAdd 0 (emit_simple OpLdData (fst (alloc_temp TDint c2')) (emit_simple OpLdData voff c4)))))))"
  using assms by (auto simp: Let_def case_prod_beta rbind_eq_Inr for_by_def [symmetric] split: option.splits)

lemma for_by_ext: "for_by ord by cg = Inr cg' \<Longrightarrow> ext cg cg'"
  by (auto simp: for_by_def rbind_eq_Inr split: option.splits intro!: ext_intros dest: emit_expr_ext)

text \<open>The frame that \<open>WHILE\<close> and \<open>FOR\<close> share: the counter is set, the head is placed, the test leaves
  the loop, the body runs, and the counter goes down.\<close>

lemma loop_frame_ext:
  fixes cg p q m
  defines "k \<equiv> alloc_temp TDint cg"
  defines "h \<equiv> fresh_label p (emit_simple OpStData (fst k) (push_dint m (snd k)))"
  defines "f \<equiv> fresh_label q (snd h)"
  assumes "ext (emit_counter_test (fst k) (fst f) (place_label (fst h) (snd f))) c"
  shows "ext cg (place_label (fst f) (emit_jmp OpJmp (fst h) (emit_counter_dec (fst k) c)))"
proof -
  let ?c0 = "emit_simple OpStData (fst k) (push_dint m (snd k))"
  have "ext (place_label (fst h) (snd f)) (emit_counter_test (fst k) (fst f) (place_label (fst h) (snd f)))"
    by (intro ext_intros)
  then have "ext (place_label (fst h) (snd f)) (emit_jmp OpJmp (fst h) (emit_counter_dec (fst k) c))"
    using ext_trans [OF _ assms(4)] by (intro ext_intros)
  then have "ext ?c0 (place_label (fst f) (emit_jmp OpJmp (fst h) (emit_counter_dec (fst k) c)))"
    unfolding f_def h_def by (rule ext_two_labels [OF ext_refl])
  moreover have "ext cg ?c0" unfolding k_def by (intro ext_intros)
  ultimately show ?thesis by (rule ext_trans [rotated])
qed

lemma emit_stmt_ext: "emit_stmt ord s cg = Inr cg' \<Longrightarrow> ext cg cg'"
proof (induction s arbitrary: cg cg' rule: measure_induct_rule [of size])
  case (less s)
  have body: "ext c c'" if "emit_stmts (\<lambda>s cg. emit_stmt ord s cg) b c = Inr c'" "size_list size b < size s" for b c c'
  proof (rule emit_stmts_ext [OF _ that(1)])
    fix x d d' assume "x \<in> set b" "emit_stmt ord x d = Inr d'"
    then show "ext d d'" using less.IH [of x d d'] stmt_size [of x b] that(2) by simp
  qed
  show ?case
  proof (cases s)
    case (SAssign lhs rhs sp)
    then show ?thesis using less.prems by (auto simp: rbind_eq_Inr dest!: emit_expr_ext emit_store_ext intro: ext_trans)
  next
    case (SFbCall call sp)
    then show ?thesis using less.prems by (simp add: emit_fb_call_ext)
  next
    case (SIf brs eb sp)
    let ?f = "fresh_label ''if_end'' cg"
    obtain c1 c2 where c: "emit_branches ord (\<lambda>s cg. emit_stmt ord s cg) (eb \<noteq> None) (fst ?f) brs (snd ?f) = Inr c1"
      "emit_else (\<lambda>s cg. emit_stmt ord s cg) eb c1 = Inr c2" "cg' = place_label (fst ?f) c2"
      using less.prems SIf by (auto simp: Let_def case_prod_beta rbind_eq_Inr)
    have "ext (snd ?f) c1"
      by (rule emit_branches_ext [OF _ c(1)]) (use less.IH branch_size SIf in \<open>fastforce intro!: less.IH\<close>)
    moreover have "ext c1 c2"
      by (rule emit_else_ext [OF _ c(2)]) (auto simp: SIf dest!: stmt_size intro!: less.IH)
    ultimately show ?thesis unfolding c(3) by (intro ext_bracket) (rule ext_trans)
  next
    case (SCase sel arms eb sp)
    obtain c0 t where e: "emit_expr ord sel cg = Inr (c0, t)" using less.prems SCase by (auto simp: rbind_eq_Inr)
    let ?k = "alloc_temp t c0"
    let ?f = "fresh_label ''case_end'' (emit_simple OpStData (fst ?k) (snd ?k))"
    obtain c1 c2 where c: "emit_arms (\<lambda>s cg. emit_stmt ord s cg) (fst ?k) (fst ?f) arms (snd ?f) = Inr c1"
      "emit_else (\<lambda>s cg. emit_stmt ord s cg) eb c1 = Inr c2" "cg' = place_label (fst ?f) c2"
      using less.prems SCase e by (auto simp: Let_def case_prod_beta rbind_eq_Inr split: if_splits)
    have "ext (snd ?f) c1"
    proof (rule emit_arms_ext [OF _ c(1)])
      fix b x d d' assume "b \<in> arm_body ` set arms" and x: "x \<in> set b" "emit_stmt ord x d = Inr d'"
      then obtain ls where "CaseArm ls b \<in> set arms" by (metis arm_body.simps case_arm.exhaust imageE)
      then show "ext d d'" using less.IH [OF _ x(2)] arm_size [OF _ x(1)] by (simp add: SCase)
    qed
    moreover have "ext c1 c2"
      by (rule emit_else_ext [OF _ c(2)]) (auto simp: SCase dest!: stmt_size intro!: less.IH)
    ultimately have "ext (emit_simple OpStData (fst ?k) (snd ?k)) cg'" unfolding c(3) by (intro ext_bracket) (rule ext_trans)
    moreover have "ext cg (emit_simple OpStData (fst ?k) (snd ?k))" using emit_expr_ext [OF e] by (auto intro!: ext_intros)
    ultimately show ?thesis by (rule ext_trans [rotated])
  next
    case (SWhile cond mi b sp)
    show ?thesis
    proof (cases mi)
      case (Some m)
      from less.prems [unfolded SWhile Some] show ?thesis
      proof (rule emit_while_obtain)
        fix c1 c2
        let ?k = "alloc_temp TDint cg"
        let ?h = "fresh_label ''wh_head'' (emit_simple OpStData (fst ?k) (push_dint m (snd ?k)))"
        let ?f = "fresh_label ''wh_end'' (snd ?h)"
        assume e: "emit_expr ord cond (emit_counter_test (fst ?k) (fst ?f) (place_label (fst ?h) (snd ?f))) = Inr (c1, TBool)"
          and b: "emit_stmts (\<lambda>s cg. emit_stmt ord s cg) b (emit_jmp OpJmpIfNot (fst ?f) c1) = Inr c2"
          and r: "cg' = place_label (fst ?f) (emit_jmp OpJmp (fst ?h) (emit_counter_dec (fst ?k) c2))"
        have "ext (emit_jmp OpJmpIfNot (fst ?f) c1) c2" by (rule body [OF b]) (simp add: SWhile)
        then have "ext (emit_counter_test (fst ?k) (fst ?f) (place_label (fst ?h) (snd ?f))) c2"
          using emit_expr_ext [OF e] ext_emit_jmp ext_trans by fastforce
        then show ?thesis unfolding r by (rule loop_frame_ext)
      qed
    qed (use less.prems SWhile in simp)
  next
    case (SFor var vsp ef et eb mi b sp)
    from less.prems [unfolded SFor] show ?thesis
    proof (rule emit_for_obtain)
      fix m voff cv c1 c2 c3 c4
      let ?k1 = "alloc_temp TDint (emit_simple OpStData voff c1)"
      let ?c2 = "emit_simple OpStData (fst ?k1) c2"
      let ?k2 = "alloc_temp TDint ?c2"
      let ?c3 = "emit_simple OpStData (fst ?k2) c3"
      let ?k = "alloc_temp TDint ?c3"
      let ?h = "fresh_label ''for_head'' (emit_simple OpStData (fst ?k) (push_dint m (snd ?k)))"
      let ?f = "fresh_label ''for_end'' (snd ?h)"
      let ?ct = "emit_counter_test (fst ?k) (fst ?f) (place_label (fst ?h) (snd ?f))"
      let ?cc = "emit_simple OpGt 0 (emit_simple OpLdData (fst ?k1) (emit_simple OpLdData voff ?ct))"
      assume v: "for_var var sp cg = Inr (voff, cv)" and e1: "\<exists>t. emit_expr ord ef cv = Inr (c1, t)"
        and e2: "\<exists>t. emit_expr ord et (snd ?k1) = Inr (c2, t)"
        and r: "let c2' = ?c2
     in for_by ord eb (snd (alloc_temp TDint c2')) = Inr c3
      \<and> (let c3' = emit_simple OpStData (fst (alloc_temp TDint c2')) c3; k = alloc_temp TDint c3';
             h = fresh_label ''for_head'' (emit_simple OpStData (fst k) (push_dint m (snd k)));
             f = fresh_label ''for_end'' (snd h);
             ct = emit_counter_test (fst k) (fst f) (place_label (fst h) (snd f));
             cc = emit_simple OpGt 0 (emit_simple OpLdData (fst ?k1) (emit_simple OpLdData voff ct))
         in emit_stmts (\<lambda>s cg. emit_stmt ord s cg) b (emit_jmp OpJmpIf (fst f) cc) = Inr c4
          \<and> cg' = place_label (fst f) (emit_jmp OpJmp (fst h) (emit_counter_dec (fst k) (emit_simple OpStData voff
               (emit_simple OpAdd 0 (emit_simple OpLdData (fst (alloc_temp TDint c2')) (emit_simple OpLdData voff c4)))))))"
      have "ext cg cv" "ext cv c1" "ext (snd ?k1) c2" "ext (snd ?k2) c3"
        using for_var_ext [OF v] e1 e2 r by (auto simp: Let_def dest!: emit_expr_ext for_by_ext)
      moreover have "ext c1 (snd ?k1)" "ext ?c2 (snd ?k2)" by (intro ext_intros)+
      ultimately have "ext cg c1" "ext c1 c2" "ext ?c2 c3" using ext_trans by blast+
      then have "ext cg c1" "ext c1 ?c2" "ext ?c2 ?c3" by (auto intro: ext_emit_simple)
      moreover have "ext ?c3 cg'"
      proof -
        have b: "ext (emit_jmp OpJmpIf (fst ?f) ?cc) c4" by (rule body) (use r in \<open>auto simp: Let_def SFor\<close>)
        have "ext ?ct (emit_jmp OpJmpIf (fst ?f) ?cc)" by (intro ext_intros)
        then have "ext ?ct (emit_simple OpStData voff (emit_simple OpAdd 0 (emit_simple OpLdData (fst ?k2) (emit_simple OpLdData voff c4))))"
          using ext_trans [OF _ b] by (intro ext_intros)
        from loop_frame_ext [OF this] show ?thesis using r by (simp add: Let_def)
      qed
      ultimately show ?thesis using ext_trans by blast
    qed
  qed (use less.prems in \<open>auto intro!: ext_intros\<close>)
qed

end
