(* ===== verification/CodeGenPatch.thy ===== *)
theory CodeGenPatch
  imports CodeGenLink
begin

unbundle bit_operations_syntax

section \<open>The patched code\<close>

text \<open>
  What \<open>finish_code\<close> makes of the emitted code. All instructions are whole words, so a patch changes exactly
  the word of its jump. \<open>linked L C cg\<close> holds of the finished code and of every emitter state on the way,
  and the instruction emitted at a place decodes there.
\<close>

subsection \<open>Words of the code\<close>

definition repack :: "u32 \<Rightarrow> u32 \<Rightarrow> u32" where
  "repack w pc = push_bit 24 (ucast (ucast (drop_bit 24 w) :: u8)) OR (pc AND 0x00FFFFFF)"

lemma repack_pack: "repack (pack_word op 0) pc = pack_word op pc"
  by (simp add: repack_def pack_word_opcode) (simp add: pack_word_def)

lemma dvd4_step: "4 dvd k \<Longrightarrow> k < n \<Longrightarrow> 4 dvd n \<Longrightarrow> k + 4 \<le> n" for k n :: nat
  by presburger

lemma u32_at_blit:
  assumes "4 dvd p" "4 dvd off" "p + 4 \<le> length c" "off + 4 \<le> length c"
  shows "u32_at (blit c off (le_bytes 4 (w :: u32))) p = (if p = off then w else u32_at c p)"
proof (cases "p = off")
  case True
  then show ?thesis using slice_blit_same [of off "le_bytes 4 w" c] assms by (simp add: u32_at_def)
next
  case False
  then have "p + 4 \<le> off \<or> off + 4 \<le> p" using assms(1,2) dvd4_step [of p off] dvd4_step [of off p] by linarith
  then show ?thesis using slice_blit_disjoint [of off "le_bytes 4 w" c "p + 4" p] assms False by (simp add: u32_at_def)
qed

lemma patch_word:
  assumes "patch_fixups labs fx c = Inr C" "\<forall>x\<in>set fx. 4 dvd fst x \<and> fst x + 4 \<le> length c" "distinct (map fst fx)"
  shows "length C = length c \<and> (\<forall>x\<in>set fx. map_of labs (snd x) \<noteq> None)
    \<and> (\<forall>p. 4 dvd p \<longrightarrow> p + 4 \<le> length c \<longrightarrow> u32_at C p =
        (case map_of fx p of None \<Rightarrow> u32_at c p | Some l \<Rightarrow> repack (u32_at c p) (the (map_of labs l))))"
  using assms
proof (induction fx arbitrary: c)
  case (Cons x fx)
  obtain off l where x: "x = (off, l)" by force
  obtain pc where pc: "map_of labs l = Some pc" using Cons.prems(1) by (cases "map_of labs l") (simp_all add: x)
  let ?c = "blit c off (le_bytes 4 (repack (u32_at c off) pc))"
  have o: "4 dvd off" "off + 4 \<le> length c" using Cons.prems(2) by (auto simp: x)
  have len: "length ?c = length c" using o by (intro length_blit) simp
  have IH: "length C = length ?c \<and> (\<forall>x\<in>set fx. map_of labs (snd x) \<noteq> None)
    \<and> (\<forall>p. 4 dvd p \<longrightarrow> p + 4 \<le> length ?c \<longrightarrow> u32_at C p =
        (case map_of fx p of None \<Rightarrow> u32_at ?c p | Some l \<Rightarrow> repack (u32_at ?c p) (the (map_of labs l))))"
    by (rule Cons.IH) (use Cons.prems pc len in \<open>auto simp: x Let_def repack_def\<close>)
  have n: "map_of fx off = None" using Cons.prems(3) by (auto simp: x map_of_eq_None_iff)
  have "u32_at C p = (case map_of (x # fx) p of None \<Rightarrow> u32_at c p | Some l \<Rightarrow> repack (u32_at c p) (the (map_of labs l)))"
    if "4 dvd p" "p + 4 \<le> length c" for p
    using IH that len n u32_at_blit [OF that(1) o(1) that(2) o(2)] pc by (auto simp: x split: option.splits)
  then show ?case using IH len pc by (auto simp: x)
qed simp

subsection \<open>Linking\<close>

definition linked :: "(label \<Rightarrow> u32 option) \<Rightarrow> bytes \<Rightarrow> codegen \<Rightarrow> bool" where
  "linked L C cg \<longleftrightarrow> length C < 0x1000000 \<and> length (cg_code cg) \<le> length C
     \<and> (\<forall>x\<in>set (cg_labels cg). L (fst x) = Some (snd x))
     \<and> (\<forall>x\<in>set (cg_fixups cg). \<exists>t. L (snd x) = Some t \<and> u32_at C (fst x) = repack (u32_at (cg_code cg) (fst x)) t)
     \<and> (\<forall>p. 4 dvd p \<longrightarrow> p + 4 \<le> length (cg_code cg) \<longrightarrow> p \<notin> fst ` set (cg_fixups cg)
         \<longrightarrow> u32_at C p = u32_at (cg_code cg) p)"

lemma linked_mono:
  assumes g: "appends cg cg'" and wf: "code_wf cg" and l: "linked L C cg'"
  shows "linked L C cg"
proof -
  obtain c where c: "cg_code cg' = cg_code cg @ c" using g by (auto simp: appends_def)
  obtain f where f: "cg_fixups cg' = cg_fixups cg @ f" "\<forall>x\<in>set f. length (cg_code cg) \<le> fst x"
    using g by (auto simp: appends_def)
  have w: "u32_at (cg_code cg') p = u32_at (cg_code cg) p" if "p + 4 \<le> length (cg_code cg)" for p
    unfolding c using that by (rule u32_at_append)
  have nf: "p \<notin> fst ` set (cg_fixups cg')" if "p + 4 \<le> length (cg_code cg)" "p \<notin> fst ` set (cg_fixups cg)" for p
    using f that by fastforce
  have fx: "\<forall>x\<in>set (cg_fixups cg). fst x + 4 \<le> length (cg_code cg)" using wf by (simp add: code_wf_def)
  have "set (cg_labels cg) \<subseteq> set (cg_labels cg')" using g by (simp add: appends_def)
  then have "L (fst x) = Some (snd x)" if "x \<in> set (cg_labels cg)" for x
    using l subsetD [OF _ that] by (simp add: linked_def)
  moreover have "\<exists>t. L (snd x) = Some t \<and> u32_at C (fst x) = repack (u32_at (cg_code cg) (fst x)) t"
    if x: "x \<in> set (cg_fixups cg)" for x
  proof -
    have "u32_at (cg_code cg') (fst x) = u32_at (cg_code cg) (fst x)" using w fx x by blast
    moreover have "x \<in> set (cg_fixups cg')" using x by (simp add: f(1))
    ultimately show ?thesis using l unfolding linked_def by metis
  qed
  moreover have "u32_at C p = u32_at (cg_code cg) p"
    if "4 dvd p" "p + 4 \<le> length (cg_code cg)" "p \<notin> fst ` set (cg_fixups cg)" for p
    using l that w [of p] nf [of p] by (simp add: linked_def c)
  moreover have "length C < 0x1000000" "length (cg_code cg) \<le> length C" using l by (simp_all add: linked_def c)
  ultimately show ?thesis by (simp add: linked_def)
qed

lemma finish_linked:
  assumes "patch_fixups (cg_labels cg) (cg_fixups cg) (cg_code cg) = Inr C" "code_wf cg" "labst {} cg" "length C < 0x1000000"
  shows "linked (map_of (cg_labels cg)) C cg"
proof -
  have wf: "\<forall>x\<in>set (cg_fixups cg). 4 dvd fst x \<and> fst x + 4 \<le> length (cg_code cg)" "distinct (map fst (cg_fixups cg))"
    using assms(2) by (simp_all add: code_wf_def)
  note p = patch_word [OF assms(1) wf]
  have "L = l" if "(off, L) \<in> set (cg_fixups cg)" "(off, l) \<in> set (cg_fixups cg)" for off L l
    using wf(2) that by (metis map_of_is_SomeI option.inject)
  then have "\<exists>t. map_of (cg_labels cg) (snd x) = Some t \<and> u32_at C (fst x) = repack (u32_at (cg_code cg) (fst x)) t"
    if x: "x \<in> set (cg_fixups cg)" for x
  proof -
    have "map_of (cg_fixups cg) (fst x) = Some (snd x)" using x wf(2) by simp
    then show ?thesis using p wf(1) x by force
  qed
  moreover have "map_of (cg_labels cg) (fst x) = Some (snd x)" if "x \<in> set (cg_labels cg)" for x
    using that assms(3) by (simp add: labst_def)
  moreover have "u32_at C q = u32_at (cg_code cg) q"
    if "4 dvd q" "q + 4 \<le> length (cg_code cg)" "q \<notin> fst ` set (cg_fixups cg)" for q
  proof -
    have "map_of (cg_fixups cg) q = None" using that(3) by (simp add: map_of_eq_None_iff)
    then show ?thesis using p that by simp
  qed
  ultimately show ?thesis using p assms(4) by (simp add: linked_def)
qed

subsection \<open>Decoding\<close>

lemma decode_same:
  assumes d: "decode_instruction c p = Inr (i, n)" and len: "p + n \<le> length c'"
    and w: "\<And>k. 4 dvd k \<Longrightarrow> k < n \<Longrightarrow> u32_at c' (p + k) = u32_at c (p + k)"
  shows "decode_instruction c' p = Inr (i, n)"
proof -
  have n: "4 \<le> n" "p + n \<le> length c" using decode_size_pos [OF d] by auto
  have w0: "u32_at c' p = u32_at c p" using w [of 0] n by simp
  have w4: "8 \<le> n \<longrightarrow> u32_at c' (p + 4) = u32_at c (p + 4)" using w [of 4] by auto
  have w8: "12 \<le> n \<longrightarrow> u32_at c' (p + 8) = u32_at c (p + 8)" using w [of 8] by auto
  obtain op where op: "opcode_from_u8 (ucast (drop_bit 24 (u32_at c p))) = Some op"
    using d n by (auto simp: decode_instruction_def Let_def rbind_eq_Inr ok_or_eq_Inr split: if_splits)
  consider "op \<in> {OpPushIDint, OpPushIReal, OpPushTime}" | "op = OpCallFb" | "op \<notin> {OpPushIDint, OpPushIReal, OpPushTime, OpCallFb}"
    by blast
  then show ?thesis
  proof cases
    case 1
    then have "n = 8" "i = WithImm32 op (u32_at c p AND 0x00FFFFFF) (u32_at c (p + 4))"
      using d op n by (auto simp: decode_instruction_def Let_def split: if_splits)
    then show ?thesis using 1 op len w0 w4 by (simp add: decode_instruction_def Let_def)
  next
    case 2
    then have "n = 12" "i = CallFb (drop_bit 24 (u32_at c (p + 4)) AND 0xFF) (u32_at c (p + 4) AND 0x00FFFFFF) (u32_at c (p + 8))"
      using d op n by (simp_all add: decode_instruction_def Let_def split: if_splits)
    then show ?thesis using 2 op len w0 w4 w8 by (simp add: decode_instruction_def Let_def)
  next
    case 3
    then have "n = 4" "i = Simple op (u32_at c p AND 0x00FFFFFF)"
      using d op n by (simp_all add: decode_instruction_def Let_def split: if_splits)
    then show ?thesis using 3 op len w0 by (simp add: decode_instruction_def Let_def)
  qed
qed

lemma decode_emit:
  assumes "wf_instr i" "cg_wf cg" "linked L C (emit i cg)"
  shows "decode_instruction C (length (cg_code cg)) = Inr (i, length (encode_instruction i))"
proof (rule decode_same)
  show "decode_instruction (cg_code (emit i cg)) (length (cg_code cg)) = Inr (i, length (encode_instruction i))"
    using decode_encode_at [OF assms(1), of "cg_code cg" "[]"] by (simp add: emit_def)
  show "length (cg_code cg) + length (encode_instruction i) \<le> length C"
    using assms(3) by (simp add: linked_def emit_def)
  fix k :: nat assume k: "4 dvd k" "k < length (encode_instruction i)"
  have d: "4 dvd length (cg_code cg)" "4 dvd length (encode_instruction i)" using assms(2) by (simp_all add: cg_wf_def code_wf_def)
  have "k + 4 \<le> length (encode_instruction i)" by (rule dvd4_step [OF k d(2)])
  moreover have "length (cg_code cg) + k \<notin> fst ` set (cg_fixups (emit i cg))"
    using assms(2) by (fastforce simp: cg_wf_def code_wf_def emit_def)
  ultimately show "u32_at C (length (cg_code cg) + k) = u32_at (cg_code (emit i cg)) (length (cg_code cg) + k)"
    using assms(3) d(1) k(1) by (simp add: linked_def emit_def)
qed

lemma decode_jmp:
  assumes "op \<notin> {OpPushIDint, OpPushIReal, OpPushTime, OpCallFb}" "cg_wf cg" "linked L C (emit_jmp op l cg)"
  obtains t where "L l = Some t" "decode_instruction C (length (cg_code cg)) = Inr (Simple op (t AND 0x00FFFFFF), 4)"
proof -
  have c: "cg_code (emit_jmp op l cg) = cg_code cg @ le_bytes 4 (pack_word op 0)" by (rule emit_jmp_code)
  obtain t where t: "L l = Some t" "u32_at C (length (cg_code cg)) = repack (u32_at (cg_code (emit_jmp op l cg)) (length (cg_code cg))) t"
    using assms(3) by (auto simp: linked_def emit_jmp_code(2))
  have "u32_at (cg_code (emit_jmp op l cg)) (length (cg_code cg)) = pack_word op 0"
    unfolding c using u32_at_skip [of "cg_code cg" "le_bytes 4 (pack_word op 0)" 0] u32_at_le [of "pack_word op 0" "[]"] by simp
  then have "u32_at C (length (cg_code cg)) = pack_word op t" using t(2) by (simp add: repack_pack)
  moreover have "length (cg_code cg) + 4 \<le> length C" using assms(3) by (simp add: linked_def c)
  ultimately have "decode_instruction C (length (cg_code cg)) = Inr (Simple op (t AND 0x00FFFFFF), 4)"
    using assms(1) by (simp add: decode_instruction_def Let_def pack_word_opcode pack_word_payload)
  then show ?thesis using that t(1) by blast
qed

text \<open>A jump to a placed label goes where the label was placed.\<close>

lemma linked_label:
  assumes "linked L C (place_label l cg)"
  shows "L l = Some (word_of_nat (length (cg_code cg)))"
    "unat (word_of_nat (length (cg_code cg)) AND 0x00FFFFFF :: u32) = length (cg_code cg)"
proof -
  show "L l = Some (word_of_nat (length (cg_code cg)))" using assms by (auto simp: linked_def place_label_def)
  have n: "length (cg_code cg) < 0x1000000" using assms by (auto simp: linked_def place_label_def)
  then have u: "unat (word_of_nat (length (cg_code cg)) :: u32) = length (cg_code cg)" by (simp add: unat_of_nat)
  then have "(word_of_nat (length (cg_code cg)) :: u32) < 0x1000000" using n by (simp add: word_less_nat_alt)
  then show "unat (word_of_nat (length (cg_code cg)) AND 0x00FFFFFF :: u32) = length (cg_code cg)"
    using u by (simp add: and_mask24_id)
qed

end
