(* ===== verification/CodeGenSim.thy ===== *)
theory CodeGenSim
  imports StSem CodeGenPatch VmSafety
begin

section \<open>The machine on the generated code\<close>

text \<open>
  Rules that run generated code symbolically. \<open>runs now pc s Q\<close> says that the machine started at
  \<open>pc\<close> in state \<open>s\<close> comes to a program counter and a state in \<open>Q\<close> after some number of instructions,
  whatever budget is left, or stops with a stack overflow. A record \<open>link_ctx\<close> collects what stays
  fixed: the symbols, the label table, the finished code and the segment sizes. \<open>rep X \<sigma> s\<close> relates a
  source state to a machine state, cell by cell, and \<open>spares\<close> says which temporaries a piece of code
  leaves alone.
\<close>

subsection \<open>Reaching a state\<close>

definition runs :: "u64 \<Rightarrow> nat \<Rightarrow> vm \<Rightarrow> (nat \<Rightarrow> vm \<Rightarrow> bool) \<Rightarrow> bool" where
  "runs now pc s Q \<longleftrightarrow> (\<exists>k.
     (\<exists>pc' s'. Q pc' s' \<and> (\<forall>n. run_loop (k + n) now pc s = run_loop n now pc' s'))
     \<or> (\<exists>s' p. \<forall>n. run_loop (k + n) now pc s = (s', Inl (VmStackOverflow p))))"

lemma runs_refl: "Q pc s \<Longrightarrow> runs now pc s Q"
  unfolding runs_def by (rule exI [of _ 0]) auto

lemma runs_trans:
  assumes "runs now pc s Q" "\<And>pc' s'. Q pc' s' \<Longrightarrow> runs now pc' s' R"
  shows "runs now pc s R"
proof -
  obtain k where k: "(\<exists>pc' s'. Q pc' s' \<and> (\<forall>n. run_loop (k + n) now pc s = run_loop n now pc' s'))
     \<or> (\<exists>s' p. \<forall>n. run_loop (k + n) now pc s = (s', Inl (VmStackOverflow p)))"
    using assms(1) unfolding runs_def by blast
  then show ?thesis
  proof
    assume "\<exists>pc' s'. Q pc' s' \<and> (\<forall>n. run_loop (k + n) now pc s = run_loop n now pc' s')"
    then obtain pc' s' where q: "Q pc' s'" "\<And>n. run_loop (k + n) now pc s = run_loop n now pc' s'" by blast
    obtain j where "(\<exists>p r. R p r \<and> (\<forall>n. run_loop (j + n) now pc' s' = run_loop n now p r))
       \<or> (\<exists>r p. \<forall>n. run_loop (j + n) now pc' s' = (r, Inl (VmStackOverflow p)))"
      using assms(2) [OF q(1)] unfolding runs_def by blast
    moreover have "run_loop (k + j + n) now pc s = run_loop (j + n) now pc' s'" for n
      using q(2) [of "j + n"] by (simp add: add.assoc)
    ultimately show ?thesis unfolding runs_def by (intro exI [of _ "k + j"]) simp
  next
    assume "\<exists>s' p. \<forall>n. run_loop (k + n) now pc s = (s', Inl (VmStackOverflow p))"
    then show ?thesis unfolding runs_def by blast
  qed
qed

lemma runs_mono: "runs now pc s Q \<Longrightarrow> (\<And>pc' s'. Q pc' s' \<Longrightarrow> R pc' s') \<Longrightarrow> runs now pc s R"
  by (erule runs_trans) (simp add: runs_refl)

lemma runs_step:
  assumes "wp (vm_step now pc) (\<lambda>c s'. \<exists>pc'. c = Goto pc' \<and> runs now pc' s' Q) (\<lambda>e s'. is_overflow e) s"
  shows "runs now pc s Q"
proof (cases "vm_step now pc s")
  case (Pair s' r)
  show ?thesis
  proof (cases r)
    case (Inl e)
    then obtain p where "e = VmStackOverflow p" using assms Pair by (auto simp: wp_def is_overflow_def)
    then show ?thesis unfolding runs_def using Pair Inl by (intro exI [of _ 1]) simp
  next
    case (Inr c)
    then obtain pc' where c: "c = Goto pc'" "runs now pc' s' Q" using assms Pair by (auto simp: wp_def)
    have "runs now pc s (\<lambda>p r. p = pc' \<and> r = s')"
      unfolding runs_def using Pair Inr c(1) by (intro exI [of _ 1]) simp
    then show ?thesis by (rule runs_trans) (use c(2) in simp)
  qed
qed

text \<open>The counter of a loop that runs at most as often as its bound.\<close>

lemma unat_pred: "k \<noteq> 0 \<Longrightarrow> unat (k - 1) = unat k - 1" for k :: "'a::len word"
  by (metis unat_minus_one)

subsection \<open>Bytes of a segment\<close>

definition same_byte :: "byte_segment \<Rightarrow> byte_segment \<Rightarrow> nat \<Rightarrow> bool" where
  "same_byte d d' p \<longleftrightarrow> seg_bytes d' ! p = seg_bytes d ! p \<and> seg_tags d' ! p = seg_tags d ! p"

lemma seg_load_same:
  assumes "seg_inv d" "seg_inv d'" "seg_len d' = seg_len d" "seg_load d off pc = Inr v"
    and same: "\<And>p. off \<le> p \<Longrightarrow> p < off + byte_width (value_ir_type v) \<Longrightarrow> same_byte d d' p"
  shows "seg_load d' off pc' = Inr v"
proof -
  let ?t = "seg_tag_type d off"
  have l: "off < seg_len d" "off + byte_width ?t \<le> seg_len d"
    "v = decode_value ?t (slice off (off + byte_width ?t) (seg_bytes d))"
    using assms(4) by (auto simp: seg_load_def seg_load_as_def Let_def split: if_splits)
  have t: "value_ir_type v = ?t" using l(3) by simp
  have "same_byte d d' off" by (rule same) (simp_all add: byte_width_pos)
  then have t': "seg_tag_type d' off = ?t"
    using assms(1-3) l(1) by (simp add: seg_tag_type_def nth_opt_def same_byte_def seg_inv_def seg_len_def)
  have "slice off (off + byte_width ?t) (seg_bytes d') = slice off (off + byte_width ?t) (seg_bytes d)"
  proof (rule nth_equalityI)
    show "length (slice off (off + byte_width ?t) (seg_bytes d')) = length (slice off (off + byte_width ?t) (seg_bytes d))"
      using l(2) assms(3) by (simp add: seg_len_def)
    fix i assume "i < length (slice off (off + byte_width ?t) (seg_bytes d'))"
    then have i: "i < byte_width ?t" using l(2) assms(3) by (simp add: seg_len_def)
    then have "same_byte d d' (off + i)" using t by (intro same) simp_all
    then show "slice off (off + byte_width ?t) (seg_bytes d') ! i = slice off (off + byte_width ?t) (seg_bytes d) ! i"
      using i l(2) assms(3) by (simp add: nth_slice seg_len_def same_byte_def)
  qed
  then show ?thesis using l t' assms(3) by (simp add: seg_load_def seg_load_as_def Let_def)
qed

lemma seg_load_pc: "seg_load d off pc = Inr v \<Longrightarrow> seg_load d off pc' = Inr v"
  by (auto simp: seg_load_def seg_load_as_def Let_def split: if_splits)

lemma seg_load_bound: "seg_load d off pc = Inr v \<Longrightarrow> off + byte_width (value_ir_type v) \<le> seg_len d"
  by (auto simp: seg_load_def seg_load_as_def Let_def split: if_splits)

lemma seg_store_same:
  assumes "seg_inv d" "seg_store d off v pc = Inr d'" "p < seg_len d" "p < off \<or> off + byte_width (value_ir_type v) \<le> p"
  shows "same_byte d d' p"
proof -
  have w: "off + byte_width (value_ir_type v) \<le> length (seg_bytes d)"
    and d': "seg_bytes d' = blit (seg_bytes d) off (value_bytes v)"
      "seg_tags d' = blit (seg_tags d) off
         (ir_type_u8 (value_ir_type v) # replicate (byte_width (value_ir_type v) - 1) TAG_UNSET)"
    using assms(2) by (auto elim: seg_store_cases)
  then show ?thesis using assms(1,3,4)
    by (auto simp: same_byte_def seg_inv_def seg_len_def nth_blit byte_width_Suc)
qed


subsection \<open>The fixed parts\<close>

record link_ctx =
  lk_globals :: symbols
  lk_fbs :: fb_layouts
  lk_labels :: "label \<Rightarrow> u32 option"
  lk_code :: bytes
  lk_data :: nat
  lk_retain :: nat

definition sym_cells :: "storage \<Rightarrow> (nat \<times> ir_type) set" where
  "sym_cells st =
     (case st of
        StData off (TElem t) \<Rightarrow> {(off, t)}
      | StPrim _ _ outs \<Rightarrow> snd ` set outs
      | _ \<Rightarrow> {})"

definition ret_cells :: "storage \<Rightarrow> (nat \<times> ir_type) set" where
  "ret_cells st = (case st of StRetain off t \<Rightarrow> {(off, t)} | _ \<Rightarrow> {})"

definition data_cells :: "symbols \<Rightarrow> (nat \<times> ir_type) set" where
  "data_cells G = (\<Union>y\<in>snd ` set G. sym_cells (sy_storage y))"

definition retain_cells :: "symbols \<Rightarrow> (nat \<times> ir_type) set" where
  "retain_cells G = (\<Union>y\<in>snd ` set G. ret_cells (sy_storage y))"

lemma sym_cells_simps [simp]: "sym_cells (StData off (TElem t)) = {(off, t)}" "sym_cells (StPrim p i outs) = snd ` set outs"
  "ret_cells (StRetain off t) = {(off, t)}"
  by (simp_all add: sym_cells_def ret_cells_def)

text \<open>Cells are equal or do not overlap.\<close>

definition apart :: "(nat \<times> ir_type) set \<Rightarrow> bool" where
  "apart S \<longleftrightarrow> (\<forall>(a, t)\<in>S. \<forall>(b, u)\<in>S. a = b \<and> t = u \<or> a + byte_width t \<le> b \<or> b + byte_width u \<le> a)"

lemma apartD:
  "apart S \<Longrightarrow> (a, t) \<in> S \<Longrightarrow> (b, u) \<in> S \<Longrightarrow> a = b \<and> t = u \<or> a + byte_width t \<le> b \<or> b + byte_width u \<le> a"
  unfolding apart_def by blast

definition temps_from :: "link_ctx \<Rightarrow> nat" where
  "temps_from X = globals_end (lk_fbs X) (lk_globals X)"

definition ctx_ok :: "link_ctx \<Rightarrow> bool" where
  "ctx_ok X \<longleftrightarrow> apart (data_cells (lk_globals X)) \<and> apart (retain_cells (lk_globals X))
     \<and> temps_from X \<le> lk_data X \<and> (\<forall>(off, t)\<in>retain_cells (lk_globals X). off + byte_width t \<le> lk_retain X)
     \<and> lk_data X \<le> 0x1000000 \<and> lk_retain X \<le> 0x1000000"

text \<open>An emitter state whose code is part of the finished code.\<close>

definition placed :: "link_ctx \<Rightarrow> codegen \<Rightarrow> bool" where
  "placed X cg \<longleftrightarrow> linked (lk_labels X) (lk_code X) cg \<and> cg_globals cg = lk_globals X
     \<and> cg_fb_layouts cg = lk_fbs X \<and> cg_extra_data cg \<le> lk_data X"

lemma placed_back: "grows cg cg' \<Longrightarrow> cg_wf cg \<Longrightarrow> placed X cg' \<Longrightarrow> placed X cg"
  using linked_mono [OF grow_appends] grow_keeps unfolding placed_def cg_wf_def by fastforce

abbreviation pcof :: "codegen \<Rightarrow> nat" where
  "pcof cg \<equiv> length (cg_code cg)"

lemma pcof_simps [simp]: "cg_code (place_label l cg) = cg_code cg" "cg_code (snd (fresh_label p cg)) = cg_code cg"
  "cg_code (snd (alloc_temp t cg)) = cg_code cg"
  by (simp_all add: place_label_def fresh_label_def alloc_temp_def Let_def)

lemma extra_simps [simp]: "cg_extra_data (place_label l cg) = cg_extra_data cg"
  "cg_extra_data (snd (fresh_label p cg)) = cg_extra_data cg" "cg_extra_data (emit i cg) = cg_extra_data cg"
  "cg_extra_data (emit_simple op n cg) = cg_extra_data cg" "cg_extra_data (push_dint m cg) = cg_extra_data cg"
  "cg_extra_data (emit_jmp op l cg) = cg_extra_data cg"
  by (simp_all add: place_label_def fresh_label_def emit_def emit_simple_def push_dint_def emit_jmp_def Let_def)

text \<open>A temporary lies above the variables and above every earlier temporary.\<close>

lemma alloc_temp_bounds:
  assumes "placed X (snd (alloc_temp t cg))"
  shows "temps_from X \<le> fst (alloc_temp t cg)" "cg_extra_data cg \<le> fst (alloc_temp t cg)"
    "cg_extra_data (snd (alloc_temp t cg)) = fst (alloc_temp t cg) + byte_width t"
    "fst (alloc_temp t cg) + byte_width t \<le> lk_data X"
proof -
  let ?b = "max (max (globals_end (cg_fb_layouts cg) (cg_globals cg)) (cg_extra_data cg)) (align_up (cg_data_cursor cg) (ty_align t))"
  have o: "fst (alloc_temp t cg) = align_up ?b (ty_align t)" by (simp add: alloc_temp_def Let_def)
  have "globals_end (cg_fb_layouts cg) (cg_globals cg) = temps_from X"
    using assms by (simp add: placed_def temps_from_def alloc_temp_def Let_def)
  then show "temps_from X \<le> fst (alloc_temp t cg)" "cg_extra_data cg \<le> fst (alloc_temp t cg)"
    unfolding o using align_up_ge [of ?b "ty_align t"] by linarith+
  show e: "cg_extra_data (snd (alloc_temp t cg)) = fst (alloc_temp t cg) + byte_width t"
    by (simp add: alloc_temp_def Let_def)
  show "fst (alloc_temp t cg) + byte_width t \<le> lk_data X" using assms e by (simp add: placed_def)
qed

lemma fold_max_ge: "x \<in> set xs \<or> x \<le> m \<Longrightarrow> x \<le> fold max xs m" for x :: nat
proof (induction xs arbitrary: m)
  case (Cons a xs)
  then show ?case using Cons.IH [of "max a m"] by (auto simp: le_max_iff_disj)
qed simp

lemma data_cell_end:
  assumes "(off, t) \<in> data_cells (lk_globals X)"
  shows "off + byte_width t \<le> temps_from X"
proof -
  obtain k y where y: "(k, y) \<in> set (lk_globals X)" "(off, t) \<in> sym_cells (sy_storage y)"
    using assms by (auto simp: data_cells_def)
  have "\<exists>e. sym_data_end (lk_fbs X) y = Some e \<and> off + byte_width t \<le> e"
  proof (cases "sy_storage y")
    case (StData o' ty)
    then show ?thesis using y(2) by (cases ty) (auto simp: sym_cells_def sym_data_end_def)
  next
    case (StPrim p i outs)
    then obtain n where n: "(n, off, t) \<in> set outs" using y(2) by auto
    have "off + byte_width t \<le> fold max (map (\<lambda>(_, off, t). off + byte_width t) outs) 0"
      by (rule fold_max_ge) (use n in force)
    then show ?thesis using StPrim n by (auto simp: sym_data_end_def)
  qed (use y(2) in \<open>auto simp: sym_cells_def\<close>)
  then obtain e where e: "sym_data_end (lk_fbs X) y = Some e" "off + byte_width t \<le> e" by blast
  have "e \<in> set (List.map_filter (\<lambda>(_, s). sym_data_end (lk_fbs X) s) (lk_globals X))"
    using y(1) e(1) by (force simp: List.map_filter_def)
  then show ?thesis unfolding temps_from_def globals_end_def using fold_max_ge e(2) le_trans by blast
qed

subsection \<open>Source and machine states\<close>

definition live :: "link_ctx \<Rightarrow> vm \<Rightarrow> bool" where
  "live X s \<longleftrightarrow> vm_code s = lk_code X \<and> vm_data_base s = 0 \<and> vm_frames s = []
     \<and> seg_inv (vm_data s) \<and> seg_len (vm_data s) = lk_data X
     \<and> seg_inv (vm_retain s) \<and> seg_len (vm_retain s) = lk_retain X
     \<and> length (si_values (vm_inputs s)) \<le> 0x1000000 \<and> length (si_quality_good (vm_inputs s)) \<le> 0x1000000
     \<and> length (si_values (vm_outputs s)) \<le> 0x1000000"

definition rep :: "link_ctx \<Rightarrow> src \<Rightarrow> vm \<Rightarrow> bool" where
  "rep X \<sigma> s \<longleftrightarrow> live X s \<and> vm_inputs s = ss_inputs \<sigma> \<and> vm_outputs s = ss_outputs \<sigma> \<and> vm_primitives s = ss_prims \<sigma>
     \<and> (\<forall>(off, t)\<in>data_cells (lk_globals X). seg_load (vm_data s) off 0 = Inr (ss_data \<sigma> off) \<and> fits (ss_data \<sigma> off) t)
     \<and> (\<forall>(off, t)\<in>retain_cells (lk_globals X). seg_load (vm_retain s) off 0 = Inr (ss_retain \<sigma> off) \<and> fits (ss_retain \<sigma> off) t)"

definition spares :: "link_ctx \<Rightarrow> nat \<Rightarrow> vm \<Rightarrow> vm \<Rightarrow> bool" where
  "spares X lo s s' \<longleftrightarrow> (\<forall>p. temps_from X \<le> p \<longrightarrow> p < lo \<longrightarrow> p < lk_data X \<longrightarrow> same_byte (vm_data s) (vm_data s') p)"

lemma spares_refl [simp]: "spares X lo s s"
  by (simp add: spares_def same_byte_def)

lemma spares_trans: "spares X lo a b \<Longrightarrow> spares X lo' b c \<Longrightarrow> lo \<le> lo' \<Longrightarrow> spares X lo a c"
  by (auto simp: spares_def same_byte_def)

lemma spares_same [simp]: "spares X lo (s\<lparr>vm_stack := st\<rparr>) s' = spares X lo s s'"
  "spares X lo s (s'\<lparr>vm_stack := st\<rparr>) = spares X lo s s'"
  "spares X lo s (s'\<lparr>vm_div0_count := n\<rparr>) = spares X lo s s'"
  by (simp_all add: spares_def)

lemma live_same [simp]: "live X (s\<lparr>vm_div0_count := n\<rparr>) = live X s" "live X (s\<lparr>vm_stack := st\<rparr>) = live X s"
  by (simp_all add: live_def)

lemma rep_same [simp]: "rep X \<sigma> (s\<lparr>vm_div0_count := n\<rparr>) = rep X \<sigma> s" "rep X \<sigma> (s\<lparr>vm_stack := st\<rparr>) = rep X \<sigma> s"
  by (simp_all add: rep_def)

lemma rep_live: "rep X \<sigma> s \<Longrightarrow> live X s"
  by (simp add: rep_def)

text \<open>A temporary that is not overwritten spares its value.\<close>

lemma spares_load:
  assumes "spares X lo s s'" "live X s" "live X s'" "seg_load (vm_data s) off pc = Inr v" "temps_from X \<le> off"
    "off + byte_width (value_ir_type v) \<le> lo" "off + byte_width (value_ir_type v) \<le> lk_data X"
  shows "seg_load (vm_data s') off pc' = Inr v"
proof (rule seg_load_same [OF _ _ _ assms(4)])
  show "seg_inv (vm_data s)" "seg_inv (vm_data s')" "seg_len (vm_data s') = seg_len (vm_data s)"
    using assms(2,3) by (simp_all add: live_def)
  fix p assume "off \<le> p" "p < off + byte_width (value_ir_type v)"
  then show "same_byte (vm_data s) (vm_data s') p" using assms(1,5-7) by (simp add: spares_def)
qed

subsection \<open>Stores\<close>

lemma seg_store_fits:
  assumes "off + byte_width t \<le> seg_len d" "fits v t"
  obtains d' where "seg_store d off v pc = Inr d'"
  using assms seg_store_ok_iff [of d off v pc] by (auto simp: fits_def)

lemma live_store:
  assumes "live X s"
  shows "seg_store (vm_data s) off v pc = Inr d \<Longrightarrow> live X (s\<lparr>vm_data := d\<rparr>)"
    "seg_store (vm_retain s) off v pc = Inr d \<Longrightarrow> live X (s\<lparr>vm_retain := d, vm_retain_dirty := b\<rparr>)"
  using assms seg_store_inv by (auto simp: live_def)

text \<open>A store to one cell leaves the other cells of the same kind readable as before.\<close>

lemma cell_store_load:
  assumes "seg_inv d" "seg_store d off v pc = Inr d'" "apart S" "(off, t) \<in> S" "fits v t"
    "(off', t') \<in> S" "seg_load d off' 0 = Inr v'" "fits v' t'" "off' + byte_width t' \<le> seg_len d"
  shows "seg_load d' off' 0 = Inr (if off' = off then v else v') \<and> fits (if off' = off then v else v') t'"
proof (cases "off' = off")
  case True
  then have "t' = t" using apartD [OF assms(3,4,6)] byte_width_pos [of t] byte_width_pos [of t'] by auto
  then show ?thesis using True seg_store_load [OF assms(1,2)] assms(5) by simp
next
  case False
  have i: "seg_inv d'" "seg_len d' = seg_len d" using seg_store_inv [OF assms(1,2)] by auto
  have "off + byte_width t \<le> off' \<or> off' + byte_width t' \<le> off" using False apartD [OF assms(3,4,6)] by auto
  then have "same_byte d d' p" if "off' \<le> p" "p < off' + byte_width (value_ir_type v')" for p
    using seg_store_same [OF assms(1,2), of p] that assms(5,8,9) by (auto simp: fits_def)
  then show ?thesis using False seg_load_same [OF assms(1) i assms(7)] assms(8) by simp
qed

lemma rep_store_data:
  assumes "rep X \<sigma> s" "ctx_ok X" "(off, t) \<in> data_cells (lk_globals X)" "fits v t" "seg_store (vm_data s) off v pc = Inr d"
  shows "rep X (\<sigma>\<lparr>ss_data := (ss_data \<sigma>)(off := v)\<rparr>) (s\<lparr>vm_data := d\<rparr>)" "spares X lo s (s\<lparr>vm_data := d\<rparr>)"
proof -
  have l: "live X s" "live X (s\<lparr>vm_data := d\<rparr>)" using assms(1,5) live_store rep_live by blast+
  have i: "seg_inv (vm_data s)" "seg_len (vm_data s) = lk_data X" using l by (simp_all add: live_def)
  have a: "apart (data_cells (lk_globals X))" using assms(2) by (simp add: ctx_ok_def)
  have e: "off' + byte_width t' \<le> lk_data X" if "(off', t') \<in> data_cells (lk_globals X)" for off' t'
    using data_cell_end [OF that] assms(2) by (simp add: ctx_ok_def)
  have "seg_load d off' 0 = Inr (((ss_data \<sigma>)(off := v)) off') \<and> fits (((ss_data \<sigma>)(off := v)) off') t'"
    if c: "(off', t') \<in> data_cells (lk_globals X)" for off' t'
  proof -
    have "seg_load (vm_data s) off' 0 = Inr (ss_data \<sigma> off')" "fits (ss_data \<sigma> off') t'"
      using assms(1) c by (auto simp: rep_def)
    from cell_store_load [OF i(1) assms(5) a assms(3,4) c this] e [OF c] i(2) show ?thesis by simp
  qed
  then show "rep X (\<sigma>\<lparr>ss_data := (ss_data \<sigma>)(off := v)\<rparr>) (s\<lparr>vm_data := d\<rparr>)"
    using assms(1) l(2) unfolding rep_def by auto
  have "off + byte_width t \<le> temps_from X" by (rule data_cell_end [OF assms(3)])
  then show "spares X lo s (s\<lparr>vm_data := d\<rparr>)"
    using seg_store_same [OF i(1) assms(5)] assms(4) i(2) by (auto simp: spares_def fits_def)
qed

lemma rep_store_retain:
  assumes "rep X \<sigma> s" "ctx_ok X" "(off, t) \<in> retain_cells (lk_globals X)" "fits v t" "seg_store (vm_retain s) off v pc = Inr d"
  shows "rep X (\<sigma>\<lparr>ss_retain := (ss_retain \<sigma>)(off := v)\<rparr>) (s\<lparr>vm_retain := d, vm_retain_dirty := b\<rparr>)"
proof -
  have l: "live X s" "live X (s\<lparr>vm_retain := d, vm_retain_dirty := b\<rparr>)" using assms(1,5) live_store rep_live by blast+
  have i: "seg_inv (vm_retain s)" "seg_len (vm_retain s) = lk_retain X" using l by (simp_all add: live_def)
  have a: "apart (retain_cells (lk_globals X))" using assms(2) by (simp add: ctx_ok_def)
  have e: "off' + byte_width t' \<le> lk_retain X" if "(off', t') \<in> retain_cells (lk_globals X)" for off' t'
    using that assms(2) by (auto simp: ctx_ok_def)
  have "seg_load d off' 0 = Inr (((ss_retain \<sigma>)(off := v)) off') \<and> fits (((ss_retain \<sigma>)(off := v)) off') t'"
    if c: "(off', t') \<in> retain_cells (lk_globals X)" for off' t'
  proof -
    have "seg_load (vm_retain s) off' 0 = Inr (ss_retain \<sigma> off')" "fits (ss_retain \<sigma> off') t'"
      using assms(1) c by (auto simp: rep_def)
    from cell_store_load [OF i(1) assms(5) a assms(3,4) c this] e [OF c] i(2) show ?thesis by simp
  qed
  then show ?thesis using assms(1) l(2) unfolding rep_def by auto
qed

lemma rep_store_temp:
  assumes "rep X \<sigma> s" "temps_from X \<le> off" "seg_store (vm_data s) off v pc = Inr d"
  shows "rep X \<sigma> (s\<lparr>vm_data := d\<rparr>)" "spares X off s (s\<lparr>vm_data := d\<rparr>)"
proof -
  have l: "live X s" "live X (s\<lparr>vm_data := d\<rparr>)" using assms(1,3) live_store rep_live by blast+
  have i: "seg_inv (vm_data s)" "seg_len (vm_data s) = lk_data X" "seg_inv d" "seg_len d = lk_data X"
    using l by (simp_all add: live_def)
  have b: "same_byte (vm_data s) d p" if "p < off" "p < lk_data X" for p
    using seg_store_same [OF i(1) assms(3), of p] that i(2) by simp
  then show "spares X off s (s\<lparr>vm_data := d\<rparr>)" by (simp add: spares_def)
  have "seg_load d off' 0 = Inr (ss_data \<sigma> off')" if c: "(off', t') \<in> data_cells (lk_globals X)" for off' t'
  proof (rule seg_load_same [OF i(1,3)])
    show "seg_load (vm_data s) off' 0 = Inr (ss_data \<sigma> off')" using assms(1) c by (auto simp: rep_def)
    show "seg_len d = seg_len (vm_data s)" using i by simp
    have "fits (ss_data \<sigma> off') t'" using assms(1) c by (auto simp: rep_def)
    moreover have "off' + byte_width (value_ir_type (ss_data \<sigma> off')) \<le> seg_len (vm_data s)"
      by (rule seg_load_bound) (use assms(1) c in \<open>auto simp: rep_def\<close>)
    ultimately show "same_byte (vm_data s) d p" if "off' \<le> p" "p < off' + byte_width (value_ir_type (ss_data \<sigma> off'))" for p
      using b that data_cell_end [OF c] assms(2) i(2) by (simp add: fits_def)
  qed
  then show "rep X \<sigma> (s\<lparr>vm_data := d\<rparr>)" using assms(1) l(2) unfolding rep_def by auto
qed

subsection \<open>One instruction\<close>

abbreviation overflowed :: "vm_error \<Rightarrow> vm \<Rightarrow> bool" where
  "overflowed e s \<equiv> is_overflow e"

lemma is_overflow_simp [simp]: "is_overflow (VmStackOverflow p)"
  by (simp add: is_overflow_def)

lemma runs_emit:
  assumes "cg_wf cg" "placed X (emit i cg)" "wf_instr i" "live X s"
    "wp (exec_instr now (pcof cg) i (length (encode_instruction i))) (\<lambda>c s'. \<exists>pc'. c = Goto pc' \<and> runs now pc' s' Q) overflowed s"
  shows "runs now (pcof cg) s Q"
proof (rule runs_step)
  have "decode_instruction (vm_code s) (pcof cg) = Inr (i, length (encode_instruction i))"
    using decode_emit [OF assms(3,1), of "lk_labels X" "lk_code X"] assms(2,4) by (simp add: placed_def live_def)
  then show "wp (vm_step now (pcof cg)) (\<lambda>c s'. \<exists>pc'. c = Goto pc' \<and> runs now pc' s' Q) overflowed s"
    using assms(5) by (simp add: wp_def vm_step_def)
qed

text \<open>Instructions that push a value the machine can read off its state.\<close>

definition pushes :: "u64 \<Rightarrow> decoded_instr \<Rightarrow> vm \<Rightarrow> vm_value \<Rightarrow> bool" where
  "pushes now i s v \<longleftrightarrow> wf_instr i \<and> (\<forall>pc sz. exec_instr now pc i sz s = vnext (pc + sz) (vpush_value v pc) s)"

lemma runs_pushes:
  assumes "pushes now i s v" "cg_wf cg" "placed X (emit i cg)" "live X s"
    "runs now (pcof (emit i cg)) (s\<lparr>vm_stack := v # vm_stack s\<rparr>) Q"
  shows "runs now (pcof cg) s Q"
proof (rule runs_emit [OF assms(2,3) _ assms(4)])
  show "wf_instr i" using assms(1) by (simp add: pushes_def)
  have e: "exec_instr now (pcof cg) i (length (encode_instruction i)) s
      = vnext (pcof (emit i cg)) (vpush_value v (pcof cg)) s"
    using assms(1) by (simp add: pushes_def emit_def)
  have "wp (vnext (pcof (emit i cg)) (vpush_value v (pcof cg))) (\<lambda>c s'. \<exists>pc'. c = Goto pc' \<and> runs now pc' s' Q) overflowed s"
    using assms(5) by (simp add: wp_simps)
  then show "wp (exec_instr now (pcof cg) i (length (encode_instruction i))) (\<lambda>c s'. \<exists>pc'. c = Goto pc' \<and> runs now pc' s' Q) overflowed s"
    unfolding wp_def e .
qed

lemma unat_payload: "n < 0x1000000 \<Longrightarrow> unat (word_of_nat n :: u32) = n" "n < 0x1000000 \<Longrightarrow> (word_of_nat n :: u32) < 0x1000000"
  by (simp_all add: unat_of_nat word_less_nat_alt)

lemma seg_offset_0: "live X s \<Longrightarrow> n < 0x1000000 \<Longrightarrow> seg_offset s (word_of_nat n) = n"
  by (simp add: live_def seg_offset_def unat_sat_add unat_payload)

lemma pushes_literal:
  "pushes now (Simple OpPushIBool (word_of_nat (if b then 1 else 0))) s (VBool b)"
  "pushes now (WithImm32 OpPushIDint 0 d) s (VDint d)"
  "pushes now (WithImm32 OpPushIReal 0 r) s (VReal r)"
  "pushes now (WithImm32 OpPushTime 0 m) s (VTime m)"
  by (simp_all add: pushes_def exec_instr_def exec_simple_def)

lemma pushes_data:
  assumes "live X s" "seg_load (vm_data s) off 0 = Inr v" "off < 0x1000000"
  shows "pushes now (Simple OpLdData (word_of_nat off)) s v"
  using assms by (simp add: pushes_def exec_instr_def exec_simple_def unat_payload seg_offset_0 vnext_def vbind_def
      vreads_def seg_load_pc [OF assms(2)])

lemma pushes_retain:
  assumes "live X s" "seg_load (vm_retain s) off 0 = Inr v" "off < 0x1000000"
  shows "pushes now (Simple OpLdRetain (word_of_nat off)) s v"
  using assms by (simp add: pushes_def exec_instr_def exec_simple_def unat_payload seg_offset_0 vnext_def vbind_def
      vreads_def seg_load_pc [OF assms(2)])

lemma pushes_slot:
  assumes "live X s"
  shows "nth_opt (si_values (vm_inputs s)) i = Some v \<Longrightarrow> pushes now (Simple OpLdI (word_of_nat i)) s v"
    "nth_opt (si_values (vm_outputs s)) i = Some v \<Longrightarrow> pushes now (Simple OpLdQ (word_of_nat i)) s v"
    "nth_opt (si_quality_good (vm_inputs s)) i = Some b \<Longrightarrow> pushes now (Simple OpLdIq (word_of_nat i)) s (VBool b)"
  using assms
  by (auto simp: pushes_def exec_instr_def exec_simple_def vnext_def vbind_def vreads_def slot_get_def slot_quality_good_def
      live_def nth_opt_eq_Some intro!: unat_payload)
    (simp_all add: unat_payload)

lemma runs_simple:
  assumes "cg_wf cg" "placed X (emit_simple op n cg)" "live X s" "n < 0x1000000"
    "op \<notin> {OpPushIDint, OpPushIReal, OpPushTime, OpCallFb}"
    "wp (exec_simple op (word_of_nat n) (pcof cg) (pcof (emit_simple op n cg)))
       (\<lambda>c s'. \<exists>pc'. c = Goto pc' \<and> runs now pc' s' Q) overflowed s"
  shows "runs now (pcof cg) s Q"
proof (rule runs_emit)
  show "cg_wf cg" "placed X (emit (Simple op (word_of_nat n)) cg)" "live X s"
    using assms by (simp_all add: emit_simple_def)
  show "wf_instr (Simple op (word_of_nat n))" using assms(4,5) unat_payload by simp
  have "pcof cg + length (encode_instruction (Simple op (word_of_nat n))) = pcof (emit_simple op n cg)"
    by (simp add: emit_simple_def emit_def)
  then show "wp (exec_instr now (pcof cg) (Simple op (word_of_nat n)) (length (encode_instruction (Simple op (word_of_nat n)))))
      (\<lambda>c s'. \<exists>pc'. c = Goto pc' \<and> runs now pc' s' Q) overflowed s"
    using assms(6) by (simp add: exec_instr_def)
qed

text \<open>Stores. States are written with the operand stack updated last.\<close>

lemma stack_last [simp]:
  "s\<lparr>vm_stack := st, vm_data := d\<rparr> = s\<lparr>vm_data := d, vm_stack := st\<rparr>"
  "s\<lparr>vm_stack := st, vm_retain := d\<rparr> = s\<lparr>vm_retain := d, vm_stack := st\<rparr>"
  "s\<lparr>vm_stack := st, vm_retain_dirty := b\<rparr> = s\<lparr>vm_retain_dirty := b, vm_stack := st\<rparr>"
  "s\<lparr>vm_stack := st, vm_outputs := im\<rparr> = s\<lparr>vm_outputs := im, vm_stack := st\<rparr>"
  "s\<lparr>vm_stack := st, vm_primitives := ps\<rparr> = s\<lparr>vm_primitives := ps, vm_stack := st\<rparr>"
  "s\<lparr>vm_stack := st, vm_div0_count := n\<rparr> = s\<lparr>vm_div0_count := n, vm_stack := st\<rparr>"
  by (cases s, simp)+

lemma runs_st_data:
  assumes "cg_wf cg" "placed X (emit_simple OpStData off cg)" "live X s" "off < 0x1000000" "vm_stack s = v # st"
    "seg_store (vm_data s) off v (pcof cg) = Inr d"
    "runs now (pcof (emit_simple OpStData off cg)) (s\<lparr>vm_data := d, vm_stack := st\<rparr>) Q"
  shows "runs now (pcof cg) s Q"
proof (rule runs_simple [OF assms(1-4)])
  have "seg_offset (s\<lparr>vm_stack := st\<rparr>) (word_of_nat off) = off" using seg_offset_0 [OF _ assms(4)] assms(3) by simp
  then show "wp (exec_simple OpStData (word_of_nat off) (pcof cg) (pcof (emit_simple OpStData off cg)))
      (\<lambda>c s'. \<exists>pc'. c = Goto pc' \<and> runs now pc' s' Q) overflowed s"
    using assms(5-7) by (simp add: exec_simple_def wp_simps)
qed simp

lemma runs_st_retain:
  assumes "cg_wf cg" "placed X (emit_simple OpStRetain off cg)" "live X s" "off < 0x1000000" "vm_stack s = v # st"
    "seg_store (vm_retain s) off v (pcof cg) = Inr d"
    "runs now (pcof (emit_simple OpStRetain off cg)) (s\<lparr>vm_retain := d, vm_retain_dirty := True, vm_stack := st\<rparr>) Q"
  shows "runs now (pcof cg) s Q"
proof (rule runs_simple [OF assms(1-4)])
  have "seg_offset (s\<lparr>vm_stack := st\<rparr>) (word_of_nat off) = off" using seg_offset_0 [OF _ assms(4)] assms(3) by simp
  then show "wp (exec_simple OpStRetain (word_of_nat off) (pcof cg) (pcof (emit_simple OpStRetain off cg)))
      (\<lambda>c s'. \<exists>pc'. c = Goto pc' \<and> runs now pc' s' Q) overflowed s"
    using assms(5-7) by (simp add: exec_simple_def wp_simps)
qed simp

lemma runs_st_q:
  assumes "cg_wf cg" "placed X (emit_simple OpStQ i cg)" "live X s" "vm_stack s = v # st"
    "slot_set (vm_outputs s) i v 0 = Inr im"
    "runs now (pcof (emit_simple OpStQ i cg)) (s\<lparr>vm_outputs := im, vm_stack := st\<rparr>) Q"
  shows "runs now (pcof cg) s Q"
proof (rule runs_simple [OF assms(1-3)])
  show i: "i < 0x1000000" using assms(3,5) by (auto simp: live_def slot_set_def split: if_splits)
  have "slot_set (vm_outputs s) i v pc = Inr im" for pc using assms(5) by (simp add: slot_set_def split: if_splits)
  then show "wp (exec_simple OpStQ (word_of_nat i) (pcof cg) (pcof (emit_simple OpStQ i cg)))
      (\<lambda>c s'. \<exists>pc'. c = Goto pc' \<and> runs now pc' s' Q) overflowed s"
    using assms(4,6) i by (simp add: exec_simple_def wp_simps unat_payload)
qed simp

lemma runs_load:
  assumes "pushes now (Simple op (word_of_nat n)) s v" "cg_wf cg" "placed X (emit_simple op n cg)" "live X s"
    "runs now (pcof (emit_simple op n cg)) (s\<lparr>vm_stack := v # vm_stack s\<rparr>) Q"
  shows "runs now (pcof cg) s Q"
  using assms unfolding emit_simple_def by (rule runs_pushes)

lemma runs_dint:
  assumes "cg_wf cg" "placed X (push_dint d cg)" "live X s"
    "runs now (pcof (push_dint d cg)) (s\<lparr>vm_stack := VDint d # vm_stack s\<rparr>) Q"
  shows "runs now (pcof cg) s Q"
  using pushes_literal(2) assms unfolding push_dint_def by (rule runs_pushes)

text \<open>Jumps.\<close>

lemma step_jmp:
  assumes "op \<in> {OpJmp, OpJmpIf, OpJmpIfNot}" "cg_wf cg" "placed X (emit_jmp op l cg)" "placed X (place_label l c2)" "live X s"
  obtains t where "unat t = pcof c2" "vm_step now (pcof cg) s = exec_simple op t (pcof cg) (pcof (emit_jmp op l cg)) s"
proof -
  have lab: "lk_labels X l = Some (word_of_nat (pcof c2))" "unat (word_of_nat (pcof c2) AND 0x00FFFFFF :: u32) = pcof c2"
    using assms(4) linked_label by (auto simp: placed_def)
  have "op \<notin> {OpPushIDint, OpPushIReal, OpPushTime, OpCallFb}" "linked (lk_labels X) (lk_code X) (emit_jmp op l cg)"
    using assms(1,3) by (auto simp: placed_def)
  from decode_jmp [OF this(1) assms(2) this(2)]
  have d: "decode_instruction (lk_code X) (pcof cg) = Inr (Simple op (word_of_nat (pcof c2) AND 0x00FFFFFF), 4)"
    using lab(1) by (metis option.inject)
  have n: "pcof cg + 4 = pcof (emit_jmp op l cg)" by (simp add: emit_jmp_code)
  show thesis
    by (rule that [OF lab(2)]) (use assms(5) d n in \<open>simp add: vm_step_def live_def exec_instr_def\<close>)
qed

lemma runs_jmp:
  assumes "cg_wf cg" "placed X (emit_jmp OpJmp l cg)" "placed X (place_label l c2)" "live X s" "runs now (pcof c2) s Q"
  shows "runs now (pcof cg) s Q"
proof -
  obtain t where "unat t = pcof c2" "vm_step now (pcof cg) s = exec_simple OpJmp t (pcof cg) (pcof (emit_jmp OpJmp l cg)) s"
    using step_jmp [of OpJmp, OF _ assms(1-4)] by auto
  then show ?thesis using assms(5) by (intro runs_step) (simp add: wp_def exec_simple_def vret_def)
qed

lemma runs_branch:
  assumes "cg_wf cg" "placed X (emit_jmp op l cg)" "placed X (place_label l c2)" "live X s" "op \<in> {OpJmpIf, OpJmpIfNot}"
    "vm_stack s = VBool b # st"
    "b = (op = OpJmpIf) \<Longrightarrow> runs now (pcof c2) (s\<lparr>vm_stack := st\<rparr>) Q"
    "b \<noteq> (op = OpJmpIf) \<Longrightarrow> runs now (pcof (emit_jmp op l cg)) (s\<lparr>vm_stack := st\<rparr>) Q"
  shows "runs now (pcof cg) s Q"
proof -
  obtain t where t: "unat t = pcof c2" "vm_step now (pcof cg) s = exec_simple op t (pcof cg) (pcof (emit_jmp op l cg)) s"
    using step_jmp [OF _ assms(1-4)] assms(5) by blast
  have "wp (exec_simple op t (pcof cg) (pcof (emit_jmp op l cg))) (\<lambda>c s'. \<exists>pc'. c = Goto pc' \<and> runs now pc' s' Q) overflowed s"
    using assms(5-8) t(1) by (auto simp: exec_simple_def wp_simps)
  then show ?thesis by (intro runs_step) (simp add: wp_def t(2))
qed

text \<open>Operators. Their results do not depend on the program counter, which only occurs in errors.\<close>

lemma op_pc:
  "unary_op op a 0 = Inr r \<Longrightarrow> unary_op op a pc = Inr r"
  "logic_op op a b 0 = Inr r \<Longrightarrow> logic_op op a b pc = Inr r"
  "cmp_op op a b 0 = Inr r \<Longrightarrow> cmp_op op a b pc = Inr r"
  by (auto simp: unary_op_def logic_op_def cmp_op_def rbind_eq_Inr ok_or_eq_Inr split: vm_value.splits if_splits)

lemma arith_op_pc: "arith_op op a b 0 = Inr r \<Longrightarrow> arith_op op a b pc = Inr r"
  by (auto simp: arith_op_def real_arith_def rbind_eq_Inr split: vm_value.splits if_splits)

lemma to_option_Some [simp]: "to_option r = Some x \<longleftrightarrow> r = Inr x"
  by (cases r) (auto simp: to_option_def)

lemma eval_strict_binop:
  assumes "eval_strict op a b = Some r"
  shows "\<exists>n. binop (binary_opcode op) a b pc s = (s\<lparr>vm_div0_count := n\<rparr>, Inr r)"
    "op \<notin> {BMod, BAnd, BOr}"
proof -
  show o: "op \<notin> {BMod, BAnd, BOr}" using assms by (auto simp: eval_strict_def)
  consider "op = BXor" | "op \<in> {BEq, BNe}" | "op \<in> {BLt, BLe, BGt, BGe}" | "op \<in> {BAdd, BSub, BMul, BDiv}"
    using o by (cases op) auto
  then show "\<exists>n. binop (binary_opcode op) a b pc s = (s\<lparr>vm_div0_count := n\<rparr>, Inr r)"
  proof cases
    case 1
    then have "logic_op OpXor a b 0 = Inr r" using assms by (simp add: eval_strict_def)
    then have "logic_op OpXor a b pc = Inr r" by (rule op_pc)
    then show ?thesis using 1 by (intro exI [of _ "vm_div0_count s"]) (simp add: binop_def vlift_def)
  next
    case 2
    then show ?thesis using assms
      by (intro exI [of _ "vm_div0_count s"]) (auto simp: eval_strict_def binop_def vret_def)
  next
    case 3
    then have "cmp_op (binary_opcode op) a b 0 = Inr r" using assms by (auto simp: eval_strict_def is_comparison_def)
    then have "cmp_op (binary_opcode op) a b pc = Inr r" by (rule op_pc)
    then show ?thesis using 3 by (intro exI [of _ "vm_div0_count s"]) (auto simp: binop_def vlift_def)
  next
    case 4
    then have "map_option fst (to_option (arith_op (binary_opcode op) a b 0)) = Some r"
      using assms by (auto simp: eval_strict_def is_comparison_def)
    then obtain z where "arith_op (binary_opcode op) a b 0 = Inr (r, z)" by auto
    then have "arith_op (binary_opcode op) a b pc = Inr (r, z)" by (rule arith_op_pc)
    then show ?thesis using 4
      by (intro exI [of _ "if z then vm_div0_count s + 1 else vm_div0_count s"])
        (cases op; simp add: binop_def vlift_def vbind_def vupd_def vret_def)
  qed
qed

lemma runs_binop:
  assumes "cg_wf cg" "placed X (emit_simple (binary_opcode op) 0 cg)" "live X s" "eval_strict op a b = Some r"
    "vm_stack s = b # a # st"
    "\<And>n. runs now (pcof (emit_simple (binary_opcode op) 0 cg)) (s\<lparr>vm_div0_count := n, vm_stack := r # st\<rparr>) Q"
  shows "runs now (pcof cg) s Q"
proof (rule runs_simple [OF assms(1-3)])
  obtain n where n: "binop (binary_opcode op) a b (pcof cg) (s\<lparr>vm_stack := st\<rparr>) = (s\<lparr>vm_stack := st, vm_div0_count := n\<rparr>, Inr r)"
    using eval_strict_binop(1) [OF assms(4)] by fastforce
  have o: "op \<notin> {BMod, BAnd, BOr}" by (rule eval_strict_binop [OF assms(4)])
  then show "binary_opcode op \<notin> {OpPushIDint, OpPushIReal, OpPushTime, OpCallFb}" by (cases op) simp_all
  let ?P = "\<lambda>c s'. \<exists>pc'. c = Goto pc' \<and> runs now pc' s' Q"
  have "exec_simple (binary_opcode op) (word_of_nat 0) (pcof cg) npc = vnext npc (vbind (vpop_value (pcof cg)) (\<lambda>b.
      vbind (vpop_value (pcof cg)) (\<lambda>a. vbind (binop (binary_opcode op) a b (pcof cg)) (\<lambda>r. vpush_value r (pcof cg)))))" for npc
    using o by (cases op) (simp_all add: exec_simple_def)
  moreover have "wp (binop (binary_opcode op) a b (pcof cg)) R overflowed (s\<lparr>vm_stack := st\<rparr>)
      = R r (s\<lparr>vm_stack := st, vm_div0_count := n\<rparr>)" for R
    using n by (simp add: wp_def)
  ultimately show "wp (exec_simple (binary_opcode op) (word_of_nat 0) (pcof cg) (pcof (emit_simple (binary_opcode op) 0 cg))) ?P overflowed s"
    using assms(5,6) by (simp add: wp_simps)
qed simp

end
