(* ===== verification/CodeGenExpr.thy ===== *)
theory CodeGenExpr
  imports CodeGenSim
begin

section \<open>Expressions, assignments and calls on the machine\<close>

text \<open>
  Generated code against the source semantics: the code of an expression pushes its value, the code
  of an assignment stores it, and the code of a call of a primitive block performs the call. Each
  leaves the temporaries allocated before it alone. The value of an expression fits its static type,
  which is what makes the temporaries wide enough.
\<close>

lemma between:
  assumes "cg_wf cg" "grows cg c" "grows c cg'" "placed X cg'"
  shows "cg_wf c" "placed X c"
  using assms grow_wf placed_back by blast+

subsection \<open>Static types\<close>

lemma fits_bool [simp]: "fits (VBool b) t"
  using byte_width_pos [of t] by (simp add: fits_def Suc_leI)

lemma arith_type: "arith_op op a b pc = Inr (r, z) \<Longrightarrow> value_ir_type r \<in> {value_ir_type a, value_ir_type b}"
  by (cases a; cases b) (auto simp: arith_op_def rbind_eq_Inr split: if_splits)

lemma logic_type: "logic_op op a b pc = Inr r \<Longrightarrow> value_ir_type r = value_ir_type a"
  by (cases a; cases b) (auto simp: logic_op_def)

lemma cmp_type: "cmp_op op a b pc = Inr r \<Longrightarrow> \<exists>p. r = VBool p"
  by (auto simp: cmp_op_def rbind_eq_Inr split: vm_value.splits)

lemma eval_strict_fits:
  assumes "eval_strict op a b = Some r" "fits a lt" "fits b rt" "needs_same_type op \<longrightarrow> lt = rt"
  shows "fits r (if is_comparison op then TBool else lt)"
proof -
  have o: "op \<notin> {BMod, BAnd, BOr}" by (rule eval_strict_binop [OF assms(1)])
  consider "op = BXor" | "op \<in> {BEq, BNe}" | "op \<in> {BLt, BLe, BGt, BGe}" | "op \<in> {BAdd, BSub, BMul, BDiv}"
    using o by (cases op) auto
  then show ?thesis
  proof cases
    case 1
    then have "logic_op OpXor a b 0 = Inr r" using assms(1) by (simp add: eval_strict_def)
    then show ?thesis using logic_type assms(2) 1 by (auto simp: fits_def is_comparison_def)
  next
    case 2
    then show ?thesis using assms(1) by (auto simp: eval_strict_def)
  next
    case 3
    then have "cmp_op (binary_opcode op) a b 0 = Inr r" using assms(1) by (auto simp: eval_strict_def is_comparison_def)
    then show ?thesis using cmp_type by fastforce
  next
    case 4
    then have "map_option fst (to_option (arith_op (binary_opcode op) a b 0)) = Some r"
      using assms(1) by (auto simp: eval_strict_def is_comparison_def)
    then obtain z where "arith_op (binary_opcode op) a b 0 = Inr (r, z)" by auto
    moreover have "lt = rt" "\<not> is_comparison op" using 4 assms(4) by (auto simp: needs_same_type_def is_comparison_def)
    ultimately show ?thesis using arith_type assms(2,3) by (fastforce simp: fits_def)
  qed
qed

lemma unary_type: "unary_op op a pc = Inr r \<Longrightarrow> value_ir_type r = value_ir_type a"
  by (cases a) (auto simp: unary_op_def split: if_splits)

subsection \<open>Loads\<close>

lemma lookup_env:
  assumes "lookup_sym root cg = Inr y" "cg_wf cg" "globals_env (cg_globals cg) root = Some st"
  shows "sy_storage y = st" "y \<in> snd ` set (cg_globals cg)"
proof -
  let ?k = "to_ascii_lowercase root"
  obtain y' where g: "map_of (cg_globals cg) ?k = Some y'" "sy_storage y' = st"
    using assms(3) by (auto simp: globals_env_def)
  have "?k \<notin> fst ` set (cg_locals cg)" using assms(2) g(1) by (auto simp: cg_wf_def code_wf_def)
  then have "map_of (cg_locals cg) ?k = None" by (simp add: map_of_eq_None_iff)
  then have y: "y = y'" using assms(1) g(1) by (simp add: lookup_sym_def Let_def)
  show "sy_storage y = st" using g(2) y by simp
  show "y \<in> snd ` set (cg_globals cg)" using map_of_SomeD [OF g(1)] y by force
qed

lemma rep_data_cell:
  assumes "rep X \<sigma> s" "ctx_ok X" "(off, t) \<in> data_cells (lk_globals X)"
  shows "seg_load (vm_data s) off 0 = Inr (ss_data \<sigma> off)" "fits (ss_data \<sigma> off) t" "off < 0x1000000"
    "off + byte_width t \<le> seg_len (vm_data s)"
proof -
  show "seg_load (vm_data s) off 0 = Inr (ss_data \<sigma> off)" "fits (ss_data \<sigma> off) t" using assms by (auto simp: rep_def)
  have "off + byte_width t \<le> lk_data X" "lk_data X \<le> 0x1000000"
    using data_cell_end [OF assms(3)] assms(2) by (simp_all add: ctx_ok_def)
  then show "off < 0x1000000" "off + byte_width t \<le> seg_len (vm_data s)"
    using byte_width_pos [of t] rep_live [OF assms(1)] by (linarith, simp add: live_def)
qed

lemma rep_retain_cell:
  assumes "rep X \<sigma> s" "ctx_ok X" "(off, t) \<in> retain_cells (lk_globals X)"
  shows "seg_load (vm_retain s) off 0 = Inr (ss_retain \<sigma> off)" "fits (ss_retain \<sigma> off) t" "off < 0x1000000"
    "off + byte_width t \<le> seg_len (vm_retain s)"
proof -
  show "seg_load (vm_retain s) off 0 = Inr (ss_retain \<sigma> off)" "fits (ss_retain \<sigma> off) t" using assms by (auto simp: rep_def)
  have "off + byte_width t \<le> lk_retain X" "lk_retain X \<le> 0x1000000" using assms(2,3) by (auto simp: ctx_ok_def)
  then show "off < 0x1000000" "off + byte_width t \<le> seg_len (vm_retain s)"
    using byte_width_pos [of t] rep_live [OF assms(1)] by (linarith, simp add: live_def)
qed

lemma cells_of_symbol:
  "y \<in> snd ` set G \<Longrightarrow> sy_storage y = StData off (TElem t) \<Longrightarrow> (off, t) \<in> data_cells G"
  "y \<in> snd ` set G \<Longrightarrow> sy_storage y = StPrim p i outs \<Longrightarrow> (n, off, t) \<in> set outs \<Longrightarrow> (off, t) \<in> data_cells G"
  "y \<in> snd ` set G \<Longrightarrow> sy_storage y = StRetain off t \<Longrightarrow> (off, t) \<in> retain_cells G"
  unfolding data_cells_def retain_cells_def by force+

lemma find_out_mem: "find_out outs f = Some (n, off, t) \<Longrightarrow> (n, off, t) \<in> set outs"
  by (auto simp: find_out_def find_Some_iff in_set_conv_nth)

lemma emit_literal_pushes:
  obtains i where "emit_literal v cg = (emit i cg, value_ir_type (literal_value v))" "pushes now i s (literal_value v)"
proof (cases v)
  case (LBool b)
  then show thesis
    by (intro that [of "Simple OpPushIBool (word_of_nat (if b then 1 else 0))"])
      (simp_all only: emit_literal_def literal.case emit_simple_def literal_value.simps value_ir_type.simps pushes_literal)
qed (use that pushes_literal in \<open>fastforce simp: emit_literal_def\<close>)+

lemma load_root_pushes:
  assumes "emit_load_root root st cg = Inr (cg', t)" "read_root \<sigma> st = Some v" "rep X \<sigma> s" "ctx_ok X"
    "\<And>off t. st = StData off (TElem t) \<Longrightarrow> (off, t) \<in> data_cells (lk_globals X)"
    "\<And>off t. st = StRetain off t \<Longrightarrow> (off, t) \<in> retain_cells (lk_globals X)"
  obtains i where "cg' = emit i cg" "pushes now i s v" "fits v t"
proof (cases st)
  case (StInput slot ty)
  then have v: "nth_opt (si_values (vm_inputs s)) (unat slot) = Some v" "fits v ty"
    using assms(2,3) by (auto simp: read_root_def if_fits_def rep_def split: option.splits if_splits)
  show thesis
  proof (rule that)
    show "cg' = emit (Simple OpLdI (word_of_nat (unat slot))) cg" "fits v t"
      using assms(1) StInput v(2) by (auto simp: emit_load_root_def emit_simple_def)
    show "pushes now (Simple OpLdI (word_of_nat (unat slot))) s v" by (rule pushes_slot(1) [OF rep_live [OF assms(3)] v(1)])
  qed
next
  case (StOutput slot ty)
  then have v: "nth_opt (si_values (vm_outputs s)) (unat slot) = Some v" "fits v ty"
    using assms(2,3) by (auto simp: read_root_def if_fits_def rep_def split: option.splits if_splits)
  show thesis
  proof (rule that)
    show "cg' = emit (Simple OpLdQ (word_of_nat (unat slot))) cg" "fits v t"
      using assms(1) StOutput v(2) by (auto simp: emit_load_root_def emit_simple_def)
    show "pushes now (Simple OpLdQ (word_of_nat (unat slot))) s v" by (rule pushes_slot(2) [OF rep_live [OF assms(3)] v(1)])
  qed
next
  case (StData off td)
  then obtain ty where ty: "td = TElem ty" using assms(2) by (auto simp: read_root_def split: type_def.splits)
  note c = rep_data_cell [OF assms(3,4) assms(5) [OF StData [unfolded ty]]]
  show thesis
  proof (rule that)
    show "cg' = emit (Simple OpLdData (word_of_nat off)) cg" "fits v t"
      using assms(1,2) StData ty c(2) by (auto simp: emit_load_root_def emit_simple_def read_root_def)
    show "pushes now (Simple OpLdData (word_of_nat off)) s v"
      using pushes_data [OF rep_live [OF assms(3)] c(1,3)] assms(2) StData ty by (simp add: read_root_def)
  qed
next
  case (StRetain off ty)
  note c = rep_retain_cell [OF assms(3,4) assms(6) [OF StRetain]]
  show thesis
  proof (rule that)
    show "cg' = emit (Simple OpLdRetain (word_of_nat off)) cg" "fits v t"
      using assms(1,2) StRetain c(2) by (auto simp: emit_load_root_def emit_simple_def read_root_def)
    show "pushes now (Simple OpLdRetain (word_of_nat off)) s v"
      using pushes_retain [OF rep_live [OF assms(3)] c(1,3)] assms(2) StRetain by (simp add: read_root_def)
  qed
next
  case (StConst ty lit)
  obtain i where i: "emit_literal lit cg = (emit i cg, value_ir_type (literal_value lit))" "pushes now i s (literal_value lit)"
    by (rule emit_literal_pushes)
  then show thesis using that assms(1,2) StConst by (auto simp: emit_load_root_def read_root_def fits_def)
qed (use assms(2) in \<open>simp_all add: read_root_def\<close>)

lemma load_path_pushes:
  assumes "emit_load_path path cg = Inr (cg', t)" "read_path (globals_env (lk_globals X)) \<sigma> path = Some v"
    "cg_wf cg" "cg_globals cg = lk_globals X" "rep X \<sigma> s" "ctx_ok X"
  obtains i where "cg' = emit i cg" "pushes now i s v" "fits v t"
proof -
  obtain root rest y where p: "path_parts path = Inr (root, rest)" and y: "lookup_sym root cg = Inr y"
    and e: "(case rest of
        [] \<Rightarrow> emit_load_root root (sy_storage y) cg
      | PIdent f # _ \<Rightarrow> field_access OpLdData OpLdRetain ''bad field load'' (sy_storage y) f cg
      | PIndex idx # _ \<Rightarrow> emit_load_index (sy_storage y) idx cg) = Inr (cg', t)"
    by (rule emit_load_obtain [OF assms(1)])
  have path: "path = PIdent root # rest" using p by (auto simp: path_parts_def split: list.splits path_seg.splits)
  obtain st where st: "globals_env (lk_globals X) root = Some st" using assms(2) path by (auto simp: read_path_def split: option.splits)
  then have sy: "sy_storage y = st" "y \<in> snd ` set (lk_globals X)" using lookup_env [OF y assms(3)] assms(4) by auto
  show thesis
  proof (cases rest)
    case Nil
    have "emit_load_root root st cg = Inr (cg', t)" "read_root \<sigma> st = Some v"
      using e assms(2) Nil sy(1) st path by (simp_all add: read_path_def)
    then show thesis
    proof (rule load_root_pushes [OF _ _ assms(5,6)])
      show "(off, t) \<in> data_cells (lk_globals X)" if "st = StData off (TElem t)" for off t
        using cells_of_symbol(1) [OF sy(2)] sy(1) that by simp
      show "(off, t) \<in> retain_cells (lk_globals X)" if "st = StRetain off t" for off t
        using cells_of_symbol(3) [OF sy(2)] sy(1) that by simp
    qed (rule that)
  next
    case (Cons a as)
    show thesis
    proof (cases a)
      case (PIdent f)
      then have r: "(case st of StPrim _ _ outs \<Rightarrow> map_option (\<lambda>(_, off, _). ss_data \<sigma> off) (find_out outs f) | _ \<Rightarrow> None) = Some v"
        using assms(2) Cons st path by (simp add: read_path_def)
      then obtain p i outs where sp: "st = StPrim p i outs" by (cases st) simp_all
      then obtain n off ty where o: "find_out outs f = Some (n, off, ty)" "v = ss_data \<sigma> off" using r by auto
      have c: "(off, ty) \<in> data_cells (lk_globals X)" using cells_of_symbol(2) [OF sy(2)] sy(1) sp find_out_mem [OF o(1)] by blast
      note d = rep_data_cell [OF assms(5,6) c]
      show thesis
      proof (rule that)
        show "cg' = emit (Simple OpLdData (word_of_nat off)) cg" "fits v t"
          using e Cons PIdent sy(1) sp o d(2) by (auto simp: field_access_def emit_simple_def)
        show "pushes now (Simple OpLdData (word_of_nat off)) s v"
          using pushes_data [OF rep_live [OF assms(5)] d(1,3)] o(2) by simp
      qed
    qed (use assms(2) Cons st path in \<open>simp add: read_path_def\<close>)
  qed
qed

subsection \<open>Expressions\<close>

definition pushed :: "link_ctx \<Rightarrow> codegen \<Rightarrow> codegen \<Rightarrow> src \<Rightarrow> vm_value \<Rightarrow> vm \<Rightarrow> nat \<Rightarrow> vm \<Rightarrow> bool" where
  "pushed X cg cg' \<sigma> v s pc' s' \<longleftrightarrow> pc' = pcof cg' \<and> vm_stack s' = v # vm_stack s \<and> rep X \<sigma> s'
     \<and> spares X (cg_extra_data cg) s s'"

lemma runs_pushed:
  assumes "pushes now i s v" "cg_wf cg" "placed X (emit i cg)" "rep X \<sigma> s"
  shows "runs now (pcof cg) s (pushed X cg (emit i cg) \<sigma> v s)"
  by (rule runs_pushes [OF assms(1-3) rep_live [OF assms(4)]], rule runs_refl) (use assms(4) in \<open>simp add: pushed_def\<close>)

text \<open>The test of a short-circuit operator keeps the left value in a temporary and branches on it.\<close>

lemma sc_test_runs:
  assumes "cg_wf c1" "placed X (sc_test op c1)" "placed X (place_label (fst (sc_label op c1)) c3)" "rep X \<sigma> s"
    "vm_stack s = VBool p # st" "op \<in> {BAnd, BOr}"
    "\<And>s'. rep X \<sigma> s' \<Longrightarrow> vm_stack s' = st \<Longrightarrow> spares X (cg_extra_data c1) s s' \<Longrightarrow> p = (op = BOr) \<Longrightarrow> runs now (pcof c3) s' Q"
    "\<And>s'. rep X \<sigma> s' \<Longrightarrow> vm_stack s' = st \<Longrightarrow> spares X (cg_extra_data c1) s s' \<Longrightarrow> p \<noteq> (op = BOr) \<Longrightarrow> runs now (pcof (sc_test op c1)) s' Q"
    "ctx_ok X"
  shows "runs now (pcof c1) s Q"
proof -
  let ?l = "sc_label op c1"
  let ?k = "alloc_temp TBool (snd ?l)"
  let ?a = "emit_simple OpStData (fst ?k) (snd ?k)"
  let ?b = "emit_simple OpLdData (fst ?k) ?a"
  let ?j = "if op = BAnd then OpJmpIfNot else OpJmpIf"
  have t: "sc_test op c1 = emit_jmp ?j (fst ?l) ?b" by (simp add: sc_test_def Let_def case_prod_beta)
  have g: "grows c1 (snd ?k)" "grows (snd ?k) ?a" "grows ?a ?b" "grows ?b (sc_test op c1)"
    unfolding t sc_label_def by (intro grow_intros)+
  have g2: "grows ?a (sc_test op c1)" "grows (snd ?k) (sc_test op c1)" using g grow_trans by blast+
  have g3: "grows c1 ?a" "grows c1 ?b" using g grow_trans by blast+
  have wf: "cg_wf (snd ?k)" "cg_wf ?a" "cg_wf ?b" using g(1) g3 assms(1) grow_wf by blast+
  have pl: "placed X (snd ?k)" "placed X ?a" "placed X ?b" using g(4) g2 wf assms(2) placed_back by blast+
  note k = alloc_temp_bounds [OF pl(1)]
  have o: "fst ?k < 0x1000000" using k(4) assms(9) by (auto simp: ctx_ok_def)
  have l: "live X s" by (rule rep_live [OF assms(4)])
  obtain d where d: "seg_store (vm_data s) (fst ?k) (VBool p) (pcof c1) = Inr d"
    by (rule seg_store_fits [of "fst ?k" TBool "vm_data s" "VBool p"]) (use k(4) l in \<open>simp_all add: live_def\<close>)
  let ?s = "s\<lparr>vm_data := d, vm_stack := st\<rparr>"
  have r: "rep X \<sigma> ?s" "spares X (fst ?k) s ?s"
    using rep_store_temp [OF assms(4) k(1) d] by simp_all
  have sp: "spares X (cg_extra_data c1) s ?s" using r(2) k(2) by (auto simp: spares_def sc_label_def)
  have e: "cg_code (snd ?k) = cg_code c1" by (simp add: sc_label_def)
  have "runs now (pcof ?a) ?s Q"
  proof (rule runs_load)
    have "seg_load d (fst ?k) 0 = Inr (VBool p)" using seg_store_load d l by (auto simp: live_def)
    then show "pushes now (Simple OpLdData (word_of_nat (fst ?k))) ?s (VBool p)"
      using pushes_data [OF rep_live [OF r(1)]] o by simp
    show "runs now (pcof ?b) (?s\<lparr>vm_stack := VBool p # vm_stack ?s\<rparr>) Q"
    proof (rule runs_branch [OF wf(3) _ assms(3)])
      show "placed X (emit_jmp ?j (fst ?l) ?b)" using assms(2) t by simp
      show "runs now (pcof c3) (?s\<lparr>vm_stack := VBool p # vm_stack ?s, vm_stack := st\<rparr>) Q" if "p = (?j = OpJmpIf)"
        using assms(6,7) r(1) sp that by auto
      show "runs now (pcof (emit_jmp ?j (fst ?l) ?b)) (?s\<lparr>vm_stack := VBool p # vm_stack ?s, vm_stack := st\<rparr>) Q" if "p \<noteq> (?j = OpJmpIf)"
        unfolding t [symmetric] using assms(6,8) r(1) sp that by auto
    qed (use rep_live [OF r(1)] in auto)
  qed (use wf pl rep_live [OF r(1)] in auto)
  then show ?thesis using runs_st_data [OF wf(1) pl(2) l o assms(5)] d unfolding e by blast
qed

lemma runs_unary:
  assumes "cg_wf cg" "placed X (emit_simple op 0 cg)" "live X s" "op \<in> {OpNot, OpNeg}" "vm_stack s = a # st"
    "unary_op op a 0 = Inr r" "runs now (pcof (emit_simple op 0 cg)) (s\<lparr>vm_stack := r # st\<rparr>) Q"
  shows "runs now (pcof cg) s Q"
proof (rule runs_simple [OF assms(1-3)])
  have "unary_op op a pc = Inr r" for pc using assms(6) by (rule op_pc)
  then show "wp (exec_simple op (word_of_nat 0) (pcof cg) (pcof (emit_simple op 0 cg)))
      (\<lambda>c s'. \<exists>pc'. c = Goto pc' \<and> runs now pc' s' Q) overflowed s"
    using assms(4,5,7) by (auto simp: exec_simple_def wp_simps)
qed (use assms(4) in auto)

lemma eval_unary_op:
  assumes "eval_unary op a = Some r"
  shows "unary_op (case op of UNot \<Rightarrow> OpNot | UNeg \<Rightarrow> OpNeg) a 0 = Inr r" "op = UNot \<Longrightarrow> \<exists>b. r = VBool b"
  using assms by (auto simp: eval_unary_def unary_op_def split: unary_operator.splits vm_value.splits)

lemma emit_unary_obtain:
  assumes "emit_expr ord (Unary op e sp) cg = Inr (cg', t)"
  obtains c1 t1 where "emit_expr ord e cg = Inr (c1, t1)" "cg' = emit_simple (case op of UNot \<Rightarrow> OpNot | UNeg \<Rightarrow> OpNeg) 0 c1"
    "t = (case op of UNot \<Rightarrow> TBool | UNeg \<Rightarrow> t1)"
  using assms by (cases op) (auto simp: rbind_eq_Inr)

lemma pushedD:
  assumes "pushed X cg cg' \<sigma> v s pc' s'"
  shows "pc' = pcof cg'" "vm_stack s' = v # vm_stack s" "rep X \<sigma> s'" "live X s'" "spares X (cg_extra_data cg) s s'"
  using assms rep_live by (auto simp: pushed_def)

text \<open>The code of \<open>e\<close> pushes the value of \<open>e\<close>.\<close>

definition expr_ok :: "link_ctx \<Rightarrow> (string list \<Rightarrow> string list) \<Rightarrow> u64 \<Rightarrow> expr \<Rightarrow> bool" where
  "expr_ok X ord now e \<longleftrightarrow> (\<forall>cg cg' t \<sigma> s v.
     emit_expr ord e cg = Inr (cg', t) \<longrightarrow> cg_wf cg \<longrightarrow> placed X cg' \<longrightarrow> rep X \<sigma> s
       \<longrightarrow> eval (globals_env (lk_globals X)) \<sigma> e = Some v \<longrightarrow> fits v t \<and> runs now (pcof cg) s (pushed X cg cg' \<sigma> v s))"

lemma expr_okD:
  assumes "expr_ok X ord now e" "emit_expr ord e cg = Inr (cg', t)" "cg_wf cg" "placed X cg'" "rep X \<sigma> s"
    "eval (globals_env (lk_globals X)) \<sigma> e = Some v"
  shows "fits v t" "runs now (pcof cg) s (pushed X cg cg' \<sigma> v s)"
  using assms by (simp_all add: expr_ok_def)

lemma expr_globals:
  assumes "emit_expr ord e cg = Inr (cg', t)" "placed X cg'"
  shows "grows cg cg'" "cg_globals cg = lk_globals X"
proof -
  show g: "grows cg cg'" using emit_expr_ext [OF assms(1)] ext_grow by fastforce
  show "cg_globals cg = lk_globals X" using grow_keeps(1) [OF g] assms(2) by (simp add: placed_def)
qed

lemma expr_ok_literal: "expr_ok X ord now (Literal lit sp)"
  unfolding expr_ok_def
proof (intro allI impI)
  fix cg cg' t \<sigma> s v
  assume h: "emit_expr ord (Literal lit sp) cg = Inr (cg', t)" "cg_wf cg" "placed X cg'" "rep X \<sigma> s"
    "eval (globals_env (lk_globals X)) \<sigma> (Literal lit sp) = Some v"
  obtain i where i: "emit_literal lit cg = (emit i cg, value_ir_type (literal_value lit))" "pushes now i s (literal_value lit)"
    by (rule emit_literal_pushes)
  then have "cg' = emit i cg" "t = value_ir_type v" "v = literal_value lit" using h(1,5) by auto
  then show "fits v t \<and> runs now (pcof cg) s (pushed X cg cg' \<sigma> v s)"
    using runs_pushed [OF i(2) h(2) _ h(4)] h(3) by (simp add: fits_def)
qed

lemma expr_ok_name:
  assumes "ctx_ok X"
  shows "expr_ok X ord now (Name path sp)"
  unfolding expr_ok_def
proof (intro allI impI)
  fix cg cg' t \<sigma> s v
  assume h: "emit_expr ord (Name path sp) cg = Inr (cg', t)" "cg_wf cg" "placed X cg'" "rep X \<sigma> s"
    "eval (globals_env (lk_globals X)) \<sigma> (Name path sp) = Some v"
  have "emit_load_path path cg = Inr (cg', t)" "read_path (globals_env (lk_globals X)) \<sigma> path = Some v"
    using h(1,5) by simp_all
  then obtain i where "cg' = emit i cg" "pushes now i s v" "fits v t"
    by (rule load_path_pushes [OF _ _ h(2) expr_globals(2) [OF h(1,3)] h(4) assms])
  then show "fits v t \<and> runs now (pcof cg) s (pushed X cg cg' \<sigma> v s)" using runs_pushed h(2-4) by blast
qed

lemma expr_ok_qgood: "expr_ok X ord now (QGood x sp)"
  unfolding expr_ok_def
proof (intro allI impI)
  fix cg cg' t \<sigma> s v
  assume h: "emit_expr ord (QGood x sp) cg = Inr (cg', t)" "cg_wf cg" "placed X cg'" "rep X \<sigma> s"
    "eval (globals_env (lk_globals X)) \<sigma> (QGood x sp) = Some v"
  obtain path sp' root rest y slot ty where q: "x = Name path sp'" "path_parts path = Inr (root, rest)"
    "lookup_sym root cg = Inr y" "sy_storage y = StInput slot ty" "(cg', t) = (emit_simple OpLdIq (unat slot) cg, TBool)"
    using emit_qgood_obtain [OF h(1)] by blast
  have path: "path = PIdent root # rest" using q(2) by (auto simp: path_parts_def split: list.splits path_seg.splits)
  have ev: "(case globals_env (lk_globals X) root of
      Some (StInput slot _) \<Rightarrow> map_option VBool (nth_opt (si_quality_good (ss_inputs \<sigma>)) (unat slot)) | _ \<Rightarrow> None) = Some v"
    using h(5) q(1) path by simp
  then obtain st where st: "globals_env (lk_globals X) root = Some st" by (cases "globals_env (lk_globals X) root") simp_all
  then have "st = StInput slot ty" using lookup_env(1) [OF q(3) h(2)] expr_globals(2) [OF h(1,3)] q(4) by simp
  then obtain b where b: "nth_opt (si_quality_good (vm_inputs s)) (unat slot) = Some b" "v = VBool b"
    using ev st h(4) by (auto simp: rep_def)
  have "pushes now (Simple OpLdIq (word_of_nat (unat slot))) s v"
    unfolding b(2) by (rule pushes_slot(3) [OF rep_live [OF h(4)] b(1)])
  from runs_pushed [OF this h(2) _ h(4)] show "fits v t \<and> runs now (pcof cg) s (pushed X cg cg' \<sigma> v s)"
    using q(5) h(3) b(2) by (simp add: emit_simple_def)
qed

lemma expr_ok_unary:
  assumes "expr_ok X ord now x"
  shows "expr_ok X ord now (Unary op x sp)"
  unfolding expr_ok_def
proof (intro allI impI)
  fix cg cg' t \<sigma> s v
  assume h: "emit_expr ord (Unary op x sp) cg = Inr (cg', t)" "cg_wf cg" "placed X cg'" "rep X \<sigma> s"
    "eval (globals_env (lk_globals X)) \<sigma> (Unary op x sp) = Some v"
  let ?o = "case op of UNot \<Rightarrow> OpNot | UNeg \<Rightarrow> OpNeg"
  obtain c1 t1 where c1: "emit_expr ord x cg = Inr (c1, t1)" "cg' = emit_simple ?o 0 c1" "t = (case op of UNot \<Rightarrow> TBool | UNeg \<Rightarrow> t1)"
    by (rule emit_unary_obtain [OF h(1)])
  obtain a where a: "eval (globals_env (lk_globals X)) \<sigma> x = Some a" "eval_unary op a = Some v"
    using h(5) by (auto split: option.splits)
  have wf: "cg_wf c1" "placed X c1"
    using between [OF h(2) ext_grow [OF emit_expr_ext [OF c1(1)]] _ h(3)] by (simp_all add: c1(2) grow_intros)
  note IH = expr_okD [OF assms c1(1) h(2) wf(2) h(4) a(1)]
  note u = eval_unary_op [OF a(2)]
  have "fits v t" using IH(1) u(2) unary_type [OF u(1)] c1(3) by (cases op) (auto simp: fits_def)
  moreover have "runs now (pcof cg) s (pushed X cg cg' \<sigma> v s)"
  proof (rule runs_trans [OF IH(2)])
    fix pc' s' assume "pushed X cg c1 \<sigma> a s pc' s'"
    note p = pushedD [OF this]
    show "runs now pc' s' (pushed X cg cg' \<sigma> v s)" unfolding p(1)
    proof (rule runs_unary [OF wf(1) _ p(4) _ p(2) u(1)])
      show "placed X (emit_simple ?o 0 c1)" "?o \<in> {OpNot, OpNeg}" using h(3) c1(2) by (simp_all split: unary_operator.splits)
      show "runs now (pcof (emit_simple ?o 0 c1)) (s'\<lparr>vm_stack := v # vm_stack s\<rparr>) (pushed X cg cg' \<sigma> v s)"
        by (rule runs_refl) (use p c1(2) in \<open>simp add: pushed_def\<close>)
    qed
  qed
  ultimately show "fits v t \<and> runs now (pcof cg) s (pushed X cg cg' \<sigma> v s)" ..
qed

lemma emit_strict_parts:
  assumes "emit_expr ord (Binary op l r sp) cg = Inr (cg', t)" "\<not> (op = BAnd \<or> op = BOr)"
  obtains c1 lt c2 rt where "emit_expr ord l cg = Inr (c1, lt)" "emit_expr ord r c1 = Inr (c2, rt)"
    "needs_same_type op \<longrightarrow> lt = rt" "cg' = emit_simple (binary_opcode op) 0 c2" "t = (if is_comparison op then TBool else lt)"
  using assms(1) by (rule emit_strict_obtain [OF _ assms(2)]) (rule that, assumption+, simp_all)

lemma expr_ok_strict:
  assumes "expr_ok X ord now l" "expr_ok X ord now r" "\<not> (op = BAnd \<or> op = BOr)"
  shows "expr_ok X ord now (Binary op l r sp)"
  unfolding expr_ok_def
proof (intro allI impI)
  fix cg cg' t \<sigma> s v
  assume h: "emit_expr ord (Binary op l r sp) cg = Inr (cg', t)" "cg_wf cg" "placed X cg'" "rep X \<sigma> s"
    "eval (globals_env (lk_globals X)) \<sigma> (Binary op l r sp) = Some v"
  obtain c1 lt c2 rt where c: "emit_expr ord l cg = Inr (c1, lt)" "emit_expr ord r c1 = Inr (c2, rt)"
    "needs_same_type op \<longrightarrow> lt = rt" "cg' = emit_simple (binary_opcode op) 0 c2" "t = (if is_comparison op then TBool else lt)"
    by (rule emit_strict_parts [OF h(1) assms(3)])
  obtain a b where ab: "eval (globals_env (lk_globals X)) \<sigma> l = Some a" "eval (globals_env (lk_globals X)) \<sigma> r = Some b"
    "eval_strict op a b = Some v"
    using h(5) assms(3) by (auto split: option.splits)
  have g: "grows cg c1" "grows c1 c2" "grows c2 cg'"
    using ext_grow [OF emit_expr_ext [OF c(1)]] ext_grow [OF emit_expr_ext [OF c(2)]] by (simp_all add: c(4) grow_intros)
  have wf: "cg_wf c1" "placed X c1" "cg_wf c2" "placed X c2"
    using between [OF h(2) g(1) grow_trans [OF g(2,3)] h(3)] between [OF h(2) grow_trans [OF g(1,2)] g(3) h(3)] by auto
  note L = expr_okD [OF assms(1) c(1) h(2) wf(2) h(4) ab(1)]
  have f: "fits b rt" using expr_okD(1) [OF assms(2) c(2) wf(1,4) h(4) ab(2)] .
  have "runs now (pcof cg) s (pushed X cg cg' \<sigma> v s)"
  proof (rule runs_trans [OF L(2)])
    fix pc1 s1 assume "pushed X cg c1 \<sigma> a s pc1 s1"
    note p = pushedD [OF this]
    show "runs now pc1 s1 (pushed X cg cg' \<sigma> v s)" unfolding p(1)
    proof (rule runs_trans [OF expr_okD(2) [OF assms(2) c(2) wf(1,4) p(3) ab(2)]])
      fix pc2 s2 assume "pushed X c1 c2 \<sigma> b s1 pc2 s2"
      note q = pushedD [OF this]
      have sp: "spares X (cg_extra_data cg) s s2" using spares_trans [OF p(5) q(5)] grow_keeps(3) [OF g(1)] by simp
      show "runs now pc2 s2 (pushed X cg cg' \<sigma> v s)" unfolding q(1)
      proof (rule runs_binop [OF wf(3) _ q(4) ab(3)])
        show "placed X (emit_simple (binary_opcode op) 0 c2)" using h(3) c(4) by simp
        show "vm_stack s2 = b # a # vm_stack s" using p(2) q(2) by simp
        show "runs now (pcof (emit_simple (binary_opcode op) 0 c2)) (s2\<lparr>vm_div0_count := n, vm_stack := v # vm_stack s\<rparr>)
            (pushed X cg cg' \<sigma> v s)" for n
          by (rule runs_refl) (use q(3) sp c(4) in \<open>simp add: pushed_def\<close>)
      qed
    qed
  qed
  then show "fits v t \<and> runs now (pcof cg) s (pushed X cg cg' \<sigma> v s)"
    using eval_strict_fits [OF ab(3) L(1) f c(3)] c(5) by simp
qed

lemma emit_short_parts:
  assumes "emit_expr ord (Binary op l r sp) cg = Inr (cg', t)" "op = BAnd \<or> op = BOr"
  obtains c1 c3 rt where "emit_expr ord l (snd (fresh_label ''sc_end'' cg)) = Inr (c1, TBool)"
    "emit_expr ord r (sc_test op c1) = Inr (c3, rt)" "t = TBool"
    "cg' = place_label (fst (fresh_label ''sc_end'' cg)) (emit_simple OpPushIBool (if op = BAnd then 0 else 1)
       (place_label (fst (sc_label op c1)) (emit_jmp OpJmp (fst (fresh_label ''sc_end'' cg)) c3)))"
  using assms(1) by (rule emit_short_obtain [OF _ assms(2)]) (rule that, assumption+, simp_all)

lemma expr_ok_short:
  assumes "ctx_ok X" "expr_ok X ord now l" "expr_ok X ord now r" "op = BAnd \<or> op = BOr"
  shows "expr_ok X ord now (Binary op l r sp)"
  unfolding expr_ok_def
proof (intro allI impI)
  fix cg cg' t \<sigma> s v
  assume h: "emit_expr ord (Binary op l r sp) cg = Inr (cg', t)" "cg_wf cg" "placed X cg'" "rep X \<sigma> s"
    "eval (globals_env (lk_globals X)) \<sigma> (Binary op l r sp) = Some v"
  let ?f = "fresh_label ''sc_end'' cg"
  obtain c1 c3 rt where c: "emit_expr ord l (snd ?f) = Inr (c1, TBool)" "emit_expr ord r (sc_test op c1) = Inr (c3, rt)" "t = TBool"
    and cg': "cg' = place_label (fst ?f) (emit_simple OpPushIBool (if op = BAnd then 0 else 1)
       (place_label (fst (sc_label op c1)) (emit_jmp OpJmp (fst ?f) c3)))"
    by (rule emit_short_parts [OF h(1) assms(4)])
  let ?j = "emit_jmp OpJmp (fst ?f) c3"
  let ?k = "place_label (fst (sc_label op c1)) ?j"
  let ?p = "emit_simple OpPushIBool (if op = BAnd then 0 else 1) ?k"
  obtain p where p: "eval (globals_env (lk_globals X)) \<sigma> l = Some (VBool p)" "p = (op = BOr) \<Longrightarrow> v = VBool p"
    "p \<noteq> (op = BOr) \<Longrightarrow> (\<exists>q. eval (globals_env (lk_globals X)) \<sigma> r = Some (VBool q) \<and> v = VBool q)"
    using h(5) assms(4) by (auto split: option.splits vm_value.splits if_splits)
  have t: "grows c1 (sc_test op c1)" unfolding sc_test_def sc_label_def by (simp add: Let_def case_prod_beta grow_intros)
  have g: "grows cg c1" "grows (sc_test op c1) c3"
    using ext_grow [OF emit_expr_ext [OF c(1)]] ext_grow [OF emit_expr_ext [OF c(2)]] grow_trans [OF grow_fresh_self] by simp_all
  have k: "grows c3 ?j" "grows ?j ?k" "grows ?k ?p" "grows ?p cg'" unfolding cg' by (intro grow_intros)+
  have g': "grows cg (sc_test op c1)" "grows cg c3" "grows cg ?j" "grows cg ?k" "grows cg ?p"
    using g t k grow_trans by blast+
  have r': "grows c1 cg'" "grows (sc_test op c1) cg'" "grows c3 cg'" "grows ?j cg'" "grows ?k cg'"
    using g t k grow_trans by blast+
  note b1 = between [OF h(2) g(1) r'(1) h(3)] and b2 = between [OF h(2) g'(1) r'(2) h(3)] and b3 = between [OF h(2) g'(2) r'(3) h(3)]
    and bj = between [OF h(2) g'(3) r'(4) h(3)] and bk = between [OF h(2) g'(4) r'(5) h(3)] and bp = between [OF h(2) g'(5) k(4) h(3)]
  have wf0: "cg_wf (snd ?f)" by (rule grow_wf [OF grow_fresh_self h(2)])
  let ?Q = "pushed X cg cg' \<sigma> v s"
  have "runs now (pcof (snd ?f)) s ?Q"
  proof (rule runs_trans [OF expr_okD(2) [OF assms(2) c(1) wf0 b1(2) h(4) p(1)]])
    fix pc1 s1 assume "pushed X (snd ?f) c1 \<sigma> (VBool p) s pc1 s1"
    note q = pushedD [OF this]
    have sp: "spares X (cg_extra_data cg) s s'" if "spares X (cg_extra_data c1) s1 s'" for s'
      using spares_trans [OF q(5) that] grow_keeps(3) [OF g(1)] by simp
    show "runs now pc1 s1 ?Q" unfolding q(1)
    proof (rule sc_test_runs [OF b1(1) b2(2) bk(2) q(3,2) _ _ _ assms(1)])
      show "op \<in> {BAnd, BOr}" using assms(4) by simp
      fix s' assume s': "rep X \<sigma> s'" "vm_stack s' = vm_stack s" "spares X (cg_extra_data c1) s1 s'"
      {
        assume d: "p = (op = BOr)"
        have "runs now (pcof ?k) s' ?Q"
        proof (rule runs_load [OF _ bk(1) bp(2) rep_live [OF s'(1)]])
          show "pushes now (Simple OpPushIBool (word_of_nat (if op = BAnd then 0 else 1))) s' v"
            using pushes_literal(1) [of now p s'] p(2) [OF d] d assms(4) by auto
          show "runs now (pcof ?p) (s'\<lparr>vm_stack := v # vm_stack s'\<rparr>) ?Q"
            by (rule runs_refl) (use s' sp [OF s'(3)] in \<open>simp add: pushed_def cg'\<close>)
        qed
        then show "runs now (pcof ?j) s' ?Q" by simp
      }
      assume d: "p \<noteq> (op = BOr)"
      obtain x where x: "eval (globals_env (lk_globals X)) \<sigma> r = Some (VBool x)" "v = VBool x" using p(3) [OF d] by blast
      show "runs now (pcof (sc_test op c1)) s' ?Q"
      proof (rule runs_trans [OF expr_okD(2) [OF assms(3) c(2) b2(1) b3(2) s'(1) x(1)]])
        fix pc2 s2 assume "pushed X (sc_test op c1) c3 \<sigma> (VBool x) s' pc2 s2"
        note y = pushedD [OF this]
        have "spares X (cg_extra_data c1) s1 s2" using spares_trans [OF s'(3) y(5)] grow_keeps(3) [OF t] by simp
        then have sp2: "spares X (cg_extra_data cg) s s2" by (rule sp)
        show "runs now pc2 s2 ?Q" unfolding y(1)
        proof (rule runs_jmp [OF b3(1) bj(2) _ y(4)])
          show "placed X (place_label (fst ?f) ?p)" using h(3) cg' by simp
          show "runs now (pcof ?p) s2 ?Q" by (rule runs_refl) (use y x(2) s'(2) sp2 in \<open>simp add: pushed_def cg'\<close>)
        qed
      qed
    qed
  qed
  then show "fits v t \<and> runs now (pcof cg) s ?Q" using p(2,3) by (cases "p = (op = BOr)") auto
qed

theorem emit_expr_runs:
  assumes "ctx_ok X"
  shows "expr_ok X ord now e"
proof (induction e rule: measure_induct_rule [of size])
  case (less e)
  show ?case
  proof (cases e)
    case (Binary op l r sp)
    then show ?thesis using less assms expr_ok_short expr_ok_strict by (cases "op = BAnd \<or> op = BOr") simp_all
  next
    case (FbCallE call sp)
    then show ?thesis by (simp add: expr_ok_def)
  qed (use less assms expr_ok_literal expr_ok_name expr_ok_qgood expr_ok_unary in simp_all)
qed

end
