(* ===== verification/CodeGenCall.thy ===== *)
theory CodeGenCall
  imports CodeGenExpr
begin

section \<open>Assignments and calls on the machine\<close>

text \<open>
  The store behind an assignment, and a call of a primitive block: the arguments are pushed, the
  block is called, its outputs are stored into the cells of the instance and the output associations
  copy them on.
\<close>

definition done_at :: "link_ctx \<Rightarrow> codegen \<Rightarrow> nat \<Rightarrow> src \<Rightarrow> vm_value list \<Rightarrow> vm \<Rightarrow> nat \<Rightarrow> vm \<Rightarrow> bool" where
  "done_at X cg' lo \<sigma>' st s pc' s' \<longleftrightarrow> pc' = pcof cg' \<and> vm_stack s' = st \<and> rep X \<sigma>' s' \<and> spares X lo s s'"

lemma done_atD:
  assumes "done_at X cg' lo \<sigma>' st s pc' s'"
  shows "pc' = pcof cg'" "vm_stack s' = st" "rep X \<sigma>' s'" "live X s'" "spares X lo s s'"
  using assms rep_live by (auto simp: done_at_def)

subsection \<open>Stores\<close>

lemma store_data_runs:
  assumes "ctx_ok X" "cg_wf cg" "placed X (emit_simple OpStData off cg)" "rep X \<sigma> s" "vm_stack s = v # st"
    "(off, t) \<in> data_cells (lk_globals X)" "write_data off t v \<sigma> = Some \<sigma>'"
  shows "runs now (pcof cg) s (done_at X (emit_simple OpStData off cg) lo \<sigma>' st s)"
proof -
  have f: "fits v t" "\<sigma>' = \<sigma>\<lparr>ss_data := (ss_data \<sigma>)(off := v)\<rparr>" using assms(7) by (auto simp: write_data_def split: if_splits)
  note c = rep_data_cell [OF assms(4,1,6)]
  obtain d where d: "seg_store (vm_data s) off v (pcof cg) = Inr d" by (rule seg_store_fits [OF c(4) f(1)])
  note r = rep_store_data [OF assms(4,1,6) f(1) d]
  show ?thesis
    by (rule runs_st_data [OF assms(2,3) rep_live [OF assms(4)] c(3) assms(5) d], rule runs_refl)
      (use r f(2) in \<open>simp add: done_at_def\<close>)
qed

lemma store_retain_runs:
  assumes "ctx_ok X" "cg_wf cg" "placed X (emit_simple OpStRetain off cg)" "rep X \<sigma> s" "vm_stack s = v # st"
    "(off, t) \<in> retain_cells (lk_globals X)" "fits v t"
  shows "runs now (pcof cg) s (done_at X (emit_simple OpStRetain off cg) lo (\<sigma>\<lparr>ss_retain := (ss_retain \<sigma>)(off := v)\<rparr>) st s)"
proof -
  note c = rep_retain_cell [OF assms(4,1,6)]
  obtain d where d: "seg_store (vm_retain s) off v (pcof cg) = Inr d" by (rule seg_store_fits [OF c(4) assms(7)])
  note r = rep_store_retain [OF assms(4,1,6,7) d]
  show ?thesis
    by (rule runs_st_retain [OF assms(2,3) rep_live [OF assms(4)] c(3) assms(5) d], rule runs_refl)
      (use r in \<open>simp add: done_at_def spares_def same_byte_def\<close>)
qed

lemma store_output_runs:
  assumes "cg_wf cg" "placed X (emit_simple OpStQ i cg)" "rep X \<sigma> s" "vm_stack s = v # st" "slot_set (ss_outputs \<sigma>) i v 0 = Inr im"
  shows "runs now (pcof cg) s (done_at X (emit_simple OpStQ i cg) lo (\<sigma>\<lparr>ss_outputs := im\<rparr>) st s)"
proof -
  have o: "slot_set (vm_outputs s) i v 0 = Inr im" using assms(3,5) by (simp add: rep_def)
  have "length (si_values im) = length (si_values (ss_outputs \<sigma>))" using assms(5) by (auto simp: slot_set_def split: if_splits)
  then have "rep X (\<sigma>\<lparr>ss_outputs := im\<rparr>) (s\<lparr>vm_outputs := im\<rparr>)" using assms(3) by (auto simp: rep_def live_def)
  then show ?thesis
    by (intro runs_st_q [OF assms(1,2) rep_live [OF assms(3)] assms(4) o] runs_refl)
      (simp add: done_at_def spares_def same_byte_def)
qed

lemma write_expr_cases:
  assumes "write_expr env lhs v \<sigma> = Some \<sigma>'"
  obtains root rest sp st where "lhs = Name (PIdent root # rest) sp" "env root = Some st"
    "(\<exists>slot t im. st = StOutput slot t \<and> rest = [] \<and> slot_set (ss_outputs \<sigma>) (unat slot) v 0 = Inr im \<and> \<sigma>' = \<sigma>\<lparr>ss_outputs := im\<rparr>)
     \<or> (\<exists>off t. st = StData off (TElem t) \<and> rest = [] \<and> write_data off t v \<sigma> = Some \<sigma>')
     \<or> (\<exists>off t. st = StRetain off t \<and> rest = [] \<and> fits v t \<and> \<sigma>' = \<sigma>\<lparr>ss_retain := (ss_retain \<sigma>)(off := v)\<rparr>)
     \<or> (\<exists>p i outs f as n off t. st = StPrim p i outs \<and> rest = PIdent f # as \<and> find_out outs f = Some (n, off, t)
          \<and> write_data off t v \<sigma> = Some \<sigma>')"
proof -
  obtain root rest sp where l: "lhs = Name (PIdent root # rest) sp"
    using assms by (auto simp: write_expr_def split: expr.splits list.splits path_seg.splits)
  then obtain st where st: "env root = Some st" using assms by (cases "env root") (auto simp: write_expr_def)
  show thesis
    by (rule that [OF l st], cases st; cases rest)
      (use assms l st in \<open>auto simp: write_expr_def split: type_def.splits path_seg.splits option.splits if_splits\<close>)
qed

lemma emit_store_runs:
  assumes "ctx_ok X" "emit_store lhs ty cg = Inr cg'" "cg_wf cg" "placed X cg'" "rep X \<sigma> s" "vm_stack s = v # st"
    "write_expr (globals_env (lk_globals X)) lhs v \<sigma> = Some \<sigma>'"
  shows "runs now (pcof cg) s (done_at X cg' lo \<sigma>' st s)"
proof -
  have gl: "cg_globals cg = lk_globals X"
    using grow_keeps(1) [OF ext_grow [OF emit_store_ext [OF assms(2)]]] assms(4) by (simp add: placed_def)
  from assms(7) show ?thesis
  proof (rule write_expr_cases)
    fix root rest sp sto
    assume l: "lhs = Name (PIdent root # rest) sp" and e: "globals_env (lk_globals X) root = Some sto"
      and c: "(\<exists>slot t im. sto = StOutput slot t \<and> rest = [] \<and> slot_set (ss_outputs \<sigma>) (unat slot) v 0 = Inr im \<and> \<sigma>' = \<sigma>\<lparr>ss_outputs := im\<rparr>)
     \<or> (\<exists>off t. sto = StData off (TElem t) \<and> rest = [] \<and> write_data off t v \<sigma> = Some \<sigma>')
     \<or> (\<exists>off t. sto = StRetain off t \<and> rest = [] \<and> fits v t \<and> \<sigma>' = \<sigma>\<lparr>ss_retain := (ss_retain \<sigma>)(off := v)\<rparr>)
     \<or> (\<exists>p i outs f as n off t. sto = StPrim p i outs \<and> rest = PIdent f # as \<and> find_out outs f = Some (n, off, t)
          \<and> write_data off t v \<sigma> = Some \<sigma>')"
    obtain y where y: "lookup_sym root cg = Inr y" using assms(2) l by (auto simp: emit_store_def path_parts_def rbind_eq_Inr)
    have sy: "sy_storage y = sto" "y \<in> snd ` set (lk_globals X)" using lookup_env [OF y assms(3)] e gl by auto
    note h = assms(2) [unfolded l emit_store_def expr.case path_parts_def list.case path_seg.case rbind_Inr prod.case y sy(1)]
    from c show ?thesis
    proof (elim disjE exE conjE)
      fix slot t im assume "sto = StOutput slot t" "rest = []" "slot_set (ss_outputs \<sigma>) (unat slot) v 0 = Inr im" "\<sigma>' = \<sigma>\<lparr>ss_outputs := im\<rparr>"
      then show ?thesis using store_output_runs [OF assms(3) _ assms(5,6)] assms(4) h by (auto simp: emit_store_root_def)
    next
      fix off t assume o: "sto = StData off (TElem t)" "rest = []" "write_data off t v \<sigma> = Some \<sigma>'"
      have "(off, t) \<in> data_cells (lk_globals X)" using cells_of_symbol(1) [OF sy(2)] sy(1) o(1) by simp
      then show ?thesis using store_data_runs [OF assms(1,3) _ assms(5,6)] assms(4) h o by (auto simp: emit_store_root_def)
    next
      fix off t assume o: "sto = StRetain off t" "rest = []" "fits v t" "\<sigma>' = \<sigma>\<lparr>ss_retain := (ss_retain \<sigma>)(off := v)\<rparr>"
      have "(off, t) \<in> retain_cells (lk_globals X)" using cells_of_symbol(3) [OF sy(2)] sy(1) o(1) by simp
      then show ?thesis using store_retain_runs [OF assms(1,3) _ assms(5,6)] assms(4) h o by (auto simp: emit_store_root_def)
    next
      fix p i outs f as n off t
      assume o: "sto = StPrim p i outs" "rest = PIdent f # as" "find_out outs f = Some (n, off, t)" "write_data off t v \<sigma> = Some \<sigma>'"
      have "(off, t) \<in> data_cells (lk_globals X)" using cells_of_symbol(2) [OF sy(2)] sy(1) o(1) find_out_mem [OF o(3)] by blast
      then show ?thesis using store_data_runs [OF assms(1,3) _ assms(5,6)] assms(4) h o by (auto simp: field_access_def)
    qed
  qed
qed

subsection \<open>Calls of primitive blocks\<close>

lemma prim_args_run:
  assumes "ctx_ok X" "emit_prim_args (\<lambda>e cg. emit_expr ord e cg) args cg = Inr cg'" "cg_wf cg" "placed X cg'" "rep X \<sigma> s"
    "eval_args (globals_env (lk_globals X)) \<sigma> (map snd args) = Some vs"
  shows "runs now (pcof cg) s (done_at X cg' (cg_extra_data cg) \<sigma> (rev vs @ vm_stack s) s)"
  using assms(2-6)
proof (induction args arbitrary: cg s vs)
  case Nil
  then show ?case by (intro runs_refl) (simp add: done_at_def)
next
  case (Cons a args)
  obtain name e c1 t where a: "a = (name, Some e)" "emit_expr ord e cg = Inr (c1, t)"
    "emit_prim_args (\<lambda>e cg. emit_expr ord e cg) args c1 = Inr cg'"
    using Cons.prems(1) by (cases a) (auto simp: rbind_eq_Inr split: option.splits)
  obtain v ws where v: "eval (globals_env (lk_globals X)) \<sigma> e = Some v" "vs = v # ws"
    "eval_args (globals_env (lk_globals X)) \<sigma> (map snd args) = Some ws"
    using Cons.prems(5) a(1) by (auto split: option.splits)
  have g: "grows cg c1" "grows c1 cg'"
    using ext_grow [OF emit_expr_ext [OF a(2)]] ext_grow [OF emit_prim_args_ext [OF _ a(3)]] emit_expr_ext by auto
  note w = between [OF Cons.prems(2) g Cons.prems(3)]
  show ?case
  proof (rule runs_trans [OF expr_okD(2) [OF emit_expr_runs [OF assms(1)] a(2) Cons.prems(2) w(2) Cons.prems(4) v(1)]])
    fix pc1 s1 assume "pushed X cg c1 \<sigma> v s pc1 s1"
    note p = pushedD [OF this]
    show "runs now pc1 s1 (done_at X cg' (cg_extra_data cg) \<sigma> (rev vs @ vm_stack s) s)" unfolding p(1)
    proof (rule runs_mono [OF Cons.IH [OF a(3) w(1) Cons.prems(3) p(3) v(3)]])
      fix pc2 s2 assume "done_at X cg' (cg_extra_data c1) \<sigma> (rev ws @ vm_stack s1) s1 pc2 s2"
      then show "done_at X cg' (cg_extra_data cg) \<sigma> (rev vs @ vm_stack s) s pc2 s2"
        using spares_trans [OF p(5)] grow_keeps(3) [OF g(1)] p(2) v(2) by (auto simp: done_at_def)
    qed
  qed
qed

lemma eval_args_length: "eval_args env \<sigma> args = Some vs \<Longrightarrow> length vs = length args"
  by (induction args arbitrary: vs rule: eval_args.induct [of _ env \<sigma>]) (auto split: option.splits)

lemma resolve_args_length: "resolve_prim_args names pos args ins = Inr r \<Longrightarrow> length r = length args"
  by (induction names pos args ins rule: resolve_prim_args.induct) (auto split: if_splits option.splits)

lemma input_count_names: "input_count p = length (prim_in_names p)"
  by (cases p) simp_all

lemma wp_vpush_values_overflowed:
  "Q () (s\<lparr>vm_stack := rev vs @ vm_stack s\<rparr>) \<Longrightarrow> wp (vpush_values vs pc) Q overflowed s"
  by (induction vs arbitrary: s) (simp_all add: wp_simps)

lemma runs_call_prim:
  assumes "cg_wf cg" "placed X (emit (CallFb 0 (primitive_u32 p) inst) cg)" "live X s" "vm_stack s = rev vs @ st"
    "length vs = input_count p" "call_primitive (vm_primitives s) p (unat inst) (map to_stack_value vs) now = Inr (prims, res)"
    "runs now (pcof (emit (CallFb 0 (primitive_u32 p) inst) cg)) (s\<lparr>vm_primitives := prims, vm_stack := prim_outputs p res @ st\<rparr>) Q"
  shows "runs now (pcof cg) s Q"
proof (rule runs_emit [OF assms(1,2) _ assms(3)])
  show "wf_instr (CallFb 0 (primitive_u32 p) inst)" by (cases p) simp_all
  have n: "pcof cg + length (encode_instruction (CallFb 0 (primitive_u32 p) inst)) = pcof (emit (CallFb 0 (primitive_u32 p) inst) cg)"
    by (simp add: emit_def)
  have "rev (take (input_count p) (vm_stack s)) = vs" "drop (input_count p) (vm_stack s) = st" "input_count p \<le> length (vm_stack s)"
    using assms(4) by (simp_all add: assms(5) [symmetric])
  then have "wp (call_prim (primitive_u32 p) (unat inst) now (pcof cg)) (\<lambda>_ s'. runs now (pcof (emit (CallFb 0 (primitive_u32 p) inst) cg)) s' Q) overflowed s"
    using assms(6,7) by (simp add: call_prim_def wp_simps wp_vpop_values wp_vpush_values_overflowed)
  then show "wp (exec_instr now (pcof cg) (CallFb 0 (primitive_u32 p) inst) (length (encode_instruction (CallFb 0 (primitive_u32 p) inst))))
      (\<lambda>c s'. \<exists>pc'. c = Goto pc' \<and> runs now pc' s' Q) overflowed s"
    unfolding exec_instr_def using n by (simp add: wp_simps)
qed

abbreviation store_all :: "(string \<times> nat \<times> ir_type) list \<Rightarrow> codegen \<Rightarrow> codegen" where
  "store_all outs \<equiv> fold (\<lambda>(_, off, _). emit_simple OpStData off) outs"

lemma store_all_grows: "grows cg (store_all outs cg)"
  using ext_grow [OF ext_fold_stores [OF ext_refl]] .

lemma store_all_runs:
  assumes "ctx_ok X" "cg_wf cg" "placed X (store_all outs cg)" "rep X \<sigma> s" "vm_stack s = vs @ st"
    "snd ` set outs \<subseteq> data_cells (lk_globals X)" "write_outs outs vs \<sigma> = Some \<sigma>'"
  shows "runs now (pcof cg) s (done_at X (store_all outs cg) lo \<sigma>' st s)"
  using assms(2-)
proof (induction outs arbitrary: cg s vs \<sigma>)
  case Nil
  then show ?case by (cases vs) (auto intro!: runs_refl simp: done_at_def)
next
  case (Cons x outs)
  obtain n off t where x: "x = (n, off, t)" by (cases x)
  let ?c = "emit_simple OpStData off cg"
  obtain v ws \<sigma>1 where v: "vs = v # ws" "write_data off t v \<sigma> = Some \<sigma>1" "write_outs outs ws \<sigma>1 = Some \<sigma>'"
    using Cons.prems(6) x by (cases vs) (auto split: option.splits)
  have pl: "placed X (store_all outs ?c)" using Cons.prems(2) x by simp
  have wc: "cg_wf ?c" "placed X ?c"
    using between [OF Cons.prems(1) grow_emit_simple [OF grow_refl] store_all_grows pl] .
  have m: "(off, t) \<in> data_cells (lk_globals X)" using Cons.prems(5) x by simp
  have st: "vm_stack s = v # (ws @ st)" using Cons.prems(4) v(1) by simp
  show ?case
  proof (rule runs_trans [OF store_data_runs [OF assms(1) Cons.prems(1) wc(2) Cons.prems(3) st m v(2)]])
    fix pc1 s1 assume "done_at X ?c lo \<sigma>1 (ws @ st) s pc1 s1"
    note p = done_atD [OF this]
    have "runs now (pcof ?c) s1 (done_at X (store_all outs ?c) lo \<sigma>' st s1)"
      by (rule Cons.IH [OF wc(1) pl p(3,2) _ v(3)]) (use Cons.prems(5) in simp)
    then show "runs now pc1 s1 (done_at X (store_all (x # outs) cg) lo \<sigma>' st s)"
      unfolding p(1) by (rule runs_mono) (use p(5) x in \<open>auto simp: done_at_def intro: spares_trans\<close>)
  qed
qed

lemma prim_outs_run:
  assumes "ctx_ok X" "emit_prim_outs outs os cg = Inr cg'" "cg_wf cg" "placed X cg'" "rep X \<sigma> s"
    "snd ` set outs \<subseteq> data_cells (lk_globals X)" "associate (globals_env (lk_globals X)) outs os \<sigma> = Some \<sigma>'"
  shows "runs now (pcof cg) s (done_at X cg' lo \<sigma>' (vm_stack s) s)"
  using assms(2-)
proof (induction os arbitrary: cg s \<sigma>)
  case Nil
  then show ?case by (auto intro!: runs_refl simp: done_at_def)
next
  case (Cons x os)
  obtain name dest where x: "x = CallOut name dest" by (cases x)
  show ?case
  proof (cases "eq_ignore_ascii_case name ''ENO''")
    case True
    then show ?thesis using Cons x by simp
  next
    case False
    obtain n off t c1 where f: "find_out outs name = Some (n, off, t)" "emit_store dest t (emit_simple OpLdData off cg) = Inr c1"
      "emit_prim_outs outs os c1 = Inr cg'"
      using Cons.prems(1) x False by (auto simp: rbind_eq_Inr ok_or_eq_Inr)
    obtain \<sigma>1 where e: "write_expr (globals_env (lk_globals X)) dest (ss_data \<sigma> off) \<sigma> = Some \<sigma>1"
      "associate (globals_env (lk_globals X)) outs os \<sigma>1 = Some \<sigma>'"
      using Cons.prems(6) x False f(1) by (auto split: option.splits)
    let ?l = "emit_simple OpLdData off cg"
    have g: "grows cg ?l" "grows ?l c1" "grows c1 cg'"
      using ext_grow [OF emit_store_ext [OF f(2)]] ext_grow [OF emit_prim_outs_ext [OF f(3)]] by (auto intro: grow_intros)
    note wl = between [OF Cons.prems(2) g(1) grow_trans [OF g(2,3)] Cons.prems(3)]
      and w1 = between [OF Cons.prems(2) grow_trans [OF g(1,2)] g(3) Cons.prems(3)]
    have "(off, t) \<in> data_cells (lk_globals X)" using Cons.prems(5) find_out_mem [OF f(1)] by force
    note c = rep_data_cell [OF Cons.prems(4) assms(1) this]
    show ?thesis
    proof (rule runs_load [OF pushes_data [OF rep_live [OF Cons.prems(4)] c(1,3)] Cons.prems(2) wl(2) rep_live [OF Cons.prems(4)]])
      let ?s = "s\<lparr>vm_stack := ss_data \<sigma> off # vm_stack s\<rparr>"
      have r: "rep X \<sigma> ?s" "vm_stack ?s = ss_data \<sigma> off # vm_stack s" using Cons.prems(4) by simp_all
      show "runs now (pcof ?l) ?s (done_at X cg' lo \<sigma>' (vm_stack s) s)"
      proof (rule runs_trans [OF emit_store_runs [OF assms(1) f(2) wl(1) w1(2) r e(1), of now lo]])
        fix pc1 s1 assume "done_at X c1 lo \<sigma>1 (vm_stack s) ?s pc1 s1"
        note p = done_atD [OF this]
        have sp: "spares X lo s s1" using p(5) by simp
        show "runs now pc1 s1 (done_at X cg' lo \<sigma>' (vm_stack s) s)" unfolding p(1)
        proof (rule runs_mono [OF Cons.IH [OF f(3) w1(1) Cons.prems(3) p(3) Cons.prems(5) e(2)]])
          fix pc2 s2 assume "done_at X cg' lo \<sigma>' (vm_stack s1) s1 pc2 s2"
          then show "done_at X cg' lo \<sigma>' (vm_stack s) s pc2 s2"
            using p(2) spares_trans [OF sp] by (auto simp: done_at_def)
        qed
      qed
    qed
  qed
qed

lemma emit_prim_call_obtain:
  assumes "emit_prim_call ee pid inst outs call cg = Inr cg'"
  obtains args c1 where "resolve_prim_args (prim_in_names pid) 0 (replicate (length (prim_in_names pid)) None) (fc_inputs call) = Inr args"
    "emit_prim_args ee (zip (prim_in_names pid) args) cg = Inr c1"
    "emit_prim_outs outs (fc_outputs call) (store_all outs (emit (CallFb 0 (primitive_u32 pid) inst) c1)) = Inr cg'"
  using assms by (auto simp: emit_prim_call_def Let_def rbind_eq_Inr)

lemma call_block_cases:
  assumes "call_block env now call \<sigma> = Some \<sigma>'"
  obtains n pid inst outs args vs prims res \<sigma>1 where "fc_callee call = [PIdent n]" "env n = Some (StPrim pid inst outs)"
    "resolve_prim_args (prim_in_names pid) 0 (replicate (length (prim_in_names pid)) None) (fc_inputs call) = Inr args"
    "eval_args env \<sigma> args = Some vs" "call_primitive (ss_prims \<sigma>) pid (unat inst) (map to_stack_value vs) now = Inr (prims, res)"
    "write_outs outs (prim_outputs pid res) (\<sigma>\<lparr>ss_prims := prims\<rparr>) = Some \<sigma>1" "associate env outs (fc_outputs call) \<sigma>1 = Some \<sigma>'"
proof -
  obtain n where n: "fc_callee call = [PIdent n]"
    using assms by (auto simp: call_block_def split: list.splits path_seg.splits)
  then obtain pid inst outs where e: "env n = Some (StPrim pid inst outs)"
    using assms by (auto simp: call_block_def split: option.splits storage.splits)
  show thesis using that [OF n e] assms n e
    by (auto simp: call_block_def Let_def split: sum.splits option.splits prod.splits)
qed

lemma emit_fb_call_runs:
  assumes "ctx_ok X" "emit_fb_call ord call cg = Inr cg'" "cg_wf cg" "placed X cg'" "rep X \<sigma> s"
    "call_block (globals_env (lk_globals X)) now call \<sigma> = Some \<sigma>'"
  shows "runs now (pcof cg) s (done_at X cg' (cg_extra_data cg) \<sigma>' (vm_stack s) s)"
  using assms(6)
proof (rule call_block_cases)
  fix n pid inst outs args vs prims res \<sigma>1
  assume n: "fc_callee call = [PIdent n]" and en: "globals_env (lk_globals X) n = Some (StPrim pid inst outs)"
    and ra: "resolve_prim_args (prim_in_names pid) 0 (replicate (length (prim_in_names pid)) None) (fc_inputs call) = Inr args"
    and ev: "eval_args (globals_env (lk_globals X)) \<sigma> args = Some vs"
    and cp: "call_primitive (ss_prims \<sigma>) pid (unat inst) (map to_stack_value vs) now = Inr (prims, res)"
    and wo: "write_outs outs (prim_outputs pid res) (\<sigma>\<lparr>ss_prims := prims\<rparr>) = Some \<sigma>1"
    and as: "associate (globals_env (lk_globals X)) outs (fc_outputs call) \<sigma>1 = Some \<sigma>'"
  have gl: "cg_globals cg = lk_globals X"
    using grow_keeps(1) [OF ext_grow [OF emit_fb_call_ext [OF assms(2)]]] assms(4) by (simp add: placed_def)
  obtain y where y: "lookup_sym n cg = Inr y" using assms(2) n by (auto simp: emit_fb_call_def fb_call_with_def rbind_eq_Inr)
  have sy: "sy_storage y = StPrim pid inst outs" "y \<in> snd ` set (lk_globals X)" using lookup_env [OF y assms(3)] en gl by auto
  have cells: "snd ` set outs \<subseteq> data_cells (lk_globals X)" using cells_of_symbol(2) [OF sy(2,1)] by force
  have "emit_prim_call (\<lambda>e cg. emit_expr ord e cg) pid inst outs call cg = Inr cg'"
    using assms(2) n y sy(1) by (simp add: emit_fb_call_def fb_call_with_def)
  then obtain c1 where c1: "emit_prim_args (\<lambda>e cg. emit_expr ord e cg) (zip (prim_in_names pid) args) cg = Inr c1"
    and c2: "emit_prim_outs outs (fc_outputs call) (store_all outs (emit (CallFb 0 (primitive_u32 pid) inst) c1)) = Inr cg'"
    using emit_prim_call_obtain ra by (metis sum.inject(2))
  let ?i = "emit (CallFb 0 (primitive_u32 pid) inst) c1"
  have g: "grows cg c1" "grows c1 ?i" "grows ?i (store_all outs ?i)" "grows (store_all outs ?i) cg'"
    using ext_grow [OF emit_prim_args_ext [OF _ c1]] emit_expr_ext ext_grow [OF emit_prim_outs_ext [OF c2]] store_all_grows
    by (auto intro: grow_emit_self)
  have g': "grows cg ?i" "grows cg (store_all outs ?i)" "grows c1 cg'" "grows ?i cg'" using g grow_trans by blast+
  note w1 = between [OF assms(3) g(1) g'(3) assms(4)] and wi = between [OF assms(3) g'(1,4) assms(4)]
    and ws = between [OF assms(3) g'(2) g(4) assms(4)]
  have len: "length args = length (prim_in_names pid)" using resolve_args_length [OF ra] by simp
  have ev': "eval_args (globals_env (lk_globals X)) \<sigma> (map snd (zip (prim_in_names pid) args)) = Some vs" using ev len by simp
  let ?Q = "done_at X cg' (cg_extra_data cg) \<sigma>' (vm_stack s) s"
  show ?thesis
  proof (rule runs_trans [OF prim_args_run [OF assms(1) c1 assms(3) w1(2) assms(5) ev']])
    fix pc1 s1 assume "done_at X c1 (cg_extra_data cg) \<sigma> (rev vs @ vm_stack s) s pc1 s1"
    note p = done_atD [OF this]
    let ?s = "s1\<lparr>vm_primitives := prims, vm_stack := prim_outputs pid res @ vm_stack s\<rparr>"
    have r: "rep X (\<sigma>\<lparr>ss_prims := prims\<rparr>) ?s" using p(3) by (auto simp: rep_def live_def)
    have "runs now (pcof ?i) ?s ?Q"
    proof (rule runs_trans [OF store_all_runs [OF assms(1) wi(1) ws(2) r _ cells wo]])
      fix pc2 s2 assume "done_at X (store_all outs ?i) (cg_extra_data cg) \<sigma>1 (vm_stack s) ?s pc2 s2"
      note q = done_atD [OF this]
      have sp: "spares X (cg_extra_data cg) s s2" using spares_trans [OF p(5), of _ s2] q(5) by (simp add: spares_def)
      show "runs now pc2 s2 ?Q" unfolding q(1)
        by (rule runs_mono [OF prim_outs_run [OF assms(1) c2 ws(1) assms(4) q(3) cells as]])
          (use q(2) spares_trans [OF sp] in \<open>auto simp: done_at_def\<close>)
    qed simp
    then show "runs now pc1 s1 ?Q" unfolding p(1)
      by (intro runs_call_prim [OF w1(1) wi(2) p(4,2) _ _])
        (use p(3) cp eval_args_length [OF ev] len input_count_names in \<open>simp_all add: rep_def\<close>)
  qed
qed

end
