(* ===== verification/CodeGenStmt.thy ===== *)
theory CodeGenStmt
  imports CodeGenCall
begin

section \<open>Statements on the machine\<close>

text \<open>
  The code of a statement does what the statement means. A statement that ends normally leaves the
  machine behind its code, with the operand stack as before; one that returns leaves it at a return
  instruction. Loops are one lemma: the counter in a temporary is the number of rounds left.
\<close>

definition ran :: "link_ctx \<Rightarrow> codegen \<Rightarrow> nat \<Rightarrow> outcome \<Rightarrow> vm_value list \<Rightarrow> vm \<Rightarrow> nat \<Rightarrow> vm \<Rightarrow> bool" where
  "ran X cg' lo out st s pc' s' \<longleftrightarrow>
     (case out of
        Next \<sigma>' \<Rightarrow> done_at X cg' lo \<sigma>' st s pc' s'
      | Ret \<sigma>' \<Rightarrow> rep X \<sigma>' s' \<and> decode_instruction (lk_code X) pc' = Inr (Simple OpRet 0, 4))"

lemma ran_code: "cg_code c = cg_code c' \<Longrightarrow> ran X c lo out st s = ran X c' lo out st s"
  by (auto simp: ran_def done_at_def fun_eq_iff split: outcome.splits)

lemma ran_place [simp]: "ran X (place_label l c) lo out st s = ran X c lo out st s"
  by (rule ran_code) simp

lemma ran_weaken:
  assumes "ran X c lo' out st s1 pc' s'" "spares X lo s s1" "lo \<le> lo'"
  shows "ran X c lo out st s pc' s'"
  using assms spares_trans [OF assms(2) _ assms(3)] by (auto simp: ran_def done_at_def split: outcome.splits)

lemma runs_weaken:
  "runs now pc s1 (ran X c lo' out st s1) \<Longrightarrow> spares X lo s s1 \<Longrightarrow> lo \<le> lo' \<Longrightarrow> runs now pc s1 (ran X c lo out st s)"
  by (erule runs_mono) (rule ran_weaken)

text \<open>What follows a statement only runs when it ends normally.\<close>

lemma ran_then:
  assumes "runs now pc s0 (ran X c1 lo o1 st s)" "and_then (Some o1) f = Some out"
    "\<And>\<sigma>1 s1. f \<sigma>1 = Some out \<Longrightarrow> rep X \<sigma>1 s1 \<Longrightarrow> vm_stack s1 = st \<Longrightarrow> spares X lo s s1 \<Longrightarrow> runs now (pcof c1) s1 (ran X cg' lo' out st s')"
  shows "runs now pc s0 (ran X cg' lo' out st s')"
proof (rule runs_trans [OF assms(1)])
  fix pc1 s1 assume r: "ran X c1 lo o1 st s pc1 s1"
  show "runs now pc1 s1 (ran X cg' lo' out st s')"
  proof (cases o1)
    case (Next \<sigma>1)
    then show ?thesis using r assms(2) assms(3) [of \<sigma>1 s1] by (simp add: ran_def done_at_def and_then_def)
  next
    case (Ret \<sigma>1)
    then show ?thesis using r assms(2) by (intro runs_refl) (auto simp: ran_def and_then_def)
  qed
qed

lemma and_then_Some: "and_then r f = Some out \<Longrightarrow> \<exists>o1. r = Some o1"
  by (auto simp: and_then_def split: option.splits)

subsection \<open>Emitter states in a row\<close>

lemma wf_next [simp]:
  assumes "cg_wf cg"
  shows "cg_wf (emit i cg)" "cg_wf (emit_simple op n cg)" "cg_wf (push_dint d cg)" "cg_wf (emit_jmp op l cg)"
    "cg_wf (place_label l cg)" "cg_wf (snd (fresh_label p cg))" "cg_wf (snd (alloc_temp t cg))"
  by (intro grow_wf [OF _ assms] grow_intros)+

lemma placed_prev:
  assumes "cg_wf cg"
  shows "placed X (emit i cg) \<Longrightarrow> placed X cg" "placed X (emit_simple op n cg) \<Longrightarrow> placed X cg"
    "placed X (push_dint d cg) \<Longrightarrow> placed X cg" "placed X (emit_jmp op l cg) \<Longrightarrow> placed X cg"
    "placed X (place_label l cg) \<Longrightarrow> placed X cg" "placed X (snd (fresh_label p cg)) \<Longrightarrow> placed X cg"
    "placed X (snd (alloc_temp t cg)) \<Longrightarrow> placed X cg"
  by (erule placed_back [rotated 2], intro grow_intros, rule assms)+

lemmas runs_eq = runs_binop [of _ _ BEq, unfolded binary_opcode.simps]
lemmas runs_gt = runs_binop [of _ _ BGt, unfolded binary_opcode.simps]
lemmas runs_add = runs_binop [of _ _ BAdd, unfolded binary_opcode.simps]
lemmas runs_sub = runs_binop [of _ _ BSub, unfolded binary_opcode.simps]

text \<open>A temporary that holds a value.\<close>

definition holds :: "vm \<Rightarrow> nat \<Rightarrow> vm_value \<Rightarrow> bool" where
  "holds s k v \<longleftrightarrow> seg_load (vm_data s) k 0 = Inr v"

lemma holds_same [simp]: "holds (s\<lparr>vm_stack := st\<rparr>) k v = holds s k v" "holds (s\<lparr>vm_div0_count := n\<rparr>) k v = holds s k v"
  by (simp_all add: holds_def)

lemma holds_spares:
  assumes "holds s k v" "spares X lo s s'" "live X s" "live X s'" "temps_from X \<le> k" "k + byte_width (value_ir_type v) \<le> lo"
  shows "holds s' k v"
  unfolding holds_def
proof (rule spares_load [OF assms(2-4) _ assms(5,6)])
  show "seg_load (vm_data s) k 0 = Inr v" using assms(1) by (simp add: holds_def)
  then show "k + byte_width (value_ir_type v) \<le> lk_data X" using seg_load_bound assms(3) by (fastforce simp: live_def)
qed

lemma temp_small: "ctx_ok X \<Longrightarrow> k + byte_width t \<le> lk_data X \<Longrightarrow> k < 0x1000000"
  using byte_width_pos [of t] unfolding ctx_ok_def by linarith

lemma store_temp_runs:
  assumes "cg_wf cg" "placed X (emit_simple OpStData k cg)" "rep X \<sigma> s" "ctx_ok X" "vm_stack s = v # st"
    "temps_from X \<le> k" "k + byte_width t \<le> lk_data X" "fits v t"
    "\<And>s'. rep X \<sigma> s' \<Longrightarrow> vm_stack s' = st \<Longrightarrow> spares X k s s' \<Longrightarrow> holds s' k v \<Longrightarrow> runs now (pcof (emit_simple OpStData k cg)) s' Q"
  shows "runs now (pcof cg) s Q"
proof -
  have l: "live X s" by (rule rep_live [OF assms(3)])
  have k: "k < 0x1000000" by (rule temp_small [OF assms(4,7)])
  obtain d where d: "seg_store (vm_data s) k v (pcof cg) = Inr d"
    by (rule seg_store_fits [of k t "vm_data s" v]) (use assms(7,8) l in \<open>simp_all add: live_def\<close>)
  note r = rep_store_temp [OF assms(3,6) d]
  have "seg_load d k 0 = Inr v" using seg_store_load d l by (auto simp: live_def)
  then show ?thesis
    by (intro runs_st_data [OF assms(1,2) l k assms(5) d] assms(9)) (use r in \<open>simp_all add: holds_def\<close>)
qed

lemma load_temp_runs:
  assumes "cg_wf cg" "placed X (emit_simple OpLdData k cg)" "rep X \<sigma> s" "ctx_ok X" "holds s k v"
    "runs now (pcof (emit_simple OpLdData k cg)) (s\<lparr>vm_stack := v # vm_stack s\<rparr>) Q"
  shows "runs now (pcof cg) s Q"
proof (rule runs_load [OF _ assms(1,2) rep_live [OF assms(3)] assms(6)])
  have "k + byte_width (value_ir_type v) \<le> lk_data X"
    using assms(5) seg_load_bound rep_live [OF assms(3)] by (fastforce simp: holds_def live_def)
  then have "k < 0x1000000" by (rule temp_small [OF assms(4)])
  then show "pushes now (Simple OpLdData (word_of_nat k)) s v"
    using pushes_data [OF rep_live [OF assms(3)]] assms(5) by (simp add: holds_def)
qed

subsection \<open>Loops\<close>

lemma scast_i64_inject: "(scast a :: i64) = scast b \<longleftrightarrow> a = b" for a b :: i32
proof
  assume "(scast a :: i64) = scast b"
  then have "sint (scast a :: i64) = sint (scast b :: i64)" by simp
  then have "sint a = sint b" by (simp add: sint_up_scast is_up)
  then have "(of_int (sint a) :: i32) = of_int (sint b)" by simp
  then show "a = b" by (simp only: of_int_sint scast_id)
qed simp

lemma values_eq_dint [simp]: "values_eq (VDint a) (VDint b) \<longleftrightarrow> a = b"
  by (simp add: values_eq_def scast_i64_inject)

lemma eval_counter:
  "eval_strict BEq a b = Some (VBool (values_eq a b))"
  "eval_strict BSub (VDint m) (VDint n) = Some (VDint (m - n))"
  by (simp_all add: eval_strict_def is_comparison_def arith_op_def int_arith_def)

lemma counter_test_runs:
  assumes "cg_wf cg" "placed X (emit_counter_test k fin cg)" "placed X (place_label fin cf)" "rep X \<sigma> s" "ctx_ok X" "holds s k (VDint m)"
    "\<And>s'. m = 0 \<Longrightarrow> rep X \<sigma> s' \<Longrightarrow> vm_stack s' = vm_stack s \<Longrightarrow> vm_data s' = vm_data s \<Longrightarrow> runs now (pcof cf) s' Q"
    "\<And>s'. m \<noteq> 0 \<Longrightarrow> rep X \<sigma> s' \<Longrightarrow> vm_stack s' = vm_stack s \<Longrightarrow> vm_data s' = vm_data s
      \<Longrightarrow> runs now (pcof (emit_counter_test k fin cg)) s' Q"
  shows "runs now (pcof cg) s Q"
proof -
  let ?a = "emit_simple OpLdData k cg" and ?b = "push_dint 0 (emit_simple OpLdData k cg)"
  let ?c = "emit_simple OpEq 0 ?b"
  have t: "emit_counter_test k fin cg = emit_jmp OpJmpIf fin ?c" by (simp add: emit_counter_test_def)
  have w: "cg_wf ?a" "cg_wf ?b" "cg_wf ?c" using assms(1) by simp_all
  have pj: "placed X (emit_jmp OpJmpIf fin ?c)" using assms(2) t by simp
  note pc = placed_prev(4) [OF w(3) pj] note pb = placed_prev(2) [OF w(2) pc] note pa = placed_prev(3) [OF w(1) pb]
  have l: "live X s" by (rule rep_live [OF assms(4)])
  show ?thesis
  proof (rule load_temp_runs [OF assms(1) pa assms(4,5,6)], rule runs_dint [OF w(1) pb])
    show "runs now (pcof ?b) (s\<lparr>vm_stack := VDint m # vm_stack s,
        vm_stack := VDint 0 # vm_stack (s\<lparr>vm_stack := VDint m # vm_stack s\<rparr>)\<rparr>) Q"
    proof (rule runs_eq [OF w(2) pc _ eval_counter(1)])
      fix n
      let ?s = "s\<lparr>vm_div0_count := n, vm_stack := VBool (values_eq (VDint m) (VDint 0)) # vm_stack s\<rparr>"
      have "runs now (pcof ?c) ?s Q"
      proof (rule runs_branch [OF w(3) pj assms(3)])
        show "vm_stack ?s = VBool (m = 0) # vm_stack s" by simp
      qed (use assms(4,7,8) l t in auto)
      then show "runs now (pcof ?c) (s\<lparr>vm_stack := VDint m # vm_stack s, vm_stack := VDint 0 # vm_stack (s\<lparr>vm_stack := VDint m # vm_stack s\<rparr>),
          vm_div0_count := n, vm_stack := VBool (values_eq (VDint m) (VDint 0)) # vm_stack s\<rparr>) Q" by simp
    qed (use l in simp_all)
  qed (use l in simp)
qed

lemma counter_dec_runs:
  assumes "cg_wf cg" "placed X (emit_counter_dec k cg)" "rep X \<sigma> s" "ctx_ok X" "holds s k (VDint m)"
    "temps_from X \<le> k" "k + 4 \<le> lk_data X"
    "\<And>s'. rep X \<sigma> s' \<Longrightarrow> vm_stack s' = vm_stack s \<Longrightarrow> spares X k s s' \<Longrightarrow> holds s' k (VDint (m - 1)) \<Longrightarrow> runs now (pcof (emit_counter_dec k cg)) s' Q"
  shows "runs now (pcof cg) s Q"
proof -
  let ?a = "emit_simple OpLdData k cg" and ?b = "push_dint 1 (emit_simple OpLdData k cg)"
  let ?c = "emit_simple OpSub 0 ?b"
  have t: "emit_counter_dec k cg = emit_simple OpStData k ?c" by (simp add: emit_counter_dec_def)
  have w: "cg_wf ?a" "cg_wf ?b" "cg_wf ?c" using assms(1) by simp_all
  have pj: "placed X (emit_simple OpStData k ?c)" using assms(2) t by simp
  note pc = placed_prev(2) [OF w(3) pj] note pb = placed_prev(2) [OF w(2) pc] note pa = placed_prev(3) [OF w(1) pb]
  have l: "live X s" by (rule rep_live [OF assms(3)])
  show ?thesis
  proof (rule load_temp_runs [OF assms(1) pa assms(3,4,5)], rule runs_dint [OF w(1) pb])
    show "runs now (pcof ?b) (s\<lparr>vm_stack := VDint m # vm_stack s,
        vm_stack := VDint 1 # vm_stack (s\<lparr>vm_stack := VDint m # vm_stack s\<rparr>)\<rparr>) Q"
    proof (rule runs_sub [OF w(2) pc _ eval_counter(2)])
      fix n
      let ?s = "s\<lparr>vm_div0_count := n, vm_stack := VDint (m - 1) # vm_stack s\<rparr>"
      have "runs now (pcof ?c) ?s Q"
      proof (rule store_temp_runs [OF w(3) pj, where t = TDint])
        show "rep X \<sigma> ?s" using assms(3) by simp
        show "vm_stack ?s = VDint (m - 1) # vm_stack s" by simp
        show "runs now (pcof (emit_simple OpStData k ?c)) s' Q"
          if "rep X \<sigma> s'" "vm_stack s' = vm_stack s" "spares X k ?s s'" "holds s' k (VDint (m - 1))" for s'
          unfolding t [symmetric] by (rule assms(8)) (use that in \<open>simp_all add: spares_def\<close>)
      qed (use assms(4,6,7) in \<open>simp_all add: fits_def\<close>)
      then show "runs now (pcof ?c) (s\<lparr>vm_stack := VDint m # vm_stack s, vm_stack := VDint 1 # vm_stack (s\<lparr>vm_stack := VDint m # vm_stack s\<rparr>),
          vm_div0_count := n, vm_stack := VDint (m - 1) # vm_stack s\<rparr>) Q" by simp
    qed (use l in simp_all)
  qed (use l in simp)
qed

text \<open>The frame of \<open>WHILE\<close> and \<open>FOR\<close>. \<open>P\<close> is what the loop needs from temporaries below its counter.\<close>

lemma loop_runs:
  assumes ctx: "ctx_ok X" and wf: "cg_wf ch" "cg_wf c2"
    and pl: "placed X (place_label head ch)" "placed X (emit_counter_test k fin (place_label head ch))"
      "placed X (place_label fin (emit_jmp OpJmp head (emit_counter_dec k c2)))"
    and k: "temps_from X \<le> k" "k + 4 \<le> lk_data X" "lo \<le> k" "k + 4 \<le> lo'"
    and P: "\<And>s s'. P s \<Longrightarrow> live X s \<Longrightarrow> live X s' \<Longrightarrow> spares X k s s' \<Longrightarrow> P s'"
    and test: "\<And>\<sigma> s b. rep X \<sigma> s \<Longrightarrow> P s \<Longrightarrow> vm_stack s = st \<Longrightarrow> cond \<sigma> = Some b \<Longrightarrow>
      runs now (pcof (emit_counter_test k fin (place_label head ch))) s (\<lambda>pc' s'. rep X \<sigma> s' \<and> vm_stack s' = st \<and> spares X lo' s s'
        \<and> pc' = (if b then pcof cb else pcof (emit_jmp OpJmp head (emit_counter_dec k c2))))"
    and body: "\<And>\<sigma> s out. rep X \<sigma> s \<Longrightarrow> P s \<Longrightarrow> vm_stack s = st \<Longrightarrow> bd \<sigma> = Some out \<Longrightarrow> runs now (pcof cb) s (ran X c2 lo' out st s)"
  shows "while_iter n cond bd \<sigma> = Some out \<Longrightarrow> rep X \<sigma> s \<Longrightarrow> P s \<Longrightarrow> vm_stack s = st \<Longrightarrow> holds s k (VDint m) \<Longrightarrow> unat m = n
    \<Longrightarrow> runs now (pcof ch) s (ran X (emit_jmp OpJmp head (emit_counter_dec k c2)) lo out st s)"
proof (induction n arbitrary: \<sigma> s m)
  case 0
  let ?e = "emit_jmp OpJmp head (emit_counter_dec k c2)"
  have "m = 0" using 0(6) by (simp add: unat_eq_0)
  have "runs now (pcof (place_label head ch)) s (ran X ?e lo out st s)"
  proof (rule counter_test_runs [OF _ pl(2,3) 0(2) ctx 0(5)])
    fix s' assume "rep X \<sigma> s'" "vm_stack s' = vm_stack s" "vm_data s' = vm_data s"
    then show "runs now (pcof ?e) s' (ran X ?e lo out st s)"
      using 0(1,4) by (intro runs_refl) (auto simp: ran_def done_at_def spares_def same_byte_def)
  qed (use wf \<open>m = 0\<close> in simp_all)
  then show ?case by simp
next
  case (Suc n)
  let ?d = "emit_counter_dec k c2"
  let ?e = "emit_jmp OpJmp head ?d"
  have m: "m \<noteq> 0" using Suc.prems(6) by auto
  have wd: "cg_wf ?d" using wf(2) by (simp add: emit_counter_dec_def)
  have pe: "placed X ?e" by (rule placed_prev(5) [OF _ pl(3)]) (use wd in simp)
  have pd: "placed X ?d" by (rule placed_prev(4) [OF wd pe])
  obtain b where b: "cond \<sigma> = Some b" using Suc.prems(1) by (auto split: option.splits)
  have "runs now (pcof (place_label head ch)) s (ran X ?e lo out st s)"
  proof (rule counter_test_runs [OF _ pl(2,3) Suc.prems(2) ctx Suc.prems(5)])
    fix s' assume r: "rep X \<sigma> s'" "vm_stack s' = vm_stack s" "vm_data s' = vm_data s"
    have live: "live X s" "live X s'" using Suc.prems(2) r(1) rep_live by blast+
    have sp: "spares X l s s'" for l using r(3) by (simp add: spares_def same_byte_def)
    have p: "P s'" by (rule P [OF Suc.prems(3) live sp])
    have hs: "holds s' k (VDint m)" using Suc.prems(5) r(3) by (simp add: holds_def)
    have st: "vm_stack s' = st" using r(2) Suc.prems(4) by simp
    show "runs now (pcof (emit_counter_test k fin (place_label head ch))) s' (ran X ?e lo out st s)"
    proof (rule runs_trans [OF test [OF r(1) p st b]])
      fix pc1 s1
      assume q: "rep X \<sigma> s1 \<and> vm_stack s1 = st \<and> spares X lo' s' s1 \<and> pc1 = (if b then pcof cb else pcof ?e)"
      have sp1: "spares X l s s1" if "l \<le> lo'" for l using spares_trans [OF sp] q that by blast
      have l1: "live X s1" using q rep_live by blast
      show "runs now pc1 s1 (ran X ?e lo out st s)"
      proof (cases b)
        case False
        then have "out = Next \<sigma>" using Suc.prems(1) b by simp
        then show ?thesis using q False sp1 [of lo] k(3,4) by (intro runs_refl) (simp add: ran_def done_at_def)
      next
        case True
        then have at: "and_then (bd \<sigma>) (while_iter n cond bd) = Some out" using Suc.prems(1) b by simp
        obtain o1 where o1: "bd \<sigma> = Some o1" using and_then_Some [OF at] by blast
        have p1: "P s1" by (rule P [OF Suc.prems(3) live(1) l1 sp1]) (use k(4) in simp)
        have h1: "holds s1 k (VDint m)"
          by (rule holds_spares [OF hs _ live(2) l1 k(1)]) (use q k(4) in auto)
        have "runs now (pcof cb) s1 (ran X ?e lo out st s)"
        proof (rule ran_then [OF body [OF _ p1 _ o1] at [unfolded o1]])
          fix \<sigma>2 s2
          assume t: "while_iter n cond bd \<sigma>2 = Some out" "rep X \<sigma>2 s2" "vm_stack s2 = st" "spares X lo' s1 s2"
          have l2: "live X s2" by (rule rep_live [OF t(2)])
          have h2: "holds s2 k (VDint m)" by (rule holds_spares [OF h1 t(4) l1 l2 k(1)]) (use k(4) in simp)
          have sp2: "spares X l s s2" if "l \<le> lo'" for l using spares_trans [OF sp1 [OF that] t(4)] that by simp
          show "runs now (pcof c2) s2 (ran X ?e lo out st s)"
          proof (rule counter_dec_runs [OF wf(2) pd t(2) ctx h2 k(1,2)])
            fix s3 assume u: "rep X \<sigma>2 s3" "vm_stack s3 = vm_stack s2" "spares X k s2 s3" "holds s3 k (VDint (m - 1))"
            have l3: "live X s3" by (rule rep_live [OF u(1)])
            have sp3: "spares X k s s3" using spares_trans [OF sp2 u(3)] k(4) by simp
            have p3: "P s3" by (rule P [OF Suc.prems(3) live(1) l3 sp3])
            have n: "unat (m - 1) = n" using unat_pred [OF m] Suc.prems(6) by simp
            show "runs now (pcof ?d) s3 (ran X ?e lo out st s)"
            proof (rule runs_jmp [OF wd pe pl(1) l3])
              have "runs now (pcof ch) s3 (ran X ?e lo out st s3)"
                by (rule Suc.IH [OF t(1) u(1) p3 _ u(4) n]) (use u(2) t(3) in simp)
              then show "runs now (pcof ch) s3 (ran X ?e lo out st s)"
                by (rule runs_weaken) (use k(3) sp3 in \<open>auto simp: spares_def\<close>)
            qed
          qed
        qed (use q in simp_all)
        then show ?thesis using True q by simp
      qed
    qed
  qed (use wf m in simp_all)
  then show ?case by simp
qed

subsection \<open>Statements and lists of them\<close>

definition stmt_ok :: "link_ctx \<Rightarrow> (string list \<Rightarrow> string list) \<Rightarrow> u64 \<Rightarrow> stmt \<Rightarrow> bool" where
  "stmt_ok X ord now x \<longleftrightarrow> (\<forall>cg cg' \<sigma> s out.
     emit_stmt ord x cg = Inr cg' \<longrightarrow> cg_wf cg \<longrightarrow> placed X cg' \<longrightarrow> rep X \<sigma> s
       \<longrightarrow> exec (globals_env (lk_globals X)) now x \<sigma> = Some out
       \<longrightarrow> runs now (pcof cg) s (ran X cg' (cg_extra_data cg) out (vm_stack s) s))"

abbreviation emit_all :: "(string list \<Rightarrow> string list) \<Rightarrow> stmt list \<Rightarrow> codegen \<Rightarrow> codegen cres" where
  "emit_all ord b cg \<equiv> emit_stmts (\<lambda>s cg. emit_stmt ord s cg) b cg"

abbreviation exec_all :: "link_ctx \<Rightarrow> u64 \<Rightarrow> stmt list \<Rightarrow> src_op" where
  "exec_all X now b \<sigma> \<equiv> run_stmts (\<lambda>s \<sigma>. exec (globals_env (lk_globals X)) now s \<sigma>) b \<sigma>"

lemma emit_all_grows: "emit_all ord b cg = Inr cg' \<Longrightarrow> grows cg cg'"
  by (rule ext_grow, erule emit_stmts_ext [rotated]) (rule emit_stmt_ext)

lemma stmts_run:
  assumes "\<And>x. x \<in> set b \<Longrightarrow> stmt_ok X ord now x" "emit_all ord b cg = Inr cg'" "cg_wf cg" "placed X cg'" "rep X \<sigma> s"
    "exec_all X now b \<sigma> = Some out"
  shows "runs now (pcof cg) s (ran X cg' (cg_extra_data cg) out (vm_stack s) s)"
  using assms
proof (induction b arbitrary: cg \<sigma> s)
  case Nil
  then show ?case by (auto simp: emit_stmts_def ran_def done_at_def intro!: runs_refl)
next
  case (Cons x b)
  obtain c1 where c1: "emit_stmt ord x cg = Inr c1" "emit_all ord b c1 = Inr cg'"
    using Cons.prems(2) by (auto simp: emit_stmts_def rbind_eq_Inr)
  have at: "and_then (exec (globals_env (lk_globals X)) now x \<sigma>) (exec_all X now b) = Some out" using Cons.prems(6) by simp
  then obtain o1 where o1: "exec (globals_env (lk_globals X)) now x \<sigma> = Some o1" using and_then_Some by blast
  have g: "grows cg c1" "grows c1 cg'" using ext_grow [OF emit_stmt_ext [OF c1(1)]] emit_all_grows [OF c1(2)] .
  note w = between [OF Cons.prems(3) g Cons.prems(4)]
  have "stmt_ok X ord now x" by (rule Cons.prems(1)) simp
  then have "runs now (pcof cg) s (ran X c1 (cg_extra_data cg) o1 (vm_stack s) s)"
    using c1(1) Cons.prems(3,5) w(2) o1 by (simp add: stmt_ok_def)
  then show ?case
  proof (rule ran_then [OF _ at [unfolded o1]])
    fix \<sigma>1 s1
    assume r: "exec_all X now b \<sigma>1 = Some out" "rep X \<sigma>1 s1" "vm_stack s1 = vm_stack s" "spares X (cg_extra_data cg) s s1"
    have "runs now (pcof c1) s1 (ran X cg' (cg_extra_data c1) out (vm_stack s1) s1)"
      by (rule Cons.IH [OF Cons.prems(1) c1(2) w(1) Cons.prems(4) r(2,1)]) simp
    then show "runs now (pcof c1) s1 (ran X cg' (cg_extra_data cg) out (vm_stack s) s)"
      unfolding r(3) by (rule runs_weaken [OF _ r(4) grow_keeps(3) [OF g(1)]])
  qed
qed

lemma else_runs:
  assumes "\<And>b x. eb = Some b \<Longrightarrow> x \<in> set b \<Longrightarrow> stmt_ok X ord now x" "emit_else (\<lambda>s cg. emit_stmt ord s cg) eb cg = Inr cg'"
    "cg_wf cg" "placed X cg'" "rep X \<sigma> s" "run_else (\<lambda>s \<sigma>. exec (globals_env (lk_globals X)) now s \<sigma>) eb \<sigma> = Some out"
  shows "runs now (pcof cg) s (ran X cg' (cg_extra_data cg) out (vm_stack s) s)"
proof (cases eb)
  case None
  then show ?thesis using assms(2,5,6) by (auto simp: emit_else_def run_else_def ran_def done_at_def intro!: runs_refl)
next
  case (Some b)
  show ?thesis by (rule stmts_run [OF assms(1) [OF Some] _ assms(3-5)]) (use assms(2,6) Some in \<open>simp_all add: emit_else_def run_else_def\<close>)
qed

lemma else_grows: "emit_else (\<lambda>s cg. emit_stmt ord s cg) eb cg = Inr cg' \<Longrightarrow> grows cg cg'"
  by (rule ext_grow, erule emit_else_ext [rotated]) (rule emit_stmt_ext)

subsection \<open>Conditions\<close>

lemma as_bool_Some: "as_bool v = Some b \<longleftrightarrow> v = Some (VBool b)"
  by (auto simp: as_bool_def split: option.splits vm_value.splits)

text \<open>A condition followed by a conditional jump.\<close>

lemma cond_runs:
  assumes "ctx_ok X" "emit_expr ord e cg = Inr (c1, t)" "cg_wf cg" "placed X (emit_jmp op l c1)" "placed X (place_label l c2)"
    "op \<in> {OpJmpIf, OpJmpIfNot}" "rep X \<sigma> s" "as_bool (eval (globals_env (lk_globals X)) \<sigma> e) = Some b"
    "\<And>s'. rep X \<sigma> s' \<Longrightarrow> vm_stack s' = vm_stack s \<Longrightarrow> spares X (cg_extra_data cg) s s' \<Longrightarrow> b = (op = OpJmpIf) \<Longrightarrow> runs now (pcof c2) s' Q"
    "\<And>s'. rep X \<sigma> s' \<Longrightarrow> vm_stack s' = vm_stack s \<Longrightarrow> spares X (cg_extra_data cg) s s' \<Longrightarrow> b \<noteq> (op = OpJmpIf)
      \<Longrightarrow> runs now (pcof (emit_jmp op l c1)) s' Q"
  shows "runs now (pcof cg) s Q"
proof -
  have v: "eval (globals_env (lk_globals X)) \<sigma> e = Some (VBool b)" using assms(8) by (simp add: as_bool_Some)
  have g: "grows cg c1" using ext_grow [OF emit_expr_ext [OF assms(2)]] by simp
  have w: "cg_wf c1" "placed X c1" using between [OF assms(3) g grow_emit_jmp_self assms(4)] .
  show ?thesis
  proof (rule runs_trans [OF expr_okD(2) [OF emit_expr_runs [OF assms(1)] assms(2,3) w(2) assms(7) v]])
    fix pc1 s1 assume "pushed X cg c1 \<sigma> (VBool b) s pc1 s1"
    note p = pushedD [OF this]
    show "runs now pc1 s1 Q" unfolding p(1)
      by (rule runs_branch [OF w(1) assms(4,5) p(4) assms(6) p(2)]) (use assms(9,10) p in simp_all)
  qed
qed

subsection \<open>\<open>IF\<close>\<close>

lemma emit_branch_obtain:
  assumes "emit_branches ord (\<lambda>s cg. emit_stmt ord s cg) he fin ((e, b) # brs) cg = Inr cg'"
  obtains c1 c2 c3 where "emit_expr ord e (snd (fresh_label ''if_next'' cg)) = Inr (c1, TBool)"
    "emit_all ord b (emit_jmp OpJmpIfNot (fst (fresh_label ''if_next'' cg)) c1) = Inr c2"
    "c3 = (if brs \<noteq> [] \<or> he then emit_jmp OpJmp fin c2 else c2)"
    "emit_branches ord (\<lambda>s cg. emit_stmt ord s cg) he fin brs (place_label (fst (fresh_label ''if_next'' cg)) c3) = Inr cg'"
  using assms by (auto simp: Let_def case_prod_beta rbind_eq_Inr split: if_splits)

lemma branches_grow: "emit_branches ord (\<lambda>s cg. emit_stmt ord s cg) he fin brs cg = Inr cg' \<Longrightarrow> grows cg cg'"
  by (rule ext_grow, erule emit_branches_ext [rotated]) (rule emit_stmt_ext)

lemma branches_run:
  assumes ctx: "ctx_ok X" and els: "\<And>b x. eb = Some b \<Longrightarrow> x \<in> set b \<Longrightarrow> stmt_ok X ord now x"
    and c: "emit_else (\<lambda>s cg. emit_stmt ord s cg) eb c1 = Inr c2" "placed X (place_label fin c2)"
  shows "(\<And>b x. b \<in> snd ` set brs \<Longrightarrow> x \<in> set b \<Longrightarrow> stmt_ok X ord now x)
    \<Longrightarrow> emit_branches ord (\<lambda>s cg. emit_stmt ord s cg) (eb \<noteq> None) fin brs cg = Inr c1 \<Longrightarrow> cg_wf cg \<Longrightarrow> rep X \<sigma> s
    \<Longrightarrow> run_branches (globals_env (lk_globals X)) (\<lambda>s \<sigma>. exec (globals_env (lk_globals X)) now s \<sigma>) brs eb \<sigma> = Some out
    \<Longrightarrow> runs now (pcof cg) s (ran X c2 (cg_extra_data cg) out (vm_stack s) s)"
proof (induction brs arbitrary: cg s)
  case Nil
  have wf: "cg_wf c2" using grow_wf [OF else_grows [OF c(1)]] Nil by simp
  show ?case by (rule else_runs [OF els]) (use Nil c placed_prev(5) [OF wf] in simp_all)
next
  case (Cons x brs)
  obtain e b where x: "x = (e, b)" by force
  let ?f = "fresh_label ''if_next'' cg"
  obtain d1 d2 d3 where d: "emit_expr ord e (snd ?f) = Inr (d1, TBool)" "emit_all ord b (emit_jmp OpJmpIfNot (fst ?f) d1) = Inr d2"
    "d3 = (if brs \<noteq> [] \<or> eb \<noteq> None then emit_jmp OpJmp fin d2 else d2)"
    "emit_branches ord (\<lambda>s cg. emit_stmt ord s cg) (eb \<noteq> None) fin brs (place_label (fst ?f) d3) = Inr c1"
    using emit_branch_obtain [OF Cons.prems(2) [unfolded x]] by blast
  let ?j = "emit_jmp OpJmpIfNot (fst ?f) d1" and ?n = "place_label (fst ?f) d3"
  have g: "grows cg d1" "grows d1 ?j" "grows ?j d2" "grows d2 d3" "grows d3 ?n" "grows ?n c1" "grows c1 (place_label fin c2)"
    using grow_trans [OF grow_fresh_self ext_grow [OF emit_expr_ext [OF d(1)]]] emit_all_grows [OF d(2)] branches_grow [OF d(4)]
      else_grows [OF c(1)] by (auto simp: d(3) intro: grow_intros grow_emit_jmp_self)
  have gj: "grows cg ?j" "grows cg d2" "grows cg d3" "grows cg ?n" using g grow_trans by blast+
  have rj: "grows d3 (place_label fin c2)" "grows d2 (place_label fin c2)" "grows ?j (place_label fin c2)" "grows ?n (place_label fin c2)"
    using g grow_trans by blast+
  note wj = between [OF Cons.prems(3) gj(1) rj(3) c(2)] and w2 = between [OF Cons.prems(3) gj(2) rj(2) c(2)]
    and w3 = between [OF Cons.prems(3) gj(3) rj(1) c(2)] and wn = between [OF Cons.prems(3) gj(4) rj(4) c(2)]
  have wf0: "cg_wf (snd ?f)" using Cons.prems(3) by simp
  obtain p where p: "as_bool (eval (globals_env (lk_globals X)) \<sigma> e) = Some p" using Cons.prems(5) x by (auto split: option.splits)
  let ?Q = "ran X c2 (cg_extra_data cg) out (vm_stack s) s"
  have "runs now (pcof (snd ?f)) s ?Q"
  proof (rule cond_runs [OF ctx d(1) wf0 wj(2) wn(2) _ Cons.prems(4) p])
    fix s1 assume s1: "rep X \<sigma> s1" "vm_stack s1 = vm_stack s" "spares X (cg_extra_data (snd ?f)) s s1"
    {
      assume "p = (OpJmpIfNot = OpJmpIf)"
      then have ex: "run_branches (globals_env (lk_globals X)) (\<lambda>s \<sigma>. exec (globals_env (lk_globals X)) now s \<sigma>) brs eb \<sigma> = Some out"
        using Cons.prems(5) x p by simp
      have "runs now (pcof ?n) s1 (ran X c2 (cg_extra_data ?n) out (vm_stack s1) s1)"
        by (rule Cons.IH [OF Cons.prems(1) d(4) wn(1) s1(1) ex]) auto
      then show "runs now (pcof d3) s1 ?Q"
        unfolding s1(2) pcof_simps by (rule runs_weaken) (use s1(3) grow_keeps(3) [OF gj(4)] in simp_all)
    }
    assume "p \<noteq> (OpJmpIfNot = OpJmpIf)"
    then have ex: "exec_all X now b \<sigma> = Some out" using Cons.prems(5) x p by simp
    have ok: "stmt_ok X ord now y" if "y \<in> set b" for y by (rule Cons.prems(1) [OF _ that]) (simp add: x)
    have "runs now (pcof ?j) s1 (ran X d2 (cg_extra_data ?j) out (vm_stack s1) s1)"
      by (rule stmts_run [OF ok d(2) wj(1) w2(2) s1(1) ex])
    then have "runs now (pcof ?j) s1 (ran X d2 (cg_extra_data cg) out (vm_stack s) s)"
      unfolding s1(2) by (rule runs_weaken) (use s1(3) grow_keeps(3) [OF gj(1)] in simp_all)
    then show "runs now (pcof ?j) s1 ?Q"
    proof (rule ran_then [where f = "\<lambda>\<sigma>. Some (Next \<sigma>)"])
      show "and_then (Some out) (\<lambda>\<sigma>. Some (Next \<sigma>)) = Some out" by (cases out) (simp_all add: and_then_def)
      fix \<sigma>2 s2
      assume t: "Some (Next \<sigma>2) = Some out" "rep X \<sigma>2 s2" "vm_stack s2 = vm_stack s" "spares X (cg_extra_data cg) s s2"
      then have q: "runs now (pcof c2) s2 ?Q" by (intro runs_refl) (auto simp: ran_def done_at_def)
      show "runs now (pcof d2) s2 ?Q"
      proof (cases "brs \<noteq> [] \<or> eb \<noteq> None")
        case True
        then show ?thesis using runs_jmp [OF w2(1) _ c(2) rep_live [OF t(2)] q] w3(2) d(3) by simp
      next
        case False
        then have "pcof c2 = pcof d2" using d(3,4) c(1) by (auto simp: emit_else_def)
        then show ?thesis using q by simp
      qed
    qed
  qed simp
  then show ?case by simp
qed

subsection \<open>\<open>CASE\<close>\<close>

text \<open>The tests of one arm go to the body when a label matches and to the next arm otherwise.\<close>

lemma case_labels_run:
  assumes "ctx_ok X" "placed X (place_label body_l cb)" "placed X (place_label next_l cn)"
  shows "cg_wf cg \<Longrightarrow> placed X (emit_case_labels tmp body_l next_l labs cg) \<Longrightarrow> rep X \<sigma> s \<Longrightarrow> holds s tmp v
    \<Longrightarrow> pcof cb = pcof (emit_case_labels tmp body_l next_l labs cg)
    \<Longrightarrow> (\<And>s'. rep X \<sigma> s' \<Longrightarrow> vm_stack s' = vm_stack s \<Longrightarrow> vm_data s' = vm_data s \<Longrightarrow>
          runs now (if labs = [] \<or> list_ex (\<lambda>lab. values_eq v (VDint (ucast lab))) labs then pcof cb else pcof cn) s' Q)
    \<Longrightarrow> runs now (pcof cg) s Q"
proof (induction labs arbitrary: cg s)
  case (Cons lab labs)
  let ?a = "emit_simple OpLdData tmp cg"
  let ?b = "push_dint (ucast lab) ?a"
  let ?c = "emit_simple OpEq 0 ?b"
  let ?op = "if labs = [] then OpJmpIfNot else OpJmpIf" and ?l = "if labs = [] then next_l else body_l"
  let ?j = "emit_jmp ?op ?l ?c"
  have e: "emit_case_labels tmp body_l next_l (lab # labs) cg = emit_case_labels tmp body_l next_l labs ?j"
    by (simp add: Let_def)
  have w: "cg_wf ?a" "cg_wf ?b" "cg_wf ?c" "cg_wf ?j" using Cons.prems(1) by simp_all
  have pj: "placed X ?j"
    using placed_back [OF ext_grow [OF emit_case_labels_ext [OF ext_refl]] w(4)] Cons.prems(2) unfolding e by blast
  note pc = placed_prev(4) [OF w(3) pj] note pb = placed_prev(2) [OF w(2) pc] note pa = placed_prev(3) [OF w(1) pb]
  have l: "live X s" by (rule rep_live [OF Cons.prems(3)])
  let ?m = "values_eq v (VDint (ucast lab))"
  have jump: "runs now (pcof ?c) s' Q" if s': "rep X \<sigma> s'" "vm_stack s' = VBool ?m # vm_stack s" "vm_data s' = vm_data s" for s'
  proof (rule runs_branch [where b = ?m and st = "vm_stack s", OF w(3) pj])
    show "placed X (place_label ?l (if labs = [] then cn else cb))" using assms(2,3) by simp
    let ?s = "s'\<lparr>vm_stack := vm_stack s\<rparr>"
    have r: "rep X \<sigma> ?s" "vm_stack ?s = vm_stack s" "vm_data ?s = vm_data s" using s' by simp_all
    show "runs now (pcof (if labs = [] then cn else cb)) ?s Q" if "?m = (?op = OpJmpIf)"
      using Cons.prems(6) [OF r] that by (cases "labs = []") auto
    show "runs now (pcof ?j) ?s Q" if m: "?m \<noteq> (?op = OpJmpIf)"
    proof (rule Cons.IH [OF w(4)])
      show "placed X (emit_case_labels tmp body_l next_l labs ?j)" using Cons.prems(2) unfolding e .
      show "holds ?s tmp v" using Cons.prems(4) s'(3) by (simp add: holds_def)
      show "pcof cb = pcof (emit_case_labels tmp body_l next_l labs ?j)" using Cons.prems(5) unfolding e .
      show "runs now (if labs = [] \<or> list_ex (\<lambda>lab. values_eq v (VDint (ucast lab))) labs then pcof cb else pcof cn) s'' Q"
        if "rep X \<sigma> s''" "vm_stack s'' = vm_stack ?s" "vm_data s'' = vm_data ?s" for s''
        using Cons.prems(6) [of s''] that r m by (cases "labs = []") auto
    qed (rule r(1))
  qed (use s' rep_live [OF s'(1)] in auto)
  show ?case
  proof (rule load_temp_runs [OF Cons.prems(1) pa Cons.prems(3) assms(1) Cons.prems(4)], rule runs_dint [OF w(1) pb])
    show "runs now (pcof ?b) (s\<lparr>vm_stack := v # vm_stack s,
        vm_stack := VDint (ucast lab) # vm_stack (s\<lparr>vm_stack := v # vm_stack s\<rparr>)\<rparr>) Q"
      by (rule runs_eq [OF w(2) pc _ eval_counter(1)], use l in simp, simp, rule jump) (use Cons.prems(3) in simp_all)
  qed (use l in simp)
qed simp

definition arm_head :: "nat \<Rightarrow> i64 list \<Rightarrow> codegen \<Rightarrow> codegen" where
  "arm_head tmp labs cg =
     (let (body_l, cg) = fresh_label ''case_body'' cg; (next_l, cg) = fresh_label ''case_next'' cg
      in emit_case_labels tmp body_l next_l labs cg)"

definition arm_labels :: "codegen \<Rightarrow> label \<times> label" where
  "arm_labels cg = (fst (fresh_label ''case_body'' cg), fst (fresh_label ''case_next'' (snd (fresh_label ''case_body'' cg))))"

lemma arm_head_eq:
  "arm_head tmp labs cg = emit_case_labels tmp (fst (arm_labels cg)) (snd (arm_labels cg)) labs
     (snd (fresh_label ''case_next'' (snd (fresh_label ''case_body'' cg))))"
  by (simp add: arm_head_def arm_labels_def Let_def case_prod_beta)

lemma emit_arm_obtain:
  assumes "emit_arms (\<lambda>s cg. emit_stmt ord s cg) tmp fin (CaseArm labs b # arms) cg = Inr cg'"
  obtains c2 where "emit_all ord b (place_label (fst (arm_labels cg)) (arm_head tmp labs cg)) = Inr c2"
    "emit_arms (\<lambda>s cg. emit_stmt ord s cg) tmp fin arms (place_label (snd (arm_labels cg)) (emit_jmp OpJmp fin c2)) = Inr cg'"
  using assms by (auto simp: arm_head_def arm_labels_def Let_def case_prod_beta rbind_eq_Inr)

lemma arms_grow: "emit_arms (\<lambda>s cg. emit_stmt ord s cg) tmp fin arms cg = Inr cg' \<Longrightarrow> grows cg cg'"
  by (rule ext_grow, erule emit_arms_ext [rotated]) (rule emit_stmt_ext)

lemma arm_head_grows: "grows cg (arm_head tmp labs cg)"
  using grow_trans [OF grow_trans [OF grow_fresh_self grow_fresh_self] ext_grow [OF emit_case_labels_ext [OF ext_refl]]]
  by (simp add: arm_head_eq)

lemma arms_run:
  assumes ctx: "ctx_ok X" and els: "\<And>b x. eb = Some b \<Longrightarrow> x \<in> set b \<Longrightarrow> stmt_ok X ord now x"
    and c: "emit_else (\<lambda>s cg. emit_stmt ord s cg) eb c1 = Inr c2" "placed X (place_label fin c2)"
    and tmp: "temps_from X \<le> tmp" "tmp + byte_width (value_ir_type v) \<le> lo"
  shows "(\<And>b x. b \<in> arm_body ` set arms \<Longrightarrow> x \<in> set b \<Longrightarrow> stmt_ok X ord now x)
    \<Longrightarrow> emit_arms (\<lambda>s cg. emit_stmt ord s cg) tmp fin arms cg = Inr c1 \<Longrightarrow> cg_wf cg \<Longrightarrow> rep X \<sigma> s \<Longrightarrow> holds s tmp v
    \<Longrightarrow> lo \<le> cg_extra_data cg
    \<Longrightarrow> run_arms (\<lambda>s \<sigma>. exec (globals_env (lk_globals X)) now s \<sigma>) v arms eb \<sigma> = Some out
    \<Longrightarrow> runs now (pcof cg) s (ran X c2 lo out (vm_stack s) s)"
proof (induction arms arbitrary: cg s)
  case Nil
  have wf: "cg_wf c2" using grow_wf [OF else_grows [OF c(1)]] Nil by simp
  have "runs now (pcof cg) s (ran X c2 (cg_extra_data cg) out (vm_stack s) s)"
    by (rule else_runs [OF els]) (use Nil c placed_prev(5) [OF wf] in simp_all)
  then show ?case by (rule runs_weaken) (use Nil in simp_all)
next
  case (Cons a arms)
  obtain labs b where a: "a = CaseArm labs b" by (cases a)
  let ?h = "arm_head tmp labs cg" and ?p = "place_label (fst (arm_labels cg)) (arm_head tmp labs cg)"
  obtain d where d: "emit_all ord b ?p = Inr d"
    "emit_arms (\<lambda>s cg. emit_stmt ord s cg) tmp fin arms (place_label (snd (arm_labels cg)) (emit_jmp OpJmp fin d)) = Inr c1"
    by (rule emit_arm_obtain [OF Cons.prems(2) [unfolded a]])
  let ?j = "emit_jmp OpJmp fin d" and ?n = "place_label (snd (arm_labels cg)) (emit_jmp OpJmp fin d)"
  have g: "grows cg ?h" "grows ?h ?p" "grows ?p d" "grows d ?j" "grows ?j ?n" "grows ?n c1" "grows c1 (place_label fin c2)"
    using arm_head_grows emit_all_grows [OF d(1)] arms_grow [OF d(2)] else_grows [OF c(1)] by (auto intro: grow_intros grow_emit_jmp_self)
  have gp: "grows cg ?p" "grows cg d" "grows cg ?j" "grows cg ?n" using g grow_trans by blast+
  have rp: "grows ?h (place_label fin c2)" "grows ?p (place_label fin c2)" "grows d (place_label fin c2)" "grows ?j (place_label fin c2)"
    "grows ?n (place_label fin c2)"
    using g grow_trans by blast+
  note wh = between [OF Cons.prems(3) g(1) rp(1) c(2)] and wp = between [OF Cons.prems(3) gp(1) rp(2) c(2)]
    and wd = between [OF Cons.prems(3) gp(2) rp(3) c(2)] and wj = between [OF Cons.prems(3) gp(3) rp(4) c(2)]
    and wn = between [OF Cons.prems(3) gp(4) rp(5) c(2)]
  let ?Q = "ran X c2 lo out (vm_stack s) s"
  let ?c0 = "snd (fresh_label ''case_next'' (snd (fresh_label ''case_body'' cg)))"
  have "runs now (pcof ?c0) s ?Q"
  proof (rule case_labels_run [OF ctx wp(2) wn(2) _ _ Cons.prems(4,5)])
    show "cg_wf ?c0" using Cons.prems(3) by simp
    show "placed X (emit_case_labels tmp (fst (arm_labels cg)) (snd (arm_labels cg)) labs ?c0)" using wh(2) by (simp add: arm_head_eq)
    show "pcof ?h = pcof (emit_case_labels tmp (fst (arm_labels cg)) (snd (arm_labels cg)) labs ?c0)" by (simp add: arm_head_eq)
    fix s1 assume s1: "rep X \<sigma> s1" "vm_stack s1 = vm_stack s" "vm_data s1 = vm_data s"
    have sp: "spares X l s s1" for l using s1(3) by (simp add: spares_def same_byte_def)
    have h1: "holds s1 tmp v" using Cons.prems(5) s1(3) by (simp add: holds_def)
    let ?m = "labs = [] \<or> list_ex (\<lambda>lab. values_eq v (VDint (ucast lab))) labs"
    show "runs now (if ?m then pcof ?h else pcof ?j) s1 ?Q"
    proof (cases ?m)
      case False
      have "run_arms (\<lambda>s \<sigma>. exec (globals_env (lk_globals X)) now s \<sigma>) v arms eb \<sigma> = Some out" using Cons.prems(7) a False by simp
      moreover have "lo \<le> cg_extra_data ?n" using Cons.prems(6) grow_keeps(3) [OF gp(4)] by simp
      ultimately have "runs now (pcof ?n) s1 (ran X c2 lo out (vm_stack s1) s1)"
        by (intro Cons.IH [OF Cons.prems(1) d(2) wn(1) s1(1) h1]) auto
      then have "runs now (pcof ?n) s1 ?Q" unfolding s1(2) by (rule runs_weaken) (rule sp, simp)
      then show ?thesis using False by simp
    next
      case True
      then have ex: "exec_all X now b \<sigma> = Some out" using Cons.prems(7) a by simp
      have ok: "stmt_ok X ord now y" if "y \<in> set b" for y by (rule Cons.prems(1) [OF _ that]) (simp add: a)
      have "runs now (pcof ?p) s1 (ran X d (cg_extra_data ?p) out (vm_stack s1) s1)"
        by (rule stmts_run [OF ok d(1) wp(1) wd(2) s1(1) ex])
      then have "runs now (pcof ?p) s1 (ran X d lo out (vm_stack s) s)"
        unfolding s1(2) by (rule runs_weaken [OF _ sp]) (use Cons.prems(6) grow_keeps(3) [OF gp(1)] in simp)
      then have "runs now (pcof ?p) s1 ?Q"
      proof (rule ran_then [where f = "\<lambda>\<sigma>. Some (Next \<sigma>)"])
        show "and_then (Some out) (\<lambda>\<sigma>. Some (Next \<sigma>)) = Some out" by (cases out) (simp_all add: and_then_def)
        fix \<sigma>2 s2
        assume t: "Some (Next \<sigma>2) = Some out" "rep X \<sigma>2 s2" "vm_stack s2 = vm_stack s" "spares X lo s s2"
        then have q: "runs now (pcof c2) s2 ?Q" by (intro runs_refl) (auto simp: ran_def done_at_def)
        show "runs now (pcof d) s2 ?Q" by (rule runs_jmp [OF wd(1) wj(2) c(2) rep_live [OF t(2)] q])
      qed
      then show ?thesis using True by simp
    qed
  qed
  then show ?case by simp
qed

subsection \<open>Each kind of statement\<close>

lemma stmt_ok_return: "stmt_ok X ord now (SReturn sp)"
  unfolding stmt_ok_def
proof (intro allI impI)
  fix cg cg' \<sigma> s out
  assume h: "emit_stmt ord (SReturn sp) cg = Inr cg'" "cg_wf cg" "placed X cg'" "rep X \<sigma> s"
    "exec (globals_env (lk_globals X)) now (SReturn sp) \<sigma> = Some out"
  have "linked (lk_labels X) (lk_code X) (emit (Simple OpRet 0) cg)" using h(1,3) by (auto simp: placed_def emit_simple_def)
  from decode_emit [OF _ h(2) this]
  have "decode_instruction (lk_code X) (pcof cg) = Inr (Simple OpRet 0, 4)" by simp
  then show "runs now (pcof cg) s (ran X cg' (cg_extra_data cg) out (vm_stack s) s)"
    using h(4,5) by (intro runs_refl) (auto simp: ran_def)
qed

lemma stmt_ok_assign:
  assumes "ctx_ok X"
  shows "stmt_ok X ord now (SAssign lhs rhs sp)"
  unfolding stmt_ok_def
proof (intro allI impI)
  fix cg cg' \<sigma> s out
  assume h: "emit_stmt ord (SAssign lhs rhs sp) cg = Inr cg'" "cg_wf cg" "placed X cg'" "rep X \<sigma> s"
    "exec (globals_env (lk_globals X)) now (SAssign lhs rhs sp) \<sigma> = Some out"
  obtain c1 t where c1: "emit_expr ord rhs cg = Inr (c1, t)" "emit_store lhs t c1 = Inr cg'"
    using h(1) by (auto simp: rbind_eq_Inr)
  obtain v \<sigma>' where v: "eval (globals_env (lk_globals X)) \<sigma> rhs = Some v" "write_expr (globals_env (lk_globals X)) lhs v \<sigma> = Some \<sigma>'"
    "out = Next \<sigma>'"
    using h(5) by (auto split: option.splits)
  have g: "grows cg c1" "grows c1 cg'" using ext_grow [OF emit_expr_ext [OF c1(1)]] ext_grow [OF emit_store_ext [OF c1(2)]] by simp_all
  note w = between [OF h(2) g h(3)]
  show "runs now (pcof cg) s (ran X cg' (cg_extra_data cg) out (vm_stack s) s)"
  proof (rule runs_trans [OF expr_okD(2) [OF emit_expr_runs [OF assms] c1(1) h(2) w(2) h(4) v(1)]])
    fix pc1 s1 assume "pushed X cg c1 \<sigma> v s pc1 s1"
    note p = pushedD [OF this]
    show "runs now pc1 s1 (ran X cg' (cg_extra_data cg) out (vm_stack s) s)" unfolding p(1)
      by (rule runs_mono [OF emit_store_runs [OF assms c1(2) w(1) h(3) p(3,2) v(2)]])
        (use v(3) spares_trans [OF p(5)] in \<open>auto simp: ran_def done_at_def\<close>)
  qed
qed

lemma stmt_ok_call:
  assumes "ctx_ok X"
  shows "stmt_ok X ord now (SFbCall call sp)"
  unfolding stmt_ok_def
proof (intro allI impI)
  fix cg cg' \<sigma> s out
  assume h: "emit_stmt ord (SFbCall call sp) cg = Inr cg'" "cg_wf cg" "placed X cg'" "rep X \<sigma> s"
    "exec (globals_env (lk_globals X)) now (SFbCall call sp) \<sigma> = Some out"
  obtain \<sigma>' where v: "call_block (globals_env (lk_globals X)) now call \<sigma> = Some \<sigma>'" "out = Next \<sigma>'" using h(5) by auto
  show "runs now (pcof cg) s (ran X cg' (cg_extra_data cg) out (vm_stack s) s)"
    by (rule runs_mono [OF emit_fb_call_runs [OF assms _ h(2-4) v(1)]]) (use h(1) v(2) in \<open>simp_all add: ran_def\<close>)
qed

lemma stmt_ok_if:
  assumes "ctx_ok X" "\<And>b x. b \<in> snd ` set brs \<Longrightarrow> x \<in> set b \<Longrightarrow> stmt_ok X ord now x"
    "\<And>b x. eb = Some b \<Longrightarrow> x \<in> set b \<Longrightarrow> stmt_ok X ord now x"
  shows "stmt_ok X ord now (SIf brs eb sp)"
  unfolding stmt_ok_def
proof (intro allI impI)
  fix cg cg' \<sigma> s out
  assume h: "emit_stmt ord (SIf brs eb sp) cg = Inr cg'" "cg_wf cg" "placed X cg'" "rep X \<sigma> s"
    "exec (globals_env (lk_globals X)) now (SIf brs eb sp) \<sigma> = Some out"
  let ?f = "fresh_label ''if_end'' cg"
  obtain c1 c2 where c: "emit_branches ord (\<lambda>s cg. emit_stmt ord s cg) (eb \<noteq> None) (fst ?f) brs (snd ?f) = Inr c1"
    "emit_else (\<lambda>s cg. emit_stmt ord s cg) eb c1 = Inr c2" "cg' = place_label (fst ?f) c2"
    using h(1) by (auto simp: Let_def case_prod_beta rbind_eq_Inr)
  have "runs now (pcof (snd ?f)) s (ran X c2 (cg_extra_data (snd ?f)) out (vm_stack s) s)"
    by (rule branches_run [OF assms(1,3) c(2) _ assms(2) c(1) _ h(4)]) (use h(2,3,5) c(3) in simp_all)
  then show "runs now (pcof cg) s (ran X cg' (cg_extra_data cg) out (vm_stack s) s)" by (simp add: c(3))
qed

lemma stmt_ok_case:
  assumes "ctx_ok X" "\<And>b x. b \<in> arm_body ` set arms \<Longrightarrow> x \<in> set b \<Longrightarrow> stmt_ok X ord now x"
    "\<And>b x. eb = Some b \<Longrightarrow> x \<in> set b \<Longrightarrow> stmt_ok X ord now x"
  shows "stmt_ok X ord now (SCase sel arms eb sp)"
  unfolding stmt_ok_def
proof (intro allI impI)
  fix cg cg' \<sigma> s out
  assume h: "emit_stmt ord (SCase sel arms eb sp) cg = Inr cg'" "cg_wf cg" "placed X cg'" "rep X \<sigma> s"
    "exec (globals_env (lk_globals X)) now (SCase sel arms eb sp) \<sigma> = Some out"
  obtain c0 t where e: "emit_expr ord sel cg = Inr (c0, t)" using h(1) by (auto simp: rbind_eq_Inr)
  let ?k = "alloc_temp t c0"
  let ?st = "emit_simple OpStData (fst ?k) (snd ?k)"
  let ?f = "fresh_label ''case_end'' ?st"
  obtain c1 c2 where c: "emit_arms (\<lambda>s cg. emit_stmt ord s cg) (fst ?k) (fst ?f) arms (snd ?f) = Inr c1"
    "emit_else (\<lambda>s cg. emit_stmt ord s cg) eb c1 = Inr c2" "cg' = place_label (fst ?f) c2"
    using h(1) e by (auto simp: Let_def case_prod_beta rbind_eq_Inr split: if_splits)
  obtain v where v: "eval (globals_env (lk_globals X)) \<sigma> sel = Some v"
    "run_arms (\<lambda>s \<sigma>. exec (globals_env (lk_globals X)) now s \<sigma>) v arms eb \<sigma> = Some out"
    using h(5) by (auto split: option.splits)
  have g: "grows cg c0" "grows c0 (snd ?k)" "grows (snd ?k) ?st" "grows ?st (snd ?f)" "grows (snd ?f) c1" "grows c1 c2" "grows c2 cg'"
    using ext_grow [OF emit_expr_ext [OF e]] arms_grow [OF c(1)] else_grows [OF c(2)] grow_alloc_self grow_fresh_self
    by (auto simp: c(3) intro: grow_intros)
  have g': "grows cg (snd ?k)" "grows cg ?st" "grows c0 cg'" "grows (snd ?k) cg'" "grows ?st cg'" using g grow_trans by blast+
  note w0 = between [OF h(2) g(1) g'(3) h(3)] and wk = between [OF h(2) g'(1,4) h(3)] and ws = between [OF h(2) g'(2,5) h(3)]
  note b = alloc_temp_bounds [OF wk(2)]
  note E = expr_okD [OF emit_expr_runs [OF assms(1)] e h(2) w0(2) h(4) v(1)]
  let ?Q = "ran X cg' (cg_extra_data cg) out (vm_stack s) s"
  show "runs now (pcof cg) s ?Q"
  proof (rule runs_trans [OF E(2)])
    fix pc1 s1 assume "pushed X cg c0 \<sigma> v s pc1 s1"
    note p = pushedD [OF this]
    have "runs now (pcof (snd ?k)) s1 ?Q"
    proof (rule store_temp_runs [OF wk(1) ws(2) p(3) assms(1) p(2) b(1,4) E(1)])
      fix s2 assume q: "rep X \<sigma> s2" "vm_stack s2 = vm_stack s" "spares X (fst ?k) s1 s2" "holds s2 (fst ?k) v"
      have "fst ?k + byte_width (value_ir_type v) \<le> cg_extra_data (snd ?k)" using b(3) E(1) by (simp add: fits_def)
      then have "runs now (pcof (snd ?f)) s2 (ran X c2 (cg_extra_data (snd ?k)) out (vm_stack s2) s2)"
        by (intro arms_run [OF assms(1,3) c(2) _ b(1) _ assms(2) c(1) _ q(1,4) _ v(2)]) (use h(3) c(3) ws(1) in simp_all)
      then have "runs now (pcof ?st) s2 (ran X c2 (cg_extra_data (snd ?k)) out (vm_stack s) s2)" unfolding q(2) by simp
      then have "runs now (pcof ?st) s2 (ran X c2 (cg_extra_data cg) out (vm_stack s) s)"
      proof (rule runs_weaken)
        have le: "cg_extra_data cg \<le> fst ?k" using b(2) grow_keeps(3) [OF g(1)] by simp
        show "spares X (cg_extra_data cg) s s2" using spares_trans [OF p(5) q(3) le] .
        show "cg_extra_data cg \<le> cg_extra_data (snd ?k)" by (rule grow_keeps(3) [OF g'(1)])
      qed
      then show "runs now (pcof ?st) s2 ?Q" by (simp add: c(3))
    qed
    then show "runs now pc1 s1 ?Q" unfolding p(1) by simp
  qed
qed

end
