(* ===== verification/CodeGenLoop.thy ===== *)
theory CodeGenLoop
  imports CodeGenStmt
begin

section \<open>Loops on the machine, and whole bodies\<close>

text \<open>
  \<open>WHILE\<close> and \<open>FOR\<close> set their counter and run the common loop; \<open>FOR\<close> keeps the bound and the step in
  two further temporaries. The last theorem is for the body of a program.
\<close>

lemma counted_loop_runs:
  fixes cg p q m
  defines "k \<equiv> alloc_temp TDint cg"
  defines "h \<equiv> fresh_label p (emit_simple OpStData (fst k) (push_dint m (snd k)))"
  defines "f \<equiv> fresh_label q (snd h)"
  defines "ct \<equiv> emit_counter_test (fst k) (fst f) (place_label (fst h) (snd f))"
  assumes ctx: "ctx_ok X" and wf: "cg_wf cg" and gr: "grows ct c2"
    and pl: "placed X (place_label (fst f) (emit_jmp OpJmp (fst h) (emit_counter_dec (fst k) c2)))"
    and P: "\<And>s s'. P s \<Longrightarrow> live X s \<Longrightarrow> live X s' \<Longrightarrow> spares X (cg_extra_data cg) s s' \<Longrightarrow> P s'"
    and test: "\<And>\<sigma> s b. rep X \<sigma> s \<Longrightarrow> P s \<Longrightarrow> vm_stack s = st \<Longrightarrow> cond \<sigma> = Some b \<Longrightarrow>
      runs now (pcof ct) s (\<lambda>pc' s'. rep X \<sigma> s' \<and> vm_stack s' = st \<and> spares X (cg_extra_data ct) s s'
        \<and> pc' = (if b then pcof cb else pcof (emit_jmp OpJmp (fst h) (emit_counter_dec (fst k) c2))))"
    and body: "\<And>\<sigma> s out. rep X \<sigma> s \<Longrightarrow> P s \<Longrightarrow> vm_stack s = st \<Longrightarrow> bd \<sigma> = Some out
      \<Longrightarrow> runs now (pcof cb) s (ran X c2 (cg_extra_data ct) out st s)"
    and s: "rep X \<sigma> s" "P s" "vm_stack s = st" "while_iter (unat m) cond bd \<sigma> = Some out"
  shows "runs now (pcof cg) s (ran X (place_label (fst f) (emit_jmp OpJmp (fst h) (emit_counter_dec (fst k) c2))) (cg_extra_data cg) out st s)"
proof -
  let ?a = "push_dint m (snd k)"
  let ?b = "emit_simple OpStData (fst k) ?a"
  let ?ch = "snd f"
  let ?d = "emit_counter_dec (fst k) c2"
  let ?j = "emit_jmp OpJmp (fst h) ?d"
  have wk: "cg_wf (snd k)" "cg_wf ?a" "cg_wf ?b" "cg_wf ?ch" "cg_wf (place_label (fst h) ?ch)" using wf by (simp_all add: k_def h_def f_def)
  have wct: "cg_wf ct" using wk by (simp add: ct_def emit_counter_test_def)
  have wc2: "cg_wf c2" by (rule grow_wf [OF gr wct])
  have wd: "cg_wf ?d" "cg_wf ?j" using wc2 by (simp_all add: emit_counter_dec_def)
  note pj = placed_prev(5) [OF wd(2) pl] note pd = placed_prev(4) [OF wd(1) pj]
  have "grows c2 ?d" unfolding emit_counter_dec_def by (intro grow_intros)
  then have pct: "placed X ct" using placed_back [OF grow_trans [OF gr] wct pd] by blast
  have "grows (place_label (fst h) ?ch) ct" unfolding ct_def emit_counter_test_def by (intro grow_intros)
  then have ph: "placed X (place_label (fst h) ?ch)" by (rule placed_back [OF _ wk(5) pct])
  note pc = placed_prev(5) [OF wk(4) ph]
  have "grows ?b ?ch" unfolding f_def h_def by (intro grow_intros)
  then have pb: "placed X ?b" by (rule placed_back [OF _ wk(3) pc])
  note pa = placed_prev(2) [OF wk(2) pb] note pk = placed_prev(3) [OF wk(1) pa]
  note b = alloc_temp_bounds [OF pk [unfolded k_def], folded k_def]
  have ext: "cg_extra_data ct = fst k + 4" using b(3) by (simp add: ct_def emit_counter_test_def f_def h_def)
  let ?Q = "ran X (place_label (fst f) ?j) (cg_extra_data cg) out st s"
  have "runs now (pcof (snd k)) s ?Q"
  proof (rule runs_dint [OF wk(1) pa rep_live [OF s(1)]])
    let ?s = "s\<lparr>vm_stack := VDint m # vm_stack s\<rparr>"
    show "runs now (pcof ?a) ?s ?Q"
    proof (rule store_temp_runs [where v = "VDint m" and st = st and t = TDint, OF wk(2) pb _ ctx])
      fix s1 assume r: "rep X \<sigma> s1" "vm_stack s1 = st" "spares X (fst k) ?s s1" "holds s1 (fst k) (VDint m)"
      have sp: "spares X (cg_extra_data cg) s s1" using r(3) b(2) by (auto simp: spares_def)
      have p: "P s1" by (rule P [OF s(2) rep_live [OF s(1)] rep_live [OF r(1)] sp])
      have "runs now (pcof ?ch) s1 (ran X ?j (cg_extra_data cg) out st s1)"
      proof (rule loop_runs [where P = P and cond = cond and bd = bd and lo' = "cg_extra_data ct" and cb = cb,
            OF ctx wk(4) wc2 ph pct [unfolded ct_def] pl b(1)])
        show "P s'" if "P s0" "live X s0" "live X s'" "spares X (fst k) s0 s'" for s0 s'
          using P that b(2) by (auto simp: spares_def)
        show "runs now (pcof (emit_counter_test (fst k) (fst f) (place_label (fst h) (snd f)))) s0
            (\<lambda>pc' s'. rep X \<sigma> s' \<and> vm_stack s' = st \<and> spares X (cg_extra_data ct) s0 s' \<and> pc' = (if b then pcof cb else pcof ?j))"
          if "rep X \<sigma> s0" "P s0" "vm_stack s0 = st" "cond \<sigma> = Some b" for \<sigma> s0 b
          using test [OF that] by (simp add: ct_def)
        show "runs now (pcof cb) s0 (ran X c2 (cg_extra_data ct) out st s0)"
          if "rep X \<sigma> s0" "P s0" "vm_stack s0 = st" "bd \<sigma> = Some out" for \<sigma> s0 out
          by (rule body [OF that])
      qed (use b ext r p s(4) in simp_all)
      then have "runs now (pcof ?b) s1 (ran X ?j (cg_extra_data cg) out st s1)" by (simp add: f_def h_def)
      then show "runs now (pcof ?b) s1 ?Q" unfolding ran_place by (rule runs_weaken [OF _ sp]) simp
    qed (use s b in \<open>simp_all add: fits_def\<close>)
  qed
  then show ?thesis by (simp add: k_def)
qed

lemma stmt_ok_while:
  assumes "ctx_ok X" "\<And>x. x \<in> set b \<Longrightarrow> stmt_ok X ord now x"
  shows "stmt_ok X ord now (SWhile e mi b sp)"
  unfolding stmt_ok_def
proof (intro allI impI)
  fix cg cg' \<sigma> s out
  assume h: "emit_stmt ord (SWhile e mi b sp) cg = Inr cg'" "cg_wf cg" "placed X cg'" "rep X \<sigma> s"
    "exec (globals_env (lk_globals X)) now (SWhile e mi b sp) \<sigma> = Some out"
  obtain m where m: "mi = Some m" using h(1) by (cases mi) simp_all
  let ?k = "alloc_temp TDint cg"
  let ?h = "fresh_label ''wh_head'' (emit_simple OpStData (fst ?k) (push_dint m (snd ?k)))"
  let ?f = "fresh_label ''wh_end'' (snd ?h)"
  let ?ct = "emit_counter_test (fst ?k) (fst ?f) (place_label (fst ?h) (snd ?f))"
  obtain c1 c2 where c: "emit_expr ord e ?ct = Inr (c1, TBool)" "emit_all ord b (emit_jmp OpJmpIfNot (fst ?f) c1) = Inr c2"
    "cg' = place_label (fst ?f) (emit_jmp OpJmp (fst ?h) (emit_counter_dec (fst ?k) c2))"
    by (rule emit_while_obtain [OF h(1) [unfolded m]])
  let ?j = "emit_jmp OpJmpIfNot (fst ?f) c1"
  have g: "grows ?ct c1" "grows c1 ?j" "grows ?j c2"
    using ext_grow [OF emit_expr_ext [OF c(1)]] emit_all_grows [OF c(2)] grow_emit_jmp_self by simp_all
  have gc: "grows ?ct c2" using g grow_trans by blast
  have wct: "cg_wf ?ct" using h(2) by (simp add: emit_counter_test_def)
  have wj: "cg_wf ?j" by (rule grow_wf [OF grow_trans [OF g(1,2)] wct])
  have r: "grows c2 cg'" unfolding c(3) emit_counter_dec_def by (intro grow_intros)
  have pj: "placed X ?j" by (rule placed_back [OF grow_trans [OF g(3) r] wj h(3)])
  have p2: "placed X c2" by (rule placed_back [OF r grow_wf [OF g(3) wj] h(3)])
  show "runs now (pcof cg) s (ran X cg' (cg_extra_data cg) out (vm_stack s) s)"
    unfolding c(3)
  proof (rule counted_loop_runs [where P = "\<lambda>_. True" and cb = ?j and \<sigma> = \<sigma>
        and cond = "\<lambda>\<sigma>. as_bool (eval (globals_env (lk_globals X)) \<sigma> e)" and bd = "exec_all X now b", OF assms(1) h(2) gc])
    show "placed X (place_label (fst ?f) (emit_jmp OpJmp (fst ?h) (emit_counter_dec (fst ?k) c2)))" using h(3) c(3) by simp
    show "while_iter (unat m) (\<lambda>\<sigma>. as_bool (eval (globals_env (lk_globals X)) \<sigma> e)) (exec_all X now b) \<sigma> = Some out"
      using h(5) m by simp
    fix \<sigma>1 s1 p assume t: "rep X \<sigma>1 s1" "vm_stack s1 = vm_stack s"
    {
      assume q: "as_bool (eval (globals_env (lk_globals X)) \<sigma>1 e) = Some p"
      show "runs now (pcof ?ct) s1 (\<lambda>pc' s'. rep X \<sigma>1 s' \<and> vm_stack s' = vm_stack s \<and> spares X (cg_extra_data ?ct) s1 s'
          \<and> pc' = (if p then pcof ?j else pcof (emit_jmp OpJmp (fst ?h) (emit_counter_dec (fst ?k) c2))))"
        by (rule cond_runs [OF assms(1) c(1) wct pj h(3) [unfolded c(3)] _ t(1) q]) (use t(2) in \<open>auto intro!: runs_refl\<close>)
    }
    fix out assume q: "exec_all X now b \<sigma>1 = Some out"
    have "runs now (pcof ?j) s1 (ran X c2 (cg_extra_data ?j) out (vm_stack s1) s1)"
      by (rule stmts_run [OF assms(2) c(2) wj p2 t(1) q])
    then show "runs now (pcof ?j) s1 (ran X c2 (cg_extra_data ?ct) out (vm_stack s) s1)"
      unfolding t(2) by (rule runs_weaken [OF _ spares_refl grow_keeps(3) [OF grow_trans [OF g(1,2)]]])
  qed (use h(4) in simp_all)
qed

subsection \<open>\<open>FOR\<close>\<close>

lemma for_cond_Some: "for_cond off tv \<sigma> = Some b \<longleftrightarrow> eval_strict BGt (ss_data \<sigma> off) tv = Some (VBool (\<not> b))"
  by (auto simp: for_cond_def as_bool_Some eval_strict_def is_comparison_def)

lemma for_step_Some:
  assumes "for_step off t bv \<sigma> = Some out"
  obtains r \<sigma>' where "eval_strict BAdd (ss_data \<sigma> off) bv = Some r" "write_data off t r \<sigma> = Some \<sigma>'" "out = Next \<sigma>'"
proof -
  obtain r z where r: "arith_op OpAdd (ss_data \<sigma> off) bv 0 = Inr (r, z)"
    using assms by (cases "arith_op OpAdd (ss_data \<sigma> off) bv 0") (auto simp: for_step_def to_option_def)
  then have "eval_strict BAdd (ss_data \<sigma> off) bv = Some r" by (simp add: eval_strict_def is_comparison_def to_option_def)
  then show thesis using that assms r by (auto simp: for_step_def to_option_def)
qed

lemma cell_load_runs:
  assumes "cg_wf cg" "placed X (emit_simple OpLdData off cg)" "rep X \<sigma> s" "ctx_ok X" "(off, t) \<in> data_cells (lk_globals X)"
    "runs now (pcof (emit_simple OpLdData off cg)) (s\<lparr>vm_stack := ss_data \<sigma> off # vm_stack s\<rparr>) Q"
  shows "runs now (pcof cg) s Q"
  by (rule load_temp_runs [OF assms(1-4) _ assms(6)]) (use rep_data_cell(1) [OF assms(3-5)] in \<open>simp add: holds_def\<close>)

text \<open>The test of a \<open>FOR\<close> loop: leave when the variable is beyond the bound.\<close>

lemma for_test_runs:
  assumes "ctx_ok X" "cg_wf ct" "(off, t) \<in> data_cells (lk_globals X)" "rep X \<sigma> s" "holds s kt tv" "for_cond off tv \<sigma> = Some b"
    "placed X (emit_jmp OpJmpIf fin (emit_simple OpGt 0 (emit_simple OpLdData kt (emit_simple OpLdData off ct))))"
    "placed X (place_label fin ce)"
  shows "runs now (pcof ct) s (\<lambda>pc' s'. rep X \<sigma> s' \<and> vm_stack s' = vm_stack s \<and> spares X lo s s'
    \<and> pc' = (if b then pcof (emit_jmp OpJmpIf fin (emit_simple OpGt 0 (emit_simple OpLdData kt (emit_simple OpLdData off ct)))) else pcof ce))"
    (is "runs now _ s ?Q")
proof -
  let ?a = "emit_simple OpLdData off ct"
  let ?b = "emit_simple OpLdData kt ?a"
  let ?c = "emit_simple OpGt 0 ?b"
  have w: "cg_wf ?a" "cg_wf ?b" "cg_wf ?c" using assms(2) by simp_all
  note pc = placed_prev(4) [OF w(3) assms(7)] note pb = placed_prev(2) [OF w(2) pc] note pa = placed_prev(2) [OF w(1) pb]
  let ?s1 = "s\<lparr>vm_stack := ss_data \<sigma> off # vm_stack s\<rparr>"
  let ?s2 = "s\<lparr>vm_stack := tv # ss_data \<sigma> off # vm_stack s\<rparr>"
  have r: "rep X \<sigma> ?s1" "holds ?s1 kt tv" "live X ?s2" "vm_stack ?s2 = tv # ss_data \<sigma> off # vm_stack s"
    using assms(4,5) rep_live by auto
  have "runs now (pcof ?b) ?s2 ?Q"
  proof (rule runs_gt [OF w(2) pc r(3) assms(6) [unfolded for_cond_Some] r(4)])
    fix n
    let ?s3 = "?s2\<lparr>vm_div0_count := n, vm_stack := VBool (\<not> b) # vm_stack s\<rparr>"
    show "runs now (pcof ?c) ?s3 ?Q"
      by (rule runs_branch [where b = "\<not> b" and st = "vm_stack s", OF w(3) assms(7,8)])
        (use assms(4) rep_live [OF assms(4)] in \<open>auto intro!: runs_refl\<close>)
  qed
  then have "runs now (pcof ?a) ?s1 ?Q" by (intro load_temp_runs [OF w(1) pb r(1) assms(1) r(2)]) simp
  then show ?thesis by (rule cell_load_runs [OF assms(2) pa assms(4,1,3)])
qed

text \<open>The step of a \<open>FOR\<close> loop.\<close>

lemma for_step_runs:
  assumes "ctx_ok X" "cg_wf c" "(off, t) \<in> data_cells (lk_globals X)" "rep X \<sigma> s" "holds s kb bv" "for_step off t bv \<sigma> = Some out"
    "placed X (emit_simple OpStData off (emit_simple OpAdd 0 (emit_simple OpLdData kb (emit_simple OpLdData off c))))"
  shows "runs now (pcof c) s (ran X (emit_simple OpStData off (emit_simple OpAdd 0 (emit_simple OpLdData kb (emit_simple OpLdData off c))))
    lo out (vm_stack s) s)" (is "runs now _ s ?Q")
proof -
  let ?a = "emit_simple OpLdData off c"
  let ?b = "emit_simple OpLdData kb ?a"
  let ?c = "emit_simple OpAdd 0 ?b"
  have w: "cg_wf ?a" "cg_wf ?b" "cg_wf ?c" using assms(2) by simp_all
  note pc = placed_prev(2) [OF w(3) assms(7)] note pb = placed_prev(2) [OF w(2) pc] note pa = placed_prev(2) [OF w(1) pb]
  obtain r \<sigma>' where r: "eval_strict BAdd (ss_data \<sigma> off) bv = Some r" "write_data off t r \<sigma> = Some \<sigma>'" "out = Next \<sigma>'"
    by (rule for_step_Some [OF assms(6)])
  let ?s1 = "s\<lparr>vm_stack := ss_data \<sigma> off # vm_stack s\<rparr>"
  let ?s2 = "s\<lparr>vm_stack := bv # ss_data \<sigma> off # vm_stack s\<rparr>"
  have q: "rep X \<sigma> ?s1" "holds ?s1 kb bv" "live X ?s2" "vm_stack ?s2 = bv # ss_data \<sigma> off # vm_stack s"
    using assms(4,5) rep_live by auto
  have "runs now (pcof ?b) ?s2 ?Q"
  proof (rule runs_add [OF w(2) pc q(3) r(1) q(4)])
    fix n
    let ?s3 = "?s2\<lparr>vm_div0_count := n, vm_stack := r # vm_stack s\<rparr>"
    show "runs now (pcof ?c) ?s3 ?Q"
      by (rule runs_mono [OF store_data_runs [OF assms(1) w(3) assms(7) _ _ assms(3) r(2), where st = "vm_stack s"]])
        (use assms(4) r(3) in \<open>auto simp: ran_def done_at_def spares_def\<close>)
  qed
  then have "runs now (pcof ?a) ?s1 ?Q" by (intro load_temp_runs [OF w(1) pb q(1) assms(1) q(2)]) simp
  then show ?thesis by (rule cell_load_runs [OF assms(2) pa assms(4,1,3)])
qed

text \<open>A value computed into a temporary of its own.\<close>

lemma value_temp_runs:
  fixes c
  defines "k \<equiv> alloc_temp TDint c"
  assumes ctx: "ctx_ok X" and wf: "cg_wf c" and g: "grows (snd k) c1" and pl: "placed X (emit_simple OpStData (fst k) c1)"
    and s: "rep X \<sigma> s" "fits v TDint" and push: "placed X c1 \<Longrightarrow> runs now (pcof (snd k)) s (pushed X (snd k) c1 \<sigma> v s)"
    and cont: "\<And>s'. rep X \<sigma> s' \<Longrightarrow> vm_stack s' = vm_stack s \<Longrightarrow> spares X (cg_extra_data c) s s' \<Longrightarrow> holds s' (fst k) v
      \<Longrightarrow> temps_from X \<le> fst k \<Longrightarrow> fst k + byte_width (value_ir_type v) \<le> cg_extra_data c1
      \<Longrightarrow> runs now (pcof (emit_simple OpStData (fst k) c1)) s' Q"
  shows "runs now (pcof c) s Q"
proof -
  have wk: "cg_wf (snd k)" "cg_wf c1" using wf grow_wf [OF g] by (simp_all add: k_def)
  note p1 = placed_prev(2) [OF wk(2) pl]
  note pk = placed_back [OF g wk(1) p1]
  note b = alloc_temp_bounds [OF pk [unfolded k_def], folded k_def]
  have le: "cg_extra_data (snd k) \<le> cg_extra_data c1" by (rule grow_keeps(3) [OF g])
  have "runs now (pcof (snd k)) s Q"
  proof (rule runs_trans [OF push [OF p1]])
    fix pc1 s1 assume "pushed X (snd k) c1 \<sigma> v s pc1 s1"
    note p = pushedD [OF this]
    show "runs now pc1 s1 Q" unfolding p(1)
    proof (rule store_temp_runs [OF wk(2) pl p(3) ctx p(2) b(1,4) s(2)])
      fix s2 assume q: "rep X \<sigma> s2" "vm_stack s2 = vm_stack s" "spares X (fst k) s1 s2" "holds s2 (fst k) v"
      have e: "cg_extra_data c \<le> cg_extra_data (snd k)" using b(2,3) by linarith
      have "spares X (cg_extra_data c) s s1" using p(5) e by (auto simp: spares_def)
      then have sp: "spares X (cg_extra_data c) s s2" by (rule spares_trans [OF _ q(3) b(2)])
      show "runs now (pcof (emit_simple OpStData (fst k) c1)) s2 Q"
        by (rule cont [OF q(1,2) sp q(4) b(1)]) (use b(3) le s(2) in \<open>simp add: fits_def\<close>)
    qed
  qed
  then show ?thesis by (simp add: k_def)
qed

lemma for_by_runs:
  assumes "ctx_ok X" "for_by ord by cg = Inr cg'" "cg_wf cg" "placed X cg'" "rep X \<sigma> s"
    "eval_by (globals_env (lk_globals X)) \<sigma> by = Some v"
  shows "runs now (pcof cg) s (pushed X cg cg' \<sigma> v s)"
proof (cases "by")
  case None
  then show ?thesis using assms(2-6) runs_pushed [OF pushes_literal(2)] by (auto simp: for_by_def eval_by_def push_dint_def)
next
  case (Some e)
  then obtain t where "emit_expr ord e cg = Inr (cg', t)" using assms(2) by (auto simp: for_by_def rbind_eq_Inr)
  from expr_okD(2) [OF emit_expr_runs [OF assms(1)] this assms(3-5)] show ?thesis using assms(6) Some by (simp add: eval_by_def)
qed

text \<open>The loop itself, once the bound and the step are in their temporaries.\<close>

lemma for_loop_runs:
  fixes c m off kt kb
  defines "k \<equiv> alloc_temp TDint c"
  defines "h \<equiv> fresh_label ''for_head'' (emit_simple OpStData (fst k) (push_dint m (snd k)))"
  defines "f \<equiv> fresh_label ''for_end'' (snd h)"
  defines "ct \<equiv> emit_counter_test (fst k) (fst f) (place_label (fst h) (snd f))"
  defines "cc \<equiv> emit_jmp OpJmpIf (fst f) (emit_simple OpGt 0 (emit_simple OpLdData kt (emit_simple OpLdData off ct)))"
  defines "ce \<equiv> \<lambda>c4. emit_simple OpStData off (emit_simple OpAdd 0 (emit_simple OpLdData kb (emit_simple OpLdData off c4)))"
  assumes ctx: "ctx_ok X" and b: "\<And>x. x \<in> set b \<Longrightarrow> stmt_ok X ord now x" and em: "emit_all ord b cc = Inr c4" and wf: "cg_wf c"
    and pl: "placed X (place_label (fst f) (emit_jmp OpJmp (fst h) (emit_counter_dec (fst k) (ce c4))))"
    and cell: "(off, t) \<in> data_cells (lk_globals X)"
    and tm: "temps_from X \<le> kt" "kt + byte_width (value_ir_type tv) \<le> cg_extra_data c" "temps_from X \<le> kb"
      "kb + byte_width (value_ir_type bv) \<le> cg_extra_data c"
    and s: "rep X \<sigma> s" "holds s kt tv" "holds s kb bv"
      "while_iter (unat m) (for_cond off tv) (for_body off t bv (exec_all X now b)) \<sigma> = Some out"
  shows "runs now (pcof c) s (ran X (place_label (fst f) (emit_jmp OpJmp (fst h) (emit_counter_dec (fst k) (ce c4))))
    (cg_extra_data c) out (vm_stack s) s)"
proof -
  have g: "grows ct cc" "grows cc c4" "grows c4 (ce c4)" unfolding cc_def ce_def using emit_all_grows [OF em [unfolded cc_def]]
    by (auto intro!: grow_intros)
  have gc: "grows ct (ce c4)" using g grow_trans by blast
  have wct: "cg_wf ct" using wf by (simp add: ct_def emit_counter_test_def f_def h_def k_def)
  have w: "cg_wf cc" "cg_wf c4" "cg_wf (ce c4)" using grow_wf [OF g(1) wct] grow_wf [OF g(2)] grow_wf [OF g(3)] by blast+
  have ge: "grows (ce c4) (place_label (fst f) (emit_jmp OpJmp (fst h) (emit_counter_dec (fst k) (ce c4))))"
    unfolding emit_counter_dec_def by (intro grow_intros)
  note pe = placed_back [OF ge w(3) pl] note p4 = placed_back [OF g(3) w(2) pe] note pc = placed_back [OF g(2) w(1) p4]
  have le: "cg_extra_data c \<le> cg_extra_data ct" "cg_extra_data ct \<le> cg_extra_data cc"
  proof -
    have "grows c ct" unfolding ct_def emit_counter_test_def f_def h_def k_def by (intro grow_intros)
    then show "cg_extra_data c \<le> cg_extra_data ct" "cg_extra_data ct \<le> cg_extra_data cc" using grow_keeps(3) g(1) by blast+
  qed
  show ?thesis
  proof (rule counted_loop_runs [where cg = c and p = "''for_head''" and q = "''for_end''" and m = m
        and P = "\<lambda>s. holds s kt tv \<and> holds s kb bv" and cb = cc and \<sigma> = \<sigma>
        and cond = "for_cond off tv" and bd = "for_body off t bv (exec_all X now b)", OF ctx wf,
        folded k_def, folded h_def, folded f_def, folded ct_def])
    fix s1 s2 assume q: "holds s1 kt tv \<and> holds s1 kb bv" "live X s1" "live X s2" "spares X (cg_extra_data c) s1 s2"
    then show "holds s2 kt tv \<and> holds s2 kb bv" using holds_spares [OF _ q(4,2,3)] tm by blast
  next
    fix \<sigma>1 s1 p assume q: "rep X \<sigma>1 s1" "holds s1 kt tv \<and> holds s1 kb bv" "vm_stack s1 = vm_stack s" "for_cond off tv \<sigma>1 = Some p"
    have h1: "holds s1 kt tv" using q(2) by simp
    show "runs now (pcof ct) s1 (\<lambda>pc' s'. rep X \<sigma>1 s' \<and> vm_stack s' = vm_stack s \<and> spares X (cg_extra_data ct) s1 s'
        \<and> pc' = (if p then pcof cc else pcof (emit_jmp OpJmp (fst h) (emit_counter_dec (fst k) (ce c4)))))"
      unfolding cc_def by (rule for_test_runs [OF ctx wct cell q(1) h1 q(4) pc [unfolded cc_def] pl, unfolded q(3)])
  next
    fix \<sigma>1 s1 out1
    assume q: "rep X \<sigma>1 s1" "holds s1 kt tv \<and> holds s1 kb bv" "vm_stack s1 = vm_stack s"
      "for_body off t bv (exec_all X now b) \<sigma>1 = Some out1"
    have at: "and_then (exec_all X now b \<sigma>1) (for_step off t bv) = Some out1" using q(4) by (simp add: for_body_def)
    obtain o1 where o1: "exec_all X now b \<sigma>1 = Some o1" using and_then_Some [OF at] by blast
    have "runs now (pcof cc) s1 (ran X c4 (cg_extra_data cc) o1 (vm_stack s1) s1)" by (rule stmts_run [OF b em w(1) p4 q(1) o1])
    then have "runs now (pcof cc) s1 (ran X c4 (cg_extra_data ct) o1 (vm_stack s) s1)"
      unfolding q(3) by (rule runs_weaken [OF _ spares_refl le(2)])
    then show "runs now (pcof cc) s1 (ran X (ce c4) (cg_extra_data ct) out1 (vm_stack s) s1)"
    proof (rule ran_then [OF _ at [unfolded o1]])
      fix \<sigma>2 s2 assume u: "for_step off t bv \<sigma>2 = Some out1" "rep X \<sigma>2 s2" "vm_stack s2 = vm_stack s" "spares X (cg_extra_data ct) s1 s2"
      have h2: "holds s2 kb bv"
        by (rule holds_spares [OF _ u(4) rep_live [OF q(1)] rep_live [OF u(2)] tm(3)]) (use q(2) tm(4) le(1) in simp_all)
      have "runs now (pcof c4) s2 (ran X (ce c4) (cg_extra_data ct) out1 (vm_stack s2) s2)"
        unfolding ce_def by (rule for_step_runs [OF ctx w(2) cell u(2) h2 u(1) pe [unfolded ce_def]])
      then show "runs now (pcof c4) s2 (ran X (ce c4) (cg_extra_data ct) out1 (vm_stack s) s1)"
        unfolding u(3) by (rule runs_weaken [OF _ u(4)]) simp
    qed
  qed (use gc pl s in simp_all)
qed

lemma exec_for_cases:
  assumes "exec env now (SFor var vsp from to by mi b sp) \<sigma> = Some out"
  obtains m off t v0 \<sigma>1 tv bv where "for_bound from to by mi = Some m" "env var = Some (StData off (TElem t))"
    "eval env \<sigma> from = Some v0" "write_data off t v0 \<sigma> = Some \<sigma>1" "eval env \<sigma>1 to = Some tv" "fits tv TDint"
    "eval_by env \<sigma>1 by = Some bv" "fits bv TDint"
    "while_iter (unat m) (for_cond off tv) (for_body off t bv (\<lambda>\<sigma>. run_stmts (\<lambda>s \<sigma>. exec env now s \<sigma>) b \<sigma>)) \<sigma>1 = Some out"
proof -
  obtain m off t where m: "for_bound from to by mi = Some m" "env var = Some (StData off (TElem t))"
    using assms by (auto split: option.splits storage.splits type_def.splits)
  show thesis using that [OF m] assms m by (auto simp: if_fits_def split: option.splits if_splits)
qed

lemma for_var_global:
  assumes "for_var var sp cg = Inr (voff, cv)" "cg_wf cg" "globals_env (cg_globals cg) var = Some (StData off td)"
  shows "voff = off" "cv = cg"
proof -
  obtain y where y: "lookup_sym var cg = Inr y"
    using assms(2,3) by (cases "lookup_sym var cg")
      (auto simp: lookup_sym_def Let_def globals_env_def ok_or_eq_Inl split: option.splits)
  have "sy_storage y = StData off td" by (rule lookup_env(1) [OF y assms(2,3)])
  then show "voff = off" "cv = cg" using assms(1) y by (auto simp: for_var_def)
qed

lemma stmt_ok_for:
  assumes "ctx_ok X" "\<And>x. x \<in> set b \<Longrightarrow> stmt_ok X ord now x"
  shows "stmt_ok X ord now (SFor var vsp from to by mi b sp)"
  unfolding stmt_ok_def
proof (intro allI impI)
  fix cg cg' \<sigma> s out
  assume h: "emit_stmt ord (SFor var vsp from to by mi b sp) cg = Inr cg'" "cg_wf cg" "placed X cg'" "rep X \<sigma> s"
    "exec (globals_env (lk_globals X)) now (SFor var vsp from to by mi b sp) \<sigma> = Some out"
  have gl: "cg_globals cg = lk_globals X"
    using grow_keeps(1) [OF ext_grow [OF emit_stmt_ext [OF h(1)]]] h(3) by (simp add: placed_def)
  obtain m off t v0 \<sigma>1 tv bv where x: "for_bound from to by mi = Some m" "globals_env (lk_globals X) var = Some (StData off (TElem t))"
    "eval (globals_env (lk_globals X)) \<sigma> from = Some v0" "write_data off t v0 \<sigma> = Some \<sigma>1"
    "eval (globals_env (lk_globals X)) \<sigma>1 to = Some tv" "fits tv TDint"
    "eval_by (globals_env (lk_globals X)) \<sigma>1 by = Some bv" "fits bv TDint"
    "while_iter (unat m) (for_cond off tv) (for_body off t bv (exec_all X now b)) \<sigma>1 = Some out"
    by (rule exec_for_cases [OF h(5)])
  obtain y where "map_of (lk_globals X) (to_ascii_lowercase var) = Some y" "sy_storage y = StData off (TElem t)"
    using x(2) by (auto simp: globals_env_def)
  then have cell: "(off, t) \<in> data_cells (lk_globals X)" using map_of_SomeD by (intro cells_of_symbol(1) [of y]) force+
  from h(1) show "runs now (pcof cg) s (ran X cg' (cg_extra_data cg) out (vm_stack s) s)"
  proof (rule emit_for_obtain)
    fix m' voff cv c1 c2 c3 c4
    let ?s1 = "emit_simple OpStData voff c1"
    let ?k1 = "alloc_temp TDint ?s1"
    let ?s2 = "emit_simple OpStData (fst ?k1) c2"
    let ?k2 = "alloc_temp TDint ?s2"
    let ?s3 = "emit_simple OpStData (fst ?k2) c3"
    let ?k = "alloc_temp TDint ?s3"
    let ?h = "fresh_label ''for_head'' (emit_simple OpStData (fst ?k) (push_dint m' (snd ?k)))"
    let ?f = "fresh_label ''for_end'' (snd ?h)"
    let ?cc = "emit_jmp OpJmpIf (fst ?f) (emit_simple OpGt 0 (emit_simple OpLdData (fst ?k1) (emit_simple OpLdData voff
      (emit_counter_test (fst ?k) (fst ?f) (place_label (fst ?h) (snd ?f))))))"
    let ?ce = "emit_simple OpStData voff (emit_simple OpAdd 0 (emit_simple OpLdData (fst ?k2) (emit_simple OpLdData voff c4)))"
    assume m': "for_bound from to by mi = Some m'" and fv: "for_var var sp cg = Inr (voff, cv)"
      and e1: "\<exists>t. emit_expr ord from cv = Inr (c1, t)" and e2: "\<exists>t. emit_expr ord to (snd ?k1) = Inr (c2, t)"
      and r: "let c2' = ?s2
     in for_by ord by (snd (alloc_temp TDint c2')) = Inr c3
      \<and> (let c3' = emit_simple OpStData (fst (alloc_temp TDint c2')) c3; k = alloc_temp TDint c3';
             h = fresh_label ''for_head'' (emit_simple OpStData (fst k) (push_dint m' (snd k)));
             f = fresh_label ''for_end'' (snd h);
             ct = emit_counter_test (fst k) (fst f) (place_label (fst h) (snd f));
             cc = emit_simple OpGt 0 (emit_simple OpLdData (fst ?k1) (emit_simple OpLdData voff ct))
         in emit_all ord b (emit_jmp OpJmpIf (fst f) cc) = Inr c4
          \<and> cg' = place_label (fst f) (emit_jmp OpJmp (fst h) (emit_counter_dec (fst k) (emit_simple OpStData voff
               (emit_simple OpAdd 0 (emit_simple OpLdData (fst (alloc_temp TDint c2')) (emit_simple OpLdData voff c4)))))))"
    have by3: "for_by ord by (snd ?k2) = Inr c3" and em: "emit_all ord b ?cc = Inr c4"
      and cg': "cg' = place_label (fst ?f) (emit_jmp OpJmp (fst ?h) (emit_counter_dec (fst ?k) ?ce))"
      using r by (simp_all add: Let_def)
    have mm: "m' = m" and off: "voff = off" "cv = cg" using m' x(1) for_var_global [OF fv h(2)] gl x(2) by auto
    obtain t1 t2 where e: "emit_expr ord from cg = Inr (c1, t1)" "emit_expr ord to (snd ?k1) = Inr (c2, t2)" using e1 e2 off by blast
    have g: "grows cg c1" "grows c1 ?s1" "grows ?s1 (snd ?k1)" "grows (snd ?k1) c2" "grows c2 ?s2" "grows ?s2 (snd ?k2)" "grows (snd ?k2) c3" "grows c3 ?s3"
      using ext_grow [OF emit_expr_ext [OF e(1)]] ext_grow [OF emit_expr_ext [OF e(2)]] ext_grow [OF for_by_ext [OF by3]] grow_alloc_self
      by (auto intro: grow_intros)
    have "grows ?s3 ?cc" unfolding emit_counter_test_def by (intro grow_intros)
    moreover have "grows c4 cg'" unfolding cg' emit_counter_dec_def by (intro grow_intros)
    ultimately have g3: "grows ?s3 cg'" using emit_all_grows [OF em] grow_trans by blast
    note t1 = grow_trans [OF g(1,2)] note t2 = grow_trans [OF t1 grow_trans [OF g(3) grow_trans [OF g(4,5)]]]
    note t3 = grow_trans [OF t2 grow_trans [OF g(6) grow_trans [OF g(7,8)]]]
    note g' = t1 t1 t2 t2 t3
    note r2 = grow_trans [OF grow_trans [OF g(6) grow_trans [OF g(7,8)]] g3]
    note r1 = grow_trans [OF grow_trans [OF g(3) grow_trans [OF g(4,5)]] r2]
    note gr = r2 r1 grow_trans [OF g(2) r1]
    note w1 = between [OF h(2) g(1) gr(3) h(3)] and ws1 = between [OF h(2) g'(1) gr(2) h(3)] and ws2 = between [OF h(2) g'(3) gr(1) h(3)]
      and ws3 = between [OF h(2) g'(5) g3 h(3)]
    have wk: "cg_wf (snd ?k1)" "cg_wf (snd ?k2)" using ws1(1) ws2(1) by simp_all
    let ?Q = "ran X cg' (cg_extra_data cg) out (vm_stack s) s"
    show ?thesis
    proof (rule runs_trans [OF expr_okD(2) [OF emit_expr_runs [OF assms(1)] e(1) h(2) w1(2) h(4) x(3)]])
      fix pc1 s1 assume "pushed X cg c1 \<sigma> v0 s pc1 s1"
      note p = pushedD [OF this]
      have "runs now (pcof c1) s1 ?Q"
      proof (rule runs_trans [OF store_data_runs [OF assms(1) w1(1) ws1(2) p(3,2) cell [folded off(1)] x(4) [folded off(1)]]])
        fix pc2 s2 assume "done_at X ?s1 (cg_extra_data cg) \<sigma>1 (vm_stack s) s1 pc2 s2"
        note q = done_atD [OF this]
        have sp2: "spares X (cg_extra_data cg) s s2" using spares_trans [OF p(5) q(5)] by simp
        have "runs now (pcof ?s1) s2 ?Q"
        proof (rule value_temp_runs [OF assms(1) ws1(1) g(4) ws2(2) q(3) x(6)])
          show "runs now (pcof (snd ?k1)) s2 (pushed X (snd ?k1) c2 \<sigma>1 tv s2)" if "placed X c2"
            by (rule expr_okD(2) [OF emit_expr_runs [OF assms(1)] e(2) wk(1) that q(3) x(5)])
          fix s3
          assume u: "rep X \<sigma>1 s3" "vm_stack s3 = vm_stack s2" "spares X (cg_extra_data ?s1) s2 s3" "holds s3 (fst ?k1) tv"
            "temps_from X \<le> fst ?k1" "fst ?k1 + byte_width (value_ir_type tv) \<le> cg_extra_data c2"
          have sp3: "spares X (cg_extra_data cg) s s3" by (rule spares_trans [OF sp2 u(3) grow_keeps(3) [OF g'(1)]])
          show "runs now (pcof ?s2) s3 ?Q"
          proof (rule value_temp_runs [OF assms(1) ws2(1) g(7) ws3(2) u(1) x(8)])
            show "runs now (pcof (snd ?k2)) s3 (pushed X (snd ?k2) c3 \<sigma>1 bv s3)" if "placed X c3"
              by (rule for_by_runs [OF assms(1) by3 wk(2) that u(1) x(7)])
            fix s4
            assume z: "rep X \<sigma>1 s4" "vm_stack s4 = vm_stack s3" "spares X (cg_extra_data ?s2) s3 s4" "holds s4 (fst ?k2) bv"
              "temps_from X \<le> fst ?k2" "fst ?k2 + byte_width (value_ir_type bv) \<le> cg_extra_data c3"
            have le: "cg_extra_data c2 \<le> cg_extra_data c3" "cg_extra_data cg \<le> cg_extra_data c2"
              using grow_keeps(3) [OF grow_trans [OF g(6,7)]] grow_keeps(3) [OF g'(3)] by simp_all
            have h4: "holds s4 (fst ?k1) tv"
              by (rule holds_spares [OF u(4) z(3) rep_live [OF u(1)] rep_live [OF z(1)] u(5)]) (use u(6) in simp)
            have sp4: "spares X (cg_extra_data cg) s s4" by (rule spares_trans [OF sp3 z(3)]) (use le(2) in simp)
            have "runs now (pcof ?s3) s4 (ran X cg' (cg_extra_data ?s3) out (vm_stack s4) s4)"
              unfolding cg' by (rule for_loop_runs [OF assms(1,2) em ws3(1) h(3) [unfolded cg'] cell [folded off(1)] u(5) _ z(5) _ z(1) h4 z(4)])
                (use u(6) z(6) le x(9) mm off(1) in simp_all)
            moreover have "vm_stack s4 = vm_stack s" using z(2) u(2) q(2) by simp
            ultimately show "runs now (pcof ?s3) s4 ?Q"
              using runs_weaken [OF _ sp4] grow_keeps(3) [OF g'(5)] by simp
          qed
        qed
        then show "runs now pc2 s2 ?Q" unfolding q(1) .
      qed
      then show "runs now pc1 s1 ?Q" unfolding p(1) .
    qed
  qed
qed

theorem emit_stmt_runs:
  assumes "ctx_ok X"
  shows "stmt_ok X ord now x"
proof (induction x rule: measure_induct_rule [of size])
  case (less x)
  have body: "stmt_ok X ord now y" if "y \<in> set b" "size_list size b < size x" for y b
    by (rule less) (use stmt_size [OF that(1)] that(2) in simp)
  show ?case
  proof (cases x)
    case (SIf brs eb sp)
    show ?thesis unfolding SIf
    proof (rule stmt_ok_if [OF assms])
      fix b y assume "b \<in> snd ` set brs" "y \<in> set b"
      then obtain e where eb: "(e, b) \<in> set brs" "y \<in> set b" by auto
      show "stmt_ok X ord now y" by (rule less) (use branch_size [OF eb] SIf in simp)
    next
      fix b y assume "eb = Some b" "y \<in> set b"
      then show "stmt_ok X ord now y" using body SIf by simp
    qed
  next
    case (SCase sel arms eb sp)
    show ?thesis unfolding SCase
    proof (rule stmt_ok_case [OF assms])
      fix b y assume y: "b \<in> arm_body ` set arms" "y \<in> set b"
      then obtain ls where "CaseArm ls b \<in> set arms" by (metis arm_body.simps case_arm.exhaust imageE)
      then show "stmt_ok X ord now y" using less SCase arm_size [OF _ y(2)] by simp
    next
      fix b y assume "eb = Some b" "y \<in> set b"
      then show "stmt_ok X ord now y" using body SCase by simp
    qed
  next
    case (SEmpty sp)
    then show ?thesis by (auto simp: stmt_ok_def ran_def done_at_def intro!: runs_refl)
  qed (use assms body stmt_ok_assign stmt_ok_call stmt_ok_return stmt_ok_while stmt_ok_for in simp_all)
qed

end
