(* ===== verification/Spec2Isabelle.thy ===== *)
theory Spec2Isabelle
  imports FbProps EngineProps RetainProps AuthProps ModbusProps CodeGenLoop
begin

text \<open>
  \<^bold>\<open>Soft PLC: a verification library\<close>

  The program is a soft PLC runtime. A control program is compiled to bytecode, uploaded in a
  package, verified and loaded into a virtual machine; a scan engine runs it cyclically between
  reading the inputs of the field and driving the outputs; retained variables are written to
  disk behind the scan; operators reach the controller through an authenticated interface. This
  library models the parts that decide what the outputs do and what survives a restart, with
  the theorems that make them correct.

  \<^bold>\<open>Conventions.\<close> Fixed-width integers are words, \<open>usize\<close> is \<open>nat\<close>, a \<open>Result\<close> is a sum with the error on
  the left, a \<open>String\<close> is the list of its UTF-8 bytes. A method on \<open>&mut self\<close> is a function that
  returns the changed state beside its result, so that what a failing operation changed stays
  changed. Error texts keep the fixed part of the message. What the program does not control is
  an argument: drivers, clocks, the outcome of a disk write, hash functions, the iteration
  order of hash maps, the peer on a socket. Code of other packages (serde, sha2, ed25519, rumqttc,
  tokio, axum) is a parameter or not modelled.

  \<^bold>\<open>Shared theories.\<close> \<open>Prelude\<close> has the machine types, the little-endian codec, saturating arithmetic,
  binary search and UTF-8. \<open>Ieee754\<close> computes binary32 and binary64 on bit patterns with rounding
  to nearest. \<open>TextOps\<close> has trimming, ASCII case, digits and the socket-address parser.
  \<open>PlcTypes\<close> is \<open>plc-types\<close>: modes, phases, quality.

  \<^bold>\<open>Bytecode\<close> (\<open>src/crates/plc-ir\<close>). \<open>IrCore\<close>: types, opcodes, encoder and decoder of instruction words.
  \<open>Spbc\<close>: the container format. \<open>Verifier\<close>: \<open>verify.rs\<close>, an abstract interpretation with a worklist,
  total by a measure on the program points not yet seen. \<open>RetainLayout\<close>: \<open>retain.rs\<close>. \<open>IrProps\<close> shows
  that decoding inverts encoding, that the parser accepts exactly the written forms followed by
  ignored bytes, that layouts are built exactly from valid symbol lists, and that a verified
  entry has a certificate: an inductive typing of all its reachable points.

  \<^bold>\<open>Virtual machine\<close> (\<open>src/crates/plc-vm\<close>). \<open>VmMemory\<close>: values, tagged segments, slot images.
  \<open>VmExec\<close>: \<open>Vm::load\<close> and \<open>run_at\<close>; the run loop takes the instruction budget of the code as its fuel,
  so the model stops exactly where the code does. \<open>VmSafety\<close>: weakest preconditions and the
  invariant. \<open>VmProps\<close>: a verified program runs its entries in any order without stack underflow,
  bad decode, missing slot or undefined operator; without user block calls it cannot overflow
  the stack; a run changes only what it may. Two theorems record defects: a verified program
  can panic by division, and verifier and machine disagree on the order of block results.

  \<^bold>\<open>Function blocks\<close> (\<open>src/crates/plc-fb-primitives\<close>). \<open>FbBlocks\<close> and \<open>FbDispatch\<close>; \<open>FbProps\<close> relates the
  timers and the counter to specifications over whole input sequences, bounds the PID output
  for all floats including NaN and infinity, and shows that well-typed calls succeed.

  \<^bold>\<open>Process image and drivers\<close> (\<open>src/crates/plc-io\<close>, \<open>plc-io-sim\<close>). \<open>IoImage\<close>; \<open>IoMap\<close>: the tag map and
  its resolution to slots. The interface between engine and driver is the pair of locales
  \<open>safe_driver\<close> and \<open>ready_driver\<close>, interpreted for the simulation driver and for the Modbus bridge.

  \<^bold>\<open>Modbus\<close> (\<open>src/crates/plc-io-modbus\<close>). \<open>ModbusPlan\<close>: addresses, conversion, validation of a module to
  points that do not overlap. \<open>ModbusDriver\<close>: framing, grouping, the worker's poll in its reading and
  its writing part, the bridge. \<open>ModbusWire\<close>: a device as the protocol describes it and the
  hypothesis \<open>conforming\<close> on the network, under which a transaction that succeeds has the effect of
  its request. \<open>ModbusGroups\<close>: the groups cover the points once, and writing them sets the output
  points and nothing else. \<open>ModbusProps\<close>: the worker and the scan thread as a transition system; what
  is published is typed whatever the peer does; a poll reads the inputs and writes the outputs of
  its points; a simulated device shows that the hypothesis can hold.

  \<^bold>\<open>Scan engine\<close> (\<open>src/crates/plc-scan\<close>). \<open>ScanParts\<close>: mode cell, watchdog, hooks, telemetry queue
  (locale \<open>bounded_queue\<close>). \<open>ScanEngine\<close>: every method that changes the engine. \<open>ScanProps\<close>: the engine
  invariant over an inductive transition relation of external events and scan steps, and the
  facts on one invocation. \<open>EngineProps\<close>: FAULT is latched; outputs are de-energized or driven by
  force, safe state or program in this order; a program is swapped completely or not at all;
  the catch-up loop ends within the backlog; errors of the program fault the controller in
  the same invocation. The catch-up loop has fuel; \<open>run_due_ends\<close> shows that the backlog is
  enough of it. One theorem records a defect: a failed poll is forgotten.

  \<^bold>\<open>Retained variables\<close> (\<open>src/crates/plc-retain\<close>). \<open>RetainCodec\<close>: checksum, record codec, migration.
  \<open>RetainStore\<close>: the two slots and the index on a directory that maps names to contents; each write
  has an outcome. \<open>RetainProps\<close>: the locale \<open>atomic_store\<close>, interpreted for \<open>flush\<close>; after any sequence of
  complete, failed and interrupted flushes a load returns the newest complete image or a later
  one; migration keeps exactly the variables of equal name and type.

  \<^bold>\<open>Configuration and access\<close> (\<open>src/crates/plc-config\<close>, \<open>plc-auth\<close>). \<open>DeviceConfig\<close>: schema, defaults,
  validation, the scan plan of a configuration. \<open>Auth\<close>: roles, credentials, lockout, rate limit, the
  service. The eviction loop has the size of the table as fuel, and \<open>evict_loop_bounded\<close> shows that
  it ends below the capacity. \<open>AuthProps\<close>: the bounded lockout answers like a reference that never
  forgets; the access decision is sound and complete; a validated configuration is accepted
  by the components built from it.

  \<^bold>\<open>Compiler\<close> (\<open>src/crates/plc-compiler\<close>). \<open>StAst\<close>: diagnostics and syntax tree. \<open>StBind\<close>: types, layout of
  function blocks, binding of variables to storage. \<open>CodeGen\<close>: the emitter of expressions,
  statements and calls, and the patching of jumps. \<open>StSem\<close> states what a program body means, as a
  total function on the syntax tree. \<open>CodeGenLink\<close> and \<open>CodeGenPatch\<close>: emission only appends, no label is
  placed twice, and what was emitted decodes from the patched code. \<open>CodeGenSim\<close>, \<open>CodeGenExpr\<close>,
  \<open>CodeGenCall\<close>, \<open>CodeGenStmt\<close>, \<open>CodeGenLoop\<close>: the machine runs the code of an expression, of a call of a
  primitive block and of a statement as \<open>StSem\<close> says, in any context \<open>ctx_ok\<close> of symbols that do not
  overlap, or stops with a stack overflow.

  \<^bold>\<open>Not modelled.\<close> The lexer and the parser of the compiler, the package format and its signatures, the loader, telemetry
  (MQTT, Sparkplug), the REST interface, the GPIO driver and the process binary; threads and
  memory ordering of the snapshot buffers, whose sequential use is modelled; the text assembler.
\<close>

end
